(* ===== verification/Base.thy ===== *)
theory Base
  imports
    Main
    "HOL-Library.Char_ord"
    "HOL-Library.List_Lexorder"
    "HOL-Library.Product_Lexorder"
    "HOL-Library.Option_ord"
begin

text \<open>
  The prelude of the development: what the components share and what stands for Rust's
  standard library.

  \<^item> Machine arithmetic on unsigned 64-bit values, written on \<^typ>\<open>nat\<close> with the bound
    made explicit (\<open>saturating_add\<close>, \<open>saturating_mul\<close>, \<open>checked_add\<close>). Subtraction on
    \<^typ>\<open>nat\<close> stops at zero, which is Rust's \<open>saturating_sub\<close> on unsigned values.
  \<^item> \<open>BTreeMap\<close> as an association list that \<open>omap_insert\<close> keeps sorted by key, so that
    iteration is iteration in key order, as in Rust; the laws are those of a partial map.
  \<^item> \<open>BTreeSet\<close> as a list that \<open>oset_insert\<close> keeps sorted and free of duplicates.
  \<^item> \<open>Result\<close> as a sum with the error on the left, and computations that thread a state
    and may fail (\<open>'s \<Rightarrow> ('e + 'a) \<times> 's\<close>): an error keeps the state reached when it was
    raised, as a Rust method on \<open>&mut self\<close> that returns early does.
  \<^item> \<open>str::trim\<close> on UTF-8 bytes.
\<close>

named_theorems arith_defs \<open>definitions of the machine arithmetic\<close>
named_theorems effect_simps \<open>rules that run an effectful computation\<close>

section \<open>Unsigned 64-bit arithmetic\<close>

definition u64_max :: nat where
  "u64_max = 18446744073709551615"

definition saturating_add :: "nat \<Rightarrow> nat \<Rightarrow> nat" where
  [arith_defs]: "saturating_add a b = min (a + b) u64_max"

definition saturating_mul :: "nat \<Rightarrow> nat \<Rightarrow> nat" where
  [arith_defs]: "saturating_mul a b = min (a * b) u64_max"

definition checked_add :: "nat \<Rightarrow> nat \<Rightarrow> nat option" where
  [arith_defs]: "checked_add a b = (if a + b \<le> u64_max then Some (a + b) else None)"

lemma saturating_add_bound [simp]: "saturating_add a b \<le> u64_max"
  by (simp add: arith_defs)

lemma saturating_mul_bound [simp]: "saturating_mul a b \<le> u64_max"
  by (simp add: arith_defs)

lemma saturating_add_exact: "a + b \<le> u64_max \<Longrightarrow> saturating_add a b = a + b"
  by (simp add: arith_defs)

lemma saturating_add_mono: "a \<le> c \<Longrightarrow> b \<le> d \<Longrightarrow> saturating_add a b \<le> saturating_add c d"
  by (auto simp: arith_defs min_def)

lemma saturating_add_ge: "a \<le> u64_max \<Longrightarrow> a \<le> saturating_add a b"
  by (simp add: arith_defs)

lemma checked_add_eq_Some: "checked_add a b = Some c \<longleftrightarrow> c = a + b \<and> a + b \<le> u64_max"
  by (auto simp: arith_defs)

lemma checked_add_eq_None: "checked_add a b = None \<longleftrightarrow> u64_max < a + b"
  by (auto simp: arith_defs)

section \<open>Ordered maps\<close>

type_synonym ('k, 'v) omap = "('k \<times> 'v) list"

abbreviation omap_get :: "('k, 'v) omap \<Rightarrow> 'k \<Rightarrow> 'v option" where
  "omap_get \<equiv> map_of"

fun omap_insert :: "'k::linorder \<Rightarrow> 'v \<Rightarrow> ('k, 'v) omap \<Rightarrow> ('k, 'v) omap" where
  "omap_insert k v [] = [(k, v)]"
| "omap_insert k v ((k', v') # m) =
     (if k < k' then (k, v) # (k', v') # m
      else if k = k' then (k, v) # m
      else (k', v') # omap_insert k v m)"

definition omap_remove :: "'k \<Rightarrow> ('k, 'v) omap \<Rightarrow> ('k, 'v) omap" where
  "omap_remove k m = filter (\<lambda>(k', _). k' \<noteq> k) m"

text \<open>\<open>if let Some(x) = m.get_mut(k) { *x = f(x) }\<close>.\<close>

definition omap_modify :: "'k::linorder \<Rightarrow> ('v \<Rightarrow> 'v) \<Rightarrow> ('k, 'v) omap \<Rightarrow> ('k, 'v) omap" where
  "omap_modify k f m = (case omap_get m k of None \<Rightarrow> m | Some v \<Rightarrow> omap_insert k (f v) m)"

definition omap_keys :: "('k, 'v) omap \<Rightarrow> 'k list" where
  "omap_keys m = map fst m"

definition omap_values :: "('k, 'v) omap \<Rightarrow> 'v list" where
  "omap_values m = map snd m"

definition omap_has :: "('k, 'v) omap \<Rightarrow> 'k \<Rightarrow> bool" where
  "omap_has m k \<longleftrightarrow> omap_get m k \<noteq> None"

text \<open>What a \<open>BTreeMap\<close> guarantees of its own iteration order.\<close>

definition omap_ok :: "('k::linorder, 'v) omap \<Rightarrow> bool" where
  "omap_ok m \<longleftrightarrow> sorted_wrt (<) (map fst m)"

lemma omap_get_insert [simp]: "omap_get (omap_insert k v m) = (omap_get m)(k \<mapsto> v)"
  by (induction k v m rule: omap_insert.induct) (auto simp: fun_eq_iff)

lemma omap_get_remove [simp]: "omap_get (omap_remove k m) = (omap_get m)(k := None)"
  by (induction m) (auto simp: omap_remove_def fun_eq_iff)

lemma omap_get_modify [simp]:
  "omap_get (omap_modify k f m) = (omap_get m)(k := map_option f (omap_get m k))"
  by (auto simp: omap_modify_def fun_eq_iff split: option.splits)

lemma omap_has_insert [simp]: "omap_has (omap_insert k v m) k' \<longleftrightarrow> k' = k \<or> omap_has m k'"
  by (simp add: omap_has_def)

lemma set_fst_omap_insert [simp]: "fst ` set (omap_insert k v m) = insert k (fst ` set m)"
  by (induction k v m rule: omap_insert.induct) auto

lemma set_omap_insert_subset: "set (omap_insert k v m) \<subseteq> insert (k, v) (set m)"
  by (induction k v m rule: omap_insert.induct) auto

lemma length_omap_insert: "length (omap_insert k v m) \<le> Suc (length m)"
  by (induction k v m rule: omap_insert.induct) auto

lemma length_omap_remove: "length (omap_remove k m) \<le> length m"
  by (simp add: omap_remove_def)

lemma set_tl_subset: "set (tl xs) \<subseteq> set xs"
  by (cases xs) auto

lemma omap_ok_Nil [simp]: "omap_ok []"
  by (simp add: omap_ok_def)

lemma omap_ok_insert [simp]: "omap_ok m \<Longrightarrow> omap_ok (omap_insert k v m)"
  unfolding omap_ok_def
  by (induction k v m rule: omap_insert.induct) (auto dest: subsetD [OF set_omap_insert_subset])

lemma omap_ok_remove [simp]: "omap_ok m \<Longrightarrow> omap_ok (omap_remove k m)"
  unfolding omap_ok_def omap_remove_def
  by (induction m) auto

lemma omap_ok_modify [simp]: "omap_ok m \<Longrightarrow> omap_ok (omap_modify k f m)"
  by (simp add: omap_modify_def split: option.splits)

lemma omap_ok_distinct: "omap_ok m \<Longrightarrow> distinct (map fst m)"
  by (simp add: omap_ok_def strict_sorted_iff)

lemma omap_get_iff: "omap_ok m \<Longrightarrow> omap_get m k = Some v \<longleftrightarrow> (k, v) \<in> set m"
  by (simp add: omap_ok_distinct)

section \<open>Ordered sets\<close>

type_synonym 'a oset = "'a list"

definition oset_insert :: "'a::linorder \<Rightarrow> 'a oset \<Rightarrow> 'a oset" where
  "oset_insert x s = (if x \<in> set s then s else insort x s)"

definition oset_extend :: "'a::linorder list \<Rightarrow> 'a oset \<Rightarrow> 'a oset" where
  "oset_extend xs s = fold oset_insert xs s"

definition oset_remove :: "'a \<Rightarrow> 'a oset \<Rightarrow> 'a oset" where
  "oset_remove x s = filter (\<lambda>y. y \<noteq> x) s"

lemma set_oset_insert [simp]: "set (oset_insert x s) = insert x (set s)"
  by (auto simp: oset_insert_def set_insort_key)

lemma set_oset_extend [simp]: "set (oset_extend xs s) = set xs \<union> set s"
  unfolding oset_extend_def by (induction xs arbitrary: s) auto

lemma set_oset_remove [simp]: "set (oset_remove x s) = set s - {x}"
  by (auto simp: oset_remove_def)

section \<open>Results and effectful computations\<close>

type_synonym ('s, 'e, 'a) effect = "'s \<Rightarrow> ('e + 'a) \<times> 's"

definition ret :: "'a \<Rightarrow> ('s, 'e, 'a) effect" where
  [effect_simps]: "ret x s = (Inr x, s)"

definition raise :: "'e \<Rightarrow> ('s, 'e, 'a) effect" where
  [effect_simps]: "raise e s = (Inl e, s)"

text \<open>\<open>let x = m?; f(x)\<close>: an error of \<open>m\<close> is returned with the state \<open>m\<close> left.\<close>

definition bindE :: "('s, 'e, 'a) effect \<Rightarrow> ('a \<Rightarrow> ('s, 'e, 'b) effect) \<Rightarrow> ('s, 'e, 'b) effect" where
  "bindE m f s = (case m s of (Inl e, s') \<Rightarrow> (Inl e, s') | (Inr x, s') \<Rightarrow> f x s')"

lemma bindE_ret [effect_simps]: "bindE (ret x) f s = f x s"
  by (simp add: bindE_def ret_def)

lemma bindE_Inr [effect_simps]: "m s = (Inr x, s') \<Longrightarrow> bindE m f s = f x s'"
  by (simp add: bindE_def)

lemma bindE_Inl [effect_simps]: "m s = (Inl e, s') \<Longrightarrow> bindE m f s = (Inl e, s')"
  by (simp add: bindE_def)

lemma bindE_eq_Inr:
  "bindE m f s = (Inr y, t) \<longleftrightarrow> (\<exists>x s'. m s = (Inr x, s') \<and> f x s' = (Inr y, t))"
  by (auto simp: bindE_def split: prod.splits sum.splits)

definition ok_or :: "'e \<Rightarrow> 'a option \<Rightarrow> 'e + 'a" where
  "ok_or e x = (case x of None \<Rightarrow> Inl e | Some v \<Rightarrow> Inr v)"

lemma ok_or_simps [simp]: "ok_or e None = Inl e" "ok_or e (Some v) = Inr v"
  by (simp_all add: ok_or_def)

text \<open>\<open>m?; f\<close> for plain results, and \<open>iter.map(f).collect::<Result<Vec<_>, _>>()\<close>.\<close>

definition and_then :: "'e + 'a \<Rightarrow> ('a \<Rightarrow> 'e + 'b) \<Rightarrow> 'e + 'b" where
  "and_then m f = (case m of Inl e \<Rightarrow> Inl e | Inr x \<Rightarrow> f x)"

lemma and_then_simps [simp]: "and_then (Inl e) f = Inl e" "and_then (Inr x) f = f x"
  by (simp_all add: and_then_def)

lemma and_then_eq_Inr: "and_then m f = Inr y \<longleftrightarrow> (\<exists>x. m = Inr x \<and> f x = Inr y)"
  by (cases m) auto

fun collect_results :: "('a \<Rightarrow> 'e + 'b) \<Rightarrow> 'a list \<Rightarrow> 'e + 'b list" where
  "collect_results f [] = Inr []"
| "collect_results f (x # xs) =
     and_then (f x) (\<lambda>y. and_then (collect_results f xs) (\<lambda>ys. Inr (y # ys)))"

lemma collect_results_Inr:
  "collect_results f xs = Inr ys \<Longrightarrow> length ys = length xs \<and> (\<forall>i<length xs. f (xs ! i) = Inr (ys ! i))"
proof (induction xs arbitrary: ys)
  case (Cons x xs)
  then show ?case
    by (fastforce simp: and_then_eq_Inr less_Suc_eq_0_disj)
qed simp

lemma collect_results_all2:
  "collect_results f xs = Inr ys \<longleftrightarrow> list_all2 (\<lambda>x y. f x = Inr y) xs ys"
  by (induction xs arbitrary: ys) (auto simp: and_then_eq_Inr list_all2_Cons1)

text \<open>\<open>let x = r?;\<close> for a plain result inside an effectful computation.\<close>

definition need :: "'e + 'a \<Rightarrow> ('a \<Rightarrow> ('s, 'e, 'b) effect) \<Rightarrow> ('s, 'e, 'b) effect" where
  "need r f s = (case r of Inl e \<Rightarrow> (Inl e, s) | Inr x \<Rightarrow> f x s)"

lemma need_simps [simp]: "need (Inl e) f s = (Inl e, s)" "need (Inr x) f s = f x s"
  by (simp_all add: need_def)

lemma need_eq_Inr: "need r f s = (Inr y, t) \<longleftrightarrow> (\<exists>x. r = Inr x \<and> f x s = (Inr y, t))"
  by (cases r) simp_all

text \<open>
  What holds after a computation that starts in a state with \<open>P\<close>: \<open>Q\<close> of the value and the
  state when it returns, \<open>E\<close> of the state when it fails.
\<close>

definition valid ::
  "('s \<Rightarrow> bool) \<Rightarrow> ('s, 'e, 'a) effect \<Rightarrow> ('a \<Rightarrow> 's \<Rightarrow> bool) \<Rightarrow> ('s \<Rightarrow> bool) \<Rightarrow> bool" where
  "valid P m Q E \<longleftrightarrow>
     (\<forall>s. P s \<longrightarrow> (case m s of (Inr x, s') \<Rightarrow> Q x s' | (Inl _, s') \<Rightarrow> E s'))"

lemma validI:
  assumes "\<And>s x s'. P s \<Longrightarrow> m s = (Inr x, s') \<Longrightarrow> Q x s'"
    and "\<And>s e s'. P s \<Longrightarrow> m s = (Inl e, s') \<Longrightarrow> E s'"
  shows "valid P m Q E"
  unfolding valid_def
proof (intro allI impI)
  fix s assume "P s"
  then show "case m s of (Inr x, s') \<Rightarrow> Q x s' | (Inl _, s') \<Rightarrow> E s'"
    using assms [of s] by (cases "m s"; cases "fst (m s)") auto
qed

lemma valid_Inr: "valid P m Q E \<Longrightarrow> P s \<Longrightarrow> m s = (Inr x, s') \<Longrightarrow> Q x s'"
  unfolding valid_def by fastforce

lemma valid_Inl: "valid P m Q E \<Longrightarrow> P s \<Longrightarrow> m s = (Inl e, s') \<Longrightarrow> E s'"
  unfolding valid_def by fastforce

lemma valid_bindE: "valid P m Q E \<Longrightarrow> (\<And>x. valid (Q x) (f x) R E) \<Longrightarrow> valid P (bindE m f) R E"
  unfolding valid_def bindE_def by (fastforce split: prod.splits sum.splits)

lemma valid_ret: "(\<And>s. P s \<Longrightarrow> Q x s) \<Longrightarrow> valid P (ret x) Q E"
  by (simp add: valid_def ret_def)

lemma valid_raise: "(\<And>s. P s \<Longrightarrow> E s) \<Longrightarrow> valid P (raise e) Q E"
  by (simp add: valid_def raise_def)

lemma valid_weaken:
  "valid P m Q E \<Longrightarrow> (\<And>s. P' s \<Longrightarrow> P s) \<Longrightarrow> (\<And>x s. Q x s \<Longrightarrow> Q' x s) \<Longrightarrow> (\<And>s. E s \<Longrightarrow> E' s)
    \<Longrightarrow> valid P' m Q' E'"
  unfolding valid_def by (fastforce split: prod.splits sum.splits)

lemma valid_snd: "(\<And>s. P s \<Longrightarrow> P (snd (m s))) \<Longrightarrow> valid P m (\<lambda>_. P) P"
  by (rule validI) (metis snd_conv)+

lemma valid_apply:
  "valid P m Q E \<Longrightarrow> P s \<Longrightarrow> case m s of (Inr x, s') \<Rightarrow> Q x s' | (Inl _, s') \<Rightarrow> E s'"
  unfolding valid_def by (erule allE, erule mp)

lemma valid_sndD:
  assumes "valid P m (\<lambda>_. P) P" and "P s"
  shows "P (snd (m s))"
  using valid_apply [OF assms] by (cases "m s"; cases "fst (m s)") auto

text \<open>A check that reports the first element that breaks a rule.\<close>

lemma first_offender:
  "(case find P xs of None \<Rightarrow> Inr () | Some x \<Rightarrow> Inl (f x)) = Inr () \<longleftrightarrow> (\<forall>x\<in>set xs. \<not> P x)"
  by (induction xs) auto

section \<open>Positions\<close>

text \<open>\<open>iter().position(p)\<close>.\<close>

fun index_of :: "('a \<Rightarrow> bool) \<Rightarrow> 'a list \<Rightarrow> nat option" where
  "index_of P [] = None"
| "index_of P (x # xs) = (if P x then Some 0 else map_option Suc (index_of P xs))"

lemma index_of_None [simp]: "index_of P xs = None \<longleftrightarrow> (\<forall>x\<in>set xs. \<not> P x)"
  by (induction xs) auto

lemma index_of_SomeD:
  "index_of P xs = Some i \<Longrightarrow> i < length xs \<and> P (xs ! i) \<and> (\<forall>j<i. \<not> P (xs ! j))"
  by (induction xs arbitrary: i) (auto split: if_splits simp: less_Suc_eq_0_disj)

lemma index_of_distinct:
  "distinct (map f xs) \<Longrightarrow> i < length xs \<Longrightarrow> index_of (\<lambda>x. f x = f (xs ! i)) xs = Some i"
proof (induction xs arbitrary: i)
  case (Cons x xs)
  then show ?case by (cases i) auto
qed simp

section \<open>Trimming white space\<close>

text \<open>
  Rust trims the characters with the Unicode property White_Space. On UTF-8 bytes these
  are six ASCII bytes and the multi-byte sequences listed here.
\<close>

fun ws_prefix :: "nat list \<Rightarrow> nat" where
  "ws_prefix (b # bs) =
     (if b \<in> {9, 10, 11, 12, 13, 32} then 1
      else if b = 194 then (case bs of c # _ \<Rightarrow> if c = 133 \<or> c = 160 then 2 else 0 | _ \<Rightarrow> 0)
      else if b = 225 then (case bs of c # d # _ \<Rightarrow> if c = 154 \<and> d = 128 then 3 else 0 | _ \<Rightarrow> 0)
      else if b = 226 then
        (case bs of c # d # _ \<Rightarrow>
           if c = 128 \<and> ((128 \<le> d \<and> d \<le> 138) \<or> d = 168 \<or> d = 169 \<or> d = 175) then 3
           else if c = 129 \<and> d = 159 then 3 else 0
         | _ \<Rightarrow> 0)
      else if b = 227 then (case bs of c # d # _ \<Rightarrow> if c = 128 \<and> d = 128 then 3 else 0 | _ \<Rightarrow> 0)
      else 0)"
| "ws_prefix [] = 0"

text \<open>The same sequences read from the end of the text.\<close>

fun ws_suffix :: "nat list \<Rightarrow> nat" where
  "ws_suffix (b # bs) =
     (if b \<in> {9, 10, 11, 12, 13, 32} then 1
      else (case bs of
              c # d # _ \<Rightarrow>
                if ws_prefix [d, c, b] = 3 then 3 else if ws_prefix [c, b] = 2 then 2 else 0
            | [c] \<Rightarrow> if ws_prefix [c, b] = 2 then 2 else 0
            | [] \<Rightarrow> 0))"
| "ws_suffix [] = 0"

fun strip_by :: "(nat list \<Rightarrow> nat) \<Rightarrow> nat \<Rightarrow> string \<Rightarrow> string" where
  "strip_by w 0 s = s"
| "strip_by w (Suc n) s =
     (let k = w (map of_char s) in if k = 0 then s else strip_by w n (drop k s))"

definition trim_start :: "string \<Rightarrow> string" where
  "trim_start s = strip_by ws_prefix (length s) s"

definition trim_end :: "string \<Rightarrow> string" where
  "trim_end s = rev (strip_by ws_suffix (length s) (rev s))"

definition trim :: "string \<Rightarrow> string" where
  "trim s = trim_end (trim_start s)"

lemma trim_Nil [simp]: "trim [] = []"
  by (simp add: trim_def trim_start_def trim_end_def)

end
