(* ===== verification/Domain.thy ===== *)
theory Domain
  imports Base "HOL-Library.Word"
begin

text \<open>
  The domain vocabulary of \<^verbatim>\<open>crates/arsy-kernel/src/domain.rs\<close>: identifiers, principals,
  resource references and content digests.

  Identifiers are 128-bit values drawn by \<open>Uuid::new_v4\<close> of the external \<open>uuid\<close> crate; the
  model keeps their value as a \<^typ>\<open>nat\<close> (they are compared and ordered, nothing else) and the
  operations that draw one take it from the state they run in. Strings are UTF-8 bytes.
\<close>

unbundle bit_operations_syntax

section \<open>Identifiers and principals\<close>

type_synonym uuid = nat
type_synonym session_id = uuid
type_synonym agent_id = uuid
type_synonym task_id = uuid
type_synonym attempt_id = uuid
type_synonym event_id = uuid
type_synonym message_id = uuid
type_synonym assignment_id = uuid
type_synonym criterion_id = uuid
type_synonym grant_id = uuid
type_synonym approval_id = uuid
type_synonym artifact_id = uuid

datatype principal = User string | Agent agent_id | System

text \<open>The derived order: by constructor, then by contents.\<close>

fun principal_key :: "principal \<Rightarrow> nat \<times> string \<times> nat" where
  "principal_key (User u) = (0, u, 0)"
| "principal_key (Agent a) = (1, [], a)"
| "principal_key System = (2, [], 0)"

lemma principal_key_inj: "principal_key p = principal_key q \<Longrightarrow> p = q"
  by (cases p; cases q) auto

instantiation principal :: linorder
begin

definition less_eq_principal :: "principal \<Rightarrow> principal \<Rightarrow> bool" where
  "less_eq_principal p q \<longleftrightarrow> principal_key p \<le> principal_key q"

definition less_principal :: "principal \<Rightarrow> principal \<Rightarrow> bool" where
  "less_principal p q \<longleftrightarrow> principal_key p < principal_key q"

instance
  by standard
    (auto simp: less_eq_principal_def less_principal_def simp del: less_eq_prod_simp less_prod_simp
      intro: principal_key_inj antisym)

end

section \<open>Resource references\<close>

datatype resource_ref_error = InvalidScheme | EmptyValue

record resource_ref =
  rr_scheme :: string
  rr_value :: string

definition is_lower :: "char \<Rightarrow> bool" where
  "is_lower c \<longleftrightarrow> CHR ''a'' \<le> c \<and> c \<le> CHR ''z''"

definition is_digit :: "char \<Rightarrow> bool" where
  "is_digit c \<longleftrightarrow> CHR ''0'' \<le> c \<and> c \<le> CHR ''9''"

text \<open>The \<open>matches!\<close> on one indexed byte of the scheme.\<close>

definition scheme_byte_ok :: "nat \<Rightarrow> char \<Rightarrow> bool" where
  "scheme_byte_ok i c \<longleftrightarrow>
     (i = 0 \<and> is_lower c) \<or> is_lower c \<or> is_digit c \<or> c = CHR ''+'' \<or> c = CHR ''-'' \<or> c = CHR ''.''"

definition valid_scheme :: "string \<Rightarrow> bool" where
  "valid_scheme s \<longleftrightarrow> list_all (\<lambda>(i, c). scheme_byte_ok i c) (enumerate 0 s)"

definition resource_ref_new :: "string \<Rightarrow> string \<Rightarrow> resource_ref_error + resource_ref" where
  "resource_ref_new scheme value =
     (if \<not> valid_scheme scheme then Inl InvalidScheme
      else if value = [] then Inl EmptyValue
      else Inr \<lparr>rr_scheme = scheme, rr_value = value\<rparr>)"

lemma resource_ref_new_Inr:
  "resource_ref_new s v = Inr r \<longleftrightarrow>
     valid_scheme s \<and> v \<noteq> [] \<and> r = \<lparr>rr_scheme = s, rr_value = v\<rparr>"
  by (auto simp: resource_ref_new_def)

lemma scheme_byte_ok_any_index:
  "scheme_byte_ok i c \<longleftrightarrow>
     is_lower c \<or> is_digit c \<or> c = CHR ''+'' \<or> c = CHR ''-'' \<or> c = CHR ''.''"
  by (auto simp: scheme_byte_ok_def)

lemma list_all_enumerate_snd: "list_all (\<lambda>(i, c). P c) (enumerate n s) \<longleftrightarrow> list_all P s"
  by (induction s arbitrary: n) auto

lemma valid_scheme_iff:
  "valid_scheme s \<longleftrightarrow>
     list_all (\<lambda>c. is_lower c \<or> is_digit c \<or> c = CHR ''+'' \<or> c = CHR ''-'' \<or> c = CHR ''.'') s"
  unfolding valid_scheme_def scheme_byte_ok_any_index list_all_enumerate_snd ..

section \<open>State versions\<close>

text \<open>A \<open>StateVersion\<close> is an array of 32 bytes, printed as 64 lower-case hexadecimal digits.\<close>

type_synonym u8 = "8 word"
type_synonym state_version = "u8 list"

definition is_digest :: "state_version \<Rightarrow> bool" where
  "is_digest d \<longleftrightarrow> length d = 32"

definition hex_digit :: "nat \<Rightarrow> char" where
  "hex_digit n = (if n < 10 then char_of (48 + n) else char_of (87 + n))"

definition hex_value :: "char \<Rightarrow> nat option" where
  "hex_value c =
     (let n = of_char c in
      if 48 \<le> n \<and> n \<le> 57 then Some (n - 48)
      else if 97 \<le> n \<and> n \<le> 102 then Some (n - 87)
      else if 65 \<le> n \<and> n \<le> 70 then Some (n - 55)
      else None)"

definition print_byte :: "u8 \<Rightarrow> string" where
  "print_byte b = [hex_digit (unat b div 16), hex_digit (unat b mod 16)]"

definition state_version_print :: "state_version \<Rightarrow> string" where
  "state_version_print d = concat (map print_byte d)"

definition is_hexdigit :: "char \<Rightarrow> bool" where
  "is_hexdigit c \<longleftrightarrow> hex_value c \<noteq> None"

fun parse_bytes :: "string \<Rightarrow> state_version option" where
  "parse_bytes [] = Some []"
| "parse_bytes [c] = None"
| "parse_bytes (c # d # s) =
     (case (hex_value c, hex_value d) of
        (Some h, Some l) \<Rightarrow> map_option ((#) (word_of_nat (16 * h + l))) (parse_bytes s)
      | _ \<Rightarrow> None)"

definition state_version_parse :: "string \<Rightarrow> state_version option" where
  "state_version_parse s =
     (if length s \<noteq> 64 \<or> \<not> list_all is_hexdigit s then None else parse_bytes s)"

lemma hex_value_digit [simp]: "n < 16 \<Longrightarrow> hex_value (hex_digit n) = Some n"
  by (auto simp: hex_digit_def hex_value_def Let_def)

lemma is_hexdigit_digit [simp]: "n < 16 \<Longrightarrow> is_hexdigit (hex_digit n)"
  by (simp add: is_hexdigit_def)

lemma unat_u8_bound: "unat (b :: u8) < 256"
  using unsigned_less [of b, where 'a = nat] by simp

lemma print_byte_nibbles: "unat (b :: u8) div 16 < 16" "unat b mod 16 < 16"
  using unat_u8_bound [of b] by auto

lemma parse_print_bytes: "parse_bytes (concat (map print_byte d)) = Some d"
proof (induction d)
  case (Cons b d)
  then show ?case
    by (simp add: print_byte_def print_byte_nibbles)
qed simp

lemma length_print [simp]: "length (state_version_print d) = 2 * length d"
  by (induction d) (auto simp: state_version_print_def print_byte_def)

lemma print_all_hex: "list_all is_hexdigit (state_version_print d)"
  by (induction d) (auto simp: state_version_print_def print_byte_def print_byte_nibbles)

lemma parse_bytes_length: "parse_bytes s = Some d \<Longrightarrow> length s = 2 * length d"
  by (induction s arbitrary: d rule: parse_bytes.induct) (auto split: option.splits)

lemma parse_bytes_total:
  "even (length s) \<Longrightarrow> list_all is_hexdigit s \<Longrightarrow> \<exists>d. parse_bytes s = Some d"
  by (induction s rule: parse_bytes.induct) (auto simp: is_hexdigit_def)

text \<open>
  Printing a digest and parsing it back gives the digest, and what the parser accepts is
  exactly the texts of 64 hexadecimal digits, each giving 32 bytes.
\<close>

lemma state_version_roundtrip:
  "is_digest d \<Longrightarrow> state_version_parse (state_version_print d) = Some d"
  by (simp add: state_version_parse_def is_digest_def print_all_hex)
    (simp add: state_version_print_def parse_print_bytes)

lemma state_version_parse_iff:
  "(\<exists>d. state_version_parse s = Some d) \<longleftrightarrow> length s = 64 \<and> list_all is_hexdigit s"
  by (auto simp: state_version_parse_def intro: parse_bytes_total)

lemma state_version_parse_digest: "state_version_parse s = Some d \<Longrightarrow> is_digest d"
  by (auto simp: state_version_parse_def is_digest_def dest: parse_bytes_length split: if_splits)

text \<open>A workspace version wraps the state version of a tree.\<close>

type_synonym workspace_version = state_version

end
