(* ===== verification/Capability.thy ===== *)
theory Capability
  imports Domain
begin

text \<open>
  The capability vocabulary and its attenuation: \<^verbatim>\<open>crates/arsy-kernel/src/capability.rs\<close>.

  Globs are compiled and matched by the external \<open>globset\<close> crate. A \<open>glob_lib\<close> stands for
  it: the error it reports for a pattern that does not compile, its matcher (built with
  \<open>literal_separator(true)\<close>) and its \<open>escape\<close>. The compiled matcher kept inside a
  \<open>ResourcePattern\<close> is a function of the pattern's text and so is not a field of the record;
  the code's own equality ignores it as well. \<open>GrantId::new()\<close> draws a fresh identifier,
  which is an argument here.
\<close>

section \<open>Actions\<close>

datatype capability_action =
  FsRead | FsWrite | FsDelete | ProcessExec | ProcessSignal | NetworkConnect | GitRead | GitWrite
| CredentialUse | BrowserControl | DebugLaunch | DebugAttach | RemoteExec | SystemModify
| PluginInvoke | McpInvoke

definition all_actions :: "capability_action list" where
  "all_actions =
     [FsRead, FsWrite, FsDelete, ProcessExec, ProcessSignal, NetworkConnect, GitRead, GitWrite,
      CredentialUse, BrowserControl, DebugLaunch, DebugAttach, RemoteExec, SystemModify,
      PluginInvoke, McpInvoke]"

fun default_scheme :: "capability_action \<Rightarrow> string" where
  "default_scheme FsRead = ''file''"
| "default_scheme FsWrite = ''file''"
| "default_scheme FsDelete = ''file''"
| "default_scheme GitRead = ''file''"
| "default_scheme GitWrite = ''file''"
| "default_scheme ProcessExec = ''process''"
| "default_scheme ProcessSignal = ''process''"
| "default_scheme NetworkConnect = ''host''"
| "default_scheme CredentialUse = ''secret''"
| "default_scheme BrowserControl = ''browser''"
| "default_scheme DebugLaunch = ''debug''"
| "default_scheme DebugAttach = ''debug''"
| "default_scheme RemoteExec = ''remote''"
| "default_scheme SystemModify = ''system''"
| "default_scheme PluginInvoke = ''plugin''"
| "default_scheme McpInvoke = ''mcp''"

fun action_str :: "capability_action \<Rightarrow> string" where
  "action_str FsRead = ''fs.read''"
| "action_str FsWrite = ''fs.write''"
| "action_str FsDelete = ''fs.delete''"
| "action_str ProcessExec = ''process.exec''"
| "action_str ProcessSignal = ''process.signal''"
| "action_str NetworkConnect = ''network.connect''"
| "action_str GitRead = ''git.read''"
| "action_str GitWrite = ''git.write''"
| "action_str CredentialUse = ''credential.use''"
| "action_str BrowserControl = ''browser.control''"
| "action_str DebugLaunch = ''debug.launch''"
| "action_str DebugAttach = ''debug.attach''"
| "action_str RemoteExec = ''remote.exec''"
| "action_str SystemModify = ''system.modify''"
| "action_str PluginInvoke = ''plugin.invoke''"
| "action_str McpInvoke = ''mcp.invoke''"

text \<open>The position of an action in the enum, on which the derived order rests.\<close>

fun action_index :: "capability_action \<Rightarrow> nat" where
  "action_index FsRead = 0" | "action_index FsWrite = 1" | "action_index FsDelete = 2"
| "action_index ProcessExec = 3" | "action_index ProcessSignal = 4"
| "action_index NetworkConnect = 5" | "action_index GitRead = 6" | "action_index GitWrite = 7"
| "action_index CredentialUse = 8" | "action_index BrowserControl = 9"
| "action_index DebugLaunch = 10" | "action_index DebugAttach = 11"
| "action_index RemoteExec = 12" | "action_index SystemModify = 13"
| "action_index PluginInvoke = 14" | "action_index McpInvoke = 15"

lemma all_actions_nth: "action_index a < 16 \<and> all_actions ! action_index a = a"
  by (cases a) (simp_all add: all_actions_def)

lemma action_index_inj: "action_index a = action_index b \<Longrightarrow> a = b"
  by (metis all_actions_nth)

lemma all_actions_complete: "a \<in> set all_actions"
  using all_actions_nth [of a] nth_mem [of "action_index a" all_actions]
  by (simp add: all_actions_def)

lemma action_str_inj: "action_str a = action_str b \<Longrightarrow> a = b"
  by (cases a; cases b) simp_all

instantiation capability_action :: linorder
begin

definition less_eq_capability_action :: "capability_action \<Rightarrow> capability_action \<Rightarrow> bool" where
  "less_eq_capability_action a b \<longleftrightarrow> action_index a \<le> action_index b"

definition less_capability_action :: "capability_action \<Rightarrow> capability_action \<Rightarrow> bool" where
  "less_capability_action a b \<longleftrightarrow> action_index a < action_index b"

instance
  by standard
    (auto simp: less_eq_capability_action_def less_capability_action_def intro: action_index_inj)

end

section \<open>Patterns and scopes\<close>

record glob_lib =
  gl_compile_error :: "string \<Rightarrow> string option"
  gl_is_match :: "string \<Rightarrow> string \<Rightarrow> bool"
  gl_escape :: "string \<Rightarrow> string"

text \<open>
  What \<open>globset::escape\<close> documents: the escaped text is a glob that compiles and matches
  exactly the text it was made from.
\<close>

definition escape_is_literal :: "glob_lib \<Rightarrow> bool" where
  "escape_is_literal G \<longleftrightarrow>
     (\<forall>v. gl_compile_error G (gl_escape G v) = None \<and>
          (\<forall>w. gl_is_match G (gl_escape G v) w \<longleftrightarrow> w = v))"

datatype pattern_error =
  EmptyScheme | InvalidGlob string | TooLong nat nat | TooComplex nat nat

definition max_glob_bytes :: nat where "max_glob_bytes = 1024"
definition max_glob_metacharacters :: nat where "max_glob_metacharacters = 32"

record resource_pattern =
  rp_scheme :: string
  rp_glob :: string

definition resource_pattern_new ::
  "glob_lib \<Rightarrow> string \<Rightarrow> string \<Rightarrow> pattern_error + resource_pattern" where
  "resource_pattern_new G scheme glob =
     (let metacharacters =
            length (filter (\<lambda>c. c \<in> {CHR ''*'', CHR ''?'', CHR ''['', CHR ''{''}) glob)
      in if scheme = [] then Inl EmptyScheme
         else if length glob > max_glob_bytes then Inl (TooLong (length glob) max_glob_bytes)
         else if metacharacters > max_glob_metacharacters
           then Inl (TooComplex metacharacters max_glob_metacharacters)
         else (case gl_compile_error G glob of
                 Some error \<Rightarrow> Inl (InvalidGlob error)
               | None \<Rightarrow> Inr \<lparr>rp_scheme = scheme, rp_glob = glob\<rparr>))"

definition pattern_matches :: "glob_lib \<Rightarrow> resource_pattern \<Rightarrow> resource_ref \<Rightarrow> bool" where
  "pattern_matches G p r \<longleftrightarrow> rr_scheme r = rp_scheme p \<and> gl_is_match G (rp_glob p) (rr_value r)"

definition pattern_string :: "resource_pattern \<Rightarrow> string" where
  "pattern_string p = rp_scheme p @ '':'' @ rp_glob p"

type_synonym resource_scope = "resource_pattern list"

definition scope_single :: "resource_pattern \<Rightarrow> resource_scope" where
  "scope_single p = [p]"

definition scope_admits :: "glob_lib \<Rightarrow> resource_scope \<Rightarrow> resource_ref \<Rightarrow> bool" where
  "scope_admits G s r \<longleftrightarrow> s \<noteq> [] \<and> list_all (\<lambda>p. pattern_matches G p r) s"

fun push_missing :: "resource_scope \<Rightarrow> resource_pattern list \<Rightarrow> resource_scope" where
  "push_missing s [] = s"
| "push_missing s (p # ps) = push_missing (if p \<in> set s then s else s @ [p]) ps"

definition scope_narrow :: "resource_scope \<Rightarrow> resource_scope \<Rightarrow> resource_scope" where
  "scope_narrow s other = push_missing s other"

lemma set_push_missing [simp]: "set (push_missing s ps) = set s \<union> set ps"
  by (induction s ps rule: push_missing.induct) auto

lemma set_scope_narrow [simp]: "set (scope_narrow s t) = set s \<union> set t"
  by (simp add: scope_narrow_def)

lemma scope_narrow_Nil [simp]: "scope_narrow s t = [] \<longleftrightarrow> s = [] \<and> t = []"
  by (metis set_scope_narrow set_empty Un_empty)

lemma scope_narrow_Nil_right [simp]: "scope_narrow s [] = s"
  by (simp add: scope_narrow_def)

lemma scope_admits_iff:
  "scope_admits G s r \<longleftrightarrow> s \<noteq> [] \<and> (\<forall>p\<in>set s. pattern_matches G p r)"
  by (simp add: scope_admits_def list_all_iff)

lemma scope_admits_narrow:
  "s \<noteq> [] \<Longrightarrow> t \<noteq> [] \<Longrightarrow>
   scope_admits G (scope_narrow s t) r \<longleftrightarrow> scope_admits G s r \<and> scope_admits G t r"
  by (auto simp: scope_admits_iff)

text \<open>
  What a delegating client needs of scopes: an operation that narrows, and a notion of a
  scope that names something, which narrowing keeps.
\<close>

locale narrowing =
  fixes admits :: "'scope \<Rightarrow> 'resource \<Rightarrow> bool"
    and narrow :: "'scope \<Rightarrow> 'scope \<Rightarrow> 'scope"
    and names_something :: "'scope \<Rightarrow> bool"
  assumes narrow_admits: "names_something s \<Longrightarrow> admits (narrow s t) r \<Longrightarrow> admits s r"
    and narrow_names: "names_something s \<Longrightarrow> names_something (narrow s t)"
begin

lemma narrow_chain_names: "names_something s \<Longrightarrow> names_something (foldl narrow s ts)"
  by (induction ts arbitrary: s) (auto intro: narrow_names)

lemma narrow_chain_admits:
  "names_something s \<Longrightarrow> admits (foldl narrow s ts) r \<Longrightarrow> admits s r"
  by (induction ts arbitrary: s) (auto dest: narrow_admits intro: narrow_names)

end

interpretation scopes: narrowing "scope_admits G" scope_narrow "\<lambda>s. s \<noteq> []" for G
  by unfold_locales (auto simp: scope_admits_iff)

section \<open>Grants\<close>

record capability_requirement =
  cr_action :: capability_action
  cr_resource :: resource_ref

datatype policy_source = Enterprise | User_Source | Workspace | Session

fun source_index :: "policy_source \<Rightarrow> nat" where
  "source_index Enterprise = 0"
| "source_index User_Source = 1"
| "source_index Workspace = 2"
| "source_index Session = 3"

lemma source_index_inj: "source_index a = source_index b \<Longrightarrow> a = b"
  by (cases a; cases b) simp_all

instantiation policy_source :: linorder
begin

definition less_eq_policy_source :: "policy_source \<Rightarrow> policy_source \<Rightarrow> bool" where
  "less_eq_policy_source a b \<longleftrightarrow> source_index a \<le> source_index b"

definition less_policy_source :: "policy_source \<Rightarrow> policy_source \<Rightarrow> bool" where
  "less_policy_source a b \<longleftrightarrow> source_index a < source_index b"

instance
  by standard (auto simp: less_eq_policy_source_def less_policy_source_def intro: source_index_inj)

end

fun may_grant :: "policy_source \<Rightarrow> bool" where
  "may_grant Enterprise = True"
| "may_grant User_Source = True"
| "may_grant Workspace = False"
| "may_grant Session = False"

record capability_grant =
  cg_id :: grant_id
  cg_actor :: principal
  cg_action :: capability_action
  cg_scope :: resource_scope
  cg_expires_at_ms :: "nat option"
  cg_delegation_depth :: nat
  cg_source :: policy_source

definition is_expired :: "capability_grant \<Rightarrow> nat \<Rightarrow> bool" where
  "is_expired g now_ms = (case cg_expires_at_ms g of None \<Rightarrow> False | Some expiry \<Rightarrow> now_ms \<ge> expiry)"

definition permits :: "glob_lib \<Rightarrow> capability_grant \<Rightarrow> capability_requirement \<Rightarrow> nat \<Rightarrow> bool" where
  "permits G g req now_ms \<longleftrightarrow>
     cg_action g = cr_action req \<and> \<not> is_expired g now_ms \<and> scope_admits G (cg_scope g) (cr_resource req)"

definition names_exactly :: "glob_lib \<Rightarrow> capability_grant \<Rightarrow> resource_ref \<Rightarrow> bool" where
  "names_exactly G g r \<longleftrightarrow>
     may_grant (cg_source g) \<and> scope_admits G (cg_scope g) r \<and>
     list_ex (\<lambda>p. rp_scheme p = rr_scheme r \<and> rp_glob p = gl_escape G (rr_value r)) (cg_scope g)"

datatype attenuation_error =
  ActionMismatch capability_action capability_action | DelegationExhausted

fun earliest :: "nat option \<Rightarrow> nat option \<Rightarrow> nat option" where
  "earliest (Some left) (Some right) = Some (min left right)"
| "earliest left None = left"
| "earliest None right = right"

definition attenuate ::
  "grant_id \<Rightarrow> capability_grant \<Rightarrow> principal \<Rightarrow> capability_action \<Rightarrow> resource_scope \<Rightarrow> nat option
    \<Rightarrow> attenuation_error + capability_grant" where
  "attenuate fresh g delegate action requested requested_expiry =
     (if cg_action g \<noteq> action then Inl (ActionMismatch (cg_action g) action)
      else if cg_delegation_depth g = 0 then Inl DelegationExhausted
      else Inr
        \<lparr>cg_id = fresh, cg_actor = delegate, cg_action = action,
         cg_scope = scope_narrow (cg_scope g) requested,
         cg_expires_at_ms = earliest (cg_expires_at_ms g) requested_expiry,
         cg_delegation_depth = cg_delegation_depth g - 1, cg_source = cg_source g\<rparr>)"

subsection \<open>A delegated grant stays below its parent\<close>

text \<open>
  \<open>g\<close> is below \<open>h\<close>: the same action and origin, no longer a life, and no resource admitted
  that \<open>h\<close> does not admit.
\<close>

definition grant_below :: "glob_lib \<Rightarrow> capability_grant \<Rightarrow> capability_grant \<Rightarrow> bool" where
  "grant_below G g h \<longleftrightarrow>
     cg_action g = cg_action h \<and> cg_source g = cg_source h \<and>
     (\<forall>now. is_expired h now \<longrightarrow> is_expired g now) \<and>
     (\<forall>r. scope_admits G (cg_scope g) r \<longrightarrow> scope_admits G (cg_scope h) r)"

lemma grant_below_refl: "grant_below G g g"
  by (simp add: grant_below_def)

lemma grant_below_trans: "grant_below G f g \<Longrightarrow> grant_below G g h \<Longrightarrow> grant_below G f h"
  by (auto simp: grant_below_def)

lemma grant_below_permits: "grant_below G g h \<Longrightarrow> permits G g req now \<Longrightarrow> permits G h req now"
  by (auto simp: grant_below_def permits_def)

lemma earliest_expired:
  "(case a of None \<Rightarrow> False | Some e \<Rightarrow> e \<le> now) \<Longrightarrow>
   (case earliest a b of None \<Rightarrow> False | Some e \<Rightarrow> e \<le> now)"
  by (cases "(a, b)" rule: earliest.cases) auto

lemma attenuate_InrD:
  assumes "attenuate fresh g delegate action requested expiry = Inr c"
  shows "cg_action g = action" "cg_actor c = delegate" "cg_id c = fresh"
    "cg_action c = cg_action g" "cg_source c = cg_source g"
    "cg_scope c = scope_narrow (cg_scope g) requested"
    "cg_expires_at_ms c = earliest (cg_expires_at_ms g) expiry"
    "cg_delegation_depth g = Suc (cg_delegation_depth c)"
  using assms by (auto simp: attenuate_def split: if_splits)

lemma attenuate_below:
  assumes "attenuate fresh g delegate action requested expiry = Inr c" and "cg_scope g \<noteq> []"
  shows "grant_below G c g"
  using attenuate_InrD [OF assms(1)] assms(2)
  by (auto simp: grant_below_def is_expired_def dest: earliest_expired scopes.narrow_admits)

text \<open>A chain of delegations, each link made by \<open>attenuate\<close> from the one before.\<close>

inductive delegated :: "capability_grant \<Rightarrow> nat \<Rightarrow> capability_grant \<Rightarrow> bool" where
  held: "delegated g 0 g"
| delegate: "delegated g n h \<Longrightarrow> attenuate fresh h who action requested expiry = Inr c \<Longrightarrow>
    delegated g (Suc n) c"

lemma delegated_below:
  "delegated g n h \<Longrightarrow> cg_scope g \<noteq> [] \<Longrightarrow>
   grant_below G h g \<and> cg_scope h \<noteq> [] \<and> cg_delegation_depth h + n = cg_delegation_depth g"
proof (induction rule: delegated.induct)
  case (held g)
  then show ?case by (simp add: grant_below_refl)
next
  case (delegate g n h fresh who action requested expiry c)
  then have "grant_below G c h"
    by (blast intro: attenuate_below)
  with delegate show ?case
    using attenuate_InrD [OF delegate.hyps(2)] by (auto intro: grant_below_trans)
qed

end
