(* ===== verification/Operation.thy ===== *)
theory Operation
  imports Capability Json
begin

text \<open>
  Operations, their contracts and the registry that dispatches them:
  \<^verbatim>\<open>crates/arsy-kernel/src/operation.rs\<close>.

  An executor is the contract it publishes together with its \<open>execute\<close> method, a function of
  the request and the grants. The bytes a request is fingerprinted from are made by
  \<open>serde_json::to_vec\<close> and \<open>Sha256\<close>, both external: \<open>encoders\<close> stands for them.
\<close>

section \<open>Kinds, contracts and requests\<close>

type_synonym operation_kind = string

definition operation_kind_byte :: "char \<Rightarrow> bool" where
  "operation_kind_byte c \<longleftrightarrow> is_lower c \<or> is_digit c \<or> c = CHR ''.'' \<or> c = CHR ''_''"

definition operation_kind_new :: "string \<Rightarrow> operation_kind option" where
  "operation_kind_new value =
     (if value \<noteq> [] \<and> hd value \<noteq> CHR ''.'' \<and> last value \<noteq> CHR ''.''
         \<and> list_all operation_kind_byte value
      then Some value else None)"

datatype idempotency = Idempotent | Effectful
datatype concurrency_rule = Parallel | ExclusivePerResource | ExclusiveGlobal
datatype json_type = TString | TNumber | TBoolean | TObject | TArray

fun accepts :: "json_type \<Rightarrow> json \<Rightarrow> bool" where
  "accepts TString v = (as_str v \<noteq> None)"
| "accepts TNumber v = is_number v"
| "accepts TBoolean v = is_boolean v"
| "accepts TObject v = (as_object v \<noteq> None)"
| "accepts TArray v = (as_array v \<noteq> None)"

record input_schema =
  is_required :: "(string, json_type) omap"
  is_optional :: "(string, json_type) omap"
  is_allow_extra :: bool

record operation_contract =
  oc_kind :: operation_kind
  oc_input_schema :: input_schema
  oc_actions :: "capability_action list"
  oc_idempotency :: idempotency
  oc_reversible :: bool
  oc_concurrency :: concurrency_rule

record operation_request =
  or_id :: uuid
  or_kind :: operation_kind
  or_actor :: principal
  or_requirements :: "capability_requirement list"
  or_input :: json

record encoders =
  en_actor :: "principal \<Rightarrow> nat list"
  en_requirements :: "capability_requirement list \<Rightarrow> nat list"
  en_input :: "json \<Rightarrow> nat list"
  en_sha256 :: "nat list \<Rightarrow> state_version"

definition request_digest :: "encoders \<Rightarrow> operation_request \<Rightarrow> state_version" where
  "request_digest E req =
     en_sha256 E
       (map of_char (or_kind req) @ [0] @ en_actor E (or_actor req) @ [0] @
        en_requirements E (or_requirements req) @ [0] @ en_input E (or_input req))"

record effect_record =
  ef_action :: capability_action
  ef_resource :: resource_ref

record operation_outcome =
  oo_value :: "resource_ref option"
  oo_observed_effects :: "effect_record list"
  oo_evidence :: "resource_ref list"
  oo_state :: "state_version option"

datatype operation_error =
  Unregistered operation_kind
| Schema string
| Ungranted capability_requirement
| Execution string

record operation_executor =
  ex_contract :: operation_contract
  ex_execute ::
    "operation_request \<Rightarrow> capability_grant list \<Rightarrow> operation_error + operation_outcome"

datatype registration_error = DuplicateKind operation_kind | Unusable string

section \<open>Input validation\<close>

fun check_required :: "(string, json) omap \<Rightarrow> (string \<times> json_type) list \<Rightarrow> operation_error + unit" where
  "check_required object [] = Inr ()"
| "check_required object ((field, expected) # rest) =
     (case omap_get object field of
        Some value \<Rightarrow>
          if accepts expected value then check_required object rest
          else Inl (Schema (''input field '' @ field @ '' has the wrong type''))
      | None \<Rightarrow> Inl (Schema (''input field '' @ field @ '' is required'')))"

fun check_optional :: "(string, json) omap \<Rightarrow> (string \<times> json_type) list \<Rightarrow> operation_error + unit" where
  "check_optional object [] = Inr ()"
| "check_optional object ((field, expected) # rest) =
     (case omap_get object field of
        Some value \<Rightarrow>
          if \<not> accepts expected value \<and> \<not> is_null value
          then Inl (Schema (''input field '' @ field @ '' has the wrong type''))
          else check_optional object rest
      | None \<Rightarrow> check_optional object rest)"

definition check_extra :: "input_schema \<Rightarrow> (string, json) omap \<Rightarrow> operation_error + unit" where
  "check_extra schema object =
     (if is_allow_extra schema then Inr ()
      else case find (\<lambda>field. \<not> omap_has (is_required schema) field \<and>
                              \<not> omap_has (is_optional schema) field) (omap_keys object) of
             Some field \<Rightarrow> Inl (Schema (''input field '' @ field @ '' is not allowed''))
           | None \<Rightarrow> Inr ())"

definition validate_input :: "input_schema \<Rightarrow> json \<Rightarrow> operation_error + unit" where
  "validate_input schema input =
     (case as_object input of
        None \<Rightarrow> Inl (Schema ''input must be an object'')
      | Some object \<Rightarrow>
          and_then (check_required object (is_required schema)) (\<lambda>_.
          and_then (check_optional object (is_optional schema)) (\<lambda>_.
          check_extra schema object)))"

text \<open>What an accepted input satisfies, stated without the order of the checks.\<close>

definition conforms :: "input_schema \<Rightarrow> json \<Rightarrow> bool" where
  "conforms schema input \<longleftrightarrow>
     (\<exists>object. as_object input = Some object \<and>
       (\<forall>(field, ty)\<in>set (is_required schema).
          \<exists>v. omap_get object field = Some v \<and> accepts ty v) \<and>
       (\<forall>(field, ty)\<in>set (is_optional schema).
          \<forall>v. omap_get object field = Some v \<longrightarrow> accepts ty v \<or> v = JNull) \<and>
       (is_allow_extra schema \<or>
        fst ` set object \<subseteq> fst ` set (is_required schema) \<union> fst ` set (is_optional schema)))"

lemma check_required_ok:
  "check_required object fs = Inr () \<longleftrightarrow>
     (\<forall>(field, ty)\<in>set fs. \<exists>v. omap_get object field = Some v \<and> accepts ty v)"
  by (induction object fs rule: check_required.induct) (auto split: option.splits)

lemma check_optional_ok:
  "check_optional object fs = Inr () \<longleftrightarrow>
     (\<forall>(field, ty)\<in>set fs. \<forall>v. omap_get object field = Some v \<longrightarrow> accepts ty v \<or> v = JNull)"
  by (induction object fs rule: check_optional.induct) (auto simp: is_null_def split: option.splits)

lemma omap_has_iff: "omap_has m k \<longleftrightarrow> k \<in> fst ` set m"
  by (metis map_of_eq_None_iff omap_has_def)

lemma check_extra_ok:
  "check_extra schema object = Inr () \<longleftrightarrow>
     is_allow_extra schema \<or>
     fst ` set object \<subseteq> fst ` set (is_required schema) \<union> fst ` set (is_optional schema)"
  by (auto simp: check_extra_def omap_has_iff omap_keys_def first_offender)

lemma validate_input_conforms: "validate_input schema input = Inr () \<longleftrightarrow> conforms schema input"
  unfolding validate_input_def conforms_def
  by (cases "as_object input")
    (simp_all add: and_then_eq_Inr check_required_ok check_optional_ok check_extra_ok)

section \<open>The registry\<close>

type_synonym operation_registry = "(operation_kind, operation_executor) omap"

definition register ::
  "operation_executor \<Rightarrow> operation_registry \<Rightarrow> registration_error + operation_registry" where
  "register executor registry =
     (let kind = oc_kind (ex_contract executor)
      in if omap_has registry kind then Inl (DuplicateKind kind)
         else Inr (omap_insert kind executor registry))"

definition contract_of :: "operation_registry \<Rightarrow> operation_kind \<Rightarrow> operation_contract option" where
  "contract_of registry kind = map_option ex_contract (omap_get registry kind)"

definition grant_covers ::
  "glob_lib \<Rightarrow> operation_request \<Rightarrow> capability_grant list \<Rightarrow> nat \<Rightarrow> capability_requirement \<Rightarrow> bool" where
  "grant_covers G req grants now_ms requirement \<longleftrightarrow>
     list_ex (\<lambda>g. cg_actor g = or_actor req \<and> permits G g requirement now_ms) grants"

fun check_grants ::
  "glob_lib \<Rightarrow> operation_request \<Rightarrow> capability_grant list \<Rightarrow> nat \<Rightarrow> capability_requirement list
    \<Rightarrow> operation_error + unit" where
  "check_grants G req grants now_ms [] = Inr ()"
| "check_grants G req grants now_ms (r # rs) =
     (if grant_covers G req grants now_ms r then check_grants G req grants now_ms rs
      else Inl (Ungranted r))"

definition dispatch ::
  "glob_lib \<Rightarrow> operation_registry \<Rightarrow> operation_request \<Rightarrow> capability_grant list \<Rightarrow> nat
    \<Rightarrow> operation_error + operation_outcome" where
  "dispatch G registry req grants now_ms =
     (case omap_get registry (or_kind req) of
        None \<Rightarrow> Inl (Unregistered (or_kind req))
      | Some executor \<Rightarrow>
          and_then (validate_input (oc_input_schema (ex_contract executor)) (or_input req)) (\<lambda>_.
          and_then (check_grants G req grants now_ms (or_requirements req)) (\<lambda>_.
          ex_execute executor req grants)))"

lemma check_grants_ok:
  "check_grants G req grants now rs = Inr () \<longleftrightarrow> (\<forall>r\<in>set rs. grant_covers G req grants now r)"
  by (induction rs) auto

lemma check_grants_error:
  "check_grants G req grants now rs = Inl e \<Longrightarrow>
   \<exists>r\<in>set rs. e = Ungranted r \<and> \<not> grant_covers G req grants now r"
  by (induction rs) (auto split: if_splits)

text \<open>The executor is reached exactly when the input conforms and every requirement is covered.\<close>

lemma dispatch_reaches:
  assumes "omap_get registry (or_kind req) = Some executor"
    and "conforms (oc_input_schema (ex_contract executor)) (or_input req)"
    and "\<forall>r\<in>set (or_requirements req). grant_covers G req grants now r"
  shows "dispatch G registry req grants now = ex_execute executor req grants"
proof -
  have "validate_input (oc_input_schema (ex_contract executor)) (or_input req) = Inr ()"
    using assms(2) by (simp add: validate_input_conforms)
  moreover have "check_grants G req grants now (or_requirements req) = Inr ()"
    using assms(3) by (simp add: check_grants_ok)
  ultimately show ?thesis
    using assms(1) by (simp add: dispatch_def)
qed

lemma dispatch_InrD:
  assumes "dispatch G registry req grants now = Inr outcome"
  obtains executor where "omap_get registry (or_kind req) = Some executor"
    "conforms (oc_input_schema (ex_contract executor)) (or_input req)"
    "\<forall>r\<in>set (or_requirements req). grant_covers G req grants now r"
    "ex_execute executor req grants = Inr outcome"
  using assms
  by (auto simp: dispatch_def and_then_eq_Inr validate_input_conforms check_grants_ok
      split: option.splits)

end
