(* ===== verification/Policy.thy ===== *)
theory Policy
  imports Operation
begin

text \<open>
  The policy engine: \<^verbatim>\<open>crates/arsy-kernel/src/policy.rs\<close>. Rules are normalized by
  \<open>compile\<close>, one query is decided by \<open>evaluate\<close> with the trace that explains it, decisions
  are cached, and approvals are requested and resolved once. Fresh identifiers
  (\<open>GrantId::new()\<close>, \<open>ApprovalId::new()\<close>) are arguments: the identifier a call would draw.
\<close>

section \<open>Rules\<close>

datatype rule_effect = Deny | RequireApproval | Allow

fun effect_index :: "rule_effect \<Rightarrow> nat" where
  "effect_index Deny = 0" | "effect_index RequireApproval = 1" | "effect_index Allow = 2"

datatype actor_match = Any | Exactly principal

fun actor_key :: "actor_match \<Rightarrow> nat \<times> nat \<times> string \<times> nat" where
  "actor_key Any = (0, 0, [], 0)"
| "actor_key (Exactly p) = (1, principal_key p)"

datatype sandbox_assurance = NoAssurance | Process | Filesystem | Full

fun assurance_index :: "sandbox_assurance \<Rightarrow> nat" where
  "assurance_index NoAssurance = 0" | "assurance_index Process = 1"
| "assurance_index Filesystem = 2" | "assurance_index Full = 3"

lemma effect_index_inj: "effect_index a = effect_index b \<Longrightarrow> a = b"
  by (cases a; cases b) simp_all

lemma actor_key_inj: "actor_key a = actor_key b \<Longrightarrow> a = b"
  by (cases a; cases b) (auto intro: principal_key_inj)

lemma assurance_index_inj: "assurance_index a = assurance_index b \<Longrightarrow> a = b"
  by (cases a; cases b) simp_all

instantiation sandbox_assurance :: linorder
begin

definition less_eq_sandbox_assurance :: "sandbox_assurance \<Rightarrow> sandbox_assurance \<Rightarrow> bool" where
  "less_eq_sandbox_assurance a b \<longleftrightarrow> assurance_index a \<le> assurance_index b"

definition less_sandbox_assurance :: "sandbox_assurance \<Rightarrow> sandbox_assurance \<Rightarrow> bool" where
  "less_sandbox_assurance a b \<longleftrightarrow> assurance_index a < assurance_index b"

instance
  by standard
    (auto simp: less_eq_sandbox_assurance_def less_sandbox_assurance_def intro: assurance_index_inj)

end

fun actor_matches :: "actor_match \<Rightarrow> principal \<Rightarrow> bool" where
  "actor_matches Any actor = True"
| "actor_matches (Exactly expected) actor = (expected = actor)"

record policy_rule =
  pr_source :: policy_source
  pr_effect :: rule_effect
  pr_actor :: actor_match
  pr_action :: capability_action
  pr_pattern :: resource_pattern
  pr_expires_at_ms :: "nat option"
  pr_delegation_depth :: nat
  pr_minimum_assurance :: sandbox_assurance

datatype workspace_cleanliness = Clean | Dirty | Unknown_Cleanliness

record risk_context =
  rc_reversible :: bool
  rc_workspace :: workspace_cleanliness
  rc_sandbox :: sandbox_assurance

definition risk_context_default :: risk_context where
  "risk_context_default =
     \<lparr>rc_reversible = True, rc_workspace = Unknown_Cleanliness, rc_sandbox = NoAssurance\<rparr>"

record policy_query =
  pq_actor :: principal
  pq_operation :: operation_kind
  pq_requirement :: capability_requirement
  pq_operation_digest :: state_version
  pq_resource_version :: "state_version option"
  pq_context :: risk_context

definition covers :: "glob_lib \<Rightarrow> policy_rule \<Rightarrow> policy_query \<Rightarrow> bool" where
  "covers G rule query \<longleftrightarrow>
     actor_matches (pr_actor rule) (pq_actor query) \<and>
     pr_action rule = cr_action (pq_requirement query) \<and>
     pattern_matches G (pr_pattern rule) (cr_resource (pq_requirement query))"

record diagnostic =
  dg_source :: policy_source
  dg_pattern :: string
  dg_message :: string

record rule_set =
  rs_rules :: "policy_rule list"
  rs_fallback :: "policy_rule list"
  rs_diagnostics :: "diagnostic list"

section \<open>Compilation\<close>

definition downgrades :: "policy_rule \<Rightarrow> bool" where
  "downgrades rule \<longleftrightarrow> pr_effect rule = Allow \<and> \<not> may_grant (pr_source rule)"

definition normalize_rule :: "policy_rule \<Rightarrow> policy_rule" where
  "normalize_rule rule =
     (if downgrades rule then rule\<lparr>pr_effect := RequireApproval\<rparr> else rule)"

definition downgrade_diagnostic :: "policy_rule \<Rightarrow> diagnostic" where
  "downgrade_diagnostic rule =
     \<lparr>dg_source = pr_source rule, dg_pattern = pattern_string (pr_pattern rule),
      dg_message = ''allow downgraded to approval: this source cannot grant authority''\<rparr>"

text \<open>The chain of comparisons of \<open>sort_by\<close>, as the key of a stable sort.\<close>

definition rule_key ::
  "policy_rule \<Rightarrow>
    nat \<times> nat \<times> (nat \<times> nat \<times> string \<times> nat) \<times> nat \<times> string \<times> nat option \<times> nat \<times> nat" where
  "rule_key rule =
     (source_index (pr_source rule), effect_index (pr_effect rule), actor_key (pr_actor rule),
      action_index (pr_action rule), pattern_string (pr_pattern rule), pr_expires_at_ms rule,
      pr_delegation_depth rule, assurance_index (pr_minimum_assurance rule))"

definition compile :: "policy_rule list \<Rightarrow> rule_set" where
  "compile rules =
     \<lparr>rs_rules = sort_key rule_key (map normalize_rule rules), rs_fallback = [],
      rs_diagnostics = map downgrade_diagnostic (filter downgrades rules)\<rparr>"

definition with_fallback :: "rule_set \<Rightarrow> policy_rule list \<Rightarrow> rule_set" where
  "with_fallback rs defaults =
     (let compiled = compile defaults
      in rs\<lparr>rs_fallback := rs_rules compiled,
            rs_diagnostics := rs_diagnostics rs @ rs_diagnostics compiled\<rparr>)"

section \<open>Decisions\<close>

record approval_request =
  ar_id :: approval_id
  ar_actor :: principal
  ar_operation :: operation_kind
  ar_requirement :: capability_requirement
  ar_operation_digest :: state_version
  ar_reversible :: bool
  ar_expires_at_ms :: "nat option"
  ar_delegation_depth :: nat
  ar_reason :: string

record denial_reason =
  dr_message :: string
  dr_source :: "policy_source option"

datatype policy_decision =
  Allowed capability_grant
| NeedsApproval approval_request
| Denied denial_reason

record trace_entry =
  te_source :: policy_source
  te_effect :: rule_effect
  te_pattern :: string
  te_matched :: bool
  te_note :: string

record policy_outcome =
  po_decision :: policy_decision
  po_trace :: "trace_entry list"

fun is_allow :: "policy_decision \<Rightarrow> bool" where
  "is_allow (Allowed _) = True"
| "is_allow _ = False"

fun source_str :: "policy_source \<Rightarrow> string" where
  "source_str Enterprise = ''enterprise''"
| "source_str User_Source = ''user''"
| "source_str Workspace = ''workspace''"
| "source_str Session = ''session''"

fun effect_slot :: "rule_effect \<Rightarrow> nat" where
  "effect_slot Deny = 0"
| "effect_slot Allow = 1"
| "effect_slot RequireApproval = 2"

definition grant_from :: "grant_id \<Rightarrow> policy_query \<Rightarrow> policy_rule \<Rightarrow> capability_grant" where
  "grant_from fresh query rule =
     \<lparr>cg_id = fresh, cg_actor = pq_actor query, cg_action = cr_action (pq_requirement query),
      cg_scope = scope_single (pr_pattern rule), cg_expires_at_ms = pr_expires_at_ms rule,
      cg_delegation_depth = pr_delegation_depth rule, cg_source = pr_source rule\<rparr>"

definition approval_from ::
  "approval_id \<Rightarrow> policy_query \<Rightarrow> policy_rule \<Rightarrow> string \<Rightarrow> approval_request" where
  "approval_from fresh query rule reason =
     \<lparr>ar_id = fresh, ar_actor = pq_actor query, ar_operation = pq_operation query,
      ar_requirement = pq_requirement query, ar_operation_digest = pq_operation_digest query,
      ar_reversible = rc_reversible (pq_context query), ar_expires_at_ms = pr_expires_at_ms rule,
      ar_delegation_depth = pr_delegation_depth rule, ar_reason = reason\<rparr>"

definition rule_matches :: "glob_lib \<Rightarrow> policy_query \<Rightarrow> policy_rule \<Rightarrow> bool" where
  "rule_matches G query rule \<longleftrightarrow>
     covers G rule query \<and> pr_minimum_assurance rule \<le> rc_sandbox (pq_context query)"

definition consider_entry :: "glob_lib \<Rightarrow> policy_query \<Rightarrow> string \<Rightarrow> policy_rule \<Rightarrow> trace_entry" where
  "consider_entry G query why rule =
     \<lparr>te_source = pr_source rule, te_effect = pr_effect rule,
      te_pattern = pattern_string (pr_pattern rule), te_matched = rule_matches G query rule,
      te_note =
        (if rule_matches G query rule then why
         else if covers G rule query then ''sandbox assurance does not meet the rule minimum''
         else ''does not cover this actor, action, or resource'')\<rparr>"

text \<open>
  The loop of \<open>consider\<close> (the bare word is an Isar keyword): it carries the three slots of
  first matches, the trace, and whether any rule covers the query.
\<close>

fun consider_rules ::
  "glob_lib \<Rightarrow> policy_query \<Rightarrow> string \<Rightarrow> policy_rule list
    \<Rightarrow> policy_rule option list \<times> trace_entry list \<times> bool
    \<Rightarrow> policy_rule option list \<times> trace_entry list \<times> bool" where
  "consider_rules G query why [] st = st"
| "consider_rules G query why (rule # rules) (first, trace, covered) =
     consider_rules G query why rules
       (if rule_matches G query rule \<and> first ! effect_slot (pr_effect rule) = None
        then first[effect_slot (pr_effect rule) := Some rule] else first,
        trace @ [consider_entry G query why rule],
        covered \<or> covers G rule query)"

definition raised_entry :: "policy_rule \<Rightarrow> string \<Rightarrow> trace_entry" where
  "raised_entry rule note =
     \<lparr>te_source = pr_source rule, te_effect = Allow,
      te_pattern = pattern_string (pr_pattern rule), te_matched = True, te_note = note\<rparr>"

definition decide ::
  "uuid \<Rightarrow> policy_query \<Rightarrow> policy_rule option list \<Rightarrow> trace_entry list
    \<Rightarrow> policy_decision \<times> trace_entry list" where
  "decide fresh query first trace =
     (case first ! effect_slot Deny of
        Some rule \<Rightarrow>
          (Denied \<lparr>dr_message = ''denied by '' @ source_str (pr_source rule) @ '' rule '' @
                                pattern_string (pr_pattern rule),
                   dr_source = Some (pr_source rule)\<rparr>, trace)
      | None \<Rightarrow>
     (case first ! effect_slot Allow of
        Some rule \<Rightarrow>
          if cr_action (pq_requirement query) = GitWrite
             \<and> rc_workspace (pq_context query) = Dirty
          then (NeedsApproval (approval_from fresh query rule
                  ''the workspace has uncommitted changes''),
                trace @ [raised_entry rule
                  ''allow raised to approval: the workspace has uncommitted changes''])
          else if rc_reversible (pq_context query)
          then (Allowed (grant_from fresh query rule), trace)
          else (NeedsApproval (approval_from fresh query rule ''the effect is irreversible''),
                trace @ [raised_entry rule
                  ''allow raised to approval: the effect is irreversible''])
      | None \<Rightarrow>
     (case first ! effect_slot RequireApproval of
        Some rule \<Rightarrow>
          (NeedsApproval (approval_from fresh query rule ''a rule requires review''), trace)
      | None \<Rightarrow>
          (Denied \<lparr>dr_message = ''no rule permits this requirement'', dr_source = None\<rparr>,
           trace))))"

definition evaluate :: "glob_lib \<Rightarrow> uuid \<Rightarrow> rule_set \<Rightarrow> policy_query \<Rightarrow> policy_outcome" where
  "evaluate G fresh rs query =
     (let (first, trace, covered) =
            consider_rules G query ''actor, action, and resource all match'' (rs_rules rs)
              ([None, None, None], [], False);
          (first, trace, _) =
            (if \<not> covered
             then consider_rules G query
                    ''the default: no rule covers this actor, action, and resource''
                    (rs_fallback rs) (first, trace, covered)
             else (first, trace, covered));
          (decision, trace) = decide fresh query first trace
      in \<lparr>po_decision = decision, po_trace = trace\<rparr>)"

section \<open>The decision cache\<close>

record cache_entry =
  ce_rules :: "policy_rule list"
  ce_fallback :: "policy_rule list"
  ce_query :: policy_query
  ce_outcome :: policy_outcome

record decision_cache =
  dc_capacity :: nat
  dc_entries :: "cache_entry list"

definition decision_cache_new :: "nat \<Rightarrow> decision_cache" where
  "decision_cache_new capacity = \<lparr>dc_capacity = capacity, dc_entries = []\<rparr>"

definition evaluate_cached ::
  "glob_lib \<Rightarrow> uuid \<Rightarrow> rule_set \<Rightarrow> policy_query \<Rightarrow> decision_cache \<Rightarrow> policy_outcome \<times> decision_cache"
where
  "evaluate_cached G fresh rs query cache =
     (case find (\<lambda>e. ce_rules e = rs_rules rs \<and> ce_fallback e = rs_fallback rs \<and> ce_query e = query)
             (dc_entries cache) of
        Some entry \<Rightarrow> (ce_outcome entry, cache)
      | None \<Rightarrow>
          (let outcome = evaluate G fresh rs query;
               entry = \<lparr>ce_rules = rs_rules rs, ce_fallback = rs_fallback rs,
                        ce_query = query, ce_outcome = outcome\<rparr>;
               kept = (if length (dc_entries cache) = dc_capacity cache then tl (dc_entries cache)
                       else dc_entries cache)
           in (outcome,
               if dc_capacity cache > 0 then cache\<lparr>dc_entries := kept @ [entry]\<rparr> else cache)))"

section \<open>Approvals\<close>

record approval_resolution =
  av_approval :: approval_id
  av_operation_digest :: state_version
  av_approved :: bool

record approval_record =
  al_request :: approval_request
  al_approver :: principal
  al_approved :: bool
  al_grant :: "capability_grant option"

datatype approval_error = Capacity | Duplicate | Unknown | OperationChanged | InvalidScope

record approval_flow =
  af_capacity :: nat
  af_pending :: "(approval_id, approval_request) omap"
  af_records :: "approval_record list"

definition approval_flow_new :: "nat \<Rightarrow> approval_flow" where
  "approval_flow_new capacity = \<lparr>af_capacity = capacity, af_pending = [], af_records = []\<rparr>"

definition exact_grant ::
  "glob_lib \<Rightarrow> grant_id \<Rightarrow> approval_request \<Rightarrow> approval_error + capability_grant" where
  "exact_grant G fresh req =
     (let resource = cr_resource (ar_requirement req)
      in case resource_pattern_new G (rr_scheme resource) (gl_escape G (rr_value resource)) of
           Inl _ \<Rightarrow> Inl InvalidScope
         | Inr pattern \<Rightarrow>
             Inr \<lparr>cg_id = fresh, cg_actor = ar_actor req, cg_action = cr_action (ar_requirement req),
                  cg_scope = scope_single pattern, cg_expires_at_ms = ar_expires_at_ms req,
                  cg_delegation_depth = 0, cg_source = User_Source\<rparr>)"

definition flow_request :: "approval_request \<Rightarrow> approval_flow \<Rightarrow> approval_error + approval_flow" where
  "flow_request req flow =
     (if omap_has (af_pending flow) (ar_id req) then Inl Duplicate
      else if length (af_pending flow) \<ge> af_capacity flow then Inl Capacity
      else Inr (flow\<lparr>af_pending := omap_insert (ar_id req) req (af_pending flow)\<rparr>))"

definition flow_resolve ::
  "glob_lib \<Rightarrow> grant_id \<Rightarrow> approval_resolution \<Rightarrow> principal \<Rightarrow> approval_flow
    \<Rightarrow> approval_error + approval_record \<times> approval_flow" where
  "flow_resolve G fresh resolution approver flow =
     (case omap_get (af_pending flow) (av_approval resolution) of
        None \<Rightarrow> Inl Unknown
      | Some req \<Rightarrow>
          if ar_operation_digest req \<noteq> av_operation_digest resolution then Inl OperationChanged
          else and_then
            (if av_approved resolution then and_then (exact_grant G fresh req) (\<lambda>g. Inr (Some g))
             else Inr None)
            (\<lambda>grant.
              let entry = \<lparr>al_request = req, al_approver = approver,
                           al_approved = av_approved resolution, al_grant = grant\<rparr>
              in Inr (entry,
                   flow\<lparr>af_pending := omap_remove (av_approval resolution) (af_pending flow),
                        af_records := af_records flow @ [entry]\<rparr>)))"

end
