(* ===== verification/Policy_Safety.thy ===== *)
theory Policy_Safety
  imports Policy "HOL-Library.Multiset"
begin

text \<open>
  What the policy engine guarantees: an allow always comes from a matching rule of an operator,
  a deny rule only removes authority, silence denies, the decision does not depend on the
  order the rules were written in, the cache is transparent, and an approval is exact and
  used once.
\<close>

section \<open>The loop over the rules\<close>

definition first_match :: "glob_lib \<Rightarrow> policy_query \<Rightarrow> policy_rule list \<Rightarrow> rule_effect \<Rightarrow> policy_rule option"
where
  "first_match G query rules e = find (\<lambda>r. rule_matches G query r \<and> pr_effect r = e) rules"

lemma effect_slot_bound [simp]: "effect_slot e < 3"
  by (cases e) simp_all

lemma effect_slot_inj: "effect_slot a = effect_slot b \<Longrightarrow> a = b"
  by (cases a; cases b) simp_all

lemma consider_rules_eq:
  assumes "consider_rules G query why rules (first, trace, covered) = (first', trace', covered')"
    and "length first = 3"
  shows "length first' = 3 \<and>
    (\<forall>e. first' ! effect_slot e =
       (case first ! effect_slot e of Some r \<Rightarrow> Some r | None \<Rightarrow> first_match G query rules e)) \<and>
    trace' = trace @ map (consider_entry G query why) rules \<and>
    (covered' \<longleftrightarrow> covered \<or> list_ex (\<lambda>r. covers G r query) rules)"
  using assms
proof (induction rules arbitrary: first trace covered)
  case Nil
  then show ?case by (auto simp: first_match_def split: option.splits)
next
  case (Cons rule rules)
  have "(case (if rule_matches G query rule \<and> first ! effect_slot (pr_effect rule) = None
          then first[effect_slot (pr_effect rule) := Some rule] else first) ! effect_slot e of
          Some r \<Rightarrow> Some r | None \<Rightarrow> first_match G query rules e) =
        (case first ! effect_slot e of
           Some r \<Rightarrow> Some r | None \<Rightarrow> first_match G query (rule # rules) e)" for e
    using Cons.prems(2)
    by (cases "pr_effect rule = e")
      (auto simp: first_match_def nth_list_update split: option.splits dest: effect_slot_inj)
  with Cons.IH [OF Cons.prems(1) [unfolded consider_rules.simps]] Cons.prems(2) show ?case
    by auto
qed

lemma rule_matches_covers: "rule_matches G query rule \<Longrightarrow> covers G rule query"
  by (simp add: rule_matches_def)

text \<open>The rules that answer a query: the fallback only where no rule covers it.\<close>

definition speaking :: "glob_lib \<Rightarrow> rule_set \<Rightarrow> policy_query \<Rightarrow> policy_rule list" where
  "speaking G rs query =
     (if list_ex (\<lambda>r. covers G r query) (rs_rules rs) then rs_rules rs else rs_fallback rs)"

definition slots :: "glob_lib \<Rightarrow> policy_query \<Rightarrow> policy_rule list \<Rightarrow> policy_rule option list" where
  "slots G query rules =
     [first_match G query rules Deny, first_match G query rules Allow,
      first_match G query rules RequireApproval]"

lemma slots_nth [simp]: "slots G query rules ! effect_slot e = first_match G query rules e"
  by (cases e) (simp_all add: slots_def numeral_2_eq_2)

lemma slots_eqI:
  "length first = 3 \<Longrightarrow> (\<And>e. first ! effect_slot e = first_match G query rules e) \<Longrightarrow>
   first = slots G query rules"
proof -
  assume len: "length first = 3" and nth: "\<And>e. first ! effect_slot e = first_match G query rules e"
  have "first ! i = slots G query rules ! i" if "i < 3" for i
  proof -
    from that have "i = effect_slot Deny \<or> i = effect_slot Allow \<or> i = effect_slot RequireApproval"
      by auto
    then show ?thesis using nth by (elim disjE) (simp_all only: slots_nth)
  qed
  then show ?thesis using len by (intro nth_equalityI) (simp_all add: slots_def)
qed

lemma uncovered_no_match:
  "\<not> list_ex (\<lambda>r. covers G r query) rules \<Longrightarrow> first_match G query rules e = None"
  by (auto simp: first_match_def find_None_iff list_ex_iff dest: rule_matches_covers)

lemma empty_slots_nth: "[None, None, None] ! effect_slot e = None"
  by (cases e) (simp_all add: numeral_2_eq_2)

lemma evaluate_decide:
  obtains trace where
    "po_decision (evaluate G fresh rs query) = fst (decide fresh query (slots G query (speaking G rs query)) trace)"
proof -
  obtain first trace covered where one:
    "consider_rules G query ''actor, action, and resource all match'' (rs_rules rs)
       ([None, None, None], [], False) = (first, trace, covered)"
    by (metis prod_cases3)
  from consider_rules_eq [OF one] have len: "length first = 3"
    and nth: "\<And>e. first ! effect_slot e = first_match G query (rs_rules rs) e"
    and cov: "covered \<longleftrightarrow> list_ex (\<lambda>r. covers G r query) (rs_rules rs)"
    by (simp_all add: empty_slots_nth)
  show ?thesis
  proof (cases covered)
    case True
    then have "first = slots G query (speaking G rs query)"
      using len nth cov by (intro slots_eqI) (simp_all add: speaking_def)
    with one True that [of trace] show ?thesis
      by (simp add: evaluate_def Let_def split: prod.splits)
  next
    case False
    obtain first' trace' covered' where two:
      "consider_rules G query ''the default: no rule covers this actor, action, and resource''
         (rs_fallback rs) (first, trace, covered) = (first', trace', covered')"
      by (metis prod_cases3)
    from False cov nth have "\<And>e. first ! effect_slot e = None"
      by (simp add: uncovered_no_match)
    then have "first' = slots G query (speaking G rs query)"
      using consider_rules_eq [OF two len] False cov
      by (intro slots_eqI) (simp_all add: speaking_def)
    with one two False that [of trace'] show ?thesis
      by (simp add: evaluate_def Let_def split: prod.splits)
  qed
qed

section \<open>What a decision rests on\<close>

definition raises_to_approval :: "policy_query \<Rightarrow> bool" where
  "raises_to_approval query \<longleftrightarrow>
     \<not> rc_reversible (pq_context query) \<or>
     (cr_action (pq_requirement query) = GitWrite \<and> rc_workspace (pq_context query) = Dirty)"

lemma decide_Allowed:
  "fst (decide fresh query first trace) = Allowed g \<longleftrightarrow>
     first ! effect_slot Deny = None \<and> \<not> raises_to_approval query \<and>
     (\<exists>rule. first ! effect_slot Allow = Some rule \<and> g = grant_from fresh query rule)"
  by (auto simp: decide_def raises_to_approval_def split: option.splits if_splits)

lemma first_match_Some:
  "first_match G query rules e = Some r \<Longrightarrow>
   r \<in> set rules \<and> rule_matches G query r \<and> pr_effect r = e"
  by (auto simp: first_match_def find_Some_iff)

lemma first_match_None:
  "first_match G query rules e = None \<longleftrightarrow>
   (\<forall>r\<in>set rules. rule_matches G query r \<longrightarrow> pr_effect r \<noteq> e)"
  by (auto simp: first_match_def find_None_iff)

lemma evaluate_Allowed:
  "po_decision (evaluate G fresh rs query) = Allowed g \<longleftrightarrow>
     first_match G query (speaking G rs query) Deny = None \<and> \<not> raises_to_approval query \<and>
     (\<exists>rule. first_match G query (speaking G rs query) Allow = Some rule \<and>
             g = grant_from fresh query rule)"
  by (rule evaluate_decide [of G fresh rs query]) (simp add: decide_Allowed slots_def)

lemma is_allow_iff: "is_allow d \<longleftrightarrow> (\<exists>g. d = Allowed g)"
  by (cases d) auto

lemma first_match_ex:
  "(\<exists>r. first_match G query rules e = Some r) \<longleftrightarrow>
   (\<exists>r\<in>set rules. rule_matches G query r \<and> pr_effect r = e)"
  using first_match_None [of G query rules e] by (metis not_None_eq)

lemma evaluate_is_allow:
  "is_allow (po_decision (evaluate G fresh rs query)) \<longleftrightarrow>
     (\<forall>r\<in>set (speaking G rs query). rule_matches G query r \<longrightarrow> pr_effect r \<noteq> Deny) \<and>
     (\<exists>r\<in>set (speaking G rs query). rule_matches G query r \<and> pr_effect r = Allow) \<and>
     \<not> raises_to_approval query"
  by (simp add: is_allow_iff evaluate_Allowed first_match_None flip: first_match_ex) blast

section \<open>Compiled rule sets\<close>

lemma set_compile [simp]: "set (rs_rules (compile rules)) = normalize_rule ` set rules"
  by (simp add: compile_def)

lemma compile_fallback [simp]: "rs_fallback (compile rules) = []"
  by (simp add: compile_def)

lemma with_fallback_rules [simp]:
  "rs_rules (with_fallback rs ds) = rs_rules rs"
  "rs_fallback (with_fallback rs ds) = rs_rules (compile ds)"
  by (simp_all add: with_fallback_def Let_def)

lemma normalize_rule_sel [simp]:
  "pr_source (normalize_rule r) = pr_source r" "pr_actor (normalize_rule r) = pr_actor r"
  "pr_action (normalize_rule r) = pr_action r" "pr_pattern (normalize_rule r) = pr_pattern r"
  "pr_expires_at_ms (normalize_rule r) = pr_expires_at_ms r"
  "pr_delegation_depth (normalize_rule r) = pr_delegation_depth r"
  "pr_minimum_assurance (normalize_rule r) = pr_minimum_assurance r"
  by (simp_all add: normalize_rule_def)

lemma normalize_covers [simp]: "covers G (normalize_rule r) query = covers G r query"
  by (simp add: covers_def)

lemma normalize_matches [simp]: "rule_matches G query (normalize_rule r) = rule_matches G query r"
  by (simp add: rule_matches_def)

lemma normalize_effect_Allow [simp]:
  "pr_effect (normalize_rule r) = Allow \<longleftrightarrow> pr_effect r = Allow \<and> may_grant (pr_source r)"
  by (auto simp: normalize_rule_def downgrades_def)

lemma normalize_effect_Deny [simp]: "pr_effect (normalize_rule r) = Deny \<longleftrightarrow> pr_effect r = Deny"
  by (auto simp: normalize_rule_def downgrades_def)

lemma grant_from_Allow [simp]:
  "grant_from fresh query (normalize_rule r) = grant_from fresh query r"
  by (simp add: grant_from_def)

definition compiled :: "policy_rule list \<Rightarrow> policy_rule list \<Rightarrow> rule_set" where
  "compiled rules defaults = with_fallback (compile rules) defaults"

lemma set_speaking:
  "set (speaking G (compiled rules defaults) query) =
     normalize_rule ` (if \<exists>r\<in>set rules. covers G r query then set rules else set defaults)"
  by (auto simp: speaking_def compiled_def list_ex_iff)

section \<open>Safety of decisions\<close>

lemma allow_comes_from_operator:
  assumes "po_decision (evaluate G fresh (compiled rules defaults) query) = Allowed g"
  shows "\<exists>rule\<in>set rules \<union> set defaults.
    pr_effect rule = Allow \<and> may_grant (pr_source rule) \<and> rule_matches G query rule \<and>
    g = grant_from fresh query rule"
proof -
  from assms obtain r where "first_match G query (speaking G (compiled rules defaults) query) Allow = Some r"
    and g: "g = grant_from fresh query r"
    by (auto simp: evaluate_Allowed)
  then have r: "r \<in> set (speaking G (compiled rules defaults) query)" "rule_matches G query r"
    "pr_effect r = Allow"
    by (auto dest: first_match_Some)
  then obtain rule where "r = normalize_rule rule" "rule \<in> set rules \<union> set defaults"
    by (auto simp: set_speaking split: if_splits)
  with r g show ?thesis by auto
qed

lemma grant_from_permits:
  assumes "rule_matches G query rule"
  shows "cg_actor (grant_from fresh query rule) = pq_actor query"
    and "permits G (grant_from fresh query rule) (pq_requirement query) now \<longleftrightarrow>
      \<not> is_expired (grant_from fresh query rule) now"
  using assms
  by (auto simp: grant_from_def permits_def rule_matches_def covers_def scope_single_def
      scope_admits_iff is_expired_def)

lemma deny_rule_only_removes:
  assumes "pr_effect d = Deny"
    and "is_allow (po_decision (evaluate G fresh (compiled (d # rules) defaults) query))"
  shows "is_allow (po_decision (evaluate G fresh' (compiled rules defaults) query))"
proof (cases "\<exists>r\<in>set rules. covers G r query")
  case True
  then show ?thesis
    using assms by (auto simp: evaluate_is_allow set_speaking)
next
  case False
  show ?thesis
  proof (cases "covers G d query")
    case True
    then obtain r where "r \<in> set (d # rules)" "rule_matches G query r" "pr_effect r = Allow"
      using assms(2) by (auto simp: evaluate_is_allow set_speaking)
    with False assms(1) show ?thesis
      by (auto dest: rule_matches_covers)
  next
    case False
    with \<open>\<not> (\<exists>r\<in>set rules. covers G r query)\<close> show ?thesis
      using assms(2) by (simp add: evaluate_is_allow set_speaking)
  qed
qed

lemma silence_denies:
  assumes "\<forall>r\<in>set rules \<union> set defaults. \<not> covers G r query"
  shows "po_decision (evaluate G fresh (compiled rules defaults) query) =
    Denied \<lparr>dr_message = ''no rule permits this requirement'', dr_source = None\<rparr>"
proof -
  have "\<not> list_ex (\<lambda>r. covers G r query) (speaking G (compiled rules defaults) query)"
    using assms by (auto simp: list_ex_iff set_speaking)
  then have "first_match G query (speaking G (compiled rules defaults) query) e = None" for e
    by (rule uncovered_no_match)
  then show ?thesis
    by (rule_tac evaluate_decide [of G fresh "compiled rules defaults" query])
      (simp add: decide_def slots_def numeral_2_eq_2)
qed

section \<open>Order of the rules\<close>

definition plain_scheme :: "policy_rule \<Rightarrow> bool" where
  "plain_scheme r \<longleftrightarrow> CHR '':'' \<notin> set (rp_scheme (pr_pattern r))"

lemma append_colon_inj:
  "CHR '':'' \<notin> set s \<Longrightarrow> CHR '':'' \<notin> set t \<Longrightarrow> s @ CHR '':'' # u = t @ CHR '':'' # v \<Longrightarrow> s = t \<and> u = v"
proof (induction s arbitrary: t)
  case Nil
  then show ?case by (cases t) auto
next
  case (Cons c s)
  then show ?case by (cases t) auto
qed

lemma rule_key_inj: "inj_on rule_key {r. plain_scheme r}"
proof (rule inj_onI)
  fix a b :: policy_rule
  assume "a \<in> {r. plain_scheme r}" "b \<in> {r. plain_scheme r}" and eq: "rule_key a = rule_key b"
  then have "rp_scheme (pr_pattern a) = rp_scheme (pr_pattern b) \<and>
      rp_glob (pr_pattern a) = rp_glob (pr_pattern b)"
    by (intro append_colon_inj) (simp_all add: plain_scheme_def rule_key_def pattern_string_def)
  with eq show "a = b"
    by (simp add: rule_key_def)
      (auto intro!: policy_rule.equality resource_pattern.equality source_index_inj effect_index_inj
        actor_key_inj action_index_inj assurance_index_inj)
qed

lemma plain_scheme_normalize [simp]: "plain_scheme (normalize_rule r) = plain_scheme r"
  by (simp add: plain_scheme_def)

lemma compile_order:
  assumes "mset rules = mset rules'" and "\<forall>r\<in>set rules. plain_scheme r"
  shows "rs_rules (compile rules) = rs_rules (compile rules')"
proof -
  have "inj_on rule_key (set (map normalize_rule rules))"
    by (rule inj_on_subset [OF rule_key_inj]) (use assms(2) in auto)
  moreover have "mset (map normalize_rule rules) = mset (sort_key rule_key (map normalize_rule rules'))"
    using assms(1) by (metis mset_map mset_sort)
  ultimately have "sort_key rule_key (map normalize_rule rules) =
      sort_key rule_key (map normalize_rule rules')"
    by (intro sort_key_inj_key_eq) simp_all
  then show ?thesis
    by (simp add: compile_def)
qed

section \<open>The cache\<close>

definition cache_ok :: "glob_lib \<Rightarrow> decision_cache \<Rightarrow> bool" where
  "cache_ok G cache \<longleftrightarrow>
     length (dc_entries cache) \<le> dc_capacity cache \<and>
     (\<forall>e\<in>set (dc_entries cache).
        \<exists>fresh. \<forall>rs. rs_rules rs = ce_rules e \<longrightarrow> rs_fallback rs = ce_fallback e \<longrightarrow>
          ce_outcome e = evaluate G fresh rs (ce_query e))"

lemma cache_ok_new: "cache_ok G (decision_cache_new n)"
  by (simp add: cache_ok_def decision_cache_new_def)

lemma evaluate_rules_only:
  "rs_rules rs = rs_rules rs' \<Longrightarrow> rs_fallback rs = rs_fallback rs' \<Longrightarrow>
   evaluate G fresh rs query = evaluate G fresh rs' query"
  by (simp only: evaluate_def)

lemma evaluate_cached_transparent:
  assumes "cache_ok G cache" and "evaluate_cached G fresh rs query cache = (outcome, cache')"
  shows "cache_ok G cache' \<and> dc_capacity cache' = dc_capacity cache \<and>
    (\<exists>drawn. outcome = evaluate G drawn rs query)"
proof (cases "find (\<lambda>e. ce_rules e = rs_rules rs \<and> ce_fallback e = rs_fallback rs \<and> ce_query e = query)
    (dc_entries cache)")
  case (Some entry)
  then have "entry \<in> set (dc_entries cache)" "ce_rules entry = rs_rules rs"
    "ce_fallback entry = rs_fallback rs" "ce_query entry = query"
    by (auto simp: find_Some_iff)
  moreover from calculation assms(1) have
    "\<exists>drawn. ce_outcome entry = evaluate G drawn rs (ce_query entry)"
    unfolding cache_ok_def by metis
  ultimately show ?thesis
    using assms Some by (simp add: evaluate_cached_def)
next
  case None
  let ?entry = "\<lparr>ce_rules = rs_rules rs, ce_fallback = rs_fallback rs, ce_query = query,
    ce_outcome = evaluate G fresh rs query\<rparr>"
  have out: "outcome = evaluate G fresh rs query"
    and cache': "cache' = cache \<or> dc_capacity cache > 0 \<and> cache' = cache\<lparr>dc_entries :=
      (if length (dc_entries cache) = dc_capacity cache then tl (dc_entries cache)
       else dc_entries cache) @ [?entry]\<rparr>"
    using assms(2) None by (auto simp: evaluate_cached_def Let_def split: if_splits)
  have "length (dc_entries cache') \<le> dc_capacity cache'" "dc_capacity cache' = dc_capacity cache"
    using cache' assms(1) by (auto simp: cache_ok_def)
  moreover have "set (dc_entries cache') \<subseteq> insert ?entry (set (dc_entries cache))"
    using cache' by (auto dest: subsetD [OF set_tl_subset] split: if_splits)
  moreover have "\<forall>rs'. rs_rules rs' = ce_rules ?entry \<longrightarrow> rs_fallback rs' = ce_fallback ?entry \<longrightarrow>
      ce_outcome ?entry = evaluate G fresh rs' (ce_query ?entry)"
    by (auto intro: evaluate_rules_only)
  ultimately show ?thesis
    using assms(1) out unfolding cache_ok_def by blast
qed

section \<open>Approvals are exact and used once\<close>

inductive approval_step :: "glob_lib \<Rightarrow> approval_flow \<Rightarrow> approval_flow \<Rightarrow> bool" for G where
  requested: "flow_request req flow = Inr flow' \<Longrightarrow> approval_step G flow flow'"
| resolved: "flow_resolve G fresh resolution approver flow = Inr (entry, flow') \<Longrightarrow>
    approval_step G flow flow'"

inductive approval_reachable :: "glob_lib \<Rightarrow> nat \<Rightarrow> approval_flow \<Rightarrow> bool" for G capacity where
  start: "approval_reachable G capacity (approval_flow_new capacity)"
| step: "approval_reachable G capacity flow \<Longrightarrow> approval_step G flow flow' \<Longrightarrow>
    approval_reachable G capacity flow'"

definition record_ok :: "glob_lib \<Rightarrow> approval_record \<Rightarrow> bool" where
  "record_ok G entry \<longleftrightarrow>
     (case al_grant entry of
        None \<Rightarrow> \<not> al_approved entry
      | Some g \<Rightarrow> al_approved entry \<and> exact_grant G (cg_id g) (al_request entry) = Inr g)"

definition flow_ok :: "glob_lib \<Rightarrow> nat \<Rightarrow> approval_flow \<Rightarrow> bool" where
  "flow_ok G capacity flow \<longleftrightarrow>
     af_capacity flow = capacity \<and> length (af_pending flow) \<le> capacity \<and>
     (\<forall>entry\<in>set (af_records flow). record_ok G entry)"

lemma flow_request_Inr:
  "flow_request req flow = Inr flow' \<longleftrightarrow>
     \<not> omap_has (af_pending flow) (ar_id req) \<and> length (af_pending flow) < af_capacity flow \<and>
     flow' = flow\<lparr>af_pending := omap_insert (ar_id req) req (af_pending flow)\<rparr>"
  by (auto simp: flow_request_def)

lemma exact_grant_id: "exact_grant G fresh req = Inr g \<Longrightarrow> cg_id g = fresh"
  by (auto simp: exact_grant_def Let_def split: sum.splits)

lemma exact_grant_own: "exact_grant G fresh req = Inr g \<Longrightarrow> exact_grant G (cg_id g) req = Inr g"
  by (frule exact_grant_id) simp

lemma flow_resolve_InrD:
  assumes "flow_resolve G fresh resolution approver flow = Inr (entry, flow')"
  obtains req where "omap_get (af_pending flow) (av_approval resolution) = Some req"
    "ar_operation_digest req = av_operation_digest resolution"
    "al_request entry = req" "al_approver entry = approver"
    "al_approved entry = av_approved resolution" "record_ok G entry"
    "flow' = flow\<lparr>af_pending := omap_remove (av_approval resolution) (af_pending flow),
                  af_records := af_records flow @ [entry]\<rparr>"
  using assms
  by (auto simp: flow_resolve_def Let_def and_then_eq_Inr record_ok_def
      split: option.splits if_splits dest: exact_grant_own)

lemma approval_step_ok: "approval_step G flow flow' \<Longrightarrow> flow_ok G capacity flow \<Longrightarrow> flow_ok G capacity flow'"
proof (induction rule: approval_step.induct)
  case (requested req flow flow')
  then show ?case
    using length_omap_insert [of "ar_id req" req "af_pending flow"]
    by (auto simp: flow_request_Inr flow_ok_def)
next
  case (resolved fresh resolution approver flow entry flow')
  then show ?case
    using length_omap_remove [of "av_approval resolution" "af_pending flow"]
    by (auto elim!: flow_resolve_InrD simp: flow_ok_def)
qed

lemma approval_reachable_ok: "approval_reachable G capacity flow \<Longrightarrow> flow_ok G capacity flow"
proof (induction rule: approval_reachable.induct)
  case start
  show ?case by (simp add: flow_ok_def approval_flow_new_def)
next
  case (step flow flow')
  then show ?case by (blast intro: approval_step_ok)
qed

lemma exact_grant_scope:
  assumes "escape_is_literal G" and "exact_grant G fresh req = Inr g"
  shows "cg_actor g = ar_actor req" "cg_action g = cr_action (ar_requirement req)"
    "cg_delegation_depth g = 0" "cg_expires_at_ms g = ar_expires_at_ms req"
    "scope_admits G (cg_scope g) r \<longleftrightarrow>
      rr_scheme r = rr_scheme (cr_resource (ar_requirement req)) \<and>
      rr_value r = rr_value (cr_resource (ar_requirement req))"
  using assms
  by (auto simp: exact_grant_def resource_pattern_new_def Let_def scope_single_def scope_admits_iff
      pattern_matches_def escape_is_literal_def split: sum.splits if_splits option.splits)

end
