(* ===== verification/Policy_Properties.thy ===== *)
theory Policy_Properties
  imports Policy_Safety
begin

text \<open>
  The properties of the capability, operation and policy components, each as one statement, and
  the small inputs their witnesses run them on.
\<close>

section \<open>Sample inputs\<close>

text \<open>A matcher for globs without metacharacters: it meets what \<open>globset::escape\<close> documents.\<close>

definition sample_globs :: glob_lib where
  "sample_globs = \<lparr>gl_compile_error = \<lambda>_. None, gl_is_match = \<lambda>g v. g = v, gl_escape = \<lambda>v. v\<rparr>"

definition sample_ref :: resource_ref where
  "sample_ref = \<lparr>rr_scheme = ''file'', rr_value = ''a''\<rparr>"

definition sample_pattern :: resource_pattern where
  "sample_pattern = \<lparr>rp_scheme = ''file'', rp_glob = ''a''\<rparr>"

definition sample_rule :: "policy_source \<Rightarrow> rule_effect \<Rightarrow> policy_rule" where
  "sample_rule source effect =
     \<lparr>pr_source = source, pr_effect = effect, pr_actor = Any, pr_action = FsRead,
      pr_pattern = sample_pattern, pr_expires_at_ms = Some 90, pr_delegation_depth = 1,
      pr_minimum_assurance = NoAssurance\<rparr>"

definition sample_requirement :: capability_requirement where
  "sample_requirement = \<lparr>cr_action = FsRead, cr_resource = sample_ref\<rparr>"

definition sample_query :: "capability_action \<Rightarrow> policy_query" where
  "sample_query action =
     \<lparr>pq_actor = System, pq_operation = ''fs.read'',
      pq_requirement = \<lparr>cr_action = action, cr_resource = sample_ref\<rparr>,
      pq_operation_digest = [], pq_resource_version = None, pq_context = risk_context_default\<rparr>"

definition sample_approval :: approval_request where
  "sample_approval =
     \<lparr>ar_id = 5, ar_actor = System, ar_operation = ''fs.read'', ar_requirement = sample_requirement,
      ar_operation_digest = [], ar_reversible = True, ar_expires_at_ms = Some 90,
      ar_delegation_depth = 1, ar_reason = ''review''\<rparr>"

definition sample_resolution :: approval_resolution where
  "sample_resolution = \<lparr>av_approval = 5, av_operation_digest = [], av_approved = True\<rparr>"

definition sample_grant :: capability_grant where
  "sample_grant =
     \<lparr>cg_id = 1, cg_actor = System, cg_action = FsRead, cg_scope = [sample_pattern],
      cg_expires_at_ms = Some 90, cg_delegation_depth = 2, cg_source = User_Source\<rparr>"

lemmas sample_defs =
  sample_globs_def sample_ref_def sample_pattern_def sample_rule_def sample_requirement_def
  sample_query_def sample_approval_def sample_resolution_def sample_grant_def risk_context_default_def

text \<open>What runs a decision on a concrete input.\<close>

lemmas decision_run =
  sample_defs evaluate_Allowed compiled_def with_fallback_def compile_def normalize_rule_def
  downgrades_def speaking_def first_match_def rule_matches_def covers_def pattern_matches_def
  raises_to_approval_def grant_from_def less_eq_sandbox_assurance_def Let_def

section \<open>Capabilities\<close>


definition sample_child :: capability_grant where
  "sample_child =
     \<lparr>cg_id = 2, cg_actor = Agent 7, cg_action = FsRead, cg_scope = [sample_pattern],
      cg_expires_at_ms = Some 50, cg_delegation_depth = 1, cg_source = User_Source\<rparr>"

lemma sample_delegated: "delegated sample_grant 1 sample_child"
proof -
  have "attenuate 2 sample_grant (Agent 7) FsRead [sample_pattern] (Some 50) = Inr sample_child"
    by (simp add: attenuate_def sample_child_def sample_grant_def scope_narrow_def)
  from delegated.delegate [OF delegated.held this] show ?thesis by simp
qed


text \<open>
  A grant that names no resource permits nothing, but a grant delegated from it permits every
  resource the delegate asked for: attenuation widens the empty scope.
\<close>

theorem empty_scope_widens:
  assumes "cg_scope g = []" and "attenuate fresh g delegate action [p] expiry = Inr c"
  shows "\<not> permits G g req now \<and>
    (permits G c req now \<longleftrightarrow>
      cr_action req = action \<and> \<not> is_expired c now \<and> pattern_matches G p (cr_resource req))"
  using assms(1) attenuate_InrD [OF assms(2)]
  by (auto simp: permits_def scope_admits_def scope_narrow_def)

theorem empty_scope_widens_witness:
  "\<not> permits sample_globs (sample_grant\<lparr>cg_scope := []\<rparr>) sample_requirement 0 \<and>
   permits sample_globs sample_child sample_requirement 0"
proof -
  have "attenuate 2 (sample_grant\<lparr>cg_scope := []\<rparr>) (Agent 7) FsRead [sample_pattern] (Some 50) =
      Inr sample_child"
    by (simp add: attenuate_def sample_child_def sample_grant_def scope_narrow_def)
  from empty_scope_widens [OF _ this, of sample_globs sample_requirement 0] show ?thesis
    by (simp add: sample_defs sample_child_def is_expired_def pattern_matches_def)
qed

section \<open>Operations\<close>

text \<open>
  The checks \<open>validate_input\<close> makes one after the other accept exactly the inputs that
  conform to the schema: an object whose required fields are present with their types, whose
  optional fields have their types or are null, and which has no other field unless the schema
  allows extra ones.
\<close>

theorem accepted_inputs_conform: "validate_input schema input = Inr () \<longleftrightarrow> conforms schema input"
  by (rule validate_input_conforms)

text \<open>
  C12: A dispatch returns an outcome exactly when an executor is registered for the request's
  kind, the input conforms to its schema, no requirement is left without a live grant held by
  the requesting actor, and the executor itself returns that outcome. There is no other way to
  an executor.
\<close>

theorem dispatch_only_granted:
  "dispatch G registry req grants now = Inr outcome \<longleftrightarrow>
     (\<exists>executor. omap_get registry (or_kind req) = Some executor \<and>
        conforms (oc_input_schema (ex_contract executor)) (or_input req) \<and>
        \<not> (\<exists>r\<in>set (or_requirements req).
              \<not> (\<exists>g\<in>set grants. cg_actor g = or_actor req \<and> permits G g r now)) \<and>
        ex_execute executor req grants = Inr outcome)"
proof -
  have covers: "grant_covers G req grants now r \<longleftrightarrow>
      (\<exists>g\<in>set grants. cg_actor g = or_actor req \<and> permits G g r now)" for r
    by (auto simp: grant_covers_def list_ex_iff)
  show ?thesis
    by (auto simp: covers [symmetric] dispatch_def and_then_eq_Inr validate_input_conforms
        check_grants_ok split: option.splits)
qed

section \<open>Policy decisions\<close>

text \<open>
  C7: Authority comes from an operator. Whatever rules a workspace or a session contributes, an
  allow decision rests on a matching allow rule of the enterprise or the user, the grant it hands
  out goes to the requesting actor with the rule's scope, expiry and depth, and the grant permits
  the requirement until it expires.
\<close>

theorem allow_needs_operator:
  assumes "po_decision (evaluate G fresh (compiled rules defaults) query) = Allowed g"
  shows "\<exists>rule\<in>set rules \<union> set defaults.
    pr_effect rule = Allow \<and> may_grant (pr_source rule) \<and> rule_matches G query rule \<and>
    g = grant_from fresh query rule \<and> cg_actor g = pq_actor query \<and>
    (permits G g (pq_requirement query) now \<longleftrightarrow> \<not> is_expired g now)"
  using allow_comes_from_operator [OF assms] grant_from_permits by blast

theorem allow_needs_operator_witness:
  "\<exists>rule\<in>set [sample_rule User_Source Allow] \<union> set []. pr_effect rule = Allow \<and> may_grant (pr_source rule)"
proof -
  have "po_decision (evaluate sample_globs 3 (compiled [sample_rule User_Source Allow] [])
      (sample_query FsRead)) = Allowed (grant_from 3 (sample_query FsRead) (sample_rule User_Source Allow))"
    by (simp add: decision_run)
  from allow_needs_operator [OF this, of 0] show ?thesis by blast
qed

text \<open>
  C6: When a decision is an allow, stated for every input: the rules that speak are the written
  ones when one of them covers the query and the defaults otherwise; among these some operator
  rule allows, none denies, and neither irreversibility nor a dirty workspace asks for approval.
\<close>

theorem allow_exactly_when:
  "is_allow (po_decision (evaluate G fresh (compiled rules defaults) query)) \<longleftrightarrow>
     (let speak = (if \<exists>r\<in>set rules. covers G r query then set rules else set defaults)
      in (\<exists>r\<in>speak. rule_matches G query r \<and> pr_effect r = Allow \<and> may_grant (pr_source r)) \<and>
         \<not> (\<exists>r\<in>speak. rule_matches G query r \<and> pr_effect r = Deny) \<and>
         rc_reversible (pq_context query) \<and>
         \<not> (cr_action (pq_requirement query) = GitWrite \<and> rc_workspace (pq_context query) = Dirty))"
  unfolding evaluate_is_allow set_speaking
  by (auto simp: Let_def raises_to_approval_def)

text \<open>
  Adding a deny rule never creates authority: if the query is allowed with the rule, it was
  allowed without it.
\<close>

theorem deny_never_grants:
  assumes "pr_effect d = Deny"
    and "is_allow (po_decision (evaluate G fresh (compiled (d # rules) defaults) query))"
  shows "is_allow (po_decision (evaluate G fresh' (compiled rules defaults) query))"
  using assms by (rule deny_rule_only_removes)

theorem deny_never_grants_witness:
  "is_allow (po_decision (evaluate sample_globs 4 (compiled [sample_rule User_Source Allow] [])
     (sample_query FsRead)))"
proof -
  let ?d = "(sample_rule Workspace Deny)\<lparr>pr_actor := Exactly (Agent 9)\<rparr>"
  have "is_allow (po_decision (evaluate sample_globs 3 (compiled (?d # [sample_rule User_Source Allow]) [])
      (sample_query FsRead)))"
    unfolding evaluate_is_allow set_speaking
    by (simp add: sample_defs normalize_rule_def downgrades_def rule_matches_def covers_def
        pattern_matches_def raises_to_approval_def less_eq_sandbox_assurance_def)
  then show ?thesis
    by (rule deny_never_grants [rotated]) (simp add: sample_rule_def)
qed

text \<open>
  Silence denies: a query that neither a rule nor a default covers is refused, and the
  refusal names no rule.
\<close>

theorem silence_is_denial:
  assumes "\<forall>r\<in>set rules \<union> set defaults. \<not> covers G r query"
  shows "po_decision (evaluate G fresh (compiled rules defaults) query) =
    Denied \<lparr>dr_message = ''no rule permits this requirement'', dr_source = None\<rparr>"
  using assms by (rule silence_denies)

theorem silence_is_denial_witness:
  "po_decision (evaluate sample_globs 3 (compiled [sample_rule User_Source Allow] []) (sample_query FsWrite)) =
    Denied \<lparr>dr_message = ''no rule permits this requirement'', dr_source = None\<rparr>"
  by (rule silence_is_denial) (simp add: sample_defs covers_def)

text \<open>
  A compiled rule set does not depend on the order its rules were written in, where no scheme
  contains a colon.
\<close>

theorem rule_order_irrelevant:
  assumes "mset rules = mset rules'" and "\<forall>r\<in>set rules. plain_scheme r"
  shows "rs_rules (compile rules) = rs_rules (compile rules')"
  using assms by (rule compile_order)

theorem rule_order_irrelevant_witness:
  "rs_rules (compile [sample_rule User_Source Allow, sample_rule Workspace Deny]) =
   rs_rules (compile [sample_rule Workspace Deny, sample_rule User_Source Allow])"
  by (rule rule_order_irrelevant) (simp_all add: sample_defs plain_scheme_def)

section \<open>The decision cache\<close>

text \<open>A client that asks one question after the other through the same cache.\<close>

fun cached_run ::
  "glob_lib \<Rightarrow> (uuid \<times> rule_set \<times> policy_query) list \<Rightarrow> decision_cache
    \<Rightarrow> policy_outcome list \<times> decision_cache" where
  "cached_run G [] cache = ([], cache)"
| "cached_run G ((fresh, rs, query) # rest) cache =
     (let (outcome, cache) = evaluate_cached G fresh rs query cache;
          (outcomes, cache) = cached_run G rest cache
      in (outcome # outcomes, cache))"

lemma cached_run_ok:
  "cache_ok G cache \<Longrightarrow> cached_run G calls cache = (outcomes, cache') \<Longrightarrow>
   cache_ok G cache' \<and> dc_capacity cache' = dc_capacity cache \<and>
   list_all2 (\<lambda>(fresh, rs, query) outcome. \<exists>drawn. outcome = evaluate G drawn rs query) calls outcomes"
proof (induction calls arbitrary: cache outcomes cache')
  case (Cons call rest)
  obtain fresh rs query where call: "call = (fresh, rs, query)" by (cases call)
  obtain outcome mid where here: "evaluate_cached G fresh rs query cache = (outcome, mid)" by fastforce
  obtain more where more: "cached_run G rest mid = (more, cache')" "outcomes = outcome # more"
    using Cons.prems(2) call here by (auto split: prod.splits)
  from evaluate_cached_transparent [OF Cons.prems(1) here] Cons.IH [OF _ more(1)] more(2) call
  show ?case by auto
qed simp

text \<open>
  The decision cache is invisible: however many queries are answered through one cache,
  each answer is what direct evaluation gives (up to the fresh identifier in a grant), and the
  cache never holds more than its capacity.
\<close>

theorem cache_is_transparent:
  "list_all2 (\<lambda>(fresh, rs, query) outcome. \<exists>drawn. outcome = evaluate G drawn rs query)
     calls (fst (cached_run G calls (decision_cache_new n))) \<and>
   length (dc_entries (snd (cached_run G calls (decision_cache_new n)))) \<le> n"
proof -
  obtain outcomes cache where run: "cached_run G calls (decision_cache_new n) = (outcomes, cache)" by fastforce
  from cached_run_ok [OF cache_ok_new run] run show ?thesis
    by (simp add: cache_ok_def decision_cache_new_def)
qed

section \<open>Approvals\<close>


definition sample_flow :: approval_flow where
  "sample_flow = approval_flow_new 1"

lemma sample_resolved:
  "flow_request sample_approval sample_flow = Inr (sample_flow\<lparr>af_pending := [(5, sample_approval)]\<rparr>)"
  "flow_resolve sample_globs 8 sample_resolution (User ''ann'') (sample_flow\<lparr>af_pending := [(5, sample_approval)]\<rparr>) =
     Inr (\<lparr>al_request = sample_approval, al_approver = User ''ann'', al_approved = True,
           al_grant = Some \<lparr>cg_id = 8, cg_actor = System, cg_action = FsRead, cg_scope = [sample_pattern],
             cg_expires_at_ms = Some 90, cg_delegation_depth = 0, cg_source = User_Source\<rparr>\<rparr>,
          sample_flow\<lparr>af_records := [\<lparr>al_request = sample_approval, al_approver = User ''ann'', al_approved = True,
           al_grant = Some \<lparr>cg_id = 8, cg_actor = System, cg_action = FsRead, cg_scope = [sample_pattern],
             cg_expires_at_ms = Some 90, cg_delegation_depth = 0, cg_source = User_Source\<rparr>\<rparr>]\<rparr>)"
  by (simp_all add: sample_flow_def flow_request_def flow_resolve_def approval_flow_new_def omap_has_def
      sample_defs exact_grant_def resource_pattern_new_def max_glob_bytes_def max_glob_metacharacters_def
      scope_single_def omap_remove_def Let_def)


text \<open>
  An approval is used once: after a request is resolved, resolving it again under any
  resolution is refused as unknown, and a resolution for an operation that changed since the
  request is refused without consuming the request.
\<close>

theorem approval_used_once:
  assumes "flow_resolve G fresh resolution approver flow = Inr (entry, flow')"
  shows "flow_resolve G fresh' (resolution\<lparr>av_operation_digest := digest, av_approved := said\<rparr>) approver' flow' =
      Inl Unknown \<and>
    (digest \<noteq> av_operation_digest resolution \<longrightarrow>
      flow_resolve G fresh' (resolution\<lparr>av_operation_digest := digest\<rparr>) approver' flow = Inl OperationChanged)"
  using assms by (rule flow_resolve_InrD) (simp add: flow_resolve_def)

theorem approval_used_once_witness:
  "\<exists>flow'. flow_resolve sample_globs 9 (sample_resolution\<lparr>av_operation_digest := [], av_approved := True\<rparr>)
     System flow' = Inl Unknown"
  using approval_used_once [OF sample_resolved(2), where fresh' = 9 and digest = "[]" and said = True and approver' = System]
  by blast

section \<open>Digests\<close>

text \<open>
  A state version survives printing: its 64 hexadecimal digits parse back to it, the parser
  accepts exactly the texts of 64 hexadecimal digits, and whatever it accepts is 32 bytes long.
\<close>

theorem state_version_print_parse:
  assumes "is_digest d"
  shows "state_version_parse (state_version_print d) = Some d \<and>
    ((\<exists>v. state_version_parse s = Some v) \<longleftrightarrow> length s = 64 \<and> list_all is_hexdigit s) \<and>
    (state_version_parse s = Some v \<longrightarrow> is_digest v)"
  using assms state_version_roundtrip state_version_parse_iff state_version_parse_digest by blast

theorem state_version_print_parse_witness:
  "state_version_parse (state_version_print (replicate 32 255)) = Some (replicate 32 255)"
  using state_version_print_parse [of "replicate 32 255"] by (simp add: is_digest_def)

end
