(* ===== verification/Events.thy ===== *)
theory Events
  imports Domain
begin

text \<open>
  The event log: \<^verbatim>\<open>crates/arsy-kernel/src/event.rs\<close>. An event carries a payload of type
  \<open>'d\<close> (the JSON value of the code, or a client's reading of it); its size in bytes is what
  \<open>serde_json::to_vec\<close> makes of it, a function \<open>bytes_of\<close> of the payload here. The in-memory
  store keeps one list of events per session and accepts an append only at the stream's
  current version.

  The \<open>event_log\<close> locale is the \<open>EventStore\<close> trait with the laws its clients rely on; the
  in-memory store is its interpretation. The \<open>world\<close> is what a client of the shared store runs
  in: the store, the identifiers still to be drawn, the clock, and what other holders of the
  store will append before each append of ours.
\<close>

section \<open>Envelopes\<close>

definition max_inline_event_bytes :: nat where
  "max_inline_event_bytes = 64 * 1024"

datatype 'd event_payload =
  Inline 'd
| Artifact resource_ref string nat

datatype store_error =
  Conflict nat nat
| StreamMismatch
| InvalidSequence nat nat
| SequenceOverflow
| DuplicateEvent event_id
| PayloadTooLarge nat nat
| MigrationRequired nat nat
| SchemaTooNew nat nat
| Serialization string
| Storage string

record 'd envelope =
  ev_id :: event_id
  ev_session :: session_id
  ev_sequence :: nat
  ev_occurred_at_ms :: nat
  ev_actor :: principal
  ev_causation :: "event_id option"
  ev_correlation :: uuid
  ev_schema :: nat
  ev_kind :: string
  ev_payload :: "'d event_payload"

fun payload_validate :: "('d \<Rightarrow> string + nat) \<Rightarrow> 'd event_payload \<Rightarrow> store_error + unit" where
  "payload_validate bytes_of (Inline data) =
     (case bytes_of data of
        Inl error \<Rightarrow> Inl (Serialization error)
      | Inr bytes \<Rightarrow>
          if bytes > max_inline_event_bytes
          then Inl (PayloadTooLarge bytes max_inline_event_bytes) else Inr ())"
| "payload_validate bytes_of (Artifact _ _ _) = Inr ()"

definition validate_for_append ::
  "('d \<Rightarrow> string + nat) \<Rightarrow> 'd envelope \<Rightarrow> session_id \<Rightarrow> nat \<Rightarrow> store_error + unit" where
  "validate_for_append bytes_of e stream sequence =
     (if ev_session e \<noteq> stream then Inl StreamMismatch
      else if ev_sequence e \<noteq> sequence then Inl (InvalidSequence sequence (ev_sequence e))
      else payload_validate bytes_of (ev_payload e))"

section \<open>The in-memory store\<close>

record 'd memory_store =
  ms_poisoned :: bool
  ms_streams :: "(session_id, 'd envelope list) omap"

definition memory_store_new :: "'d memory_store" where
  "memory_store_new = \<lparr>ms_poisoned = False, ms_streams = []\<rparr>"

definition stream_of :: "'d memory_store \<Rightarrow> session_id \<Rightarrow> 'd envelope list" where
  "stream_of s k = (case omap_get (ms_streams s) k of None \<Rightarrow> [] | Some es \<Rightarrow> es)"

definition last_sequence :: "'d envelope list \<Rightarrow> nat" where
  "last_sequence es = (if es = [] then 0 else ev_sequence (last es))"

definition current_version :: "'d memory_store \<Rightarrow> session_id \<Rightarrow> store_error + nat" where
  "current_version s k =
     (if ms_poisoned s then Inl (Storage ''event store lock poisoned'')
      else Inr (last_sequence (stream_of s k)))"

fun check_batch ::
  "('d \<Rightarrow> string + nat) \<Rightarrow> session_id \<Rightarrow> nat \<Rightarrow> nat \<Rightarrow> event_id list \<Rightarrow> 'd envelope list
    \<Rightarrow> store_error + unit" where
  "check_batch bytes_of stream expected offset ids [] = Inr ()"
| "check_batch bytes_of stream expected offset ids (e # es) =
     (case checked_add expected (offset + 1) of
        None \<Rightarrow> Inl SequenceOverflow
      | Some sequence \<Rightarrow>
          and_then (validate_for_append bytes_of e stream sequence) (\<lambda>_.
            if ev_id e \<in> set ids then Inl (DuplicateEvent (ev_id e))
            else check_batch bytes_of stream expected (offset + 1) (ev_id e # ids) es))"

text \<open>
  \<open>entry(stream).or_default()\<close> leaves an empty stream behind even when the append is refused.
\<close>

definition append_events ::
  "('d \<Rightarrow> string + nat) \<Rightarrow> session_id \<Rightarrow> nat \<Rightarrow> 'd envelope list \<Rightarrow> 'd memory_store
    \<Rightarrow> (store_error + nat) \<times> 'd memory_store" where
  "append_events bytes_of stream expected events s =
     (if ms_poisoned s then (Inl (Storage ''event store lock poisoned''), s)
      else
        let stored = stream_of s stream;
            touched = s\<lparr>ms_streams := omap_insert stream stored (ms_streams s)\<rparr>;
            actual = last_sequence stored
        in if actual \<noteq> expected then (Inl (Conflict expected actual), touched)
           else case check_batch bytes_of stream expected 0 (map ev_id stored) events of
                  Inl error \<Rightarrow> (Inl error, touched)
                | Inr _ \<Rightarrow>
                    (Inr (if stored @ events = [] then expected
                          else ev_sequence (last (stored @ events))),
                     s\<lparr>ms_streams := omap_insert stream (stored @ events) (ms_streams s)\<rparr>))"

definition read_events ::
  "'d memory_store \<Rightarrow> session_id \<Rightarrow> nat \<Rightarrow> nat \<Rightarrow> store_error + 'd envelope list" where
  "read_events s stream from_sequence limit =
     (if ms_poisoned s then Inl (Storage ''event store lock poisoned'')
      else Inr (take limit (filter (\<lambda>e. ev_sequence e \<ge> from_sequence) (stream_of s stream))))"

section \<open>Streams are numbered without gaps\<close>

fun numbered :: "nat \<Rightarrow> 'd envelope list \<Rightarrow> bool" where
  "numbered n [] = True"
| "numbered n (e # es) = (ev_sequence e = Suc n \<and> numbered (Suc n) es)"

definition stream_ok :: "session_id \<Rightarrow> 'd envelope list \<Rightarrow> bool" where
  "stream_ok k es \<longleftrightarrow>
     numbered 0 es \<and> (\<forall>e\<in>set es. ev_session e = k) \<and> distinct (map ev_id es) \<and> length es \<le> u64_max"

definition store_ok :: "'d memory_store \<Rightarrow> bool" where
  "store_ok s \<longleftrightarrow> \<not> ms_poisoned s \<and> (\<forall>k. stream_ok k (stream_of s k))"

lemma stream_ok_Nil [simp]: "stream_ok k []"
  by (simp add: stream_ok_def)

lemma store_ok_new [simp]: "store_ok memory_store_new"
  by (simp add: store_ok_def memory_store_new_def stream_of_def)

lemma numbered_append: "numbered n (es @ fs) \<longleftrightarrow> numbered n es \<and> numbered (n + length es) fs"
  by (induction es arbitrary: n) auto

lemma numbered_nth: "numbered n es \<Longrightarrow> i < length es \<Longrightarrow> ev_sequence (es ! i) = Suc (n + i)"
  by (induction es arbitrary: n i) (auto simp: nth_Cons split: nat.splits)

lemma numbered_ge: "numbered n es \<Longrightarrow> e \<in> set es \<Longrightarrow> n < ev_sequence e"
proof (induction es arbitrary: n)
  case (Cons a es)
  show ?case
  proof (cases "e = a")
    case True
    with Cons.prems show ?thesis by simp
  next
    case False
    with Cons have "Suc n < ev_sequence e" by simp
    then show ?thesis by (rule Suc_lessD)
  qed
qed simp

lemma numbered_filter_from:
  "numbered n es \<Longrightarrow> filter (\<lambda>e. Suc v \<le> ev_sequence e) es = drop (v - n) es"
proof (induction es arbitrary: n)
  case (Cons e es)
  show ?case
  proof (cases "v \<le> n")
    case True
    then have "\<forall>x\<in>set (e # es). Suc v \<le> ev_sequence x"
      using numbered_ge [OF Cons.prems] by (meson Suc_leI le_less_trans)
    then have "filter (\<lambda>e. Suc v \<le> ev_sequence e) (e # es) = e # es"
      by (rule filter_True)
    with True show ?thesis by (simp only: diff_is_0_eq [THEN iffD2] drop_0)
  next
    case False
    then have "v - n = Suc (v - Suc n)" by simp
    with False Cons show ?thesis by simp
  qed
qed simp

lemma numbered_last: "numbered n es \<Longrightarrow> es \<noteq> [] \<Longrightarrow> ev_sequence (last es) = n + length es"
  by (induction es arbitrary: n) (auto split: if_splits)

lemma numbered_page: "numbered 0 es \<Longrightarrow> v \<le> length es \<Longrightarrow> numbered v (take n (drop v es))"
proof -
  assume "numbered 0 es" "v \<le> length es"
  then have "numbered 0 (take v es @ take n (drop v es) @ drop n (drop v es))"
    by (simp only: append_take_drop_id)
  with \<open>v \<le> length es\<close> show ?thesis
    unfolding numbered_append by simp
qed

lemma last_sequence_numbered: "numbered 0 es \<Longrightarrow> last_sequence es = length es"
  by (cases "es = []") (simp_all add: last_sequence_def last_conv_nth numbered_nth)

lemma check_batch_Cons:
  "check_batch bytes_of k v n ids (e # es) = Inr () \<longleftrightarrow>
   v + Suc n \<le> u64_max \<and> ev_session e = k \<and> ev_sequence e = v + Suc n \<and>
   payload_validate bytes_of (ev_payload e) = Inr () \<and> ev_id e \<notin> set ids \<and>
   check_batch bytes_of k v (Suc n) (ev_id e # ids) es = Inr ()"
  by (cases "payload_validate bytes_of (ev_payload e)")
    (simp_all add: checked_add_def validate_for_append_def)

lemma check_batch_iff:
  "check_batch bytes_of k v n ids es = Inr () \<longleftrightarrow>
   numbered (v + n) es \<and> (\<forall>e\<in>set es. ev_session e = k) \<and>
   distinct (map ev_id es) \<and> set ids \<inter> ev_id ` set es = {} \<and>
   (es \<noteq> [] \<longrightarrow> v + n + length es \<le> u64_max) \<and>
   (\<forall>e\<in>set es. payload_validate bytes_of (ev_payload e) = Inr ())"
proof (induction es arbitrary: n ids)
  case (Cons e es)
  show ?case
    unfolding check_batch_Cons Cons.IH by (cases "es = []") (auto simp del: check_batch.simps)
qed simp

lemma stream_of_insert [simp]:
  "stream_of (s\<lparr>ms_streams := omap_insert k es (ms_streams s)\<rparr>) k' =
     (if k' = k then es else stream_of s k')"
  by (simp add: stream_of_def)

section \<open>The contract of an event store\<close>

locale event_log =
  fixes ok :: "'s \<Rightarrow> bool"
    and events :: "'s \<Rightarrow> session_id \<Rightarrow> 'd envelope list"
    and version :: "'s \<Rightarrow> session_id \<Rightarrow> store_error + nat"
    and append :: "session_id \<Rightarrow> nat \<Rightarrow> 'd envelope list \<Rightarrow> 's \<Rightarrow> (store_error + nat) \<times> 's"
    and read :: "'s \<Rightarrow> session_id \<Rightarrow> nat \<Rightarrow> nat \<Rightarrow> store_error + 'd envelope list"
  assumes events_ok: "ok s \<Longrightarrow> stream_ok k (events s k)"
    and version_is: "ok s \<Longrightarrow> version s k = Inr (length (events s k))"
    and append_keeps: "ok s \<Longrightarrow> append k v es s = (r, s') \<Longrightarrow> ok s'"
    and append_Inr: "ok s \<Longrightarrow> append k v es s = (Inr n, s') \<Longrightarrow>
      v = length (events s k) \<and> n = v + length es \<and>
      events s' = (events s)(k := events s k @ es)"
    and append_Inl: "ok s \<Longrightarrow> append k v es s = (Inl e, s') \<Longrightarrow> events s' = events s"
    and append_conflict: "ok s \<Longrightarrow> v \<noteq> length (events s k) \<Longrightarrow>
      fst (append k v es s) = Inl (Conflict v (length (events s k)))"
    and read_is: "ok s \<Longrightarrow> read s k (Suc v) limit = Inr (take limit (drop v (events s k)))"
begin

text \<open>An append never rewrites history: what was in a stream stays a prefix of it.\<close>

lemma append_extends:
  assumes "ok s" and "append k v es s = (r, s')"
  shows "\<exists>new. events s' k' = events s k' @ new"
proof (cases r)
  case (Inl e)
  with assms show ?thesis by (auto dest: append_Inl)
next
  case (Inr n)
  with assms append_Inr show ?thesis by (cases "k' = k") fastforce+
qed

text \<open>Two writers at the same version: the second one is refused.\<close>

lemma second_writer_conflicts:
  assumes "ok s" and "append k v es s = (Inr n, s')" and "es \<noteq> []"
  shows "fst (append k v fs s') = Inl (Conflict v n)"
proof -
  have "n = v + length es" and "length (events s' k) = v + length es"
    using append_Inr [OF assms(1,2)] by auto
  with assms(3) append_conflict [OF append_keeps [OF assms(1,2)], of v k fs] show ?thesis
    by simp
qed

text \<open>A reader at version \<open>v\<close> sees a page of exactly what it has not seen yet.\<close>

lemma page_empty_iff:
  "ok s \<Longrightarrow> 0 < limit \<Longrightarrow> read s k (Suc v) limit = Inr [] \<longleftrightarrow> length (events s k) \<le> v"
  by (simp add: read_is)

end

interpretation memory: event_log store_ok stream_of current_version
  "append_events bytes_of" read_events for bytes_of :: "'d \<Rightarrow> string + nat"
proof
  fix s :: "'d memory_store" and k v limit es r s' n e
  assume ok: "store_ok s"
  note nums = ok [unfolded store_ok_def stream_ok_def]
  show "stream_ok k (stream_of s k)"
    using ok by (simp add: store_ok_def)
  show "current_version s k = Inr (length (stream_of s k))"
    using nums by (simp add: current_version_def last_sequence_numbered)
  show "read_events s k (Suc v) limit = Inr (take limit (drop v (stream_of s k)))"
    using nums numbered_filter_from [of 0 "stream_of s k" v] by (simp add: read_events_def)
  show "fst (append_events bytes_of k v es s) = Inl (Conflict v (length (stream_of s k)))"
    if "v \<noteq> length (stream_of s k)"
    using that nums by (auto simp: append_events_def Let_def last_sequence_numbered)
  show "stream_of s' = stream_of s" if "append_events bytes_of k v es s = (Inl e, s')"
    using that by (auto simp: append_events_def Let_def fun_eq_iff split: if_splits sum.splits)
  show "v = length (stream_of s k) \<and> n = v + length es \<and>
      stream_of s' = (stream_of s)(k := stream_of s k @ es)"
    if app: "append_events bytes_of k v es s = (Inr n, s')"
  proof -
    from app nums have v: "v = length (stream_of s k)"
      and batch: "check_batch bytes_of k v 0 (map ev_id (stream_of s k)) es = Inr ()"
      and n: "n = (if stream_of s k @ es = [] then v else ev_sequence (last (stream_of s k @ es)))"
      and s': "s' = s\<lparr>ms_streams := omap_insert k (stream_of s k @ es) (ms_streams s)\<rparr>"
      by (auto simp: append_events_def Let_def last_sequence_numbered split: if_splits sum.splits)
    from batch v nums have "numbered 0 (stream_of s k @ es)"
      by (simp add: check_batch_iff numbered_append)
    then have "n = length (stream_of s k @ es)"
      using n v last_sequence_numbered by (force simp: last_sequence_def)
    with v s' show ?thesis by (auto simp: fun_eq_iff)
  qed
  show "store_ok s'" if app: "append_events bytes_of k v es s = (r, s')"
  proof (cases r)
    case (Inl e)
    with app nums show ?thesis
      by (auto simp: append_events_def Let_def store_ok_def stream_ok_def split: if_splits sum.splits)
  next
    case (Inr n)
    with app nums have "v = length (stream_of s k)"
      "check_batch bytes_of k v 0 (map ev_id (stream_of s k)) es = Inr ()"
      "s' = s\<lparr>ms_streams := omap_insert k (stream_of s k @ es) (ms_streams s)\<rparr>"
      by (auto simp: append_events_def Let_def last_sequence_numbered split: if_splits sum.splits)
    with nums show ?thesis
      by (cases "es = []") (auto simp: check_batch_iff numbered_append store_ok_def stream_ok_def)
  qed
qed

section \<open>The world a client runs in\<close>

record 'd world =
  w_store :: "'d memory_store"
  w_bytes_of :: "'d \<Rightarrow> string + nat"
  w_uuid :: "nat \<Rightarrow> uuid"
  w_drawn :: nat
  w_clock :: nat
  w_rivals :: "(session_id \<times> 'd envelope list) list"

definition draw_uuid :: "'d world \<Rightarrow> uuid \<times> 'd world" where
  "draw_uuid w = (w_uuid w (w_drawn w), w\<lparr>w_drawn := Suc (w_drawn w)\<rparr>)"

text \<open>What another holder of the store appends, at the version it finds.\<close>

definition rival_turn :: "'d world \<Rightarrow> 'd world" where
  "rival_turn w =
     (case w_rivals w of
        [] \<Rightarrow> w
      | (k, es) # rest \<Rightarrow>
          w\<lparr>w_rivals := rest,
            w_store := snd (append_events (w_bytes_of w) k (last_sequence (stream_of (w_store w) k)) es
                              (w_store w))\<rparr>)"

definition world_append ::
  "session_id \<Rightarrow> nat \<Rightarrow> 'd envelope list \<Rightarrow> 'd world \<Rightarrow> (store_error + nat) \<times> 'd world" where
  "world_append k v es w =
     (let w' = rival_turn w;
          (r, s) = append_events (w_bytes_of w') k v es (w_store w')
      in (r, w'\<lparr>w_store := s\<rparr>))"

text \<open>\<open>EventEnvelope::new\<close>: a fresh identifier and the time of day.\<close>

definition envelope_new ::
  "session_id \<Rightarrow> nat \<Rightarrow> principal \<Rightarrow> event_id option \<Rightarrow> uuid \<Rightarrow> nat \<Rightarrow> string \<Rightarrow> 'd event_payload
    \<Rightarrow> 'd world \<Rightarrow> 'd envelope \<times> 'd world" where
  "envelope_new session sequence actor causation correlation schema kind payload w =
     (let (fresh, w') = draw_uuid w
      in (\<lparr>ev_id = fresh, ev_session = session, ev_sequence = sequence,
           ev_occurred_at_ms = w_clock w, ev_actor = actor, ev_causation = causation,
           ev_correlation = correlation, ev_schema = schema, ev_kind = kind,
           ev_payload = payload\<rparr>, w'))"

fun is_conflict :: "store_error \<Rightarrow> bool" where
  "is_conflict (Conflict _ _) = True"
| "is_conflict _ = False"

section \<open>Catching up\<close>

text \<open>
  The loop both projections of a stream (the task graph and the checklist) use to read what
  was appended since they last looked: a page at a time, each page folded in, the version
  moved to the last event of the page.
\<close>

definition max_catch_up_batch :: nat where
  "max_catch_up_batch = 256"

fun replay_batch :: "('e \<Rightarrow> ('g, 'x, unit) effect) \<Rightarrow> 'e list \<Rightarrow> ('g, 'x, unit) effect" where
  "replay_batch rp [] g = (Inr (), g)"
| "replay_batch rp (e # es) g =
     (case rp e g of (Inl x, g') \<Rightarrow> (Inl x, g') | (Inr _, g') \<Rightarrow> replay_batch rp es g')"

lemma length_filter_lt:
  "(\<And>x. P x \<Longrightarrow> Q x) \<Longrightarrow> x \<in> set xs \<Longrightarrow> Q x \<Longrightarrow> \<not> P x \<Longrightarrow>
   length (filter P xs) < length (filter Q xs)"
proof (induction xs)
  case (Cons y xs)
  have "length (filter P xs) \<le> length (filter Q xs)"
    using Cons.prems(1) by (induction xs) (auto intro: le_SucI)
  with Cons show ?case
    by (cases "x = y") (auto simp: less_Suc_eq_le)
qed simp

lemma read_events_new:
  assumes "read_events s k (Suc v) limit = Inr page" and "page \<noteq> []"
  shows "last page \<in> set (stream_of s k) \<and> v < ev_sequence (last page)"
proof -
  have "last page \<in> set page" using assms(2) by simp
  with assms(1) show ?thesis
    by (auto simp: read_events_def split: if_splits dest!: in_set_takeD)
qed

function catch_up_with ::
  "('d envelope \<Rightarrow> ('g, 'x, unit) effect) \<Rightarrow> (nat \<Rightarrow> 'g \<Rightarrow> 'g) \<Rightarrow> 'x \<Rightarrow> (store_error \<Rightarrow> 'x)
    \<Rightarrow> 'd memory_store \<Rightarrow> session_id \<Rightarrow> nat \<Rightarrow> ('g, 'x, unit) effect" where
  "catch_up_with rp set_version overflow wrap s k v g =
     (case checked_add v 1 of
        None \<Rightarrow> (Inl overflow, g)
      | Some from_sequence \<Rightarrow>
          (case read_events s k from_sequence max_catch_up_batch of
             Inl e \<Rightarrow> (Inl (wrap e), g)
           | Inr page \<Rightarrow>
               if page = [] then (Inr (), g)
               else (case replay_batch rp page g of
                       (Inl x, g') \<Rightarrow> (Inl x, g')
                     | (Inr _, g') \<Rightarrow>
                         catch_up_with rp set_version overflow wrap s k (ev_sequence (last page))
                           (set_version (ev_sequence (last page)) g'))))"
  by pat_completeness auto
termination
proof (relation "measure (\<lambda>(_, _, _, _, s, k, v, _).
    length (filter (\<lambda>e. v < ev_sequence e) (stream_of s k)))", goal_cases)
  case (2 rp set_version overflow wrap s k v g f page r g' u)
  then have "last page \<in> set (stream_of s k) \<and> v < ev_sequence (last page)"
    by (intro read_events_new) (auto simp: checked_add_eq_Some)
  then show ?case
    by (auto intro!: length_filter_lt)
qed simp

declare catch_up_with.simps [simp del]

locale projection =
  fixes rp :: "'d envelope \<Rightarrow> ('g, 'x, unit) effect"
    and set_version :: "nat \<Rightarrow> 'g \<Rightarrow> 'g"
  assumes replay_version: "rp e (set_version n g) = (fst (rp e g), set_version n (snd (rp e g)))"
    and set_version_twice: "set_version m (set_version n g) = set_version m g"
begin

lemma replay_batch_version:
  "replay_batch rp es (set_version n g) =
     (fst (replay_batch rp es g), set_version n (snd (replay_batch rp es g)))"
  by (induction es arbitrary: g) (auto simp: replay_version split: prod.splits sum.splits)

lemma replay_batch_append:
  "replay_batch rp (es @ fs) g =
     (case replay_batch rp es g of (Inl x, g') \<Rightarrow> (Inl x, g') | (Inr _, g') \<Rightarrow> replay_batch rp fs g')"
  by (induction es arbitrary: g) (auto split: prod.splits sum.splits)

text \<open>
  Reading by pages is reading at once: the page size does not show in the result, and the
  loop ends at the end of the stream.
\<close>

lemma catch_up_is_replay:
  assumes "store_ok s" and "length (stream_of s k) < u64_max" and "v \<le> length (stream_of s k)"
    and "replay_batch rp (drop v (stream_of s k)) g = (Inr (), g')"
  shows "catch_up_with rp set_version overflow wrap s k v g =
    (Inr (), if v < length (stream_of s k) then set_version (length (stream_of s k)) g' else g')"
  using assms(3,4)
proof (induction "length (stream_of s k) - v" arbitrary: v g g' rule: less_induct)
  case less
  let ?es = "stream_of s k"
  let ?page = "take max_catch_up_batch (drop v ?es)"
  have page: "read_events s k (Suc v) max_catch_up_batch = Inr ?page"
    using assms(1) by (rule memory.read_is)
  have next_v: "checked_add v 1 = Some (Suc v)"
    using less.prems(1) assms(2) by (simp add: checked_add_eq_Some)
  show ?case
  proof (cases "v < length ?es")
    case False
    with less.prems page next_v show ?thesis
      by (simp add: catch_up_with.simps [of rp])
  next
    case True
    let ?v = "v + length ?page"
    have ne: "?page \<noteq> []" and len: "v < ?v" "?v \<le> length ?es"
      using True by (auto simp: max_catch_up_batch_def)
    have last_page: "ev_sequence (last ?page) = ?v"
      using memory.events_ok [OF assms(1), of k] less.prems(1) ne
      by (intro numbered_last numbered_page) (simp_all add: stream_ok_def)
    have split: "drop v ?es = ?page @ drop ?v ?es"
      using append_take_drop_id [of max_catch_up_batch "drop v ?es"]
      by (cases "max_catch_up_batch \<le> length ?es - v") (simp_all add: add.commute)
    have "replay_batch rp (?page @ drop ?v ?es) g = (Inr (), g')"
      by (rule less.prems(2) [unfolded arg_cong [OF split, of "\<lambda>es. replay_batch rp es g"]])
    then obtain g1 where first: "replay_batch rp ?page g = (Inr (), g1)"
      and rest: "replay_batch rp (drop ?v ?es) g1 = (Inr (), g')"
      unfolding replay_batch_append by (auto split: prod.splits sum.splits)
    have rest': "replay_batch rp (drop ?v ?es) (set_version ?v g1) = (Inr (), set_version ?v g')"
      using rest by (simp add: replay_batch_version)
    have smaller: "length ?es - ?v < length ?es - v"
      using True len(1) by (rule diff_less_mono2 [rotated])
    have "catch_up_with rp set_version overflow wrap s k v g =
        catch_up_with rp set_version overflow wrap s k ?v (set_version ?v g1)"
      using page next_v ne first last_page by (subst catch_up_with.simps) simp
    also have "\<dots> = (Inr (), if ?v < length ?es then set_version (length ?es) (set_version ?v g')
        else set_version ?v g')"
      by (rule less.hyps [OF smaller len(2) rest'])
    also have "\<dots> = (Inr (), set_version (length ?es) g')"
      using len by (auto simp: set_version_twice le_antisym simp del: length_take length_drop)
    finally show ?thesis using True by simp
  qed
qed

end

end
