(* ===== verification/Record_Types.thy ===== *)
theory Record_Types
  imports Capability
begin

text \<open>
  The records other components keep in the event store beside the task graph: recorded checks
  (\<^verbatim>\<open>crates/arsy-kernel/src/validation.rs\<close>), memory records (\<^verbatim>\<open>crates/arsy-kernel/src/memory.rs\<close>)
  and context summaries (\<^verbatim>\<open>crates/arsy-kernel/src/context.rs\<close>).
\<close>

section \<open>Recorded checks\<close>

datatype validation_outcome = Check_Passed | Check_Failed

record validation_record =
  vr_schema :: nat
  vr_sequence :: nat
  vr_operation :: string
  vr_command :: string
  vr_command_digest :: state_version
  vr_artifact :: artifact_id
  vr_task :: "task_id option"
  vr_attempt :: "attempt_id option"
  vr_grants :: "grant_id list"
  vr_workspace_revision :: "workspace_version option"
  vr_outcome :: validation_outcome
  vr_detail :: string
  vr_recorded_at_ms :: nat

section \<open>Memory records\<close>

type_synonym memory_id = uuid

datatype memory_scope =
  Working_Memory | Session_Memory string | Task_Memory string | Repository_Memory
| Branch_Memory string | User_Memory | Team_Memory string | Heuristic

datatype confidence = Reported | Observed | Confirmed

datatype memory_status = Active | Superseded_Memory | Revoked

record memory_record =
  mr_id :: memory_id
  mr_scope :: memory_scope
  mr_claim :: artifact_id
  mr_provenance :: "artifact_id list"
  mr_confidence :: confidence
  mr_origin :: policy_source
  mr_author :: principal
  mr_created_at_ms :: nat
  mr_updated_at_ms :: nat
  mr_expires_at_ms :: "nat option"
  mr_status :: memory_status
  mr_supersedes :: "memory_id option"
  mr_superseded_by :: "memory_id option"
  mr_revocation :: "string option"

section \<open>Context fragments and summaries\<close>

type_synonym fragment_id = uuid

datatype fragment_kind =
  Instruction | Task_Fragment | Evidence | Tool_State | Model_Output | Summary

datatype fragment_source_kind =
  From_System | From_User | From_Tool | From_Repository | From_Model | Derived

datatype context_scope =
  Global | Session_Scope session_id | Task_Scope task_id | Resource_Scope resource_ref

datatype fragment_authority = Trusted | Untrusted

datatype freshness = Current | Observed_At nat | At_Revision string

record context_fragment =
  cf_id :: fragment_id
  cf_kind :: fragment_kind
  cf_source :: resource_ref
  cf_source_kind :: fragment_source_kind
  cf_scope :: context_scope
  cf_content :: artifact_id
  cf_tokens :: nat
  cf_authority :: fragment_authority
  cf_confidence :: nat
  cf_freshness :: freshness
  cf_dependencies :: "fragment_id list"

record event_citation =
  ec_id :: event_id
  ec_sequence :: nat

record compaction_summary =
  cs_summary :: context_fragment
  cs_citations :: "event_citation list"

end
