(* ===== verification/Task_Types.thy ===== *)
theory Task_Types
  imports Operation Events Record_Types
begin

text \<open>
  The data of the task graph (\<^verbatim>\<open>crates/arsy-kernel/src/orchestration.rs\<close>) and of the checklist
  that shares its stream (\<^verbatim>\<open>crates/arsy-kernel/src/todo.rs\<close>): budgets, task and attempt states,
  nodes, attempts, result contracts, messages, workspace claims, acceptance criteria, join
  policies, and the events of a session as the two projections read them.

  An event's JSON body is written with \<open>serde\<close> and read back field by field; the model keeps,
  for each kind of event, what reading each field gives: a value, or the message of the
  \<open>InvalidEvent\<close> error the code builds when the field is missing or does not decode
  (\<open>'a field\<close>). What a command of this program writes decodes to what was written.
\<close>

section \<open>Budgets\<close>

record budget =
  b_tokens :: nat
  b_cost_micros :: nat
  b_wall_ms :: nat

definition budget_default :: budget where
  "budget_default = \<lparr>b_tokens = 0, b_cost_micros = 0, b_wall_ms = 0\<rparr>"

definition fits_within :: "budget \<Rightarrow> budget \<Rightarrow> bool" where
  "fits_within b parent \<longleftrightarrow>
     b_tokens b \<le> b_tokens parent \<and> b_cost_micros b \<le> b_cost_micros parent \<and>
     b_wall_ms b \<le> b_wall_ms parent"

definition budget_add :: "budget \<Rightarrow> budget \<Rightarrow> budget" where
  "budget_add b c =
     \<lparr>b_tokens = saturating_add (b_tokens b) (b_tokens c),
      b_cost_micros = saturating_add (b_cost_micros b) (b_cost_micros c),
      b_wall_ms = saturating_add (b_wall_ms b) (b_wall_ms c)\<rparr>"

definition budget_sub :: "budget \<Rightarrow> budget \<Rightarrow> budget" where
  "budget_sub b c =
     \<lparr>b_tokens = b_tokens b - b_tokens c, b_cost_micros = b_cost_micros b - b_cost_micros c,
      b_wall_ms = b_wall_ms b - b_wall_ms c\<rparr>"

record partial_evidence =
  pe_reason :: string
  pe_remaining :: budget

section \<open>States\<close>

datatype workspace_requirement = ReadOnlySnapshot | IsolatedWriter

datatype task_state =
  Task_Pending | Task_Ready | Task_Blocked | Task_Running | Task_Completed | Task_Verified
| Task_Failed | Task_Cancelled

datatype attempt_state =
  At_Starting | At_Running | At_Waiting | At_Cancelling | At_Completed | At_Failed | At_Cancelled
| At_Expired | At_Superseded

definition is_terminal :: "attempt_state \<Rightarrow> bool" where
  "is_terminal s \<longleftrightarrow> s \<in> {At_Completed, At_Failed, At_Cancelled, At_Expired, At_Superseded}"

definition is_live :: "attempt_state \<Rightarrow> bool" where
  "is_live s \<longleftrightarrow> s \<in> {At_Starting, At_Running, At_Waiting, At_Cancelling}"

lemma live_or_terminal: "is_live s \<longleftrightarrow> \<not> is_terminal s"
  by (cases s) (simp_all add: is_live_def is_terminal_def)

datatype retryability = Retryable | NotRetryable | UnknownOutcome

fun transition_allowed :: "task_state \<Rightarrow> task_state \<Rightarrow> bool" where
  "transition_allowed Task_Pending Task_Ready = True"
| "transition_allowed Task_Ready Task_Running = True"
| "transition_allowed Task_Pending Task_Failed = True"
| "transition_allowed Task_Ready Task_Failed = True"
| "transition_allowed Task_Running Task_Completed = True"
| "transition_allowed Task_Running Task_Failed = True"
| "transition_allowed Task_Completed Task_Verified = True"
| "transition_allowed Task_Failed Task_Ready = True"
| "transition_allowed Task_Pending Task_Blocked = True"
| "transition_allowed Task_Ready Task_Blocked = True"
| "transition_allowed Task_Pending Task_Cancelled = True"
| "transition_allowed Task_Ready Task_Cancelled = True"
| "transition_allowed Task_Running Task_Cancelled = True"
| "transition_allowed _ _ = False"

section \<open>Attempts and tasks\<close>

record model_decision =
  md_profile :: string
  md_model :: string

record attempt_request =
  aq_role :: string
  aq_assignee :: agent_id
  aq_model :: "model_decision option"
  aq_base_revision :: "workspace_version option"
  aq_started_at_ms :: nat
  aq_lease_expires_at_ms :: nat

record task_attempt =
  ta_schema :: nat
  ta_id :: attempt_id
  ta_task :: task_id
  ta_parent_task :: "task_id option"
  ta_parent_attempt :: "attempt_id option"
  ta_retry_of :: "attempt_id option"
  ta_role :: string
  ta_assignee :: agent_id
  ta_model :: "model_decision option"
  ta_workspace :: workspace_requirement
  ta_base_revision :: "workspace_version option"
  ta_authority :: "capability_grant list"
  ta_required_output :: string
  ta_reserved :: budget
  ta_used :: budget
  ta_lease_epoch :: nat
  ta_lease_expires_at_ms :: nat
  ta_started_at_ms :: nat
  ta_ended_at_ms :: "nat option"
  ta_state :: attempt_state
  ta_terminal_reason :: "string option"
  ta_retryable :: retryability
  ta_result :: "json option"
  ta_evidence :: "string list"

record attempt_outcome =
  ao_state :: attempt_state
  ao_used :: budget
  ao_reason :: "string option"
  ao_retryable :: retryability
  ao_result :: "json option"
  ao_evidence :: "string list"
  ao_ended_at_ms :: nat

definition outcome_completed :: "budget \<Rightarrow> json \<Rightarrow> nat \<Rightarrow> attempt_outcome" where
  "outcome_completed used result ended =
     \<lparr>ao_state = At_Completed, ao_used = used, ao_reason = None, ao_retryable = NotRetryable,
      ao_result = Some result, ao_evidence = [], ao_ended_at_ms = ended\<rparr>"

definition outcome_failed :: "budget \<Rightarrow> string \<Rightarrow> nat \<Rightarrow> attempt_outcome" where
  "outcome_failed used reason ended =
     \<lparr>ao_state = At_Failed, ao_used = used, ao_reason = Some reason, ao_retryable = NotRetryable,
      ao_result = None, ao_evidence = [], ao_ended_at_ms = ended\<rparr>"

record plan_task =
  pt_root :: "task_id option"
  pt_step_id :: string
  pt_todo_id :: string

record task_runtime =
  rt_parent :: "task_id option"
  rt_plan :: "plan_task option"
  rt_used :: budget
  rt_reserved :: budget
  rt_attempts :: "attempt_id list"
  rt_current_attempt :: "attempt_id option"
  rt_lease_epoch :: nat
  rt_settled :: bool

definition runtime_default :: task_runtime where
  "runtime_default =
     \<lparr>rt_parent = None, rt_plan = None, rt_used = budget_default, rt_reserved = budget_default,
      rt_attempts = [], rt_current_attempt = None, rt_lease_epoch = 0, rt_settled = False\<rparr>"

record task_node =
  tn_id :: task_id
  tn_goal :: string
  tn_dependencies :: "task_id list"
  tn_assignee :: "agent_id option"
  tn_required_output :: string
  tn_workspace :: workspace_requirement
  tn_budget :: budget
  tn_authority :: "capability_grant list"
  tn_state :: task_state
  tn_lease_expires_at_ms :: "nat option"
  tn_runtime :: task_runtime

definition available :: "task_node \<Rightarrow> budget" where
  "available n = budget_sub (budget_sub (tn_budget n) (rt_used (tn_runtime n))) (rt_reserved (tn_runtime n))"

text \<open>A change of the runtime part of a node.\<close>

definition on_runtime :: "(task_runtime \<Rightarrow> task_runtime) \<Rightarrow> task_node \<Rightarrow> task_node" where
  "on_runtime f n = n\<lparr>tn_runtime := f (tn_runtime n)\<rparr>"

section \<open>Result contracts\<close>

text \<open>Parsing the text of a schema is \<open>serde_json::from_str\<close>, the argument \<open>parse_json\<close>.\<close>

datatype result_contract = Text | Object "string list"

definition contract_parse :: "(string \<Rightarrow> json option) \<Rightarrow> string \<Rightarrow> result_contract" where
  "contract_parse parse_json required_output =
     (case parse_json required_output of
        None \<Rightarrow> Text
      | Some schema \<Rightarrow>
          if Option.bind (json_get schema ''type'') as_str \<noteq> Some ''object'' then Text
          else Object
            (case Option.bind (json_get schema ''required'') as_array of
               None \<Rightarrow> []
             | Some names \<Rightarrow> strings_of names))"

fun join_comma :: "string list \<Rightarrow> string" where
  "join_comma [] = []"
| "join_comma [x] = x"
| "join_comma (x # xs) = x @ '', '' @ join_comma xs"

fun violation :: "result_contract \<Rightarrow> json option \<Rightarrow> string option" where
  "violation c None = Some ''the attempt completed without a result''"
| "violation Text (Some JNull) = Some ''the attempt completed without a result''"
| "violation Text (Some (JString text)) =
     (if trim text = [] then Some ''the attempt completed with an empty result'' else None)"
| "violation Text (Some _) = None"
| "violation (Object required) (Some result) =
     (case as_object result of
        None \<Rightarrow> Some ''the required output is an object and the result is not one''
      | Some object \<Rightarrow>
          (let missing = filter (\<lambda>name. \<not> omap_has object name) required
           in if missing = [] then None
              else Some (''the result is missing '' @ join_comma missing)))"

section \<open>Messages, workspaces, criteria\<close>

datatype message_kind =
  Instruction | Question | Answer | Progress | PartialResult | ReviewerFeedback | Cancellation
| DependencyWakeup

record task_message =
  tm_id :: message_id
  tm_from :: task_id
  tm_to :: task_id
  tm_kind :: message_kind
  tm_body :: json
  tm_causation :: "message_id option"
  tm_sent_at_ms :: nat
  tm_delivered_at_ms :: "nat option"

datatype isolation_backend = GitWorktree | CopiedSnapshot
datatype dirty_disposition = Clean_Source | Refused | CapturedPatch string

record workspace_assignment =
  wa_id :: assignment_id
  wa_task :: task_id
  wa_attempt :: attempt_id
  wa_owner :: agent_id
  wa_repository :: string
  wa_source :: string
  wa_base_revision :: string
  wa_view :: string
  wa_backend :: isolation_backend
  wa_mutable :: bool
  wa_lease_epoch :: nat
  wa_expires_at_ms :: nat
  wa_dirty :: dirty_disposition
  wa_released :: bool

record writer_result =
  wr_assignment :: assignment_id
  wr_base_revision :: string
  wr_head_revision :: "string option"
  wr_patch_artifact :: "string option"
  wr_changed_files :: "string list"
  wr_validation :: "string list"
  wr_unresolved :: "string list"

datatype verifier = Command state_version | Review | Human | Unverifiable string

record acceptance_criterion =
  ac_id :: criterion_id
  ac_task :: task_id
  ac_statement :: string
  ac_verifier :: verifier
  ac_required :: bool
  ac_freshness_ms :: "nat option"
  ac_inapplicable :: "string option"

record criterion_judgment =
  jd_criterion :: criterion_id
  jd_actor :: principal
  jd_met :: bool
  jd_note :: string
  jd_workspace_revision :: "workspace_version option"
  jd_recorded_at_ms :: nat

record child_capability_request =
  cc_parent_grant :: nat
  cc_action :: capability_action
  cc_scope :: resource_scope
  cc_expires_at_ms :: "nat option"

section \<open>Join policies\<close>

datatype join_policy = All | Any_Of | Quorum nat

definition ended_well :: "task_state \<Rightarrow> bool" where
  "ended_well s \<longleftrightarrow> s = Task_Completed \<or> s = Task_Verified"

definition satisfied :: "join_policy \<Rightarrow> task_state list \<Rightarrow> bool" where
  "satisfied policy states =
     (let completed = length (filter ended_well states)
      in case policy of
           All \<Rightarrow> states \<noteq> [] \<and> completed = length states
         | Any_Of \<Rightarrow> completed > 0
         | Quorum required \<Rightarrow> required > 0 \<and> completed \<ge> required)"

section \<open>Checklist items\<close>

datatype todo_status = Todo_Pending | Todo_InProgress | Todo_Completed | Todo_Cancelled
datatype todo_author = By_User | By_Model

record todo_item =
  td_id :: string
  td_text :: string
  td_status :: todo_status
  td_depends_on :: "string list"
  td_author :: todo_author

section \<open>Events of a session\<close>

type_synonym 'a field = "string + 'a"

datatype session_event =
  Todo_Created "todo_item option" "task_id option" "string option"
| Todo_Updated "todo_item option"
| Todo_Reordered "string list"
| Ev_Task_Created "task_node field"
| Ev_Cycle_Detected task_id
| Ev_Plan_Approved "task_id list field" "string option field"
| Ev_Plan_Intent "task_id field" "json field"
| Ev_Scripted_Plan_Authorized "task_id field"
| Ev_Transitioned "task_id field" task_state "task_state field" "json option"
| Ev_Authorized "task_id field" "capability_grant list field"
| Ev_Authority_Narrowed "task_id field" "capability_grant list field"
| Ev_Budget_Used "task_id field" "budget field"
| Ev_Budget_Exhausted task_id partial_evidence
| Ev_Attempt_Started "task_attempt field"
| Ev_Attempt_Finished "attempt_id field" task_id "attempt_state field" "budget field"
    "string option" "retryability field" "json option" "string list field" "nat option"
| Ev_Attempt_Expired "task_id field" "attempt_id option" "string option"
| Ev_Attempt_State_Changed "attempt_id field" task_id "attempt_state field"
| Ev_Cancel_Requested "attempt_id field" task_id "string option"
| Ev_Pause_Requested "attempt_id field" task_id
| Ev_Resumed "attempt_id field" task_id
| Ev_Superseded "attempt_id field" task_id
| Ev_Trace "attempt_id field" task_id "string option" "json option"
| Ev_Criterion_Declared "acceptance_criterion field"
| Ev_Criterion_Judged "criterion_judgment field"
| Ev_Criterion_Retired "criterion_id field" "string option"
| Ev_Message_Sent "task_message field"
| Ev_Messages_Delivered "task_id field" "message_id list field" "nat option"
| Ev_Workspace_Assigned "workspace_assignment field"
| Ev_Workspace_Released "assignment_id field" task_id string
| Ev_Writer_Result "writer_result field" task_id
| Ev_Validation "validation_record option"
| Ev_Memory "memory_record option"
| Ev_Summary compaction_summary
| Ev_Other string json

primrec event_kind :: "session_event \<Rightarrow> string" where
  "event_kind (Todo_Created _ _ _) = ''todo.created''"
| "event_kind (Todo_Updated _) = ''todo.updated''"
| "event_kind (Todo_Reordered _) = ''todo.reordered''"
| "event_kind (Ev_Task_Created _) = ''task.created''"
| "event_kind (Ev_Cycle_Detected _) = ''task.cycle_detected''"
| "event_kind (Ev_Plan_Approved _ _) = ''task.plan_approved''"
| "event_kind (Ev_Plan_Intent _ _) = ''task.plan_intent''"
| "event_kind (Ev_Scripted_Plan_Authorized _) = ''task.scripted_plan_authorized''"
| "event_kind (Ev_Transitioned _ _ _ _) = ''task.transitioned''"
| "event_kind (Ev_Authorized _ _) = ''task.authorized''"
| "event_kind (Ev_Authority_Narrowed _ _) = ''task.authority_narrowed''"
| "event_kind (Ev_Budget_Used _ _) = ''task.budget_used''"
| "event_kind (Ev_Budget_Exhausted _ _) = ''task.budget_exhausted''"
| "event_kind (Ev_Attempt_Started _) = ''task.attempt_started''"
| "event_kind (Ev_Attempt_Finished _ _ _ _ _ _ _ _ _) = ''task.attempt_finished''"
| "event_kind (Ev_Attempt_Expired _ _ _) = ''task.attempt_expired''"
| "event_kind (Ev_Attempt_State_Changed _ _ _) = ''task.attempt_state_changed''"
| "event_kind (Ev_Cancel_Requested _ _ _) = ''task.attempt_cancel_requested''"
| "event_kind (Ev_Pause_Requested _ _) = ''task.attempt_pause_requested''"
| "event_kind (Ev_Resumed _ _) = ''task.attempt_resumed''"
| "event_kind (Ev_Superseded _ _) = ''task.attempt_superseded''"
| "event_kind (Ev_Trace _ _ _ _) = ''task.attempt_trace''"
| "event_kind (Ev_Criterion_Declared _) = ''task.criterion_declared''"
| "event_kind (Ev_Criterion_Judged _) = ''task.criterion_judged''"
| "event_kind (Ev_Criterion_Retired _ _) = ''task.criterion_retired''"
| "event_kind (Ev_Message_Sent _) = ''task.message_sent''"
| "event_kind (Ev_Messages_Delivered _ _ _) = ''task.messages_delivered''"
| "event_kind (Ev_Workspace_Assigned _) = ''workspace.assigned''"
| "event_kind (Ev_Workspace_Released _ _ _) = ''workspace.released''"
| "event_kind (Ev_Writer_Result _ _) = ''workspace.writer_result''"
| "event_kind (Ev_Validation _) = ''validation.recorded''"
| "event_kind (Ev_Memory _) = ''memory.recorded''"
| "event_kind (Ev_Summary _) = ''summary.created''"
| "event_kind (Ev_Other kind _) = kind"

section \<open>Laws of the data\<close>

lemma fits_within_refl [simp]: "fits_within b b"
  by (simp add: fits_within_def)

lemma fits_within_trans: "fits_within a b \<Longrightarrow> fits_within b c \<Longrightarrow> fits_within a c"
  by (auto simp: fits_within_def)

lemma fits_within_antisym: "fits_within a b \<Longrightarrow> fits_within b a \<Longrightarrow> a = b"
  by (auto simp: fits_within_def intro: budget.equality)

lemma budget_sub_fits [simp]: "fits_within (budget_sub b c) b"
  by (simp add: fits_within_def budget_sub_def)

lemma available_fits [simp]: "fits_within (available n) (tn_budget n)"
  by (auto simp: available_def intro: fits_within_trans budget_sub_fits)

lemma on_runtime_sel [simp]:
  "tn_id (on_runtime f n) = tn_id n" "tn_state (on_runtime f n) = tn_state n"
  "tn_budget (on_runtime f n) = tn_budget n" "tn_dependencies (on_runtime f n) = tn_dependencies n"
  "tn_authority (on_runtime f n) = tn_authority n" "tn_runtime (on_runtime f n) = f (tn_runtime n)"
  "tn_workspace (on_runtime f n) = tn_workspace n" "tn_assignee (on_runtime f n) = tn_assignee n"
  "tn_required_output (on_runtime f n) = tn_required_output n" "tn_goal (on_runtime f n) = tn_goal n"
  "tn_lease_expires_at_ms (on_runtime f n) = tn_lease_expires_at_ms n"
  by (simp_all add: on_runtime_def)

text \<open>The states a task never leaves, and the only way to be verified.\<close>

fun_cases transition_from_verified: "transition_allowed Task_Verified t = True"
fun_cases transition_to_verified: "transition_allowed s Task_Verified = True"

lemma transition_final:
  "s \<in> {Task_Verified, Task_Cancelled, Task_Blocked} \<Longrightarrow> \<not> transition_allowed s t"
  by (cases t) auto

lemma transition_verified: "transition_allowed s Task_Verified \<longleftrightarrow> s = Task_Completed"
  by (cases s) auto

end
