(* ===== verification/Task_Replay.thy ===== *)
theory Task_Replay
  imports Task_Types
begin

text \<open>
  The task graph as a projection of its session's stream: the state \<open>TaskGraph\<close> keeps
  (\<^verbatim>\<open>crates/arsy-kernel/src/orchestration.rs\<close>) and one function per \<open>replay_*\<close> method, each
  on the graph it mutates. A replay that fails keeps what it had changed before the error, as
  the method on \<open>&mut self\<close> does.
\<close>

section \<open>The graph\<close>

datatype graph_error =
  AlreadyAuthorized task_id
| DuplicateTask task_id
| UnknownTask task_id
| UnknownAttempt attempt_id
| NotAPlanTask task_id
| PlanNotApproved task_id
| PlanApprovalConflict task_id
| FencedAttempt attempt_id
| NotTerminal attempt_state
| NotLive attempt_state
| AlreadyCancelling attempt_id
| ContractViolation attempt_id string
| WillNotRetry attempt_id retryability
| RetriesExhausted task_id
| NothingToRetry task_id
| StillRunning attempt_id
| Ended task_id task_state
| InboxFull task_id
| UnknownAssignment assignment_id
| ViewAlreadyOwned agent_id string
| WriterOnSource string
| DirtySource string
| NotAWriter assignment_id
| DuplicateCriterion criterion_id
| UnknownCriterion criterion_id
| NotAJudgment criterion_id
| NotAProof task_id string
| Cycle task_id
| InvalidTransition task_state task_state
| BudgetExhausted partial_evidence
| BudgetExpansion
| MissingAssignee
| MissingParentGrant
| Attenuation attenuation_error
| InvalidEvent string
| Overflow
| StoreFailed store_error

record graph =
  g_session :: session_id
  g_actor :: principal
  g_version :: nat
  g_last_event :: "event_id option"
  g_nodes :: "(task_id, task_node) omap"
  g_dependents :: "(task_id, task_id oset) omap"
  g_approved_plan :: "(task_id, string option) omap"
  g_plan_intents :: "(task_id, json) omap"
  g_plan_todos :: "(task_id \<times> string, string) omap"
  g_todo_ids :: "string oset"
  g_scripted_plan_roots :: "task_id oset"
  g_block_seeds :: "task_id oset"
  g_reconciling :: bool
  g_attempts :: "(attempt_id, task_attempt) omap"
  g_messages :: "(message_id, task_message) omap"
  g_inbox :: "(task_id, message_id list) omap"
  g_traces :: "(attempt_id, json list) omap"
  g_paused :: "attempt_id oset"
  g_assignments :: "(assignment_id, workspace_assignment) omap"
  g_writer_results :: "(assignment_id, writer_result) omap"
  g_criteria :: "(criterion_id, acceptance_criterion) omap"
  g_judgments :: "(criterion_id, criterion_judgment list) omap"

definition graph_empty :: "session_id \<Rightarrow> principal \<Rightarrow> graph" where
  "graph_empty session actor =
     \<lparr>g_session = session, g_actor = actor, g_version = 0, g_last_event = None, g_nodes = [],
      g_dependents = [], g_approved_plan = [], g_plan_intents = [], g_plan_todos = [],
      g_todo_ids = [], g_scripted_plan_roots = [], g_block_seeds = [], g_reconciling = False,
      g_attempts = [], g_messages = [], g_inbox = [], g_traces = [], g_paused = [],
      g_assignments = [], g_writer_results = [], g_criteria = [], g_judgments = []\<rparr>"

type_synonym replayed = "(graph, graph_error, unit) effect"

text \<open>The commonest change: one node, one attempt.\<close>

definition on_node :: "task_id \<Rightarrow> (task_node \<Rightarrow> task_node) \<Rightarrow> graph \<Rightarrow> graph" where
  "on_node i f g = g\<lparr>g_nodes := omap_modify i f (g_nodes g)\<rparr>"

definition on_attempt :: "attempt_id \<Rightarrow> (task_attempt \<Rightarrow> task_attempt) \<Rightarrow> graph \<Rightarrow> graph" where
  "on_attempt i f g = g\<lparr>g_attempts := omap_modify i f (g_attempts g)\<rparr>"

definition get_node :: "graph \<Rightarrow> task_id \<Rightarrow> graph_error + task_node" where
  "get_node g i = ok_or (UnknownTask i) (omap_get (g_nodes g) i)"

definition get_attempt :: "graph \<Rightarrow> attempt_id \<Rightarrow> graph_error + task_attempt" where
  "get_attempt g i = ok_or (UnknownAttempt i) (omap_get (g_attempts g) i)"

lemma on_node_sel [simp]:
  "g_nodes (on_node i f g) = omap_modify i f (g_nodes g)"
  "g_session (on_node i f g) = g_session g" "g_actor (on_node i f g) = g_actor g"
  "g_version (on_node i f g) = g_version g" "g_last_event (on_node i f g) = g_last_event g"
  "g_dependents (on_node i f g) = g_dependents g"
  "g_approved_plan (on_node i f g) = g_approved_plan g"
  "g_plan_intents (on_node i f g) = g_plan_intents g"
  "g_plan_todos (on_node i f g) = g_plan_todos g" "g_todo_ids (on_node i f g) = g_todo_ids g"
  "g_scripted_plan_roots (on_node i f g) = g_scripted_plan_roots g"
  "g_block_seeds (on_node i f g) = g_block_seeds g"
  "g_reconciling (on_node i f g) = g_reconciling g" "g_attempts (on_node i f g) = g_attempts g"
  "g_messages (on_node i f g) = g_messages g" "g_inbox (on_node i f g) = g_inbox g"
  "g_traces (on_node i f g) = g_traces g" "g_paused (on_node i f g) = g_paused g"
  "g_assignments (on_node i f g) = g_assignments g"
  "g_writer_results (on_node i f g) = g_writer_results g"
  "g_criteria (on_node i f g) = g_criteria g" "g_judgments (on_node i f g) = g_judgments g"
  by (simp_all add: on_node_def)

lemma on_attempt_sel [simp]:
  "g_attempts (on_attempt i f g) = omap_modify i f (g_attempts g)"
  "g_session (on_attempt i f g) = g_session g" "g_actor (on_attempt i f g) = g_actor g"
  "g_version (on_attempt i f g) = g_version g" "g_last_event (on_attempt i f g) = g_last_event g"
  "g_nodes (on_attempt i f g) = g_nodes g" "g_dependents (on_attempt i f g) = g_dependents g"
  "g_approved_plan (on_attempt i f g) = g_approved_plan g"
  "g_plan_intents (on_attempt i f g) = g_plan_intents g"
  "g_plan_todos (on_attempt i f g) = g_plan_todos g"
  "g_todo_ids (on_attempt i f g) = g_todo_ids g"
  "g_scripted_plan_roots (on_attempt i f g) = g_scripted_plan_roots g"
  "g_block_seeds (on_attempt i f g) = g_block_seeds g"
  "g_reconciling (on_attempt i f g) = g_reconciling g"
  "g_messages (on_attempt i f g) = g_messages g" "g_inbox (on_attempt i f g) = g_inbox g"
  "g_traces (on_attempt i f g) = g_traces g" "g_paused (on_attempt i f g) = g_paused g"
  "g_assignments (on_attempt i f g) = g_assignments g"
  "g_writer_results (on_attempt i f g) = g_writer_results g"
  "g_criteria (on_attempt i f g) = g_criteria g" "g_judgments (on_attempt i f g) = g_judgments g"
  by (simp_all add: on_attempt_def)

text \<open>\<open>field(data, name)?\<close>, with and without its own message.\<close>

definition decoded :: "'a field \<Rightarrow> graph_error + 'a" where
  "decoded f = (case f of Inl message \<Rightarrow> Inl (InvalidEvent message) | Inr x \<Rightarrow> Inr x)"

definition decoded_or :: "string \<Rightarrow> 'a field \<Rightarrow> graph_error + 'a" where
  "decoded_or message f = (case f of Inl _ \<Rightarrow> Inl (InvalidEvent message) | Inr x \<Rightarrow> Inr x)"

definition field_or :: "'a \<Rightarrow> 'a field \<Rightarrow> 'a" where
  "field_or d f = (case f of Inl _ \<Rightarrow> d | Inr x \<Rightarrow> x)"

definition event_task_id :: "task_id field \<Rightarrow> graph_error + task_id" where
  "event_task_id f = decoded_or ''event has no task ID'' f"

lemma decoded_simps [simp]:
  "decoded (Inr x) = Inr x" "decoded_or m (Inr x) = Inr x" "field_or d (Inr x) = x"
  "event_task_id (Inr i) = Inr i"
  by (simp_all add: decoded_def decoded_or_def field_or_def event_task_id_def)

lemma decoded_eq_Inr [simp]:
  "decoded f = Inr x \<longleftrightarrow> f = Inr x" "decoded_or m f = Inr x \<longleftrightarrow> f = Inr x"
  "event_task_id t = Inr i \<longleftrightarrow> t = Inr i"
  by (simp_all add: decoded_def decoded_or_def event_task_id_def split: sum.split)

section \<open>Questions the graph answers about itself\<close>

definition is_permanently_stopped :: "graph \<Rightarrow> task_id \<Rightarrow> bool" where
  "is_permanently_stopped g i =
     (case omap_get (g_nodes g) i of
        None \<Rightarrow> False
      | Some n \<Rightarrow>
          (case tn_state n of
             Task_Cancelled \<Rightarrow> True
           | Task_Blocked \<Rightarrow> True
           | Task_Failed \<Rightarrow>
               (let attempts = rt_attempts (tn_runtime n)
                in case (if attempts = [] then None
                         else omap_get (g_attempts g) (last attempts)) of
                     None \<Rightarrow> True
                   | Some a \<Rightarrow> ta_retryable a \<noteq> Retryable)
           | _ \<Rightarrow> False))"

definition is_plan_approved :: "graph \<Rightarrow> task_id \<Rightarrow> bool" where
  "is_plan_approved g i = omap_has (g_approved_plan g) i"

definition validate_plan_task :: "graph \<Rightarrow> task_id \<Rightarrow> graph_error + unit" where
  "validate_plan_task g i =
     and_then (get_node g i) (\<lambda>n.
     and_then (ok_or (NotAPlanTask i) (rt_plan (tn_runtime n))) (\<lambda>plan.
       (let root = (case pt_root plan of
                      None \<Rightarrow> None
                    | Some r \<Rightarrow> if r \<noteq> i then omap_get (g_nodes g) r else None)
        in if (case root of None \<Rightarrow> True | Some r \<Rightarrow> \<not> fits_within (tn_budget n) (tn_budget r))
              \<or> pt_step_id plan = [] \<or> pt_todo_id plan = [] \<or> b_tokens (tn_budget n) = 0
              \<or> tn_workspace n \<noteq> IsolatedWriter
           then Inl (NotAPlanTask i) else Inr ())))"

section \<open>Settling\<close>

definition settle :: "task_id \<Rightarrow> graph \<Rightarrow> graph" where
  "settle i g =
     (case omap_get (g_nodes g) i of
        None \<Rightarrow> g
      | Some n \<Rightarrow>
          if rt_settled (tn_runtime n) then g
          else
            let g' = on_node i (on_runtime (\<lambda>r. r\<lparr>rt_settled := True\<rparr>)) g
            in case rt_parent (tn_runtime n) of
                 None \<Rightarrow> g'
               | Some parent \<Rightarrow>
                   on_node parent
                     (on_runtime (\<lambda>r. r\<lparr>rt_reserved := budget_sub (rt_reserved r) (tn_budget n),
                        rt_used := budget_add (rt_used r) (rt_used (tn_runtime n))\<rparr>)) g')"

section \<open>Replaying tasks\<close>

fun replay_todo_created :: "todo_item option \<Rightarrow> task_id option \<Rightarrow> string option \<Rightarrow> replayed" where
  "replay_todo_created None _ _ g = (Inr (), g)"
| "replay_todo_created (Some item) root step g =
     (let g' = g\<lparr>g_todo_ids := oset_insert (td_id item) (g_todo_ids g)\<rparr>
      in (Inr (),
          case (root, step) of
            (Some r, Some s) \<Rightarrow> g'\<lparr>g_plan_todos := omap_insert (r, s) (td_id item) (g_plan_todos g')\<rparr>
          | _ \<Rightarrow> g'))"

definition replay_plan_intent :: "task_id field \<Rightarrow> json field \<Rightarrow> replayed" where
  "replay_plan_intent root steps g =
     need (decoded root) (\<lambda>r. need (decoded steps) (\<lambda>s g.
       if \<not> omap_has (g_nodes g) r \<or> as_array s = None
       then (Inl (InvalidEvent ''invalid plan intent''), g)
       else (Inr (), g\<lparr>g_plan_intents := omap_insert r s (g_plan_intents g)\<rparr>))) g"

definition replay_scripted_plan_authorized :: "task_id field \<Rightarrow> replayed" where
  "replay_scripted_plan_authorized root g =
     need (decoded root) (\<lambda>r g.
       if \<not> omap_has (g_nodes g) r then (Inl (UnknownTask r), g)
       else (Inr (), g\<lparr>g_scripted_plan_roots := oset_insert r (g_scripted_plan_roots g)\<rparr>)) g"

fun check_approval :: "graph \<Rightarrow> string option \<Rightarrow> task_id list \<Rightarrow> graph_error + unit" where
  "check_approval g note [] = Inr ()"
| "check_approval g note (i # ids) =
     and_then (validate_plan_task g i) (\<lambda>_.
       case omap_get (g_approved_plan g) i of
         None \<Rightarrow> check_approval g note ids
       | Some recorded \<Rightarrow>
           if recorded \<noteq> note then Inl (PlanApprovalConflict i) else check_approval g note ids)"

definition replay_plan_approved :: "task_id list field \<Rightarrow> string option field \<Rightarrow> replayed" where
  "replay_plan_approved task_ids note g =
     need (decoded_or ''plan approval has no task IDs'' task_ids) (\<lambda>ids g.
       if ids = [] then (Inl (InvalidEvent ''plan approval has no task IDs''), g)
       else need (decoded_or ''plan approval has invalid note'' note) (\<lambda>n g.
         need (check_approval g n ids) (\<lambda>_ g.
           (Inr (), g\<lparr>g_approved_plan := fold (\<lambda>i. omap_insert i n) ids (g_approved_plan g)\<rparr>))
         g) g) g"

definition add_dependent :: "task_id \<Rightarrow> task_id \<Rightarrow> graph \<Rightarrow> graph" where
  "add_dependent node dependency g =
     (let known = (case omap_get (g_dependents g) dependency of None \<Rightarrow> [] | Some s \<Rightarrow> s);
          g' = g\<lparr>g_dependents := omap_insert dependency (oset_insert node known) (g_dependents g)\<rparr>
      in if is_permanently_stopped g' dependency
         then g'\<lparr>g_block_seeds := oset_insert dependency (g_block_seeds g')\<rparr> else g')"

definition seed :: "task_id \<Rightarrow> graph \<Rightarrow> graph" where
  "seed i g = g\<lparr>g_block_seeds := oset_insert i (g_block_seeds g)\<rparr>"

definition replay_created :: "task_node field \<Rightarrow> replayed" where
  "replay_created node g =
     need (decoded_or ''task.created has no node'' node) (\<lambda>n g.
       (let g1 = (case rt_parent (tn_runtime n) of
                    None \<Rightarrow> g
                  | Some p \<Rightarrow>
                      on_node p (on_runtime (\<lambda>r. r\<lparr>rt_reserved :=
                        budget_add (rt_reserved r) (tn_budget n)\<rparr>)) g);
            blocked = (tn_state n \<in> {Task_Cancelled, Task_Blocked}
                       \<or> (tn_state n = Task_Failed \<and> rt_attempts (tn_runtime n) = []));
            g2 = (if blocked then seed (tn_id n) g1 else g1);
            g3 = fold (add_dependent (tn_id n)) (tn_dependencies n) g2
        in (Inr (), g3\<lparr>g_nodes := omap_insert (tn_id n) n (g_nodes g3)\<rparr>))) g"

definition replay_transitioned :: "task_id field \<Rightarrow> task_state field \<Rightarrow> replayed" where
  "replay_transitioned task_id to g =
     need (event_task_id task_id) (\<lambda>i g.
     need (decoded_or ''transition has no target'' to) (\<lambda>state g.
     need (get_node g i) (\<lambda>_ g.
       (let g1 = on_node i (\<lambda>n. n\<lparr>tn_state := state\<rparr>) g;
            g2 = (if is_permanently_stopped g1 i then seed i g1 else g1)
        in (Inr (), if state \<in> {Task_Completed, Task_Failed, Task_Cancelled} then settle i g2 else g2)))
       g) g) g"

definition replay_authority :: "task_id field \<Rightarrow> capability_grant list field \<Rightarrow> replayed" where
  "replay_authority task_id authority g =
     need (event_task_id task_id) (\<lambda>i g.
     need (decoded_or ''authority event has no authority'' authority) (\<lambda>grants g.
     need (get_node g i) (\<lambda>_ g. (Inr (), on_node i (\<lambda>n. n\<lparr>tn_authority := grants\<rparr>) g)) g) g) g"

definition replay_budget_used :: "task_id field \<Rightarrow> budget field \<Rightarrow> replayed" where
  "replay_budget_used task_id used g =
     need (event_task_id task_id) (\<lambda>i g.
     need (decoded_or ''budget event has no usage'' used) (\<lambda>u g.
     need (get_node g i) (\<lambda>n g.
       (let g1 = on_node i (on_runtime (\<lambda>r. r\<lparr>rt_used := budget_add (rt_used r) u\<rparr>)) g
        in (Inr (), case rt_current_attempt (tn_runtime n) of
                      None \<Rightarrow> g1
                    | Some a \<Rightarrow> on_attempt a (\<lambda>t. t\<lparr>ta_used := budget_add (ta_used t) u\<rparr>) g1))) g) g) g"

section \<open>Replaying attempts\<close>

definition replay_attempt_started :: "task_attempt field \<Rightarrow> replayed" where
  "replay_attempt_started attempt g =
     need (decoded_or ''attempt event has no attempt'' attempt) (\<lambda>a g.
     need (get_node g (ta_task a)) (\<lambda>_ g.
       (let g1 = on_node (ta_task a) (\<lambda>n. on_runtime
                   (\<lambda>r. r\<lparr>rt_lease_epoch := ta_lease_epoch a, rt_current_attempt := Some (ta_id a),
                         rt_attempts := rt_attempts r @ [ta_id a]\<rparr>)
                   (n\<lparr>tn_assignee := Some (ta_assignee a),
                      tn_lease_expires_at_ms := Some (ta_lease_expires_at_ms a),
                      tn_state := Task_Running\<rparr>)) g
        in (Inr (), g1\<lparr>g_attempts := omap_insert (ta_id a) a (g_attempts g1)\<rparr>))) g) g"

definition task_state_after :: "attempt_state \<Rightarrow> task_state" where
  "task_state_after s =
     (case s of At_Completed \<Rightarrow> Task_Completed | At_Cancelled \<Rightarrow> Task_Cancelled | _ \<Rightarrow> Task_Failed)"

definition replay_attempt_finished ::
  "attempt_id field \<Rightarrow> attempt_state field \<Rightarrow> budget field \<Rightarrow> string option \<Rightarrow> retryability field
    \<Rightarrow> json option \<Rightarrow> string list field \<Rightarrow> nat option \<Rightarrow> replayed" where
  "replay_attempt_finished attempt_id state used reason retryable outcome evidence ended g =
     need (decoded_or ''finish event has no attempt'' attempt_id) (\<lambda>i g.
     need (decoded_or ''finish event has no state'' state) (\<lambda>st g.
     need (get_attempt g i) (\<lambda>a g.
       (let u = field_or budget_default used;
            retry = field_or NotRetryable retryable;
            g1 = on_attempt i (\<lambda>t. t\<lparr>ta_state := st, ta_used := budget_add (ta_used t) u,
                   ta_ended_at_ms := ended, ta_terminal_reason := reason, ta_retryable := retry,
                   ta_result := (case outcome of Some JNull \<Rightarrow> None | _ \<Rightarrow> outcome),
                   ta_evidence := field_or [] evidence\<rparr>) g;
            terminal_failure = (st = At_Cancelled \<or> (st = At_Failed \<and> retry \<noteq> Retryable))
        in need (get_node g1 (ta_task a)) (\<lambda>_ g.
             (let g2 = settle (ta_task a) (on_node (ta_task a) (\<lambda>n. on_runtime
                         (\<lambda>r. r\<lparr>rt_used := budget_add (rt_used r) u, rt_current_attempt := None\<rparr>)
                         (n\<lparr>tn_lease_expires_at_ms := None, tn_state := task_state_after st\<rparr>)) g)
              in (Inr (), if terminal_failure then seed (ta_task a) g2 else g2))) g1)) g) g) g"

definition replay_attempt_expired :: "task_id field \<Rightarrow> attempt_id option \<Rightarrow> string option \<Rightarrow> replayed" where
  "replay_attempt_expired task_id attempt reason g =
     need (event_task_id task_id) (\<lambda>i g.
       (let g1 = (case attempt of
                    None \<Rightarrow> g
                  | Some a \<Rightarrow>
                      on_attempt a (\<lambda>t. t\<lparr>ta_state := At_Expired, ta_terminal_reason := reason\<rparr>) g)
        in need (get_node g1 i) (\<lambda>_ g.
             (Inr (), on_node i (\<lambda>n. on_runtime (\<lambda>r. r\<lparr>rt_current_attempt := None\<rparr>)
                (n\<lparr>tn_state := Task_Ready, tn_assignee := None, tn_lease_expires_at_ms := None\<rparr>)) g))
             g1)) g"

definition replay_attempt_state :: "attempt_id field \<Rightarrow> attempt_state field \<Rightarrow> replayed" where
  "replay_attempt_state attempt_id state g =
     need (decoded_or ''state event has no attempt'' attempt_id) (\<lambda>i g.
     need (decoded_or ''state event has no state'' state) (\<lambda>st g.
     need (get_attempt g i) (\<lambda>_ g. (Inr (), on_attempt i (\<lambda>t. t\<lparr>ta_state := st\<rparr>) g)) g) g) g"

definition replay_cancel_requested :: "attempt_id field \<Rightarrow> string option \<Rightarrow> replayed" where
  "replay_cancel_requested attempt_id reason g =
     need (decoded_or ''cancel event has no attempt'' attempt_id) (\<lambda>i g.
     need (get_attempt g i) (\<lambda>_ g.
       (Inr (), on_attempt i (\<lambda>t. t\<lparr>ta_state := At_Cancelling, ta_terminal_reason := reason\<rparr>) g)) g) g"

definition replay_pause_requested :: "attempt_id field \<Rightarrow> replayed" where
  "replay_pause_requested attempt_id g =
     need (decoded_or ''pause event has no attempt'' attempt_id) (\<lambda>i g.
       if \<not> omap_has (g_attempts g) i then (Inl (UnknownAttempt i), g)
       else (Inr (), g\<lparr>g_paused := oset_insert i (g_paused g)\<rparr>)) g"

definition replay_resumed :: "attempt_id field \<Rightarrow> replayed" where
  "replay_resumed attempt_id g =
     need (decoded_or ''resume event has no attempt'' attempt_id) (\<lambda>i g.
       (Inr (), g\<lparr>g_paused := oset_remove i (g_paused g)\<rparr>)) g"

definition replay_attempt_superseded :: "attempt_id field \<Rightarrow> replayed" where
  "replay_attempt_superseded attempt_id g =
     need (decoded_or ''supersede event has no attempt'' attempt_id) (\<lambda>i g.
     need (get_attempt g i) (\<lambda>a g.
       (Inr (), on_node (ta_task a) (\<lambda>n. on_runtime (\<lambda>r. r\<lparr>rt_current_attempt := None\<rparr>)
                  (n\<lparr>tn_lease_expires_at_ms := None\<rparr>))
                (on_attempt i (\<lambda>t. t\<lparr>ta_state := At_Superseded\<rparr>) g))) g) g"

definition max_trace_entries :: nat where
  "max_trace_entries = 256"

definition replay_trace :: "attempt_id field \<Rightarrow> string option \<Rightarrow> json option \<Rightarrow> replayed" where
  "replay_trace attempt_id kind data g =
     need (decoded_or ''trace event has no attempt'' attempt_id) (\<lambda>i g.
       (let entries = (case omap_get (g_traces g) i of None \<Rightarrow> [] | Some es \<Rightarrow> es)
              @ [JObject [(''data'', case data of None \<Rightarrow> JNull | Some d \<Rightarrow> d),
                          (''kind'', JString (case kind of None \<Rightarrow> [] | Some k \<Rightarrow> k))]]
        in (Inr (), g\<lparr>g_traces := omap_insert i
              (if length entries > max_trace_entries then tl entries else entries)
              (g_traces g)\<rparr>))) g"

section \<open>Replaying criteria, messages and views\<close>

definition replay_criterion :: "acceptance_criterion field \<Rightarrow> replayed" where
  "replay_criterion criterion g =
     need (decoded_or ''criterion event has no criterion'' criterion) (\<lambda>c g.
       (Inr (), g\<lparr>g_criteria := omap_insert (ac_id c) c (g_criteria g)\<rparr>)) g"

definition replay_judgment :: "criterion_judgment field \<Rightarrow> replayed" where
  "replay_judgment verdict g =
     need (decoded_or ''judgment event has no judgment'' verdict) (\<lambda>j g.
       (Inr (), g\<lparr>g_judgments := omap_insert (jd_criterion j)
          ((case omap_get (g_judgments g) (jd_criterion j) of None \<Rightarrow> [] | Some js \<Rightarrow> js) @ [j])
          (g_judgments g)\<rparr>)) g"

definition replay_retired :: "criterion_id field \<Rightarrow> string option \<Rightarrow> replayed" where
  "replay_retired criterion_id why g =
     need (decoded_or ''retire event has no criterion'' criterion_id) (\<lambda>i g.
     need (ok_or (UnknownCriterion i) (omap_get (g_criteria g) i)) (\<lambda>_ g.
       (Inr (), g\<lparr>g_criteria := omap_modify i (\<lambda>c. c\<lparr>ac_inapplicable := why\<rparr>) (g_criteria g)\<rparr>)) g) g"

definition replay_assigned :: "workspace_assignment field \<Rightarrow> replayed" where
  "replay_assigned assignment g =
     need (decoded_or ''assignment event has no assignment'' assignment) (\<lambda>a g.
       (Inr (), g\<lparr>g_assignments := omap_insert (wa_id a) a (g_assignments g)\<rparr>)) g"

definition replay_released :: "assignment_id field \<Rightarrow> replayed" where
  "replay_released assignment_id g =
     need (decoded_or ''release event has no assignment'' assignment_id) (\<lambda>i g.
     need (ok_or (UnknownAssignment i) (omap_get (g_assignments g) i)) (\<lambda>_ g.
       (Inr (), g\<lparr>g_assignments := omap_modify i (\<lambda>a. a\<lparr>wa_released := True\<rparr>) (g_assignments g)\<rparr>)) g) g"

definition replay_writer_result :: "writer_result field \<Rightarrow> replayed" where
  "replay_writer_result writer g =
     need (decoded_or ''writer event has no result'' writer) (\<lambda>r g.
       (Inr (), g\<lparr>g_writer_results := omap_insert (wr_assignment r) r (g_writer_results g)\<rparr>)) g"

definition inbox_ids :: "graph \<Rightarrow> task_id \<Rightarrow> message_id list" where
  "inbox_ids g to = (case omap_get (g_inbox g) to of None \<Rightarrow> [] | Some ids \<Rightarrow> ids)"

definition replay_message_sent :: "task_message field \<Rightarrow> replayed" where
  "replay_message_sent message g =
     need (decoded_or ''message event has no message'' message) (\<lambda>m g.
       (Inr (), g\<lparr>g_inbox := omap_insert (tm_to m) (inbox_ids g (tm_to m) @ [tm_id m]) (g_inbox g),
                  g_messages := omap_insert (tm_id m) m (g_messages g)\<rparr>)) g"

definition replay_messages_delivered ::
  "task_id field \<Rightarrow> message_id list field \<Rightarrow> nat option \<Rightarrow> replayed" where
  "replay_messages_delivered task_id message_ids at g =
     need (event_task_id task_id) (\<lambda>to g.
     need (decoded_or ''delivery event has no messages'' message_ids) (\<lambda>ids g.
       (Inr (), g\<lparr>g_messages := fold (\<lambda>i. omap_modify i (\<lambda>m. m\<lparr>tm_delivered_at_ms := at\<rparr>)) ids
                                  (g_messages g),
                  g_inbox := omap_modify to (filter (\<lambda>i. i \<notin> set ids)) (g_inbox g)\<rparr>)) g) g"

section \<open>Replaying one event\<close>

primrec replay_data :: "session_event \<Rightarrow> replayed" where
  "replay_data (Todo_Created item root step) g = replay_todo_created item root step g"
| "replay_data (Todo_Updated _) g = (Inr (), g)"
| "replay_data (Todo_Reordered _) g = (Inr (), g)"
| "replay_data (Ev_Task_Created node) g = replay_created node g"
| "replay_data (Ev_Cycle_Detected _) g = (Inr (), g)"
| "replay_data (Ev_Plan_Approved ids note) g = replay_plan_approved ids note g"
| "replay_data (Ev_Plan_Intent root steps) g = replay_plan_intent root steps g"
| "replay_data (Ev_Scripted_Plan_Authorized root) g = replay_scripted_plan_authorized root g"
| "replay_data (Ev_Transitioned i _ to _) g = replay_transitioned i to g"
| "replay_data (Ev_Authorized i authority) g = replay_authority i authority g"
| "replay_data (Ev_Authority_Narrowed i authority) g = replay_authority i authority g"
| "replay_data (Ev_Budget_Used i used) g = replay_budget_used i used g"
| "replay_data (Ev_Budget_Exhausted _ _) g = (Inr (), g)"
| "replay_data (Ev_Attempt_Started attempt) g = replay_attempt_started attempt g"
| "replay_data (Ev_Attempt_Finished i _ state used reason retryable outcome evidence ended) g =
     replay_attempt_finished i state used reason retryable outcome evidence ended g"
| "replay_data (Ev_Attempt_Expired i attempt reason) g = replay_attempt_expired i attempt reason g"
| "replay_data (Ev_Attempt_State_Changed i _ state) g = replay_attempt_state i state g"
| "replay_data (Ev_Cancel_Requested i _ reason) g = replay_cancel_requested i reason g"
| "replay_data (Ev_Pause_Requested i _) g = replay_pause_requested i g"
| "replay_data (Ev_Resumed i _) g = replay_resumed i g"
| "replay_data (Ev_Superseded i _) g = replay_attempt_superseded i g"
| "replay_data (Ev_Trace i _ kind data) g = replay_trace i kind data g"
| "replay_data (Ev_Criterion_Declared c) g = replay_criterion c g"
| "replay_data (Ev_Criterion_Judged j) g = replay_judgment j g"
| "replay_data (Ev_Criterion_Retired i why) g = replay_retired i why g"
| "replay_data (Ev_Message_Sent m) g = replay_message_sent m g"
| "replay_data (Ev_Messages_Delivered i ids at) g = replay_messages_delivered i ids at g"
| "replay_data (Ev_Workspace_Assigned a) g = replay_assigned a g"
| "replay_data (Ev_Workspace_Released i _ _) g = replay_released i g"
| "replay_data (Ev_Writer_Result r _) g = replay_writer_result r g"
| "replay_data (Ev_Validation _) g = (Inr (), g)"
| "replay_data (Ev_Memory _) g = (Inr (), g)"
| "replay_data (Ev_Summary _) g = (Inr (), g)"
| "replay_data (Ev_Other _ _) g = (Inr (), g)"

definition replay :: "session_event envelope \<Rightarrow> replayed" where
  "replay e g = (case ev_payload e of Artifact _ _ _ \<Rightarrow> (Inr (), g) | Inline data \<Rightarrow> replay_data data g)"

text \<open>What \<open>catch_up\<close> does with one event.\<close>

definition replay_seen :: "session_event envelope \<Rightarrow> replayed" where
  "replay_seen e g =
     (case replay e g of
        (Inl x, g') \<Rightarrow> (Inl x, g')
      | (Inr _, g') \<Rightarrow> (Inr (), g'\<lparr>g_last_event := Some (ev_id e)\<rparr>))"

end
