(* ===== verification/Task_Replay_Laws.thy ===== *)
theory Task_Replay_Laws
  imports Task_Replay
begin

text \<open>
  Laws of the replay functions: the header of the graph (whose stream it is, how far it has
  been read) plays no part in them, the set of tasks the blocking pass may have to visit
  grows only by the tasks an event names, and the pending blocking work is write-only.
\<close>

section \<open>The header of a graph is not replayed\<close>

definition with_header ::
  "session_id \<Rightarrow> principal \<Rightarrow> nat \<Rightarrow> event_id option \<Rightarrow> bool \<Rightarrow> graph \<Rightarrow> graph" where
  "with_header k p v l b g =
     g\<lparr>g_session := k, g_actor := p, g_version := v, g_last_event := l, g_reconciling := b\<rparr>"

named_theorems header_free \<open>operations that do not read or write the header\<close>

lemma with_header_sel [header_free]:
  "g_nodes (with_header k p v l b g) = g_nodes g" "g_dependents (with_header k p v l b g) = g_dependents g"
  "g_approved_plan (with_header k p v l b g) = g_approved_plan g"
  "g_plan_intents (with_header k p v l b g) = g_plan_intents g"
  "g_plan_todos (with_header k p v l b g) = g_plan_todos g"
  "g_todo_ids (with_header k p v l b g) = g_todo_ids g"
  "g_scripted_plan_roots (with_header k p v l b g) = g_scripted_plan_roots g"
  "g_block_seeds (with_header k p v l b g) = g_block_seeds g"
  "g_attempts (with_header k p v l b g) = g_attempts g" "g_messages (with_header k p v l b g) = g_messages g"
  "g_inbox (with_header k p v l b g) = g_inbox g" "g_traces (with_header k p v l b g) = g_traces g"
  "g_paused (with_header k p v l b g) = g_paused g"
  "g_assignments (with_header k p v l b g) = g_assignments g"
  "g_writer_results (with_header k p v l b g) = g_writer_results g"
  "g_criteria (with_header k p v l b g) = g_criteria g" "g_judgments (with_header k p v l b g) = g_judgments g"
  by (simp_all add: with_header_def)

lemma with_header_upd [header_free]:
  "(with_header k p v l b g)\<lparr>g_nodes := x1\<rparr> = with_header k p v l b (g\<lparr>g_nodes := x1\<rparr>)"
  "(with_header k p v l b g)\<lparr>g_dependents := x2\<rparr> = with_header k p v l b (g\<lparr>g_dependents := x2\<rparr>)"
  "(with_header k p v l b g)\<lparr>g_approved_plan := x3\<rparr> = with_header k p v l b (g\<lparr>g_approved_plan := x3\<rparr>)"
  "(with_header k p v l b g)\<lparr>g_plan_intents := x4\<rparr> = with_header k p v l b (g\<lparr>g_plan_intents := x4\<rparr>)"
  "(with_header k p v l b g)\<lparr>g_plan_todos := x5\<rparr> = with_header k p v l b (g\<lparr>g_plan_todos := x5\<rparr>)"
  "(with_header k p v l b g)\<lparr>g_todo_ids := x6\<rparr> = with_header k p v l b (g\<lparr>g_todo_ids := x6\<rparr>)"
  "(with_header k p v l b g)\<lparr>g_scripted_plan_roots := x7\<rparr> = with_header k p v l b (g\<lparr>g_scripted_plan_roots := x7\<rparr>)"
  "(with_header k p v l b g)\<lparr>g_block_seeds := x8\<rparr> = with_header k p v l b (g\<lparr>g_block_seeds := x8\<rparr>)"
  "(with_header k p v l b g)\<lparr>g_attempts := x9\<rparr> = with_header k p v l b (g\<lparr>g_attempts := x9\<rparr>)"
  "(with_header k p v l b g)\<lparr>g_messages := x10\<rparr> = with_header k p v l b (g\<lparr>g_messages := x10\<rparr>)"
  "(with_header k p v l b g)\<lparr>g_inbox := x11\<rparr> = with_header k p v l b (g\<lparr>g_inbox := x11\<rparr>)"
  "(with_header k p v l b g)\<lparr>g_traces := x12\<rparr> = with_header k p v l b (g\<lparr>g_traces := x12\<rparr>)"
  "(with_header k p v l b g)\<lparr>g_paused := x13\<rparr> = with_header k p v l b (g\<lparr>g_paused := x13\<rparr>)"
  "(with_header k p v l b g)\<lparr>g_assignments := x14\<rparr> = with_header k p v l b (g\<lparr>g_assignments := x14\<rparr>)"
  "(with_header k p v l b g)\<lparr>g_writer_results := x15\<rparr> = with_header k p v l b (g\<lparr>g_writer_results := x15\<rparr>)"
  "(with_header k p v l b g)\<lparr>g_criteria := x16\<rparr> = with_header k p v l b (g\<lparr>g_criteria := x16\<rparr>)"
  "(with_header k p v l b g)\<lparr>g_judgments := x17\<rparr> = with_header k p v l b (g\<lparr>g_judgments := x17\<rparr>)"
  by (simp_all add: with_header_def)

lemma with_header_reads [header_free]:
  "get_node (with_header k p v l b g) i = get_node g i"
  "get_attempt (with_header k p v l b g) a = get_attempt g a"
  "on_node i f (with_header k p v l b g) = with_header k p v l b (on_node i f g)"
  "on_attempt a f' (with_header k p v l b g) = with_header k p v l b (on_attempt a f' g)"
  "is_permanently_stopped (with_header k p v l b g) i = is_permanently_stopped g i"
  "is_plan_approved (with_header k p v l b g) i = is_plan_approved g i"
  "inbox_ids (with_header k p v l b g) i = inbox_ids g i"
  "seed i (with_header k p v l b g) = with_header k p v l b (seed i g)"
  by (simp_all add: get_node_def get_attempt_def on_node_def on_attempt_def is_permanently_stopped_def
      is_plan_approved_def inbox_ids_def seed_def header_free Let_def
      cong: option.case_cong task_state.case_cong if_cong)

lemma with_header_if [header_free]:
  "(if c then with_header k p v l b g else with_header k p v l b h) = with_header k p v l b (if c then g else h)"
  by simp

lemma need_header [header_free]:
  "(\<And>x g. f x (with_header k p v l b g) = apsnd (with_header k p v l b) (f x g)) \<Longrightarrow>
   need r f (with_header k p v l b g) = apsnd (with_header k p v l b) (need r f g)"
  by (cases r) simp_all

lemma settle_header [header_free]: "settle i (with_header k p v l b g) = with_header k p v l b (settle i g)"
  by (simp add: settle_def Let_def header_free split: option.split)

lemma add_dependent_header [header_free]:
  "add_dependent n i (with_header k p v l b g) = with_header k p v l b (add_dependent n i g)"
  by (simp add: add_dependent_def Let_def header_free)

lemma fold_dependents_header [header_free]:
  "fold (add_dependent n) is (with_header k p v l b g) = with_header k p v l b (fold (add_dependent n) is g)"
  by (induction "is" arbitrary: g) (simp_all add: header_free)

lemma validate_plan_task_header [header_free]:
  "validate_plan_task (with_header k p v l b g) i = validate_plan_task g i"
  by (simp add: validate_plan_task_def header_free cong: option.case_cong if_cong)

lemma check_approval_header [header_free]:
  "check_approval (with_header k p v l b g) n is = check_approval g n is"
  by (induction "is") (simp_all add: header_free split: option.split)

lemmas replay_defs =
  replay_plan_intent_def replay_scripted_plan_authorized_def replay_plan_approved_def
  replay_created_def replay_transitioned_def replay_authority_def replay_budget_used_def
  replay_attempt_started_def replay_attempt_finished_def replay_attempt_expired_def
  replay_attempt_state_def replay_cancel_requested_def replay_pause_requested_def
  replay_resumed_def replay_attempt_superseded_def replay_trace_def replay_criterion_def
  replay_judgment_def replay_retired_def replay_assigned_def replay_released_def
  replay_writer_result_def replay_message_sent_def replay_messages_delivered_def

lemma replay_todo_created_header [header_free]:
  "replay_todo_created t r s (with_header k p v l b g) = apsnd (with_header k p v l b) (replay_todo_created t r s g)"
  by (cases t) (simp_all add: Let_def header_free split: option.split)

lemma replay_data_header:
  "replay_data d (with_header k p v l b g) = apsnd (with_header k p v l b) (replay_data d g)"
  by (cases d) (simp_all add: replay_defs Let_def header_free split: option.split)

lemma replay_header:
  "replay e (with_header k p v l b g) = apsnd (with_header k p v l b) (replay e g)"
  by (simp add: replay_def replay_data_header split: event_payload.split)

text \<open>So a replay keeps the header it finds.\<close>

lemma replay_keeps_header:
  assumes "replay e g = (r, g')"
  shows "g_session g' = g_session g" "g_actor g' = g_actor g" "g_version g' = g_version g"
    "g_last_event g' = g_last_event g" "g_reconciling g' = g_reconciling g"
proof -
  let ?h = "with_header (g_session g) (g_actor g) (g_version g) (g_last_event g) (g_reconciling g)"
  have "?h g = g" by (simp add: with_header_def)
  with assms replay_header [of e "g_session g" "g_actor g" "g_version g" "g_last_event g" "g_reconciling g" g]
  have *: "g' = ?h g'" by simp
  show "g_session g' = g_session g" "g_actor g' = g_actor g" "g_version g' = g_version g"
    "g_last_event g' = g_last_event g" "g_reconciling g' = g_reconciling g"
    using arg_cong [OF *, of g_session] arg_cong [OF *, of g_actor] arg_cong [OF *, of g_version]
      arg_cong [OF *, of g_last_event] arg_cong [OF *, of g_reconciling]
    by (simp_all add: with_header_def)
qed

section \<open>The tasks a blocking pass may visit\<close>

fun event_tasks :: "session_event \<Rightarrow> task_id set" where
  "event_tasks (Ev_Task_Created (Inr n)) = insert (tn_id n) (set (tn_dependencies n))"
| "event_tasks (Ev_Transitioned (Inr i) _ _ _) = {i}"
| "event_tasks (Ev_Attempt_Started (Inr a)) = {ta_task a}"
| "event_tasks _ = {}"

definition dependent_tasks :: "(task_id, task_id oset) omap \<Rightarrow> task_id set" where
  "dependent_tasks m = (\<Union>s \<in> snd ` set m. set s)"

definition attempt_tasks :: "(attempt_id, task_attempt) omap \<Rightarrow> task_id set" where
  "attempt_tasks m = ta_task ` snd ` set m"

definition graph_tasks :: "graph \<Rightarrow> task_id set" where
  "graph_tasks g =
     set (g_block_seeds g) \<union> dependent_tasks (g_dependents g) \<union> attempt_tasks (g_attempts g)"

lemma omap_values_insert: "snd ` set (omap_insert k v m) \<subseteq> insert v (snd ` set m)"
  using image_mono [OF set_omap_insert_subset, of snd k v m] by simp

lemma omap_get_value: "omap_get m k = Some v \<Longrightarrow> v \<in> snd ` set m"
  using image_eqI [of v snd "(k, v)"] by (simp add: map_of_SomeD)

lemma dependent_tasks_insert:
  "dependent_tasks (omap_insert i s m) \<subseteq> set s \<union> dependent_tasks m"
  using omap_values_insert [of i s m] unfolding dependent_tasks_def by blast

lemma dependent_tasks_get: "omap_get m i = Some s \<Longrightarrow> set s \<subseteq> dependent_tasks m"
  unfolding dependent_tasks_def by (rule UN_upper) (rule omap_get_value)

lemma attempt_tasks_insert: "attempt_tasks (omap_insert i a m) \<subseteq> insert (ta_task a) (attempt_tasks m)"
  using omap_values_insert [of i a m] unfolding attempt_tasks_def by blast

lemma attempt_tasks_get: "omap_get m i = Some a \<Longrightarrow> ta_task a \<in> attempt_tasks m"
  unfolding attempt_tasks_def by (intro imageI omap_get_value)

lemma attempt_tasks_modify:
  assumes "\<And>t. ta_task (f t) = ta_task t"
  shows "attempt_tasks (omap_modify i f m) \<subseteq> attempt_tasks m"
proof (cases "omap_get m i")
  case (Some a)
  with attempt_tasks_insert [of i "f a" m] attempt_tasks_get [OF Some] assms
  show ?thesis by (auto simp: omap_modify_def)
qed (simp add: omap_modify_def)

lemma graph_tasks_simps [simp]:
  "graph_tasks (g\<lparr>g_nodes := x1\<rparr>) = graph_tasks g"
  "graph_tasks (g\<lparr>g_approved_plan := x2\<rparr>) = graph_tasks g"
  "graph_tasks (g\<lparr>g_plan_intents := x3\<rparr>) = graph_tasks g"
  "graph_tasks (g\<lparr>g_plan_todos := x4\<rparr>) = graph_tasks g"
  "graph_tasks (g\<lparr>g_todo_ids := x5\<rparr>) = graph_tasks g"
  "graph_tasks (g\<lparr>g_scripted_plan_roots := x6\<rparr>) = graph_tasks g"
  "graph_tasks (g\<lparr>g_messages := x7\<rparr>) = graph_tasks g"
  "graph_tasks (g\<lparr>g_inbox := x8\<rparr>) = graph_tasks g"
  "graph_tasks (g\<lparr>g_traces := x9\<rparr>) = graph_tasks g"
  "graph_tasks (g\<lparr>g_paused := x10\<rparr>) = graph_tasks g"
  "graph_tasks (g\<lparr>g_assignments := x11\<rparr>) = graph_tasks g"
  "graph_tasks (g\<lparr>g_writer_results := x12\<rparr>) = graph_tasks g"
  "graph_tasks (g\<lparr>g_criteria := x13\<rparr>) = graph_tasks g"
  "graph_tasks (g\<lparr>g_judgments := x14\<rparr>) = graph_tasks g"
  "graph_tasks (g\<lparr>g_version := x15\<rparr>) = graph_tasks g"
  "graph_tasks (g\<lparr>g_last_event := x16\<rparr>) = graph_tasks g"
  "graph_tasks (g\<lparr>g_reconciling := x17\<rparr>) = graph_tasks g"
  "graph_tasks (on_node i f g) = graph_tasks g"
  "graph_tasks ((on_node i f g)\<lparr>g_attempts := m\<rparr>) = graph_tasks (g\<lparr>g_attempts := m\<rparr>)"
  by (simp_all add: graph_tasks_def on_node_def)

lemma graph_tasks_seed [simp]: "graph_tasks (seed i g) = insert i (graph_tasks g)"
  by (auto simp: graph_tasks_def seed_def)

lemma graph_tasks_settle [simp]: "graph_tasks (settle i g) = graph_tasks g"
  by (simp add: settle_def Let_def split: option.split)

lemma graph_tasks_on_attempt:
  "(\<And>t. ta_task (f t) = ta_task t) \<Longrightarrow> graph_tasks (on_attempt i f g) \<subseteq> graph_tasks g"
  using attempt_tasks_modify [of f i "g_attempts g"] by (auto simp: graph_tasks_def on_attempt_def)

lemma graph_tasks_attempt: "get_attempt g i = Inr a \<Longrightarrow> ta_task a \<in> graph_tasks g"
  by (auto simp: get_attempt_def ok_or_def graph_tasks_def attempt_tasks_get split: option.splits)

lemma graph_tasks_add_dependent:
  "graph_tasks (add_dependent n i g) \<subseteq> insert n (insert i (graph_tasks g))"
proof -
  define known where "known = (case omap_get (g_dependents g) i of None \<Rightarrow> [] | Some s \<Rightarrow> s)"
  let ?m = "omap_insert i (oset_insert n known) (g_dependents g)"
  have "dependent_tasks ?m \<subseteq> insert n (dependent_tasks (g_dependents g))"
    using dependent_tasks_insert [of i "oset_insert n known" "g_dependents g"]
      dependent_tasks_get [of "g_dependents g" i]
    by (auto simp: known_def split: option.splits)
  then have "graph_tasks (g\<lparr>g_dependents := ?m\<rparr>) \<subseteq> insert n (graph_tasks g)"
    by (auto simp: graph_tasks_def)
  then show ?thesis
    using graph_tasks_seed [of i "g\<lparr>g_dependents := ?m\<rparr>"]
    by (auto simp: add_dependent_def Let_def seed_def known_def [symmetric])
qed

lemma graph_tasks_fold_dependents:
  "graph_tasks (fold (add_dependent n) is g) \<subseteq> insert n (set is \<union> graph_tasks g)"
proof (induction "is" arbitrary: g)
  case (Cons i "is")
  from Cons.IH [of "add_dependent n i g"] graph_tasks_add_dependent [of n i g]
  show ?case by auto
qed auto

lemma graph_tasks_insert_attempt:
  "graph_tasks (g\<lparr>g_attempts := omap_insert i a (g_attempts g)\<rparr>) \<subseteq> insert (ta_task a) (graph_tasks g)"
  using attempt_tasks_insert [of i a "g_attempts g"] by (auto simp: graph_tasks_def)

text \<open>A replay adds no task the event does not name.\<close>

lemma replay_data_tasks:
  "graph_tasks (snd (replay_data d g)) \<subseteq> event_tasks d \<union> graph_tasks g"
proof (cases d)
  case (Ev_Task_Created node)
  show ?thesis
  proof (cases node)
    case (Inr n)
    let ?g1 = "case rt_parent (tn_runtime n) of None \<Rightarrow> g
      | Some p \<Rightarrow> on_node p (on_runtime (\<lambda>r. r\<lparr>rt_reserved := budget_add (rt_reserved r) (tn_budget n)\<rparr>)) g"
    have "graph_tasks ?g1 = graph_tasks g" by (simp split: option.split)
    with Inr Ev_Task_Created graph_tasks_fold_dependents [of "tn_id n" "tn_dependencies n" ?g1]
      graph_tasks_fold_dependents [of "tn_id n" "tn_dependencies n" "seed (tn_id n) ?g1"]
    show ?thesis by (simp add: replay_created_def Let_def)
  qed (simp add: Ev_Task_Created replay_created_def need_def decoded_or_def)
next
  case (Ev_Attempt_Finished a t st used reason retry result evidence ended)
  then show ?thesis
    by (auto simp: replay_attempt_finished_def need_def Let_def split: sum.splits
        intro: graph_tasks_attempt dest: subsetD [OF graph_tasks_on_attempt, rotated])
next
  case (Todo_Created item root step)
  then show ?thesis by (cases item) (auto simp: Let_def split: option.splits)
qed (auto simp: replay_defs need_def Let_def split: sum.split option.split
      dest: subsetD [OF graph_tasks_on_attempt, rotated] subsetD [OF graph_tasks_insert_attempt])

end
