(* ===== verification/Task_Commit.thy ===== *)
theory Task_Commit
  imports Task_Replay_Laws
begin

text \<open>
  How a command of the task graph reaches the stream (\<open>commit\<close>, \<open>commit_if\<close>, \<open>catch_up\<close>,
  \<open>reconcile_blocked\<close> of \<^verbatim>\<open>crates/arsy-kernel/src/orchestration.rs\<close>): catch up, let the
  blocking pass settle, build the event against the caught-up graph, append at the version
  read, and rebuild after a conflict.

  A graph and the world it shares with other holders of the store are the state (\<open>sys\<close>).
  \<open>reconcile_blocked\<close> commits while it runs; its own commits find the \<open>reconciling\<close> flag set
  and run no second pass, which is \<open>commit_quiet\<close> here.
\<close>

type_synonym sys = "graph \<times> session_event world"
type_synonym 'a command = "(sys, graph_error, 'a) effect"

section \<open>Catching up\<close>

definition set_version :: "nat \<Rightarrow> graph \<Rightarrow> graph" where
  "set_version v g = g\<lparr>g_version := v\<rparr>"

definition catch_up :: "unit command" where
  "catch_up = (\<lambda>(g, w).
     (case catch_up_with replay_seen set_version Overflow StoreFailed
             (w_store w) (g_session g) (g_version g) g of
        (r, g') \<Rightarrow> (r, (g', w))))"

text \<open>\<open>if self.store.current_version(self.session)?.0 > self.version.0 { self.catch_up()? }\<close>.\<close>

definition observe :: "unit command" where
  "observe = (\<lambda>(g, w).
     need (case current_version (w_store w) (g_session g) of
             Inl e \<Rightarrow> Inl (StoreFailed e) | Inr v \<Rightarrow> Inr v)
       (\<lambda>v s. if v > g_version g then catch_up s else (Inr (), s)) (g, w))"

section \<open>Appending one event\<close>

text \<open>
  The sequence number, then the envelope (a correlation identifier is drawn before the
  event's own), then the append; what the store answers is the result.
\<close>

definition submit :: "session_event \<Rightarrow> (session_event envelope \<times> (store_error + nat)) command" where
  "submit data = (\<lambda>(g, w).
     need (ok_or Overflow (checked_add (g_version g) 1)) (\<lambda>sequence (g, w).
       (let (correlation, w1) = draw_uuid w;
            (event, w2) = envelope_new (g_session g) sequence (g_actor g) (g_last_event g)
                            correlation 1 (event_kind data) (Inline data) w1;
            (answer, w3) = world_append (g_session g) (g_version g) [event] w2
        in (Inr (event, answer), (g, w3)))) (g, w))"

definition applied :: "session_event envelope \<Rightarrow> nat \<Rightarrow> unit command" where
  "applied event version = (\<lambda>(g, w).
     (case replay event (set_version version g) of
        (Inl x, g') \<Rightarrow> (Inl x, (g', w))
      | (Inr _, g') \<Rightarrow> (Inr (), (g'\<lparr>g_last_event := Some (ev_id event)\<rparr>, w))))"

type_synonym build = "graph \<Rightarrow> graph_error + session_event option"

definition commit_attempts :: nat where
  "commit_attempts = 3"

definition built :: "build \<Rightarrow> (session_event \<Rightarrow> bool command) \<Rightarrow> bool command" where
  "built build f = (\<lambda>(g, w).
     need (build g) (\<lambda>payload. case payload of None \<Rightarrow> ret False | Some data \<Rightarrow> f data) (g, w))"

text \<open>The tries that are left; \<open>settle_first\<close> is the call of \<open>reconcile_blocked\<close>.\<close>

primrec commit_loop :: "nat \<Rightarrow> unit command \<Rightarrow> build \<Rightarrow> bool command" where
  "commit_loop 0 settle_first build = (\<lambda>(g, w).
     (case current_version (w_store w) (g_session g) of
        Inl e \<Rightarrow> (Inl (StoreFailed e), (g, w))
      | Inr actual \<Rightarrow> (Inl (StoreFailed (Conflict (g_version g) actual)), (g, w))))"
| "commit_loop (Suc n) settle_first build =
     bindE observe (\<lambda>_.
     bindE settle_first (\<lambda>_.
     built build (\<lambda>data.
     bindE (submit data) (\<lambda>(event, answer).
       case answer of
         Inr version \<Rightarrow> bindE (applied event version) (\<lambda>_. bindE settle_first (\<lambda>_. ret True))
       | Inl e \<Rightarrow>
           if is_conflict e \<and> n > 0
           then bindE catch_up (\<lambda>_. commit_loop n settle_first build)
           else raise (StoreFailed e)))))"

definition commit_quiet :: "build \<Rightarrow> bool command" where
  "commit_quiet build = commit_loop commit_attempts (ret ()) build"

section \<open>What a pass may visit\<close>

definition envelope_tasks :: "session_event envelope \<Rightarrow> task_id set" where
  "envelope_tasks e = (case ev_payload e of Inline d \<Rightarrow> event_tasks d | Artifact _ _ _ \<Rightarrow> {})"

definition events_tasks :: "session_event envelope list \<Rightarrow> task_id set" where
  "events_tasks es = (\<Union>e\<in>set es. envelope_tasks e)"

definition world_tasks :: "session_event world \<Rightarrow> task_id set" where
  "world_tasks w =
     (\<Union>k. events_tasks (stream_of (w_store w) k)) \<union> (\<Union>(k, es)\<in>set (w_rivals w). events_tasks es)"

definition sys_tasks :: "sys \<Rightarrow> task_id set" where
  "sys_tasks s = graph_tasks (fst s) \<union> world_tasks (snd s)"

lemma finite_event_tasks [simp]: "finite (event_tasks d)"
  by (cases d rule: event_tasks.cases) simp_all

lemma finite_events_tasks [simp]: "finite (events_tasks es)"
  by (simp add: events_tasks_def envelope_tasks_def split: event_payload.split)

lemma finite_world_tasks [simp]: "finite (world_tasks w)"
proof -
  have "(\<Union>k. events_tasks (stream_of (w_store w) k)) \<subseteq>
      (\<Union>es\<in>snd ` set (ms_streams (w_store w)). events_tasks es)"
  proof
    fix i assume "i \<in> (\<Union>k. events_tasks (stream_of (w_store w) k))"
    then obtain k where k: "i \<in> events_tasks (stream_of (w_store w) k)" by blast
    then obtain es where "omap_get (ms_streams (w_store w)) k = Some es" "i \<in> events_tasks es"
      by (cases "omap_get (ms_streams (w_store w)) k") (simp_all add: stream_of_def events_tasks_def)
    then show "i \<in> (\<Union>es\<in>snd ` set (ms_streams (w_store w)). events_tasks es)"
      by (blast dest: omap_get_value)
  qed
  then have "finite (\<Union>k. events_tasks (stream_of (w_store w) k))"
    by (rule finite_subset) auto
  then show ?thesis by (auto simp: world_tasks_def)
qed

lemma finite_sys_tasks [simp]: "finite (sys_tasks s)"
  by (simp add: sys_tasks_def graph_tasks_def dependent_tasks_def attempt_tasks_def)

lemma events_tasks_append [simp]: "events_tasks (es @ fs) = events_tasks es \<union> events_tasks fs"
  by (auto simp: events_tasks_def)

lemma replay_tasks:
  "graph_tasks (snd (replay e g)) \<subseteq> envelope_tasks e \<union> graph_tasks g"
  using replay_data_tasks by (auto simp: replay_def envelope_tasks_def split: event_payload.split)

lemma replay_seen_tasks: "graph_tasks (snd (replay_seen e g)) \<subseteq> envelope_tasks e \<union> graph_tasks g"
  using replay_tasks [of e g] by (auto simp: replay_seen_def split: prod.splits sum.splits)

lemma replay_batch_tasks:
  "graph_tasks (snd (replay_batch replay_seen es g)) \<subseteq> events_tasks es \<union> graph_tasks g"
proof (induction es arbitrary: g)
  case (Cons e es)
  from replay_seen_tasks [of e g] Cons.IH [of "snd (replay_seen e g)"]
  show ?case by (auto simp: events_tasks_def split: prod.splits sum.splits)
qed simp

lemma catch_up_with_tasks:
  "graph_tasks (snd (catch_up_with replay_seen set_version ov wr s k v g)) \<subseteq>
   events_tasks (stream_of s k) \<union> graph_tasks g"
proof (induction "replay_seen" "set_version" ov wr s k v g rule: catch_up_with.induct)
  case (1 ov wr s k v g)
  show ?case
  proof (cases "checked_add v 1")
    case (Some f)
    show ?thesis
    proof (cases "read_events s k f max_catch_up_batch")
      case (Inr page)
      have sub: "events_tasks page \<subseteq> events_tasks (stream_of s k)"
        using Inr by (auto simp: read_events_def events_tasks_def split: if_splits dest!: in_set_takeD)
      note batch = replay_batch_tasks [of page g]
      show ?thesis
      proof (cases "page = []")
        case False
        obtain r g' where rp: "replay_batch replay_seen page g = (r, g')" by fastforce
        show ?thesis
        proof (cases r)
          case (Inl x)
          with Some Inr False rp batch sub show ?thesis
            by (subst catch_up_with.simps) auto
        next
          case (Inr u)
          note IH = "1.hyps" [OF Some \<open>read_events s k f max_catch_up_batch = Inr page\<close> False
              rp [unfolded Inr, symmetric] refl]
          from Some \<open>read_events s k f max_catch_up_batch = Inr page\<close> False rp batch sub IH Inr
          show ?thesis
            by (subst catch_up_with.simps) (auto simp: set_version_def)
        qed
      qed (use Some Inr in \<open>subst catch_up_with.simps, simp\<close>)
    qed (use Some in \<open>subst catch_up_with.simps, simp\<close>)
  qed (subst catch_up_with.simps, simp)
qed

lemma append_events_tasks:
  "events_tasks (stream_of (snd (append_events bytes_of k v es s)) k') \<subseteq>
   events_tasks (stream_of s k') \<union> events_tasks es"
  by (auto simp: append_events_def Let_def split: sum.split)

lemma world_tasks_append:
  assumes "append_events bytes_of k v es (w_store w) = (r, s)"
  shows "world_tasks (w\<lparr>w_store := s\<rparr>) \<subseteq> world_tasks w \<union> events_tasks es"
proof -
  have "events_tasks (stream_of s k') \<subseteq> events_tasks (stream_of (w_store w) k') \<union> events_tasks es" for k'
    using append_events_tasks [of bytes_of k v es "w_store w" k'] assms by simp
  then have "(\<Union>k. events_tasks (stream_of s k)) \<subseteq>
      (\<Union>k. events_tasks (stream_of (w_store w) k)) \<union> events_tasks es" by blast
  then show ?thesis by (auto simp: world_tasks_def)
qed

lemma world_tasks_rival: "world_tasks (rival_turn w) \<subseteq> world_tasks w"
proof (cases "w_rivals w")
  case (Cons r rest)
  obtain k es where r: "r = (k, es)" by fastforce
  obtain a s where ap: "append_events (w_bytes_of w) k (last_sequence (stream_of (w_store w) k)) es
      (w_store w) = (a, s)" by fastforce
  have "world_tasks (w\<lparr>w_rivals := rest, w_store := s\<rparr>) \<subseteq>
      world_tasks (w\<lparr>w_rivals := rest\<rparr>) \<union> events_tasks es"
    using world_tasks_append [of _ k _ es "w\<lparr>w_rivals := rest\<rparr>"] ap by simp
  also have "\<dots> \<subseteq> world_tasks w"
    by (auto simp: world_tasks_def Cons r)
  finally show ?thesis by (simp add: rival_turn_def Cons r ap)
qed (simp add: rival_turn_def)

lemma world_append_tasks:
  assumes "world_append k v es w = (r, w')"
  shows "world_tasks w' \<subseteq> world_tasks w \<union> events_tasks es"
proof -
  obtain a s where ap: "append_events (w_bytes_of (rival_turn w)) k v es (w_store (rival_turn w)) = (a, s)"
    by fastforce
  with assms have "w' = (rival_turn w)\<lparr>w_store := s\<rparr>"
    by (simp add: world_append_def Let_def)
  with world_tasks_append [OF ap] world_tasks_rival [of w] show ?thesis by blast
qed

lemma sys_tasks_upd [simp]:
  "sys_tasks (g\<lparr>g_last_event := l\<rparr>, w) = sys_tasks (g, w)"
  "sys_tasks (g\<lparr>g_reconciling := b\<rparr>, w) = sys_tasks (g, w)"
  "sys_tasks (set_version v g, w) = sys_tasks (g, w)"
  by (simp_all add: sys_tasks_def set_version_def)

lemma stream_tasks: "events_tasks (stream_of (w_store w) k) \<subseteq> world_tasks w"
  by (auto simp: world_tasks_def)

lemma catch_up_tasks: "sys_tasks (snd (catch_up s)) \<subseteq> sys_tasks s"
proof -
  obtain g w where s: "s = (g, w)" by fastforce
  from catch_up_with_tasks [of Overflow StoreFailed "w_store w" "g_session g" "g_version g" g]
    stream_tasks [of w "g_session g"]
  show ?thesis by (auto simp: s catch_up_def sys_tasks_def split: prod.split)
qed

lemma observe_tasks: "sys_tasks (snd (observe s)) \<subseteq> sys_tasks s"
  using catch_up_tasks [of s]
  by (cases s) (auto simp: observe_def need_def split: sum.split)

lemma submit_tasks:
  assumes "submit data s = (Inr (event, answer), s')"
  shows "sys_tasks s' \<subseteq> sys_tasks s \<union> event_tasks data" and "envelope_tasks event = event_tasks data"
proof -
  obtain g w where s: "s = (g, w)" by fastforce
  obtain sq where sq: "checked_add (g_version g) 1 = Some sq"
    using assms s by (cases "checked_add (g_version g) 1") (auto simp: submit_def)
  obtain c w1 where d: "draw_uuid w = (c, w1)" by fastforce
  obtain e w2 where n: "envelope_new (g_session g) sq (g_actor g) (g_last_event g) c 1
      (event_kind data) (Inline data) w1 = (e, w2)" by fastforce
  obtain a w3 where ap: "world_append (g_session g) (g_version g) [e] w2 = (a, w3)" by fastforce
  from assms s sq d n ap have out: "event = e" "s' = (g, w3)"
    by (auto simp: submit_def)
  have e: "envelope_tasks e = event_tasks data" and "world_tasks w2 = world_tasks w"
    using n d by (auto simp: envelope_new_def draw_uuid_def Let_def envelope_tasks_def world_tasks_def)
  with world_append_tasks [OF ap] out s
  show "sys_tasks s' \<subseteq> sys_tasks s \<union> event_tasks data" "envelope_tasks event = event_tasks data"
    by (auto simp: sys_tasks_def events_tasks_def)
qed

lemma applied_tasks: "sys_tasks (snd (applied e v s)) \<subseteq> sys_tasks s \<union> envelope_tasks e"
proof -
  obtain g w where s: "s = (g, w)" by fastforce
  from replay_tasks [of e "set_version v g"] sys_tasks_upd(3) [of v g w] show ?thesis
    by (auto simp: s applied_def sys_tasks_def split: prod.split sum.split)
qed

lemma submit_error_tasks: "submit data s = (Inl x, s') \<Longrightarrow> s' = s"
  by (cases s) (auto simp: submit_def need_def Let_def ok_or_def split: option.splits prod.splits)

text \<open>
  The rule for a commit: an invariant of the steps it is made of is an invariant of the whole,
  where the append has to keep it for an event built at the state it is appended from.
\<close>

lemma valid_built:
  assumes "\<And>data. valid (\<lambda>s. P s \<and> build (fst s) = Inr (Some data)) (f data) Q E"
    and "\<And>s. P s \<Longrightarrow> Q False s" and "\<And>s. P s \<Longrightarrow> E s"
  shows "valid P (built build f) Q E"
proof -
  have run: "case f data s of (Inr x, s') \<Rightarrow> Q x s' | (Inl _, s') \<Rightarrow> E s'"
    if "P s" "build (fst s) = Inr (Some data)" for s data
    by (rule valid_apply [OF assms(1)]) (use that in simp)
  have "case built build f s of (Inr x, s') \<Rightarrow> Q x s' | (Inl _, s') \<Rightarrow> E s'" if P: "P s" for s
  proof (cases "build (fst s)")
    case (Inl e)
    with P assms(3) show ?thesis by (cases s) (simp add: built_def)
  next
    case (Inr payload)
    with P assms(2) run show ?thesis by (cases s; cases payload) (auto simp: built_def ret_def)
  qed
  then show ?thesis by (simp add: valid_def)
qed

lemma valid_answered:
  assumes "\<And>event v. valid (R event v) (f event v) Q E"
    and "\<And>e. valid P (h e) Q E"
  shows "valid ((\<lambda>(event, answer) s. case answer of Inr v \<Rightarrow> R event v s | Inl _ \<Rightarrow> P s) ea)
    ((\<lambda>(event, answer). case answer of Inr v \<Rightarrow> f event v | Inl e \<Rightarrow> h e) ea) Q E"
  using assms by (cases ea; cases "snd ea") auto

lemma commit_loop_valid:
  assumes observe: "valid P observe (\<lambda>_. P) P"
    and catch_up: "valid P catch_up (\<lambda>_. P) P"
    and settle_first: "valid P settle_first (\<lambda>_. P) P"
    and submit: "\<And>data. valid (\<lambda>s. P s \<and> build (fst s) = Inr (Some data)) (submit data)
        (\<lambda>(event, answer) s. case answer of Inr v \<Rightarrow> R event v s | Inl _ \<Rightarrow> P s) P"
    and applied: "\<And>event v. valid (R event v) (applied event v) (\<lambda>_. C) P"
    and settle_after: "valid C settle_first (\<lambda>_. C) P"
  shows "valid P (commit_loop n settle_first build) (\<lambda>did s. if did then C s else P s) P"
proof (induction n)
  case 0
  show ?case by (auto simp: valid_def split: sum.split)
next
  case (Suc n)
  let ?Q = "\<lambda>did s. if did then C s else P s"
  have conflict: "valid P (if is_conflict e \<and> n > 0
      then bindE catch_up (\<lambda>_. commit_loop n settle_first build) else raise (StoreFailed e)) ?Q P" for e
    by (cases "is_conflict e \<and> n > 0")
      (simp_all only: if_True if_False simp_thms valid_bindE [OF catch_up Suc.IH] valid_raise)
  have accepted: "valid (R event v)
      (bindE (applied event v) (\<lambda>_. bindE settle_first (\<lambda>_. ret True))) ?Q P" for event v
    by (intro valid_bindE [OF applied] valid_bindE [OF settle_after] valid_ret) simp
  show ?case
    unfolding commit_loop.simps
    by (intro valid_bindE [OF observe] valid_bindE [OF settle_first] valid_built
        valid_bindE [OF submit] valid_answered accepted conflict) simp_all
qed

lemma commit_loop_keeps:
  assumes "valid P observe (\<lambda>_. P) P" and "valid P catch_up (\<lambda>_. P) P"
    and "valid P settle_first (\<lambda>_. P) P"
    and "\<And>data. valid (\<lambda>s. P s \<and> build (fst s) = Inr (Some data)) (submit data)
        (\<lambda>(event, answer) s. case answer of Inr v \<Rightarrow> R event v s | Inl _ \<Rightarrow> P s) P"
    and "\<And>event v. valid (R event v) (applied event v) (\<lambda>_. P) P"
  shows "valid P (commit_loop n settle_first build) (\<lambda>_. P) P"
  by (rule valid_weaken [OF commit_loop_valid [where C = P, OF assms assms(3)]]) (auto split: if_splits)

text \<open>A quiet commit adds only the tasks of the event it builds.\<close>

lemma commit_quiet_loop_tasks:
  assumes "\<And>g data. build g = Inr (Some data) \<Longrightarrow> event_tasks data \<subseteq> T"
  shows "sys_tasks (snd (commit_loop n (ret ()) build s)) \<subseteq> sys_tasks s \<union> T"
proof -
  let ?P = "\<lambda>s'. sys_tasks s' \<subseteq> sys_tasks s \<union> T"
  have "valid ?P (commit_loop n (ret ()) build) (\<lambda>_. ?P) ?P"
  proof (rule commit_loop_keeps [where R = "\<lambda>event _ s'. ?P s' \<and> envelope_tasks event \<subseteq> T"])
    show "valid ?P observe (\<lambda>_. ?P) ?P"
      by (rule valid_snd) (rule order_trans [OF observe_tasks])
    show "valid ?P catch_up (\<lambda>_. ?P) ?P"
      by (rule valid_snd) (rule order_trans [OF catch_up_tasks])
    show "valid ?P (ret ()) (\<lambda>_. ?P) ?P"
      by (rule valid_ret)
    show "valid (\<lambda>s. ?P s \<and> build (fst s) = Inr (Some data)) (submit data)
        (\<lambda>(event, answer) s'. case answer of Inr _ \<Rightarrow> ?P s' \<and> envelope_tasks event \<subseteq> T | Inl _ \<Rightarrow> ?P s') ?P"
      for data
    proof (rule validI)
      fix s1 ea s2
      assume *: "?P s1 \<and> build (fst s1) = Inr (Some data)" and sub: "submit data s1 = (Inr ea, s2)"
      obtain event answer where ea: "ea = (event, answer)" by fastforce
      from submit_tasks [OF sub [unfolded ea]] * assms [of "fst s1" data]
      show "(\<lambda>(event, answer) s'. case answer of Inr _ \<Rightarrow> ?P s' \<and> envelope_tasks event \<subseteq> T
          | Inl _ \<Rightarrow> ?P s') ea s2"
        by (cases answer) (auto simp: ea)
    qed (auto dest: submit_error_tasks)
    show "valid (\<lambda>s'. ?P s' \<and> envelope_tasks event \<subseteq> T) (applied event v) (\<lambda>_. ?P) ?P" for event v
    proof -
      have "?P (snd (applied event v s'))" if "?P s' \<and> envelope_tasks event \<subseteq> T" for s'
        using applied_tasks [of event v s'] that by blast
      then show ?thesis by (intro validI) (metis snd_conv)+
    qed
  qed
  from valid_sndD [OF this] show ?thesis by simp
qed

section \<open>The blocking pass\<close>

definition has_failed_dependency :: "graph \<Rightarrow> task_node \<Rightarrow> bool" where
  "has_failed_dependency g n \<longleftrightarrow> (\<exists>d\<in>set (tn_dependencies n). is_permanently_stopped g d)"

definition block_build :: "task_id \<Rightarrow> build" where
  "block_build i g =
     and_then (get_node g i) (\<lambda>n.
       if tn_state n \<notin> {Task_Pending, Task_Ready} \<or> \<not> has_failed_dependency g n then Inr None
       else Inr (Some (Ev_Transitioned (Inr i) (tn_state n) (Inr Task_Blocked) None)))"

definition dependents_of :: "graph \<Rightarrow> task_id \<Rightarrow> task_id list" where
  "dependents_of g i = (case omap_get (g_dependents g) i of None \<Rightarrow> [] | Some ds \<Rightarrow> ds)"

lemma dependents_of_tasks: "set (dependents_of g i) \<subseteq> graph_tasks g"
  using dependent_tasks_get [of "g_dependents g" i]
  by (cases "omap_get (g_dependents g) i") (auto simp: dependents_of_def graph_tasks_def)

lemma commit_quiet_block_tasks:
  "sys_tasks (snd (commit_quiet (block_build i) s)) \<subseteq> insert i (sys_tasks s)"
proof -
  have "sys_tasks (snd (commit_quiet (block_build i) s)) \<subseteq> sys_tasks s \<union> {i}"
    unfolding commit_quiet_def
    by (rule commit_quiet_loop_tasks)
      (auto simp: block_build_def and_then_eq_Inr split: if_splits)
  then show ?thesis by simp
qed

lemma sys_tasks_drain [simp]:
  "sys_tasks (g\<lparr>g_block_seeds := []\<rparr>, w) \<union> set (g_block_seeds g) = sys_tasks (g, w)"
  by (auto simp: sys_tasks_def graph_tasks_def)

text \<open>\<open>queue.append(&mut self.block_seeds)\<close>: everything a round leaves behind.\<close>

definition drain :: "task_id oset \<Rightarrow> sys \<Rightarrow> task_id oset \<times> sys" where
  "drain queue s =
     (oset_extend (g_block_seeds (fst s)) queue, ((fst s)\<lparr>g_block_seeds := []\<rparr>, snd s))"

lemma drain_tasks:
  "drain queue s = (queue', s') \<Longrightarrow> set queue' \<union> sys_tasks s' = set queue \<union> sys_tasks s"
  by (cases s) (auto simp: drain_def sys_tasks_def graph_tasks_def)

lemma visit_smaller:
  assumes "finite U" and "i \<in> U" and "i \<notin> V" and "U' \<subseteq> U"
  shows "card (U' - insert i V) < card (U - V)"
  by (rule psubset_card_mono) (use assms in auto)

function reconcile_loop ::
  "task_id oset \<Rightarrow> task_id oset \<Rightarrow> task_id list \<Rightarrow> task_id list command" where
  "reconcile_loop [] visited blocked s = (Inr blocked, s)"
| "reconcile_loop (i # queue) visited blocked s =
     (if i \<in> set visited then reconcile_loop queue visited blocked s
      else if is_permanently_stopped (fst s) i then
        (case drain (oset_extend (dependents_of (fst s) i) queue) s of
           (queue', s') \<Rightarrow> reconcile_loop queue' (oset_insert i visited) blocked s')
      else
        (case commit_quiet (block_build i) s of
           (Inl x, (g, w)) \<Rightarrow>
             (Inl x, (g\<lparr>g_block_seeds := oset_extend (oset_insert i queue) (g_block_seeds g)\<rparr>, w))
         | (Inr did, s1) \<Rightarrow>
             (case drain (if did then oset_extend (dependents_of (fst s1) i) queue else queue) s1 of
                (queue', s') \<Rightarrow>
                  reconcile_loop queue' (oset_insert i visited)
                    (if did then blocked @ [i] else blocked) s')))"
  by pat_completeness auto

text \<open>
  Every round visits a new task or shortens the queue, and the tasks to visit are among those
  the graph, the store and the events still to arrive name.
\<close>

termination
proof (relation "inv_image (less_than <*lex*> less_than)
    (\<lambda>(queue, visited, _, s). (card (set queue \<union> sys_tasks s - set visited), length queue))",
    goal_cases)
  case 1
  show ?case by (intro wf_inv_image wf_lex_prod wf_less_than)
next
  case (2 i queue visited blocked s)
  then have "set queue \<union> sys_tasks s - set visited = set (i # queue) \<union> sys_tasks s - set visited"
    by auto
  then show ?case by simp
next
  case (3 i queue visited blocked s queue' s')
  have "set (dependents_of (fst s) i) \<subseteq> sys_tasks s"
    using dependents_of_tasks by (auto simp: sys_tasks_def)
  with drain_tasks [OF 3(3) [symmetric]] have "set queue' \<union> sys_tasks s' \<subseteq> set (i # queue) \<union> sys_tasks s"
    by auto
  with 3(1) show ?case
    by (auto intro!: visit_smaller)
next
  case (4 i queue visited blocked s r s1 did queue' s')
  have "sys_tasks s1 \<subseteq> insert i (sys_tasks s)"
    using commit_quiet_block_tasks [of i s] 4(3) by (metis snd_conv)
  moreover have "set (dependents_of (fst s1) i) \<subseteq> sys_tasks s1"
    using dependents_of_tasks by (auto simp: sys_tasks_def)
  ultimately have "set queue' \<union> sys_tasks s' \<subseteq> set (i # queue) \<union> sys_tasks s"
    using drain_tasks [OF 4(5) [symmetric]] by (auto split: if_splits)
  with 4(1) show ?case
    by (auto intro!: visit_smaller)
qed

definition reconcile_blocked :: "task_id list command" where
  "reconcile_blocked = (\<lambda>(g, w).
     if g_reconciling g then (Inr [], (g, w))
     else
       (case reconcile_loop (g_block_seeds g) [] []
               (g\<lparr>g_reconciling := True, g_block_seeds := []\<rparr>, w) of
          (r, (g', w')) \<Rightarrow> (r, (g'\<lparr>g_reconciling := False\<rparr>, w'))))"

text \<open>What a quiet commit and a change of the seeds keep, the pass keeps.\<close>

lemma reconcile_loop_keeps:
  assumes seeds: "\<And>g w q. P (g, w) \<Longrightarrow> P (g\<lparr>g_block_seeds := q\<rparr>, w)"
    and quiet: "\<And>i s. P s \<Longrightarrow> P (snd (commit_quiet (block_build i) s))"
  shows "P s \<Longrightarrow> P (snd (reconcile_loop queue visited blocked s))"
proof (induction queue visited blocked s rule: reconcile_loop.induct)
  case (2 i queue visited blocked s)
  have drained: "P t'" if "P t" "drain q t = (q', t')" for q q' t t'
    using seeds [of "fst t" "snd t" "[]"] that by (auto simp: drain_def)
  show ?case
  proof (cases "i \<in> set visited")
    case True
    with 2 show ?thesis by simp
  next
    case new: False
    show ?thesis
    proof (cases "is_permanently_stopped (fst s) i")
      case True
      obtain queue' s' where d: "drain (oset_extend (dependents_of (fst s) i) queue) s = (queue', s')"
        by (metis surj_pair)
      from 2(2) [OF new True d [symmetric]] drained [OF 2(4) d] new True d show ?thesis by simp
    next
      case running: False
      obtain r s1 where run: "commit_quiet (block_build i) s = (r, s1)" by (metis surj_pair)
      with quiet [OF 2(4), of i] have s1: "P s1" by simp
      show ?thesis
      proof (cases r)
        case (Inl x)
        with new running run seeds s1 show ?thesis by (cases s1) simp
      next
        case (Inr did)
        obtain queue' s' where d: "drain (if did then oset_extend (dependents_of (fst s1) i) queue else queue) s1
            = (queue', s')" by (metis surj_pair)
        from 2(3) [OF new running run [symmetric] Inr d [symmetric] drained [OF s1 d]] new running run Inr d
        show ?thesis by simp
      qed
    qed
  qed
qed simp

lemma reconcile_blocked_keeps:
  assumes "\<And>g w q. P (g, w) \<Longrightarrow> P (g\<lparr>g_block_seeds := q\<rparr>, w)"
    and "\<And>i s. P s \<Longrightarrow> P (snd (commit_quiet (block_build i) s))"
    and reconciling: "\<And>g w b. P (g, w) \<Longrightarrow> P (g\<lparr>g_reconciling := b\<rparr>, w)"
  shows "valid P reconcile_blocked (\<lambda>_. P) P"
proof (rule valid_snd)
  fix s :: sys assume P: "P s"
  obtain g w where s: "s = (g, w)" by fastforce
  obtain r g' w' where run: "reconcile_loop (g_block_seeds g) [] []
      (g\<lparr>g_reconciling := True, g_block_seeds := []\<rparr>, w) = (r, (g', w'))" by (metis surj_pair)
  have start: "P (g\<lparr>g_reconciling := True, g_block_seeds := []\<rparr>, w)"
    using assms(1) [OF reconciling, of g w "[]" True] P by (simp add: s)
  from reconcile_loop_keeps [of P, OF assms(1,2) start] have "P (g', w')"
    using run by (metis snd_conv)
  from reconciling [OF this, of False] P run show "P (snd (reconcile_blocked s))"
    by (simp add: s reconcile_blocked_def)
qed

section \<open>Commands\<close>

definition commit_if :: "build \<Rightarrow> bool command" where
  "commit_if build =
     bindE reconcile_blocked (\<lambda>_.
       commit_loop commit_attempts (bindE reconcile_blocked (\<lambda>_. ret ())) build)"

definition commit :: "(graph \<Rightarrow> graph_error + session_event) \<Rightarrow> unit command" where
  "commit build =
     bindE (commit_if (\<lambda>g. and_then (build g) (\<lambda>d. Inr (Some d)))) (\<lambda>_. ret ())"

end
