(* ===== verification/Task_Commands.thy ===== *)
theory Task_Commands
  imports Task_Commit
begin

text \<open>
  The commands of \<open>TaskGraph\<close> (\<^verbatim>\<open>crates/arsy-kernel/src/orchestration.rs\<close>). A command whose
  code hands \<open>commit\<close> a closure over the current projection has that closure as a definition
  of its own (\<open><command>_build\<close>): it is what decides, each time the stream moved, whether the
  command still stands.

  Outside code: \<open>parse_json\<close> is \<open>serde_json::from_str\<close> on a task's required output, and
  \<open>task_of_json\<close> reads a task identifier from a JSON value. Identifiers are drawn from the world,
  the time of day is its clock.
\<close>

section \<open>Opening a graph\<close>

definition graph_new :: "session_id \<Rightarrow> principal \<Rightarrow> session_event world \<Rightarrow> graph_error + graph" where
  "graph_new session actor w =
     (case catch_up (graph_empty session actor, w) of
        (Inl e, _) \<Rightarrow> Inl e
      | (Inr _, (g, _)) \<Rightarrow> Inr g)"

definition fork :: "graph \<Rightarrow> principal \<Rightarrow> session_event world \<Rightarrow> graph_error + graph" where
  "fork g actor w = graph_new (g_session g) actor w"

definition refresh :: "unit command" where
  "refresh = catch_up"

section \<open>Questions over the nodes\<close>

definition dependencies_completed :: "graph \<Rightarrow> task_node \<Rightarrow> bool" where
  "dependencies_completed g n \<longleftrightarrow>
     (\<forall>d\<in>set (tn_dependencies n).
        case omap_get (g_nodes g) d of None \<Rightarrow> False | Some m \<Rightarrow> ended_well (tn_state m))"

definition is_ready :: "graph \<Rightarrow> task_node \<Rightarrow> bool" where
  "is_ready g n \<longleftrightarrow>
     tn_state n = Task_Pending \<and>
     (rt_plan (tn_runtime n) = None \<or> is_plan_approved g (tn_id n)) \<and>
     dependencies_completed g n"

text \<open>
  The depth-first search of \<open>would_cycle\<close>: the code pops the last element of a vector, so the
  stack here is that vector reversed.
\<close>

function cycle_search :: "graph \<Rightarrow> task_id \<Rightarrow> task_id list \<Rightarrow> task_id oset \<Rightarrow> bool" where
  "cycle_search g new [] seen = False"
| "cycle_search g new (i # stack) seen =
     (if i = new then True
      else if i \<in> set seen then cycle_search g new stack seen
      else case omap_get (g_nodes g) i of
             None \<Rightarrow> cycle_search g new stack (oset_insert i seen)
           | Some n \<Rightarrow> cycle_search g new (rev (tn_dependencies n) @ stack) (oset_insert i seen))"
  by pat_completeness auto
termination
proof (relation "inv_image (less_than <*lex*> less_than)
    (\<lambda>(g, new, stack, seen). (card (fst ` set (g_nodes g) - set seen), length stack))", goal_cases)
  case 1
  show ?case by (intro wf_inv_image wf_lex_prod wf_less_than)
next
  case (3 g new i stack seen)
  then have "i \<notin> fst ` set (g_nodes g)" by (simp add: map_of_eq_None_iff)
  then have "fst ` set (g_nodes g) - set (oset_insert i seen) = fst ` set (g_nodes g) - set seen"
    by auto
  then show ?case by simp
next
  case (4 g new i stack seen n)
  then have "i \<in> fst ` set (g_nodes g)" by (metis map_of_SomeD fst_conv image_eqI)
  with 4(2) show ?case
    by (auto intro!: visit_smaller [of "fst ` set (g_nodes g)" i "set seen" "fst ` set (g_nodes g)", simplified])
qed simp

definition would_cycle :: "graph \<Rightarrow> task_id \<Rightarrow> task_id list \<Rightarrow> bool" where
  "would_cycle g new dependencies = cycle_search g new (rev dependencies) []"

section \<open>Creating tasks\<close>

definition add_build :: "task_node \<Rightarrow> graph \<Rightarrow> graph_error + session_event" where
  "add_build node g =
     (if omap_has (g_nodes g) (tn_id node) then Inl (DuplicateTask (tn_id node))
      else if would_cycle g (tn_id node) (tn_dependencies node) then Inl (Cycle (tn_id node))
      else case rt_parent (tn_runtime node) of
             None \<Rightarrow> Inr (Ev_Task_Created (Inr node))
           | Some p \<Rightarrow>
               and_then (get_node g p) (\<lambda>parent.
                 if \<not> fits_within (tn_budget node) (available parent) then Inl BudgetExpansion
                 else Inr (Ev_Task_Created (Inr node))))"

definition fresh_runtime :: "task_node \<Rightarrow> task_node" where
  "fresh_runtime node =
     node\<lparr>tn_runtime := runtime_default
       \<lparr>rt_parent := rt_parent (tn_runtime node), rt_plan := rt_plan (tn_runtime node)\<rparr>\<rparr>"

definition graph_add :: "task_node \<Rightarrow> unit command" where
  "graph_add given = (\<lambda>(g, w).
     (let node = fresh_runtime given
      in if omap_has (g_nodes g) (tn_id node) then (Inl (DuplicateTask (tn_id node)), (g, w))
         else if tn_id node \<in> set (tn_dependencies node)
                 \<or> would_cycle g (tn_id node) (tn_dependencies node)
         then bindE (commit (\<lambda>_. Inr (Ev_Cycle_Detected (tn_id node))))
                (\<lambda>_. raise (Cycle (tn_id node))) (g, w)
         else commit (add_build node) (g, w)))"

text \<open>Each request is met by one grant of the parent, under a fresh identifier.\<close>

fun attenuate_requests ::
  "capability_grant list \<Rightarrow> agent_id \<Rightarrow> child_capability_request list
    \<Rightarrow> (session_event world, graph_error, capability_grant list) effect" where
  "attenuate_requests authority assignee [] w = (Inr [], w)"
| "attenuate_requests authority assignee (request # rest) w =
     (if length authority \<le> cc_parent_grant request then (Inl MissingParentGrant, w)
      else case attenuate (fst (draw_uuid w)) (authority ! cc_parent_grant request) (Agent assignee)
                  (cc_action request) (cc_scope request) (cc_expires_at_ms request) of
             Inl e \<Rightarrow> (Inl (Attenuation e), w)
           | Inr grant \<Rightarrow>
               bindE (attenuate_requests authority assignee rest) (\<lambda>grants. ret (grant # grants))
                 (snd (draw_uuid w)))"

definition add_child :: "task_id \<Rightarrow> task_node \<Rightarrow> child_capability_request list \<Rightarrow> unit command" where
  "add_child parent child requests = (\<lambda>(g, w).
     need (get_node g parent) (\<lambda>parent_node (g, w).
       if \<not> fits_within (tn_budget child) (available parent_node) then (Inl BudgetExpansion, (g, w))
       else need (ok_or MissingAssignee (tn_assignee child)) (\<lambda>assignee (g, w).
         (case attenuate_requests (tn_authority parent_node) assignee requests w of
            (Inl e, w') \<Rightarrow> (Inl e, (g, w'))
          | (Inr grants, w') \<Rightarrow>
              graph_add
                (on_runtime (\<lambda>r. r\<lparr>rt_parent := Some parent\<rparr>) (child\<lparr>tn_authority := grants\<rparr>))
                (g, w'))) (g, w)) (g, w))"

section \<open>Plans\<close>

definition plan_intent_build :: "task_id \<Rightarrow> json list \<Rightarrow> build" where
  "plan_intent_build root steps g =
     (if \<not> omap_has (g_nodes g) root then Inl (UnknownTask root)
      else
        let proposed = Inr (Some (Ev_Plan_Intent (Inr root) (Inr (JArray steps))))
        in case omap_get (g_plan_intents g) root of
             None \<Rightarrow> proposed
           | Some previous \<Rightarrow>
               and_then (ok_or (InvalidEvent ''invalid prior plan intent'') (as_array previous))
                 (\<lambda>old. if length old > length steps \<or> old \<noteq> take (length old) steps
                        then Inl (InvalidEvent
                          ''committed plan steps cannot be revised; append new steps instead'')
                        else if length old = length steps then Inr None else proposed))"

definition record_plan_intent :: "task_id \<Rightarrow> json list \<Rightarrow> unit command" where
  "record_plan_intent root steps = bindE (commit_if (plan_intent_build root steps)) (\<lambda>_. ret ())"

definition plan_step :: "graph \<Rightarrow> task_id \<Rightarrow> string \<Rightarrow> json option" where
  "plan_step g root step_id =
     Option.bind (Option.bind (omap_get (g_plan_intents g) root) as_array)
       (find (\<lambda>step. Option.bind (json_get step ''id'') as_str = Some step_id))"

definition plan_todo_build :: "task_id \<Rightarrow> string \<Rightarrow> todo_item \<Rightarrow> build" where
  "plan_todo_build root step_id item g =
     (case omap_get (g_plan_todos g) (root, step_id) of
        Some known \<Rightarrow>
          if known = td_id item then Inr None
          else Inl (InvalidEvent ''plan step already has a different TODO'')
      | None \<Rightarrow>
          let reserved = Option.bind (plan_step g root step_id)
                           (\<lambda>step. Option.bind (json_get step ''committed_as'') as_str)
          in if reserved \<noteq> Some (td_id item) \<or> td_id item \<in> set (g_todo_ids g)
             then Inl (InvalidEvent (''TODO '' @ td_id item
               @ '' is not reserved by this plan or was claimed; inspect session history''))
             else Inr (Some (Todo_Created (Some item) (Some root) (Some step_id))))"

definition record_plan_todo :: "task_id \<Rightarrow> string \<Rightarrow> todo_item \<Rightarrow> unit command" where
  "record_plan_todo root step_id item =
     bindE (commit_if (plan_todo_build root step_id item)) (\<lambda>_. ret ())"

definition scripted_plan_build :: "task_id \<Rightarrow> build" where
  "scripted_plan_build root g =
     (if \<not> omap_has (g_nodes g) root then Inl (UnknownTask root)
      else if root \<in> set (g_scripted_plan_roots g) then Inr None
      else Inr (Some (Ev_Scripted_Plan_Authorized (Inr root))))"

definition mark_scripted_plan :: "task_id \<Rightarrow> unit command" where
  "mark_scripted_plan root = bindE (commit_if (scripted_plan_build root)) (\<lambda>_. ret ())"

fun unapproved :: "graph \<Rightarrow> string option \<Rightarrow> task_id list \<Rightarrow> task_id oset \<Rightarrow> graph_error + task_id oset" where
  "unapproved g note [] pending = Inr pending"
| "unapproved g note (i # is) pending =
     and_then (validate_plan_task g i) (\<lambda>_.
       case omap_get (g_approved_plan g) i of
         Some recorded \<Rightarrow>
           if recorded \<noteq> note then Inl (PlanApprovalConflict i) else unapproved g note is pending
       | None \<Rightarrow> unapproved g note is (oset_insert i pending))"

definition approve_plan_build :: "task_id list \<Rightarrow> string option \<Rightarrow> build" where
  "approve_plan_build task_ids note g =
     (if task_ids = [] then Inl (InvalidEvent ''approval has no plan tasks'')
      else and_then (unapproved g note task_ids []) (\<lambda>pending.
        if pending = [] then Inr None
        else Inr (Some (Ev_Plan_Approved (Inr pending) (Inr note)))))"

definition approve_plan :: "task_id list \<Rightarrow> string option \<Rightarrow> unit command" where
  "approve_plan task_ids note = bindE (commit_if (approve_plan_build task_ids note)) (\<lambda>_. ret ())"

section \<open>Authority\<close>

definition authorize_build ::
  "task_id \<Rightarrow> capability_grant list \<Rightarrow> graph \<Rightarrow> graph_error + session_event" where
  "authorize_build i authority g =
     and_then (get_node g i) (\<lambda>n.
       if tn_authority n \<noteq> [] then Inl (AlreadyAuthorized i)
       else Inr (Ev_Authorized (Inr i) (Inr authority)))"

definition authorize :: "task_id \<Rightarrow> capability_grant list \<Rightarrow> unit command" where
  "authorize i authority = commit (authorize_build i authority)"

definition narrow_grant :: "capability_grant list \<Rightarrow> capability_grant \<Rightarrow> capability_grant option" where
  "narrow_grant current held =
     map_option
       (\<lambda>now. held\<lparr>cg_scope := scope_narrow (cg_scope held) (cg_scope now),
                   cg_expires_at_ms := earliest (cg_expires_at_ms held) (cg_expires_at_ms now),
                   cg_delegation_depth := min (cg_delegation_depth held) (cg_delegation_depth now)\<rparr>)
       (find (\<lambda>grant. cg_action grant = cg_action held) current)"

definition narrow_authority ::
  "task_id \<Rightarrow> capability_grant list \<Rightarrow> capability_grant list command" where
  "narrow_authority i current = (\<lambda>(g, w).
     need (get_node g i) (\<lambda>n.
       (let narrowed = List.map_filter (narrow_grant current) (tn_authority n)
        in bindE (commit (\<lambda>_. Inr (Ev_Authority_Narrowed (Inr i) (Inr narrowed))))
             (\<lambda>_. ret narrowed))) (g, w))"

section \<open>Transitions\<close>

definition transition_build :: "task_id \<Rightarrow> task_state \<Rightarrow> json option \<Rightarrow> build" where
  "transition_build i target evidence g =
     and_then (get_node g i) (\<lambda>n.
       (let current = tn_state n
        in if current = target then Inr None
           else if \<not> transition_allowed current target then Inl (InvalidTransition current target)
           else if target = Task_Ready \<and> current = Task_Pending \<and> \<not> is_ready g n
           then Inl (InvalidTransition current target)
           else Inr (Some (Ev_Transitioned (Inr i) current (Inr target) evidence))))"

definition transition :: "task_id \<Rightarrow> task_state \<Rightarrow> json option \<Rightarrow> unit command" where
  "transition i target evidence = bindE (commit_if (transition_build i target evidence)) (\<lambda>_. ret ())"

definition ready_build :: "task_id \<Rightarrow> build" where
  "ready_build i g =
     and_then (get_node g i) (\<lambda>n.
       if \<not> is_ready g n then Inr None
       else Inr (Some (Ev_Transitioned (Inr i) Task_Pending (Inr Task_Ready) None)))"

fun ready_each :: "task_id list \<Rightarrow> task_id list \<Rightarrow> task_id list command" where
  "ready_each [] ready = ret ready"
| "ready_each (i # is) ready =
     bindE (commit_if (ready_build i)) (\<lambda>promoted.
       ready_each is (if promoted then ready @ [i] else ready))"

definition ready :: "task_id list command" where
  "ready = bindE refresh (\<lambda>_. bindE reconcile_blocked (\<lambda>_.
     (\<lambda>(g, w). ready_each (map fst (filter (\<lambda>(i, n). is_ready g n) (g_nodes g))) [] (g, w))))"

definition block_unreachable :: "task_id list command" where
  "block_unreachable = bindE catch_up (\<lambda>_. reconcile_blocked)"

section \<open>Attempts\<close>

definition attempt_schema_version :: nat where
  "attempt_schema_version = 1"

definition start_attempt_build ::
  "task_id \<Rightarrow> attempt_request \<Rightarrow> attempt_id \<Rightarrow> graph \<Rightarrow> graph_error + session_event" where
  "start_attempt_build i request attempt g =
     and_then (get_node g i) (\<lambda>n.
       if tn_state n \<noteq> Task_Ready then Inl (InvalidTransition (tn_state n) Task_Running)
       else if \<not> dependencies_completed g n then Inl (InvalidTransition (tn_state n) Task_Running)
       else if rt_plan (tn_runtime n) \<noteq> None \<and> \<not> is_plan_approved g i then Inl (PlanNotApproved i)
       else Inr (Ev_Attempt_Started (Inr
         \<lparr>ta_schema = attempt_schema_version, ta_id = attempt, ta_task = i,
          ta_parent_task = rt_parent (tn_runtime n),
          ta_parent_attempt =
            Option.bind (Option.bind (rt_parent (tn_runtime n)) (omap_get (g_nodes g)))
              (\<lambda>p. rt_current_attempt (tn_runtime p)),
          ta_retry_of =
            (if rt_attempts (tn_runtime n) = [] then None else Some (last (rt_attempts (tn_runtime n)))),
          ta_role = aq_role request, ta_assignee = aq_assignee request, ta_model = aq_model request,
          ta_workspace = tn_workspace n, ta_base_revision = aq_base_revision request,
          ta_authority = tn_authority n, ta_required_output = tn_required_output n,
          ta_reserved = available n, ta_used = budget_default,
          ta_lease_epoch = saturating_add (rt_lease_epoch (tn_runtime n)) 1,
          ta_lease_expires_at_ms = aq_lease_expires_at_ms request,
          ta_started_at_ms = aq_started_at_ms request, ta_ended_at_ms = None,
          ta_state = At_Starting, ta_terminal_reason = None, ta_retryable = NotRetryable,
          ta_result = None, ta_evidence = []\<rparr>)))"

definition start_attempt :: "task_id \<Rightarrow> attempt_request \<Rightarrow> attempt_id command" where
  "start_attempt i request = (\<lambda>(g, w).
     (let (attempt, w') = draw_uuid w
      in bindE (commit (start_attempt_build i request attempt)) (\<lambda>_. ret attempt) (g, w')))"

definition lease :: "task_id \<Rightarrow> agent_id \<Rightarrow> nat \<Rightarrow> attempt_id command" where
  "lease i agent expires_at_ms = (\<lambda>(g, w).
     start_attempt i
       \<lparr>aq_role = [], aq_assignee = agent, aq_model = None, aq_base_revision = None,
        aq_started_at_ms = w_clock w, aq_lease_expires_at_ms = expires_at_ms\<rparr> (g, w))"

text \<open>\<open>Some(true)\<close> of the plan check two of the commands below share.\<close>

definition unapproved_plan_task :: "graph \<Rightarrow> task_id \<Rightarrow> bool" where
  "unapproved_plan_task g i \<longleftrightarrow>
     (case omap_get (g_nodes g) i of None \<Rightarrow> False | Some n \<Rightarrow> rt_plan (tn_runtime n) \<noteq> None)
     \<and> \<not> is_plan_approved g i"

definition advance_build :: "attempt_id \<Rightarrow> attempt_state \<Rightarrow> graph \<Rightarrow> graph_error + session_event" where
  "advance_build attempt target g =
     and_then (get_attempt g attempt) (\<lambda>record.
       if \<not> is_live (ta_state record) then Inl (FencedAttempt attempt)
       else if unapproved_plan_task g (ta_task record) then Inl (PlanNotApproved (ta_task record))
       else if ta_state record = At_Cancelling \<and> target \<noteq> At_Cancelling
       then Inl (AlreadyCancelling attempt)
       else Inr (Ev_Attempt_State_Changed (Inr attempt) (ta_task record) (Inr target)))"

definition advance_attempt :: "attempt_id \<Rightarrow> attempt_state \<Rightarrow> unit command" where
  "advance_attempt attempt target =
     (if \<not> is_live target then raise (NotLive target) else commit (advance_build attempt target))"

definition cancel_build :: "attempt_id \<Rightarrow> string \<Rightarrow> graph \<Rightarrow> graph_error + session_event" where
  "cancel_build attempt reason g =
     and_then (get_attempt g attempt) (\<lambda>record.
       if \<not> is_live (ta_state record) then Inl (FencedAttempt attempt)
       else Inr (Ev_Cancel_Requested (Inr attempt) (ta_task record) (Some reason)))"

definition request_cancel :: "attempt_id \<Rightarrow> string \<Rightarrow> unit command" where
  "request_cancel attempt reason = commit (cancel_build attempt reason)"

definition pause_build :: "attempt_id \<Rightarrow> graph \<Rightarrow> graph_error + session_event" where
  "pause_build attempt g =
     and_then (get_attempt g attempt) (\<lambda>record.
       if \<not> is_live (ta_state record) \<or> ta_state record = At_Cancelling then Inl (FencedAttempt attempt)
       else Inr (Ev_Pause_Requested (Inr attempt) (ta_task record)))"

definition request_pause :: "attempt_id \<Rightarrow> unit command" where
  "request_pause attempt = commit (pause_build attempt)"

definition resume_build :: "attempt_id \<Rightarrow> graph \<Rightarrow> graph_error + session_event" where
  "resume_build attempt g =
     and_then (get_attempt g attempt) (\<lambda>record.
       if \<not> is_live (ta_state record) \<or> attempt \<notin> set (g_paused g) then Inl (FencedAttempt attempt)
       else if unapproved_plan_task g (ta_task record) then Inl (PlanNotApproved (ta_task record))
       else Inr (Ev_Resumed (Inr attempt) (ta_task record)))"

definition resume :: "attempt_id \<Rightarrow> unit command" where
  "resume attempt = commit (resume_build attempt)"

definition supersede_build :: "attempt_id \<Rightarrow> graph \<Rightarrow> graph_error + session_event" where
  "supersede_build superseded g =
     and_then (get_attempt g superseded) (\<lambda>record.
       Inr (Ev_Superseded (Inr superseded) (ta_task record)))"

text \<open>What \<open>retry\<close> asks of the view it is called on, before it commits anything.\<close>

definition retry_check :: "graph \<Rightarrow> task_id \<Rightarrow> nat \<Rightarrow> graph_error + attempt_id" where
  "retry_check g i max_attempts =
     and_then (get_node g i) (\<lambda>n.
       if rt_plan (tn_runtime n) \<noteq> None \<and> \<not> is_plan_approved g i then Inl (PlanNotApproved i)
       else if length (rt_attempts (tn_runtime n)) \<ge> max_attempts then Inl (RetriesExhausted i)
       else
         and_then (ok_or (NothingToRetry i)
           (if rt_attempts (tn_runtime n) = [] then None
            else omap_get (g_attempts g) (last (rt_attempts (tn_runtime n))))) (\<lambda>previous.
           if is_live (ta_state previous) then Inl (StillRunning (ta_id previous))
           else if ta_retryable previous \<noteq> Retryable
           then Inl (WillNotRetry (ta_id previous) (ta_retryable previous))
           else if available n = budget_default
           then Inl (BudgetExhausted \<lparr>pe_reason = ''budget_exhausted'', pe_remaining = budget_default\<rparr>)
           else Inr (ta_id previous)))"

definition retry :: "task_id \<Rightarrow> attempt_request \<Rightarrow> nat \<Rightarrow> attempt_id command" where
  "retry i request max_attempts = (\<lambda>(g, w).
     need (retry_check g i max_attempts) (\<lambda>superseded.
       bindE (commit (supersede_build superseded)) (\<lambda>_.
       bindE (transition i Task_Ready None) (\<lambda>_.
       start_attempt i request))) (g, w))"

definition finish_build ::
  "(string \<Rightarrow> json option) \<Rightarrow> attempt_id \<Rightarrow> attempt_outcome \<Rightarrow> graph \<Rightarrow> graph_error + session_event" where
  "finish_build parse_json attempt outcome g =
     and_then (get_attempt g attempt) (\<lambda>record.
       if \<not> is_live (ta_state record) then Inl (FencedAttempt attempt)
       else and_then (get_node g (ta_task record)) (\<lambda>n.
         if rt_current_attempt (tn_runtime n) \<noteq> Some attempt
            \<or> rt_lease_epoch (tn_runtime n) \<noteq> ta_lease_epoch record
         then Inl (FencedAttempt attempt)
         else case (if ao_state outcome = At_Completed
                    then violation (contract_parse parse_json (ta_required_output record))
                           (ao_result outcome)
                    else None) of
                Some why \<Rightarrow> Inl (ContractViolation attempt why)
              | None \<Rightarrow>
                  Inr (Ev_Attempt_Finished (Inr attempt) (ta_task record) (Inr (ao_state outcome))
                    (Inr (ao_used outcome)) (ao_reason outcome) (Inr (ao_retryable outcome))
                    (ao_result outcome) (Inr (ao_evidence outcome)) (Some (ao_ended_at_ms outcome)))))"

definition finish_attempt ::
  "(string \<Rightarrow> json option) \<Rightarrow> attempt_id \<Rightarrow> attempt_outcome \<Rightarrow> unit command" where
  "finish_attempt parse_json attempt outcome =
     (if ao_state outcome \<notin> {At_Completed, At_Failed, At_Cancelled}
      then raise (NotTerminal (ao_state outcome))
      else commit (finish_build parse_json attempt outcome))"

definition close :: "(string \<Rightarrow> json option) \<Rightarrow> task_id \<Rightarrow> task_state \<Rightarrow> json \<Rightarrow> unit command" where
  "close parse_json i target evidence =
     bindE refresh (\<lambda>_. bindE reconcile_blocked (\<lambda>_. (\<lambda>(g, w).
       need (get_node g i) (\<lambda>n.
         if tn_state n = target then ret ()
         else case rt_current_attempt (tn_runtime n) of
                None \<Rightarrow> transition i target (Some evidence)
              | Some attempt \<Rightarrow>
                  (\<lambda>(g, w). finish_attempt parse_json attempt
                     \<lparr>ao_state = (case target of Task_Completed \<Rightarrow> At_Completed
                                   | Task_Cancelled \<Rightarrow> At_Cancelled | _ \<Rightarrow> At_Failed),
                      ao_used = budget_default,
                      ao_reason = Option.bind (json_get evidence ''reason'') as_str,
                      ao_retryable = NotRetryable, ao_result = Some evidence, ao_evidence = [],
                      ao_ended_at_ms = w_clock w\<rparr> (g, w))) (g, w))))"

definition complete :: "(string \<Rightarrow> json option) \<Rightarrow> task_id \<Rightarrow> json \<Rightarrow> unit command" where
  "complete parse_json i evidence = close parse_json i Task_Completed evidence"

definition fail :: "(string \<Rightarrow> json option) \<Rightarrow> task_id \<Rightarrow> json \<Rightarrow> unit command" where
  "fail parse_json i evidence = close parse_json i Task_Failed evidence"

definition cancel :: "(string \<Rightarrow> json option) \<Rightarrow> task_id \<Rightarrow> string \<Rightarrow> unit command" where
  "cancel parse_json i reason =
     close parse_json i Task_Cancelled (JObject [(''reason'', JString reason)])"

definition verify :: "(json \<Rightarrow> task_id option) \<Rightarrow> task_id \<Rightarrow> json \<Rightarrow> unit command" where
  "verify task_of_json i evidence = (\<lambda>(g, w).
     if (case omap_get (g_nodes g) i of None \<Rightarrow> False | Some n \<Rightarrow> tn_state n = Task_Verified)
     then (Inr (), (g, w))
     else if Option.bind (json_get evidence ''task'') task_of_json \<noteq> Some i
     then (Inl (NotAProof i ''the evidence is not a completion proof for this task''), (g, w))
     else case Option.bind (json_get evidence ''state'') as_str of
            None \<Rightarrow> (Inl (NotAProof i ''the evidence carries no proof state''), (g, w))
          | Some said \<Rightarrow>
              if said = ''verified'' then transition i Task_Verified (Some evidence) (g, w)
              else (Inl (NotAProof i (''its proof says '' @ said)), (g, w)))"

section \<open>Budgets\<close>

definition exhausted :: "budget \<Rightarrow> partial_evidence" where
  "exhausted left = \<lparr>pe_reason = ''budget_exhausted'', pe_remaining = left\<rparr>"

definition consume_build :: "task_id \<Rightarrow> budget \<Rightarrow> graph \<Rightarrow> graph_error + session_event" where
  "consume_build i used g =
     and_then (get_node g i) (\<lambda>n.
       if \<not> fits_within used (available n) then Inl (BudgetExhausted (exhausted (available n)))
       else Inr (Ev_Budget_Used (Inr i) (Inr used)))"

definition consume :: "task_id \<Rightarrow> budget \<Rightarrow> unit command" where
  "consume i used = (\<lambda>(g, w).
     need (get_node g i) (\<lambda>n.
       if \<not> fits_within used (available n)
       then bindE (commit (\<lambda>_. Inr (Ev_Budget_Exhausted i (exhausted (available n)))))
              (\<lambda>_. raise (BudgetExhausted (exhausted (available n))))
       else commit (consume_build i used)) (g, w))"

section \<open>Recovery\<close>

definition expire_build :: "task_id \<Rightarrow> string \<Rightarrow> graph \<Rightarrow> graph_error + session_event" where
  "expire_build i reason g =
     and_then (get_node g i) (\<lambda>n.
       if tn_state n \<noteq> Task_Running then Inl (InvalidTransition (tn_state n) Task_Ready)
       else Inr (Ev_Attempt_Expired (Inr i) (rt_current_attempt (tn_runtime n)) (Some reason)))"

fun expire_each :: "task_id list \<Rightarrow> string \<Rightarrow> unit command" where
  "expire_each [] reason = ret ()"
| "expire_each (i # is) reason = bindE (commit (expire_build i reason)) (\<lambda>_. expire_each is reason)"

definition expire :: "task_id list \<Rightarrow> string \<Rightarrow> task_id list command" where
  "expire tasks reason = bindE (expire_each tasks reason) (\<lambda>_. ret tasks)"

definition reclaim_running :: "task_id list command" where
  "reclaim_running = (\<lambda>(g, w).
     expire (map fst (filter (\<lambda>(i, n). tn_state n = Task_Running) (g_nodes g))) ''reclaimed'' (g, w))"

definition recover_expired :: "nat \<Rightarrow> task_id list command" where
  "recover_expired now_ms = (\<lambda>(g, w).
     expire (map fst (filter (\<lambda>(i, n). tn_state n = Task_Running \<and>
         (case tn_lease_expires_at_ms n of None \<Rightarrow> False | Some expiry \<Rightarrow> expiry \<le> now_ms)) (g_nodes g)))
       ''lease_expired'' (g, w))"

section \<open>Acceptance criteria\<close>

definition declare_criterion_build :: "acceptance_criterion \<Rightarrow> graph \<Rightarrow> graph_error + session_event" where
  "declare_criterion_build criterion g =
     (if \<not> omap_has (g_nodes g) (ac_task criterion) then Inl (UnknownTask (ac_task criterion))
      else if omap_has (g_criteria g) (ac_id criterion) then Inl (DuplicateCriterion (ac_id criterion))
      else Inr (Ev_Criterion_Declared (Inr criterion)))"

definition declare_criterion :: "acceptance_criterion \<Rightarrow> criterion_id command" where
  "declare_criterion criterion =
     bindE (commit (declare_criterion_build criterion)) (\<lambda>_. ret (ac_id criterion))"

definition judge_build :: "criterion_judgment \<Rightarrow> graph \<Rightarrow> graph_error + session_event" where
  "judge_build verdict g =
     and_then (ok_or (UnknownCriterion (jd_criterion verdict))
       (omap_get (g_criteria g) (jd_criterion verdict))) (\<lambda>criterion.
         if ac_verifier criterion = Review \<or> ac_verifier criterion = Human
         then Inr (Ev_Criterion_Judged (Inr verdict))
         else Inl (NotAJudgment (jd_criterion verdict)))"

definition judge :: "criterion_judgment \<Rightarrow> unit command" where
  "judge verdict = commit (judge_build verdict)"

definition retire_build :: "criterion_id \<Rightarrow> string \<Rightarrow> graph \<Rightarrow> graph_error + session_event" where
  "retire_build i why g =
     (if \<not> omap_has (g_criteria g) i then Inl (UnknownCriterion i)
      else Inr (Ev_Criterion_Retired (Inr i) (Some why)))"

definition retire_criterion :: "criterion_id \<Rightarrow> string \<Rightarrow> unit command" where
  "retire_criterion i why = commit (retire_build i why)"

section \<open>Workspaces\<close>

definition live_assignments :: "graph \<Rightarrow> workspace_assignment list" where
  "live_assignments g = filter (\<lambda>a. \<not> wa_released a) (omap_values (g_assignments g))"

definition assign_build :: "workspace_assignment \<Rightarrow> graph \<Rightarrow> graph_error + session_event" where
  "assign_build assignment g =
     (if \<not> omap_has (g_attempts g) (wa_attempt assignment)
      then Inl (UnknownAttempt (wa_attempt assignment))
      else case find (\<lambda>held. wa_view held = wa_view assignment \<and> (wa_mutable held \<or> wa_mutable assignment))
                  (live_assignments g) of
             Some held \<Rightarrow> Inl (ViewAlreadyOwned (wa_owner held) (wa_view held))
           | None \<Rightarrow> Inr (Ev_Workspace_Assigned (Inr assignment)))"

definition assign_workspace :: "workspace_assignment \<Rightarrow> assignment_id command" where
  "assign_workspace assignment =
     (if wa_dirty assignment = Refused then raise (DirtySource (wa_source assignment))
      else if wa_mutable assignment \<and> wa_view assignment = wa_source assignment
      then raise (WriterOnSource (wa_source assignment))
      else bindE (commit (assign_build assignment)) (\<lambda>_. ret (wa_id assignment)))"

definition release_build :: "assignment_id \<Rightarrow> string \<Rightarrow> graph \<Rightarrow> graph_error + session_event" where
  "release_build i reason g =
     and_then (ok_or (UnknownAssignment i) (omap_get (g_assignments g) i)) (\<lambda>assignment.
       Inr (Ev_Workspace_Released (Inr i) (wa_task assignment) reason))"

definition release_workspace :: "assignment_id \<Rightarrow> string \<Rightarrow> unit command" where
  "release_workspace i reason = commit (release_build i reason)"

definition writer_result_build :: "writer_result \<Rightarrow> graph \<Rightarrow> graph_error + session_event" where
  "writer_result_build writer g =
     and_then (ok_or (UnknownAssignment (wr_assignment writer))
       (omap_get (g_assignments g) (wr_assignment writer))) (\<lambda>assignment.
         if \<not> wa_mutable assignment then Inl (NotAWriter (wr_assignment writer))
         else Inr (Ev_Writer_Result (Inr writer) (wa_task assignment)))"

definition record_writer_result :: "writer_result \<Rightarrow> unit command" where
  "record_writer_result writer = commit (writer_result_build writer)"

definition abandoned_assignments :: "graph \<Rightarrow> nat \<Rightarrow> workspace_assignment list" where
  "abandoned_assignments g now_ms =
     filter (\<lambda>a. wa_expires_at_ms a \<le> now_ms \<or>
         (case omap_get (g_attempts g) (wa_attempt a) of
            None \<Rightarrow> False | Some t \<Rightarrow> is_terminal (ta_state t)))
       (live_assignments g)"

section \<open>Traces and messages\<close>

definition trace_build :: "attempt_id \<Rightarrow> string \<Rightarrow> json \<Rightarrow> graph \<Rightarrow> graph_error + session_event" where
  "trace_build attempt kind data g =
     and_then (get_attempt g attempt) (\<lambda>record.
       Inr (Ev_Trace (Inr attempt) (ta_task record) (Some kind) (Some data)))"

definition record_trace :: "attempt_id \<Rightarrow> string \<Rightarrow> json \<Rightarrow> unit command" where
  "record_trace attempt kind data = commit (trace_build attempt kind data)"

definition max_inbox :: nat where
  "max_inbox = 64"

definition send_build ::
  "message_id \<Rightarrow> task_id \<Rightarrow> task_id \<Rightarrow> message_kind \<Rightarrow> json \<Rightarrow> message_id option \<Rightarrow> nat
    \<Rightarrow> graph \<Rightarrow> graph_error + session_event" where
  "send_build i sender to kind body causation sent_at_ms g =
     (if \<not> omap_has (g_nodes g) sender then Inl (UnknownTask sender)
      else and_then (get_node g to) (\<lambda>recipient.
        if tn_state recipient \<in> {Task_Completed, Task_Verified, Task_Failed}
        then Inl (Ended to (tn_state recipient))
        else if length (inbox_ids g to) \<ge> max_inbox then Inl (InboxFull to)
        else Inr (Ev_Message_Sent (Inr
          \<lparr>tm_id = i, tm_from = sender, tm_to = to, tm_kind = kind, tm_body = body,
           tm_causation = causation, tm_sent_at_ms = sent_at_ms, tm_delivered_at_ms = None\<rparr>))))"

definition send ::
  "task_id \<Rightarrow> task_id \<Rightarrow> message_kind \<Rightarrow> json \<Rightarrow> message_id option \<Rightarrow> nat \<Rightarrow> message_id command" where
  "send sender to kind body causation sent_at_ms = (\<lambda>(g, w).
     (let (i, w') = draw_uuid w
      in bindE (commit (send_build i sender to kind body causation sent_at_ms)) (\<lambda>_. ret i) (g, w')))"

definition deliver_build :: "task_id \<Rightarrow> nat \<Rightarrow> graph \<Rightarrow> graph_error + session_event" where
  "deliver_build to now_ms g =
     Inr (Ev_Messages_Delivered (Inr to) (Inr (inbox_ids g to)) (Some now_ms))"

definition deliver :: "task_id \<Rightarrow> nat \<Rightarrow> task_message list command" where
  "deliver to now_ms = (\<lambda>(g, w).
     (let waiting = inbox_ids g to
      in if waiting = [] then (Inr [], (g, w))
         else bindE (commit (deliver_build to now_ms))
                (\<lambda>_ (g, w). (Inr (List.map_filter (omap_get (g_messages g)) waiting), (g, w)))
                (g, w)))"

section \<open>Reading the projection\<close>

definition inbox :: "graph \<Rightarrow> task_id \<Rightarrow> task_message list" where
  "inbox g to = List.map_filter (omap_get (g_messages g)) (inbox_ids g to)"

definition pending :: "graph \<Rightarrow> task_node list" where
  "pending g = filter (\<lambda>n. tn_state n \<in> {Task_Ready, Task_Pending}) (omap_values (g_nodes g))"

definition runnable :: "graph \<Rightarrow> task_node list" where
  "runnable g =
     filter (\<lambda>n. tn_state n = Task_Ready \<and> dependencies_completed g n \<and>
         (rt_plan (tn_runtime n) = None \<or> is_plan_approved g (tn_id n)))
       (omap_values (g_nodes g))"

definition attempts_of :: "graph \<Rightarrow> task_id \<Rightarrow> task_attempt list" where
  "attempts_of g i =
     (case omap_get (g_nodes g) i of
        None \<Rightarrow> []
      | Some n \<Rightarrow> List.map_filter (omap_get (g_attempts g)) (rt_attempts (tn_runtime n)))"

definition criteria_of :: "graph \<Rightarrow> task_id \<Rightarrow> acceptance_criterion list" where
  "criteria_of g i = filter (\<lambda>c. ac_task c = i) (omap_values (g_criteria g))"

definition judgments_of :: "graph \<Rightarrow> criterion_id \<Rightarrow> criterion_judgment list" where
  "judgments_of g i = (case omap_get (g_judgments g) i of None \<Rightarrow> [] | Some js \<Rightarrow> js)"

definition trace_of :: "graph \<Rightarrow> attempt_id \<Rightarrow> json list" where
  "trace_of g i = (case omap_get (g_traces g) i of None \<Rightarrow> [] | Some es \<Rightarrow> es)"

end
