(* ===== verification/Folds.thy ===== *)
theory Folds
  imports Events "HOL-Library.Sublist"
begin

text \<open>
  Projections that fold every event in and never refuse one: what a log, a checklist or a store of
  records does with its stream. A reader of such a projection that catches up holds the fold of the
  whole stream, however much it had read before.
\<close>

locale log_fold =
  fixes fold_in :: "'d envelope \<Rightarrow> 'g \<Rightarrow> 'g"
    and set_version :: "nat \<Rightarrow> 'g \<Rightarrow> 'g"
    and version :: "'g \<Rightarrow> nat"
  assumes fold_in_version: "fold_in e (set_version n g) = set_version n (fold_in e g)"
    and set_version_twice: "set_version m (set_version n g) = set_version m g"
    and version_set: "version (set_version n g) = n"
begin

definition folded :: "'d envelope \<Rightarrow> ('g, 'x, unit) effect" where
  "folded e g = (Inr (), fold_in e g)"

lemma replay_batch_folded: "replay_batch folded es g = (Inr (), fold fold_in es g)"
  by (induction es arbitrary: g) (simp_all add: folded_def)

lemma fold_version: "fold fold_in es (set_version n g) = set_version n (fold fold_in es g)"
  by (induction es arbitrary: g) (simp_all add: fold_in_version)

text \<open>A reader that has read a part of the stream, starting from \<open>g0\<close>.\<close>

definition reads :: "'g \<Rightarrow> 'g \<Rightarrow> 'd envelope list \<Rightarrow> bool" where
  "reads g0 g es \<longleftrightarrow>
     version g \<le> length es \<and> g = set_version (version g) (fold fold_in (take (version g) es) g0)"

definition caught_up :: "'g \<Rightarrow> 'g \<Rightarrow> 'd envelope list \<Rightarrow> bool" where
  "caught_up g0 g es \<longleftrightarrow> g = set_version (length es) (fold fold_in es g0)"

lemma caught_up_reads: "caught_up g0 g es \<Longrightarrow> reads g0 g (es @ fs)"
  by (simp add: caught_up_def reads_def version_set)

lemma caught_up_version: "caught_up g0 g es \<Longrightarrow> version g = length es"
  by (simp add: caught_up_def version_set)

lemma reads_prefix: "reads g0 g es \<Longrightarrow> prefix es fs \<Longrightarrow> reads g0 g fs"
  by (auto simp: reads_def prefix_def)

lemma caught_up_next:
  assumes "caught_up g0 g es"
  shows "caught_up g0 (set_version (Suc (length es)) (fold_in e g)) (es @ [e])"
proof -
  from assms have "fold_in e g = set_version (length es) (fold_in e (fold fold_in es g0))"
    by (simp add: caught_up_def fold_in_version)
  then show ?thesis by (simp add: caught_up_def set_version_twice)
qed

lemma folded_projection: "projection folded set_version"
  by unfold_locales (simp_all add: folded_def fold_in_version set_version_twice)

lemma catch_up_reads:
  assumes "store_ok s" and "length (stream_of s k) < u64_max" and "reads g0 g (stream_of s k)"
  shows "\<exists>g'. catch_up_with folded set_version overflow wrap s k (version g) g = (Inr (), g') \<and>
    caught_up g0 g' (stream_of s k)"
proof -
  let ?es = "stream_of s k"
  from assms(3) have v: "version g \<le> length ?es"
    and g: "g = set_version (version g) (fold fold_in (take (version g) ?es) g0)"
    by (simp_all add: reads_def)
  let ?g' = "fold fold_in (drop (version g) ?es) g"
  have "fold fold_in ?es g0 = fold fold_in (drop (version g) ?es) (fold fold_in (take (version g) ?es) g0)"
    by (metis append_take_drop_id fold_append o_apply)
  then have all: "?g' = set_version (version g) (fold fold_in ?es g0)"
    by (subst (2) g) (simp add: fold_version)
  have "catch_up_with folded set_version overflow wrap s k (version g) g =
      (Inr (), if version g < length ?es then set_version (length ?es) ?g' else ?g')"
    by (rule projection.catch_up_is_replay [OF folded_projection assms(1,2) v])
      (simp add: replay_batch_folded)
  moreover have "caught_up g0 (if version g < length ?es then set_version (length ?es) ?g' else ?g') ?es"
  proof (cases "version g < length ?es")
    case True
    then show ?thesis by (simp add: caught_up_def all set_version_twice)
  next
    case False
    with v have len: "version g = length ?es" by simp
    show ?thesis using all unfolding caught_up_def len by simp
  qed
  ultimately show ?thesis by blast
qed

end

section \<open>Appending in a shared world\<close>

lemma rival_turn_extends:
  assumes "store_ok (w_store w)"
  shows "store_ok (w_store (rival_turn w)) \<and>
    prefix (stream_of (w_store w) k) (stream_of (w_store (rival_turn w)) k)"
proof (cases "w_rivals w")
  case (Cons c rest)
  obtain j es where c: "c = (j, es)" by fastforce
  obtain r st where ap: "append_events (w_bytes_of w) j (last_sequence (stream_of (w_store w) j)) es
      (w_store w) = (r, st)" by fastforce
  with memory.append_keeps [OF assms ap] memory.append_extends [OF assms ap, of k]
  show ?thesis by (simp add: rival_turn_def Cons c prefix_def)
qed (simp add: rival_turn_def assms)

lemma draw_uuid_store: "draw_uuid w = (i, w') \<Longrightarrow> w_store w' = w_store w"
  by (auto simp: draw_uuid_def)

lemma envelope_new_store:
  "envelope_new session sequence actor causation correlation schema kind payload w = (event, w') \<Longrightarrow>
   w_store w' = w_store w \<and> ev_payload event = payload"
  by (auto simp: envelope_new_def Let_def split: prod.splits dest: draw_uuid_store)

lemma world_append_extends:
  assumes ok: "store_ok (w_store w)" and run: "world_append k v es w = (r, w')"
  shows "\<exists>more. store_ok (w_store w') \<and>
    stream_of (w_store w') k = stream_of (w_store w) k @ more @ (case r of Inr _ \<Rightarrow> es | Inl _ \<Rightarrow> []) \<and>
    (\<forall>n. r = Inr n \<longrightarrow> v = length (stream_of (w_store w) k @ more) \<and> n = v + length es)"
proof -
  let ?w = "rival_turn w"
  from rival_turn_extends [OF ok, of k] obtain more where ok1: "store_ok (w_store ?w)"
    and more: "stream_of (w_store ?w) k = stream_of (w_store w) k @ more"
    by (auto simp: prefix_def)
  obtain s where ap: "append_events (w_bytes_of ?w) k v es (w_store ?w) = (r, s)"
    and w': "w' = ?w\<lparr>w_store := s\<rparr>"
    using run by (auto simp: world_append_def Let_def split: prod.splits)
  note keeps = memory.append_keeps [OF ok1 ap]
  show ?thesis
  proof (cases r)
    case (Inl e)
    with memory.append_Inl [OF ok1 ap [unfolded Inl]] keeps more show ?thesis
      by (intro exI [of _ more]) (simp add: w')
  next
    case (Inr n)
    with memory.append_Inr [OF ok1 ap [unfolded Inr]] keeps more show ?thesis
      by (intro exI [of _ more]) (simp add: w')
  qed
qed

lemma world_append_prefix:
  assumes ok: "store_ok (w_store w)" and run: "world_append k v es w = (r, w')"
  shows "prefix (stream_of (w_store w) j) (stream_of (w_store w') j)" "store_ok (w_store w')"
proof -
  let ?w = "rival_turn w"
  from rival_turn_extends [OF ok, of j] have ok1: "store_ok (w_store ?w)"
    and before: "prefix (stream_of (w_store w) j) (stream_of (w_store ?w) j)" by simp_all
  obtain s where ap: "append_events (w_bytes_of ?w) k v es (w_store ?w) = (r, s)"
    and w': "w' = ?w\<lparr>w_store := s\<rparr>"
    using run by (auto simp: world_append_def Let_def split: prod.splits)
  from memory.append_extends [OF ok1 ap, of j] before
  show "prefix (stream_of (w_store w) j) (stream_of (w_store w') j)"
    by (auto simp: w' prefix_def)
  from memory.append_keeps [OF ok1 ap] show "store_ok (w_store w')" by (simp add: w')
qed

section \<open>Reading a page\<close>

lemma read_page:
  assumes ok: "store_ok s" and v: "v < length (stream_of s k)" and limit: "0 < limit"
  obtains page where "read_events s k (Suc v) limit = Inr page" and "page \<noteq> []"
    and "ev_sequence (last page) = v + length page"
    and "drop v (stream_of s k) = page @ drop (v + length page) (stream_of s k)"
    and "v + length page \<le> length (stream_of s k)"
proof
  let ?es = "stream_of s k"
  let ?page = "take limit (drop v ?es)"
  show "read_events s k (Suc v) limit = Inr ?page" using ok by (rule memory.read_is)
  show ne: "?page \<noteq> []" using v limit by simp
  show "ev_sequence (last ?page) = v + length ?page"
    using memory.events_ok [OF ok, of k] v ne
    by (intro numbered_last numbered_page) (simp_all add: stream_ok_def)
  show "drop v ?es = ?page @ drop (v + length ?page) ?es"
    using append_take_drop_id [of limit "drop v ?es"]
    by (cases "limit \<le> length ?es - v") (simp_all add: add.commute)
  show "v + length ?page \<le> length ?es" using v by simp
qed

section \<open>Ordered maps by their lookups\<close>

lemma omap_ext:
  assumes "omap_ok a" and "omap_ok b" and "omap_get a = omap_get b"
  shows "a = b"
proof (rule map_sorted_distinct_set_unique [where f = fst])
  have "set a = set b"
  proof (intro set_eqI)
    fix p
    show "p \<in> set a \<longleftrightarrow> p \<in> set b"
      using omap_get_iff [OF assms(1), of "fst p" "snd p"] omap_get_iff [OF assms(2), of "fst p" "snd p"] assms(3)
      by simp
  qed
  then show "set a = set b" .
  then show "inj_on fst (set a \<union> set b)"
    using omap_ok_distinct [OF assms(1)] by (simp add: distinct_map)
qed (use assms in \<open>simp_all add: omap_ok_def strict_sorted_iff\<close>)

end
