(* ===== verification/Task_Linear.thy ===== *)
theory Task_Linear
  imports Task_Commit Folds
begin

text \<open>
  What a commit guarantees under concurrent writers. The live graph is the replay of the part
  of the stream it has read, whatever other holders of the store append in between; and the
  event a successful command leaves in the stream was built against exactly the history before
  it. The guarantees are about a stream every event of which replays (\<open>replays\<close>); an event
  that does not is an error for every command.
\<close>

section \<open>Pending blocking work is write-only\<close>

definition unseeded :: "graph \<Rightarrow> graph" where
  "unseeded g = g\<lparr>g_block_seeds := []\<rparr>"

named_theorems seed_free \<open>operations that do not read the pending blocking work\<close>

lemma unseeded_sel [seed_free]:
  "g_nodes (unseeded g) = g_nodes g" "g_dependents (unseeded g) = g_dependents g"
  "g_approved_plan (unseeded g) = g_approved_plan g"
  "g_plan_intents (unseeded g) = g_plan_intents g"
  "g_plan_todos (unseeded g) = g_plan_todos g"
  "g_todo_ids (unseeded g) = g_todo_ids g"
  "g_scripted_plan_roots (unseeded g) = g_scripted_plan_roots g"
  "g_attempts (unseeded g) = g_attempts g" "g_messages (unseeded g) = g_messages g"
  "g_inbox (unseeded g) = g_inbox g" "g_traces (unseeded g) = g_traces g"
  "g_paused (unseeded g) = g_paused g"
  "g_assignments (unseeded g) = g_assignments g"
  "g_writer_results (unseeded g) = g_writer_results g"
  "g_criteria (unseeded g) = g_criteria g" "g_judgments (unseeded g) = g_judgments g"
  by (simp_all add: unseeded_def)

lemma unseeded_upd [seed_free]:
  "unseeded (g\<lparr>g_nodes := x1\<rparr>) = (unseeded g)\<lparr>g_nodes := x1\<rparr>"
  "unseeded (g\<lparr>g_dependents := x2\<rparr>) = (unseeded g)\<lparr>g_dependents := x2\<rparr>"
  "unseeded (g\<lparr>g_approved_plan := x3\<rparr>) = (unseeded g)\<lparr>g_approved_plan := x3\<rparr>"
  "unseeded (g\<lparr>g_plan_intents := x4\<rparr>) = (unseeded g)\<lparr>g_plan_intents := x4\<rparr>"
  "unseeded (g\<lparr>g_plan_todos := x5\<rparr>) = (unseeded g)\<lparr>g_plan_todos := x5\<rparr>"
  "unseeded (g\<lparr>g_todo_ids := x6\<rparr>) = (unseeded g)\<lparr>g_todo_ids := x6\<rparr>"
  "unseeded (g\<lparr>g_scripted_plan_roots := x7\<rparr>) = (unseeded g)\<lparr>g_scripted_plan_roots := x7\<rparr>"
  "unseeded (g\<lparr>g_block_seeds := x8\<rparr>) = unseeded g"
  "unseeded (g\<lparr>g_attempts := x9\<rparr>) = (unseeded g)\<lparr>g_attempts := x9\<rparr>"
  "unseeded (g\<lparr>g_messages := x10\<rparr>) = (unseeded g)\<lparr>g_messages := x10\<rparr>"
  "unseeded (g\<lparr>g_inbox := x11\<rparr>) = (unseeded g)\<lparr>g_inbox := x11\<rparr>"
  "unseeded (g\<lparr>g_traces := x12\<rparr>) = (unseeded g)\<lparr>g_traces := x12\<rparr>"
  "unseeded (g\<lparr>g_paused := x13\<rparr>) = (unseeded g)\<lparr>g_paused := x13\<rparr>"
  "unseeded (g\<lparr>g_assignments := x14\<rparr>) = (unseeded g)\<lparr>g_assignments := x14\<rparr>"
  "unseeded (g\<lparr>g_writer_results := x15\<rparr>) = (unseeded g)\<lparr>g_writer_results := x15\<rparr>"
  "unseeded (g\<lparr>g_criteria := x16\<rparr>) = (unseeded g)\<lparr>g_criteria := x16\<rparr>"
  "unseeded (g\<lparr>g_judgments := x17\<rparr>) = (unseeded g)\<lparr>g_judgments := x17\<rparr>"
  "unseeded (g\<lparr>g_last_event := x18\<rparr>) = (unseeded g)\<lparr>g_last_event := x18\<rparr>"
  by (simp_all add: unseeded_def)

lemma unseeded_reads [seed_free]:
  "get_node (unseeded g) i = get_node g i"
  "get_attempt (unseeded g) a = get_attempt g a"
  "unseeded (on_node i f g) = on_node i f (unseeded g)"
  "unseeded (on_attempt a f' g) = on_attempt a f' (unseeded g)"
  "is_permanently_stopped (unseeded g) i = is_permanently_stopped g i"
  "is_plan_approved (unseeded g) i = is_plan_approved g i"
  "inbox_ids (unseeded g) i = inbox_ids g i"
  "unseeded (seed i g) = unseeded g"
  "unseeded (unseeded g) = unseeded g"
  by (simp_all add: get_node_def get_attempt_def on_node_def on_attempt_def is_permanently_stopped_def
      is_plan_approved_def inbox_ids_def seed_def seed_free Let_def
      cong: option.case_cong task_state.case_cong if_cong)
   (simp add: unseeded_def)

lemma unseeded_if [seed_free]: "unseeded (if c then g else h) = (if c then unseeded g else unseeded h)"
  by simp

lemma get_node_on_attempt [seed_free]: "get_node (on_attempt a f g) i = get_node g i"
  by (simp add: get_node_def on_attempt_def)

lemma unseeded_settle [seed_free]: "unseeded (settle i g) = settle i (unseeded g)"
  by (simp add: settle_def Let_def seed_free split: option.split)

lemma unseeded_add_dependent:
  "unseeded (add_dependent n i g) = unseeded g \<lparr>g_dependents :=
     omap_insert i (oset_insert n (case omap_get (g_dependents (unseeded g)) i of None \<Rightarrow> [] | Some s \<Rightarrow> s))
       (g_dependents (unseeded g))\<rparr>"
  by (simp add: add_dependent_def Let_def unseeded_def)

lemma unseeded_fold_dependents:
  "unseeded g = unseeded h \<Longrightarrow>
   unseeded (fold (add_dependent n) is g) = unseeded (fold (add_dependent n) is h)"
proof (induction "is" arbitrary: g h)
  case (Cons i "is")
  have "unseeded (add_dependent n i g) = unseeded (add_dependent n i h)"
    by (simp only: unseeded_add_dependent Cons.prems)
  from Cons.IH [OF this] show ?case by simp
qed simp

lemma validate_plan_task_seeds [seed_free]:
  "validate_plan_task (unseeded g) i = validate_plan_task g i"
  by (simp add: validate_plan_task_def seed_free cong: option.case_cong if_cong)

lemma check_approval_seeds [seed_free]:
  "check_approval (unseeded g) n is = check_approval g n is"
  by (induction "is") (simp_all add: seed_free split: option.split)

lemma replay_created_seeds:
  "apsnd unseeded (replay_created node (unseeded g)) = apsnd unseeded (replay_created node g)"
proof (cases node)
  case (Inr n)
  let ?p = "\<lambda>g. case rt_parent (tn_runtime n) of None \<Rightarrow> g
      | Some p \<Rightarrow> on_node p (on_runtime (\<lambda>r. r\<lparr>rt_reserved := budget_add (rt_reserved r) (tn_budget n)\<rparr>)) g"
  let ?s = "\<lambda>g. if tn_state n \<in> {Task_Cancelled, Task_Blocked}
      \<or> (tn_state n = Task_Failed \<and> rt_attempts (tn_runtime n) = []) then seed (tn_id n) g else g"
  let ?f = "fold (add_dependent (tn_id n)) (tn_dependencies n)"
  have "unseeded (?s (?p (unseeded g))) = unseeded (?s (?p g))"
    by (simp add: seed_free split: option.split)
  then have eq: "unseeded (?f (?s (?p (unseeded g)))) = unseeded (?f (?s (?p g)))"
    by (rule unseeded_fold_dependents)
  from arg_cong [OF eq, of g_nodes]
  have nodes: "g_nodes (?f (?s (?p (unseeded g)))) = g_nodes (?f (?s (?p g)))"
    by (simp only: unseeded_sel)
  have run: "replay_created node h = (Inr (), (?f (?s (?p h)))\<lparr>g_nodes :=
      omap_insert (tn_id n) n (g_nodes (?f (?s (?p h))))\<rparr>)" for h
    by (simp only: replay_created_def Inr Let_def decoded_simps need_simps)
  show ?thesis
    by (simp only: run apsnd_conv unseeded_upd(1) eq nodes)
qed (simp add: replay_created_def need_def decoded_or_def seed_free)

lemma replay_data_seeds:
  "apsnd unseeded (replay_data d (unseeded g)) = apsnd unseeded (replay_data d g)"
proof (cases d)
  case (Ev_Task_Created node)
  then show ?thesis by (simp add: replay_created_seeds)
next
  case (Todo_Created item root step)
  then show ?thesis by (cases item) (simp_all add: Let_def seed_free split: option.split)
next
  case (Ev_Attempt_Expired i a r)
  then show ?thesis
    by (auto simp: replay_attempt_expired_def need_def Let_def seed_free split: sum.split option.split)
qed (simp_all add: replay_defs need_def Let_def seed_free split: sum.split option.split)

section \<open>Two views of one history\<close>

definition view :: "graph \<Rightarrow> graph" where
  "view g = unseeded (g\<lparr>g_version := 0, g_reconciling := False\<rparr>)"

lemma view_upd [simp]:
  "view (g\<lparr>g_version := v\<rparr>) = view g" "view (set_version v g) = view g"
  "view (g\<lparr>g_reconciling := b\<rparr>) = view g" "view (g\<lparr>g_block_seeds := q\<rparr>) = view g"
  by (simp_all add: view_def unseeded_def set_version_def)

lemma view_header: "view g = with_header (g_session g) (g_actor g) 0 (g_last_event g) False (unseeded g)"
  by (simp add: view_def unseeded_def with_header_def)

lemma replay_seeds: "apsnd unseeded (replay e (unseeded g)) = apsnd unseeded (replay e g)"
  by (cases "ev_payload e") (simp_all add: replay_def replay_data_seeds seed_free)

lemma replay_view: "apsnd view (replay e (view g)) = apsnd view (replay e g)"
proof -
  let ?h = "with_header (g_session g) (g_actor g) 0 (g_last_event g) False"
  have hu: "view (?h (unseeded x)) = view (?h x)" "view (unseeded x) = view x" for x
    by (simp_all add: view_def unseeded_def with_header_def)
  have "apsnd view (replay e (view g)) = apsnd (view \<circ> ?h) (replay e (unseeded g))"
    by (simp add: view_header [of g] replay_header apsnd_compose [symmetric] del: apsnd_compose)
  also have "\<dots> = apsnd (view \<circ> ?h) (apsnd unseeded (replay e (unseeded g)))"
    by (cases "replay e (unseeded g)") (simp add: hu)
  also have "\<dots> = apsnd (view \<circ> ?h) (apsnd unseeded (replay e g))"
    by (simp only: replay_seeds)
  also have "\<dots> = apsnd view (replay e g)"
  proof -
    obtain r g' where run: "replay e g = (r, g')" by fastforce
    note kept = replay_keeps_header [OF run]
    have "view (?h (unseeded g')) = view g'"
      using kept by (simp add: view_def unseeded_def with_header_def)
    with run show ?thesis by simp
  qed
  finally show ?thesis .
qed

lemma view_last: "view g = view h \<Longrightarrow> view (g\<lparr>g_last_event := l\<rparr>) = view (h\<lparr>g_last_event := l\<rparr>)"
proof -
  have "view (g\<lparr>g_last_event := l\<rparr>) = view g\<lparr>g_last_event := l\<rparr>" for g
    by (cases g) (simp add: view_def unseeded_def)
  then show "view g = view h \<Longrightarrow> ?thesis" by simp
qed

lemma replay_seen_view: "apsnd view (replay_seen e (view g)) = apsnd view (replay_seen e g)"
  using replay_view [of e g]
  by (cases "replay e (view g)"; cases "replay e g"; cases "fst (replay e g)")
    (auto simp: replay_seen_def intro: view_last)

lemma replay_batch_view:
  "view g = view h \<Longrightarrow> apsnd view (replay_batch replay_seen es g) = apsnd view (replay_batch replay_seen es h)"
proof (induction es arbitrary: g h)
  case (Cons e es)
  have "apsnd view (replay_seen e g) = apsnd view (replay_seen e h)"
    using replay_seen_view [of e g] replay_seen_view [of e h] Cons.prems by simp
  then show ?case
    by (cases "replay_seen e g"; cases "replay_seen e h"; cases "fst (replay_seen e g)")
      (auto intro: Cons.IH)
qed simp

interpretation task_graph: projection replay_seen set_version
proof
  fix e n m and g :: graph
  show "set_version m (set_version n g) = set_version m g"
    by (simp add: set_version_def)
  let ?h = "with_header (g_session g) (g_actor g) n (g_last_event g) (g_reconciling g)"
  obtain r g' where run: "replay e g = (r, g')" by fastforce
  have "set_version n x = with_header (g_session x) (g_actor x) n (g_last_event x) (g_reconciling x) x" for x
    by (simp add: set_version_def with_header_def)
  with run replay_keeps_header [OF run] have "replay e (set_version n g) = (r, set_version n g')"
    by (simp add: replay_header)
  moreover have "(set_version n g')\<lparr>g_last_event := l\<rparr> = set_version n (g'\<lparr>g_last_event := l\<rparr>)" for l
    by (cases g') (simp add: set_version_def)
  ultimately show "replay_seen e (set_version n g) =
      (fst (replay_seen e g), set_version n (snd (replay_seen e g)))"
    using run by (cases r) (simp_all add: replay_seen_def)
qed

section \<open>Being in step with the stream\<close>

definition project :: "session_id \<Rightarrow> principal \<Rightarrow> session_event envelope list \<Rightarrow> (graph_error + unit) \<times> graph" where
  "project k p es = replay_batch replay_seen es (graph_empty k p)"

definition replays :: "session_id \<Rightarrow> principal \<Rightarrow> session_event envelope list \<Rightarrow> bool" where
  "replays k p es \<longleftrightarrow> (\<exists>h. project k p es = (Inr (), h))"

definition synced :: "graph \<Rightarrow> session_event envelope list \<Rightarrow> bool" where
  "synced g es \<longleftrightarrow>
     g_version g \<le> length es \<and>
     (\<exists>h. project (g_session g) (g_actor g) (take (g_version g) es) = (Inr (), h) \<and> view g = view h)"

lemma project_append:
  "project k p (es @ fs) =
     (case project k p es of (Inl x, g) \<Rightarrow> (Inl x, g) | (Inr _, g) \<Rightarrow> replay_batch replay_seen fs g)"
  by (simp add: project_def task_graph.replay_batch_append)

lemma replays_prefix: "replays k p es \<Longrightarrow> prefix fs es \<Longrightarrow> replays k p fs"
  by (auto simp: replays_def prefix_def project_append split: prod.splits sum.splits)

lemma synced_append: "synced g es \<Longrightarrow> synced g (es @ fs)"
  by (auto simp: synced_def)

text \<open>
  The state of a command against the stream \<open>F\<close> its session ends up with: the store is well
  formed, what was in the stream is still there, and as long as the stream is a part of \<open>F\<close> the
  live graph is in step with it.
\<close>

definition tracks ::
  "session_id \<Rightarrow> principal \<Rightarrow> session_event envelope list \<Rightarrow> session_event envelope list \<Rightarrow> sys \<Rightarrow> bool" where
  "tracks k p F es s \<longleftrightarrow>
     store_ok (w_store (snd s)) \<and> g_session (fst s) = k \<and> g_actor (fst s) = p \<and>
     prefix es (stream_of (w_store (snd s)) k) \<and>
     (prefix (stream_of (w_store (snd s)) k) F \<longrightarrow> synced (fst s) (stream_of (w_store (snd s)) k))"

lemma tracks_view:
  assumes "tracks k p F es (g, w)" and "view g' = view g" and "g_version g' = g_version g"
  shows "tracks k p F es (g', w)"
proof -
  have "g_session g' = g_session g \<and> g_actor g' = g_actor g"
    using arg_cong [OF assms(2), of g_session] arg_cong [OF assms(2), of g_actor]
    by (simp add: view_def unseeded_def)
  with assms show ?thesis by (auto simp: tracks_def synced_def)
qed

lemma tracks_flags [simp]:
  "tracks k p F es (g\<lparr>g_block_seeds := q\<rparr>, w) = tracks k p F es (g, w)"
  "tracks k p F es (g\<lparr>g_reconciling := b\<rparr>, w) = tracks k p F es (g, w)"
  by (auto intro: tracks_view [where g' = "g\<lparr>g_block_seeds := q\<rparr>" and g = g]
      tracks_view [where g = "g\<lparr>g_block_seeds := q\<rparr>" and g' = g]
      tracks_view [where g' = "g\<lparr>g_reconciling := b\<rparr>" and g = g]
      tracks_view [where g = "g\<lparr>g_reconciling := b\<rparr>" and g' = g])

lemma replay_seen_keeps_header:
  assumes "replay_seen e g = (r, g')"
  shows "g_session g' = g_session g" "g_actor g' = g_actor g" "g_version g' = g_version g"
proof -
  obtain r1 g1 where "replay e g = (r1, g1)" by fastforce
  with replay_keeps_header [OF this] assms
  show "g_session g' = g_session g" "g_actor g' = g_actor g" "g_version g' = g_version g"
    by (cases r1; auto simp: replay_seen_def)+
qed

lemma replay_batch_keeps_header:
  assumes "replay_batch replay_seen es g = (r, g')"
  shows "g_session g' = g_session g" "g_actor g' = g_actor g" "g_version g' = g_version g"
proof -
  have "g_session g' = g_session g \<and> g_actor g' = g_actor g \<and> g_version g' = g_version g"
    using assms
  proof (induction es arbitrary: g)
    case (Cons e es)
    obtain y c where step: "replay_seen e g = (y, c)" by fastforce
    note kept = replay_seen_keeps_header [OF step]
    show ?case
    proof (cases y)
      case (Inl x)
      with Cons.prems step kept show ?thesis by simp
    next
      case (Inr u)
      with Cons.prems step have "replay_batch replay_seen es c = (r, g')" by simp
      from Cons.IH [OF this] kept show ?thesis by simp
    qed
  qed simp
  then show "g_session g' = g_session g" "g_actor g' = g_actor g" "g_version g' = g_version g"
    by simp_all
qed

lemma catch_up_synced:
  assumes "store_ok (w_store w)" and es: "es = stream_of (w_store w) (g_session g)"
    and "synced g es" and "prefix es F" and "replays (g_session g) (g_actor g) F"
    and "length F < u64_max" and eq: "catch_up (g, w) = (r, (g', w'))"
  shows "r = Inr () \<and> w' = w \<and> g_session g' = g_session g \<and> g_actor g' = g_actor g \<and>
    g_version g' = length es \<and> synced g' es"
proof -
  let ?k = "g_session g" and ?p = "g_actor g" and ?v = "g_version g"
  from assms(3) obtain h where h: "project ?k ?p (take ?v es) = (Inr (), h)" "view g = view h"
    and v: "?v \<le> length es" by (auto simp: synced_def)
  from assms(4,5) have "replays ?k ?p es" by (rule replays_prefix [rotated])
  then obtain h' where h': "project ?k ?p es = (Inr (), h')" by (auto simp: replays_def)
  then have "replay_batch replay_seen (drop ?v es) h = (Inr (), h')"
    using project_append [of ?k ?p "take ?v es" "drop ?v es"] h(1) by simp
  moreover obtain r1 g1 where run: "replay_batch replay_seen (drop ?v es) g = (r1, g1)" by fastforce
  ultimately have r1: "r1 = Inr ()" and view1: "view g1 = view h'"
    using replay_batch_view [OF h(2), of "drop ?v es"] by auto
  have len: "length es < u64_max" using prefix_length_le [OF assms(4)] assms(6) by simp
  note kept = replay_batch_keeps_header [OF run]
  from task_graph.catch_up_is_replay [OF assms(1) len [unfolded es] v [unfolded es]
      run [unfolded r1 es], of Overflow StoreFailed]
  have "r = Inr () \<and> w' = w \<and> g' = (if ?v < length es then set_version (length es) g1 else g1)"
    using eq by (auto simp: catch_up_def es)
  moreover have "g_version g1 = length es" if "\<not> ?v < length es" using that v kept by simp
  ultimately show ?thesis
    using kept h' view1 by (auto simp: synced_def set_version_def simp del: view_upd(1))
      (auto simp: set_version_def [symmetric])
qed

lemma catch_up_with_keeps:
  "catch_up_with replay_seen set_version ov wr st k v g = (r, g') \<Longrightarrow>
   g_session g' = g_session g \<and> g_actor g' = g_actor g"
proof (induction "replay_seen" "set_version" ov wr st k v g rule: catch_up_with.induct)
  case (1 ov wr st k v g)
  show ?case
  proof (cases "checked_add v 1")
    case None
    with "1.prems" show ?thesis by (subst (asm) catch_up_with.simps) simp
  next
    case (Some f)
    show ?thesis
    proof (cases "read_events st k f max_catch_up_batch")
      case (Inl e)
      with Some "1.prems" show ?thesis by (subst (asm) catch_up_with.simps) simp
    next
      case page: (Inr page)
      show ?thesis
      proof (cases "page = []")
        case True
        with Some page "1.prems" show ?thesis by (subst (asm) catch_up_with.simps) simp
      next
        case False
        obtain r1 g1 where rp: "replay_batch replay_seen page g = (r1, g1)" by fastforce
        note kept = replay_batch_keeps_header [OF rp]
        show ?thesis
        proof (cases r1)
          case (Inl x)
          with Some page False rp kept "1.prems" show ?thesis
            by (subst (asm) catch_up_with.simps) simp
        next
          case (Inr u)
          with Some page False rp "1.prems"
          have "catch_up_with replay_seen set_version ov wr st k (ev_sequence (last page))
              (set_version (ev_sequence (last page)) g1) = (r, g')"
            by (subst (asm) catch_up_with.simps) simp
          from "1.hyps" [OF Some page False rp [unfolded Inr, symmetric] refl this] kept
          show ?thesis by (simp add: set_version_def)
        qed
      qed
    qed
  qed
qed

lemma tracks_catch_up:
  assumes F: "replays k p F" "length F < u64_max"
  shows "valid (tracks k p F es) catch_up (\<lambda>_. tracks k p F es) (tracks k p F es)"
proof (rule valid_snd)
  fix s assume tr: "tracks k p F es s"
  obtain g w where s: "s = (g, w)" by fastforce
  obtain r g' where run: "catch_up (g, w) = (r, (g', w))"
    by (cases "catch_up (g, w)") (auto simp: catch_up_def split: prod.splits)
  have kept: "g_session g' = g_session g \<and> g_actor g' = g_actor g"
    using run by (auto simp: catch_up_def split: prod.splits dest: catch_up_with_keeps)
  have "synced g' (stream_of (w_store w) k)" if "prefix (stream_of (w_store w) k) F"
    using catch_up_synced [OF _ refl _ _ _ _ run, of F] tr that F by (auto simp: tracks_def s)
  with tr run kept show "tracks k p F es (snd (catch_up s))"
    by (auto simp: tracks_def s)
qed

lemma tracks_observe:
  assumes F: "replays k p F" "length F < u64_max"
  shows "valid (tracks k p F es) observe (\<lambda>_. tracks k p F es) (tracks k p F es)"
proof (rule valid_snd)
  fix s assume "tracks k p F es s"
  with valid_sndD [OF tracks_catch_up [OF F], of es s]
  show "tracks k p F es (snd (observe s))"
    by (cases s) (auto simp: observe_def need_def split: sum.split)
qed

text \<open>
  What a successful append says: the version was the end of the stream, so nothing came between
  the state the event was built at and the event.
\<close>

definition appended ::
  "session_id \<Rightarrow> principal \<Rightarrow> session_event envelope list \<Rightarrow> session_event envelope list \<Rightarrow> build
    \<Rightarrow> session_event envelope \<Rightarrow> nat \<Rightarrow> sys \<Rightarrow> bool" where
  "appended k p F es build event version s \<longleftrightarrow>
     store_ok (w_store (snd s)) \<and> g_session (fst s) = k \<and> g_actor (fst s) = p \<and>
     prefix es (stream_of (w_store (snd s)) k) \<and>
     (prefix (stream_of (w_store (snd s)) k) F \<longrightarrow>
       (\<exists>pre data. stream_of (w_store (snd s)) k = pre @ [event] \<and> prefix es pre \<and>
          version = Suc (length pre) \<and> g_version (fst s) = length pre \<and> synced (fst s) pre \<and>
          ev_payload event = Inline data \<and> build (fst s) = Inr (Some data)))"

lemma tracks_submit:
  "valid (\<lambda>s. tracks k p F es s \<and> build (fst s) = Inr (Some data)) (submit data)
     (\<lambda>(event, answer) s. case answer of Inr v \<Rightarrow> appended k p F es build event v s
        | Inl _ \<Rightarrow> tracks k p F es s) (tracks k p F es)"
proof (rule validI)
  fix s ea s'
  assume pre: "tracks k p F es s \<and> build (fst s) = Inr (Some data)"
    and run: "submit data s = (Inr ea, s')"
  obtain g w where s: "s = (g, w)" by fastforce
  obtain sq where sq: "checked_add (g_version g) 1 = Some sq"
    using run s by (cases "checked_add (g_version g) 1") (auto simp: submit_def)
  obtain c w1 where d: "draw_uuid w = (c, w1)" by fastforce
  obtain event w2 where n: "envelope_new (g_session g) sq (g_actor g) (g_last_event g) c 1
      (event_kind data) (Inline data) w1 = (event, w2)" by fastforce
  obtain answer w3 where ap: "world_append (g_session g) (g_version g) [event] w2 = (answer, w3)" by fastforce
  from run s sq d n ap have out: "ea = (event, answer)" "s' = (g, w3)" by (auto simp: submit_def)
  have w2: "w_store w2 = w_store w" and pay: "ev_payload event = Inline data"
    using draw_uuid_store [OF d] envelope_new_store [OF n] by simp_all
  let ?es = "stream_of (w_store w) k" and ?w = "rival_turn w2"
  let ?es1 = "stream_of (w_store ?w) k"
  from pre s have ok: "store_ok (w_store w)" "g_session g = k" "g_actor g = p" "prefix es ?es"
    and sync: "prefix ?es F \<longrightarrow> synced g ?es" by (auto simp: tracks_def)
  from rival_turn_extends [of w2 k] ok w2 have ok1: "store_ok (w_store ?w)" "prefix ?es ?es1" by auto
  obtain st where store: "append_events (w_bytes_of ?w) k (g_version g) [event] (w_store ?w) = (answer, st)"
    and w3: "w3 = ?w\<lparr>w_store := st\<rparr>"
    using ap ok(2) by (auto simp: world_append_def Let_def split: prod.splits)
  note ok3 = memory.append_keeps [OF ok1(1) store]
  show "(\<lambda>(event, answer) s. case answer of Inr v \<Rightarrow> appended k p F es build event v s
        | Inl _ \<Rightarrow> tracks k p F es s) ea s'"
  proof (cases answer)
    case (Inr v)
    with memory.append_Inr [OF ok1(1), of _ k "g_version g" "[event]" v st] store
    have v: "g_version g = length ?es1" "v = Suc (g_version g)" "stream_of st k = ?es1 @ [event]" by auto
    have es3: "prefix es ?es1" using ok(4) ok1(2) by (rule prefix_order.trans)
    have "\<exists>pre data'. stream_of st k = pre @ [event] \<and> prefix es pre \<and> v = Suc (length pre) \<and>
        g_version g = length pre \<and> synced g pre \<and> ev_payload event = Inline data' \<and>
        build g = Inr (Some data')" if F: "prefix (stream_of st k) F"
    proof -
      have "prefix ?es1 F" using F v(3) by (metis append_prefixD)
      with ok1(2) sync have syn: "synced g ?es" by (meson prefix_order.trans)
      then have "length ?es1 \<le> length ?es" using v(1) by (simp add: synced_def)
      with ok1(2) have "?es1 = ?es" by (auto simp: prefix_def)
      with syn v es3 pay pre s show ?thesis by auto
    qed
    with ok ok3 es3 v(3) show ?thesis by (auto simp: out Inr appended_def w3)
  next
    case (Inl e)
    with memory.append_Inl [OF ok1(1), of _ k "g_version g" "[event]" e st] store
    have st: "stream_of st k = ?es1" by auto
    have "synced g ?es1" if "prefix ?es1 F"
    proof -
      have "prefix ?es F" using ok1(2) that by (rule prefix_order.trans)
      with sync ok1(2) show ?thesis by (auto simp: prefix_def intro: synced_append)
    qed
    with ok ok3 ok1(2) st show ?thesis
      by (auto simp: out Inl tracks_def w3 intro: prefix_order.trans)
  qed
next
  fix s e s'
  assume "tracks k p F es s \<and> build (fst s) = Inr (Some data)" and "submit data s = (Inl e, s')"
  then show "tracks k p F es s'" using submit_error_tasks by blast
qed

text \<open>What a successful command leaves behind, once its event is folded in.\<close>

definition recorded ::
  "session_id \<Rightarrow> principal \<Rightarrow> session_event envelope list \<Rightarrow> session_event envelope list \<Rightarrow> build
    \<Rightarrow> sys \<Rightarrow> bool" where
  "recorded k p F es build s \<longleftrightarrow>
     tracks k p F es s \<and>
     (prefix (stream_of (w_store (snd s)) k) F \<longrightarrow>
       (\<exists>pre event data g. prefix es pre \<and> tracks k p F (pre @ [event]) s \<and> synced g pre \<and>
          g_session g = k \<and> g_actor g = p \<and> g_version g = length pre \<and>
          ev_payload event = Inline data \<and> build g = Inr (Some data)))"

lemma tracks_applied:
  assumes F: "replays k p F"
  shows "valid (appended k p F es build event v) (applied event v)
    (\<lambda>_. recorded k p F es build) (tracks k p F es)"
proof -
  have *: "case applied event v s of (Inr _, s') \<Rightarrow> recorded k p F es build s'
      | (Inl _, s') \<Rightarrow> tracks k p F es s'" if pre: "appended k p F es build event v s" for s
  proof -
    obtain g w where s: "s = (g, w)" by fastforce
    let ?es = "stream_of (w_store w) k"
    obtain r g1 where run: "replay event (set_version v g) = (r, g1)" by fastforce
    note kept = replay_keeps_header [OF run]
    from pre have ok: "store_ok (w_store w)" "g_session g = k" "g_actor g = p" "prefix es ?es"
      by (auto simp: appended_def s)
    show ?thesis
    proof (cases "prefix ?es F")
      case False
      with ok run kept show ?thesis
        by (cases r) (auto simp: applied_def s tracks_def recorded_def set_version_def)
    next
      case True
      with pre obtain pre data where split: "?es = pre @ [event]" "prefix es pre" "v = Suc (length pre)"
        and g: "g_version g = length pre" "synced g pre" and data: "ev_payload event = Inline data"
          "build g = Inr (Some data)"
        by (auto simp: appended_def s)
      obtain h where h: "project k p pre = (Inr (), h)" "view g = view h"
        using g ok by (auto simp: synced_def)
      have "replays k p ?es" using F True by (rule replays_prefix)
      then obtain h' where h': "project k p ?es = (Inr (), h')" by (auto simp: replays_def)
      then have seen: "replay_seen event h = (Inr (), h')"
        by (simp add: split project_append h(1) split: prod.splits sum.splits)
      have same: "apsnd view (replay_seen event (set_version v g)) = apsnd view (replay_seen event h)"
        using replay_seen_view [of event "set_version v g"] replay_seen_view [of event h] h(2) by simp
      let ?g = "g1\<lparr>g_last_event := Some (ev_id event)\<rparr>"
      from same seen run have r: "r = Inr ()" and vw: "view ?g = view h'"
        by (cases r; simp add: replay_seen_def)+
      have "synced ?g ?es"
        using kept ok h' vw by (auto simp: synced_def set_version_def split)
      then have tr: "tracks k p F (pre @ [event]) (?g, w)" "tracks k p F es (?g, w)"
        using ok kept split by (auto simp: tracks_def set_version_def)
      with split g data ok have "recorded k p F es build (?g, w)"
        unfolding recorded_def by auto
      with run r show ?thesis by (simp add: applied_def s)
    qed
  qed
  then show ?thesis unfolding valid_def by blast
qed

lemma tracks_reach:
  assumes "\<And>es. valid (tracks k p F es) m (\<lambda>_. tracks k p F es) (tracks k p F es)"
  shows "valid (recorded k p F es build) m (\<lambda>_. recorded k p F es build) (recorded k p F es build)"
proof (rule valid_snd)
  fix s assume rec: "recorded k p F es build s"
  let ?es = "stream_of (w_store (snd s)) k" and ?es' = "stream_of (w_store (snd (snd (m s)))) k"
  have tr: "tracks k p F es s" using rec by (simp add: recorded_def)
  then have "tracks k p F ?es s" by (simp add: tracks_def)
  from valid_sndD [OF assms this] have grow: "prefix ?es ?es'" by (simp add: tracks_def)
  have "\<exists>pre event data g. prefix es pre \<and> tracks k p F (pre @ [event]) (snd (m s)) \<and> synced g pre \<and>
      g_session g = k \<and> g_actor g = p \<and> g_version g = length pre \<and>
      ev_payload event = Inline data \<and> build g = Inr (Some data)" if "prefix ?es' F"
  proof -
    have "prefix ?es F" using grow that by (rule prefix_order.trans)
    with rec obtain pre event data g where *: "prefix es pre" "tracks k p F (pre @ [event]) s" "synced g pre"
      "g_session g = k" "g_actor g = p" "g_version g = length pre"
      "ev_payload event = Inline data" "build g = Inr (Some data)"
      unfolding recorded_def by blast
    from valid_sndD [OF assms *(2)] * show ?thesis by blast
  qed
  with valid_sndD [OF assms tr] show "recorded k p F es build (snd (m s))"
    unfolding recorded_def by blast
qed

lemma tracks_ret: "valid (tracks k p F es) (ret x) (\<lambda>_. tracks k p F es) (tracks k p F es)"
  by (rule valid_ret)

lemma tracks_commit_loop:
  assumes F: "replays k p F" "length F < u64_max"
    and settle: "\<And>es. valid (tracks k p F es) settle_first (\<lambda>_. tracks k p F es) (tracks k p F es)"
  shows "valid (tracks k p F es) (commit_loop n settle_first build)
    (\<lambda>did s. if did then recorded k p F es build s else tracks k p F es s) (tracks k p F es)"
proof (rule commit_loop_valid [where R = "appended k p F es build"])
  show "valid (recorded k p F es build) settle_first (\<lambda>_. recorded k p F es build) (tracks k p F es)"
    by (rule valid_weaken [OF tracks_reach [OF settle]]) (auto simp only: recorded_def)
qed (rule tracks_observe tracks_catch_up settle tracks_submit tracks_applied F)+

lemma tracks_commit_quiet:
  assumes "replays k p F" "length F < u64_max"
  shows "valid (tracks k p F es) (commit_quiet build) (\<lambda>_. tracks k p F es) (tracks k p F es)"
  unfolding commit_quiet_def
  by (rule valid_weaken [OF tracks_commit_loop [OF assms tracks_ret]])
    (auto simp only: recorded_def split: if_splits)

lemma tracks_reconcile:
  assumes F: "replays k p F" "length F < u64_max"
  shows "valid (tracks k p F es) reconcile_blocked (\<lambda>_. tracks k p F es) (tracks k p F es)"
  by (rule reconcile_blocked_keeps) (simp_all add: valid_sndD [OF tracks_commit_quiet [OF F]])

lemma tracks_commit_if:
  assumes F: "replays k p F" "length F < u64_max"
  shows "valid (tracks k p F es) (commit_if build)
    (\<lambda>did s. if did then recorded k p F es build s else tracks k p F es s) (tracks k p F es)"
  unfolding commit_if_def
  by (intro valid_bindE [OF tracks_reconcile [OF F]] tracks_commit_loop [OF F]
      valid_bindE [OF tracks_reconcile [OF F]] tracks_ret)

section \<open>Linearization\<close>

text \<open>
  Whatever a conditional command does, the graph stays in step with the stream; and when it
  reports that it committed, its event stands in the stream right after the history its closure
  was evaluated on, at or after everything that was there when the command started.
\<close>

lemma commit_if_linear:
  assumes "store_ok (w_store w)" and "synced g (stream_of (w_store w) (g_session g))"
    and run: "commit_if build (g, w) = (r, (g', w'))"
    and F: "replays (g_session g) (g_actor g) (stream_of (w_store w') (g_session g))"
      "length (stream_of (w_store w') (g_session g)) < u64_max"
  shows "store_ok (w_store w') \<and> g_session g' = g_session g \<and> g_actor g' = g_actor g \<and>
    synced g' (stream_of (w_store w') (g_session g)) \<and>
    prefix (stream_of (w_store w) (g_session g)) (stream_of (w_store w') (g_session g)) \<and>
    (r = Inr True \<longrightarrow>
      (\<exists>pre event data g1. prefix (stream_of (w_store w) (g_session g)) pre \<and>
         prefix (pre @ [event]) (stream_of (w_store w') (g_session g)) \<and>
         ev_payload event = Inline data \<and> build g1 = Inr (Some data) \<and>
         g_session g1 = g_session g \<and> g_actor g1 = g_actor g \<and>
         g_version g1 = length pre \<and> synced g1 pre))"
proof -
  let ?k = "g_session g" and ?p = "g_actor g"
  let ?F = "stream_of (w_store w') ?k" and ?es = "stream_of (w_store w) ?k"
  have start: "tracks ?k ?p ?F ?es (g, w)" using assms(1,2) by (simp add: tracks_def)
  note outcome = valid_apply [OF tracks_commit_if [OF F] start, of build, unfolded run]
  then have "tracks ?k ?p ?F ?es (g', w')"
    by (cases r) (auto simp only: prod.case sum.case recorded_def split: if_splits)
  moreover have "\<exists>pre event data g1. prefix ?es pre \<and> prefix (pre @ [event]) ?F \<and>
      ev_payload event = Inline data \<and> build g1 = Inr (Some data) \<and> g_session g1 = ?k \<and>
      g_actor g1 = ?p \<and> g_version g1 = length pre \<and> synced g1 pre" if "r = Inr True"
  proof -
    from outcome that have "recorded ?k ?p ?F ?es build (g', w')" by simp
    then obtain pre event data g1 where "prefix ?es pre" "tracks ?k ?p ?F (pre @ [event]) (g', w')"
      "synced g1 pre" "g_session g1 = ?k" "g_actor g1 = ?p" "g_version g1 = length pre"
      "ev_payload event = Inline data" "build g1 = Inr (Some data)"
      unfolding recorded_def by auto
    moreover from this(2) have "prefix (pre @ [event]) ?F" by (simp add: tracks_def)
    ultimately show ?thesis by blast
  qed
  ultimately show ?thesis by (auto simp only: tracks_def fst_conv snd_conv prefix_order.refl)
qed

end
