(* ===== verification/Task_Spec.thy ===== *)
theory Task_Spec
  imports Task_Commands Task_Linear
begin

text \<open>
  The contract of the task graph's stream. \<open>admits d g\<close> says when the event \<open>d\<close> may follow the
  history that projects to \<open>g\<close>; \<open>lawful\<close> streams are those in which every event was admitted.
  Every command hands the store only admitted events (\<open>..._admitted\<close>), an admitted event always
  replays (\<open>admitted_replays\<close>), and the invariants of the graph are invariants of lawful streams.

  Two conditions come from outside: identifiers are drawn fresh (\<open>Uuid::new_v4\<close>), and a budget
  is three unsigned 64-bit numbers.
\<close>

definition u64_budget :: "budget \<Rightarrow> bool" where
  "u64_budget b \<longleftrightarrow> b_tokens b \<le> u64_max \<and> b_cost_micros b \<le> u64_max \<and> b_wall_ms b \<le> u64_max"

definition attempt_named :: "graph \<Rightarrow> attempt_id field \<Rightarrow> (attempt_id \<Rightarrow> task_attempt \<Rightarrow> bool) \<Rightarrow> bool" where
  "attempt_named g f P \<longleftrightarrow> (\<exists>a t. f = Inr a \<and> omap_get (g_attempts g) a = Some t \<and> P a t)"

definition node_named :: "graph \<Rightarrow> task_id field \<Rightarrow> (task_id \<Rightarrow> task_node \<Rightarrow> bool) \<Rightarrow> bool" where
  "node_named g f P \<longleftrightarrow> (\<exists>i n. f = Inr i \<and> omap_get (g_nodes g) i = Some n \<and> P i n)"

text \<open>The attempt is the one its task is running, under the lease it was started with.\<close>

definition holds_lease :: "graph \<Rightarrow> attempt_id \<Rightarrow> task_attempt \<Rightarrow> bool" where
  "holds_lease g a t \<longleftrightarrow>
     is_live (ta_state t) \<and>
     (\<exists>n. omap_get (g_nodes g) (ta_task t) = Some n \<and> rt_current_attempt (tn_runtime n) = Some a \<and>
        rt_lease_epoch (tn_runtime n) = ta_lease_epoch t)"

definition view_free :: "graph \<Rightarrow> workspace_assignment \<Rightarrow> bool" where
  "view_free g a \<longleftrightarrow>
     (\<forall>held\<in>snd ` set (g_assignments g).
        \<not> wa_released held \<longrightarrow> wa_view held = wa_view a \<longrightarrow> \<not> wa_mutable held \<and> \<not> wa_mutable a)"

primrec admits :: "session_event \<Rightarrow> graph \<Rightarrow> bool" where
  "admits (Todo_Created item root step) g = True"
| "admits (Todo_Updated item) g = True"
| "admits (Todo_Reordered ids) g = True"
| "admits (Ev_Task_Created node) g =
     (\<exists>n. node = Inr n \<and> \<not> omap_has (g_nodes g) (tn_id n) \<and>
        \<not> would_cycle g (tn_id n) (tn_dependencies n) \<and> n = fresh_runtime n \<and> u64_budget (tn_budget n) \<and>
        (\<forall>p. rt_parent (tn_runtime n) = Some p \<longrightarrow>
           (\<exists>m. omap_get (g_nodes g) p = Some m \<and> fits_within (tn_budget n) (available m))))"
| "admits (Ev_Cycle_Detected i) g = True"
| "admits (Ev_Plan_Approved ids note) g =
     (\<exists>is n. ids = Inr is \<and> note = Inr n \<and> is \<noteq> [] \<and> check_approval g n is = Inr ())"
| "admits (Ev_Plan_Intent root steps) g =
     (\<exists>r ss. root = Inr r \<and> steps = Inr (JArray ss) \<and> omap_has (g_nodes g) r \<and>
        (\<forall>old. omap_get (g_plan_intents g) r = Some old \<longrightarrow>
           (\<exists>os. old = JArray os \<and> prefix os ss)))"
| "admits (Ev_Scripted_Plan_Authorized root) g = (\<exists>r. root = Inr r \<and> omap_has (g_nodes g) r)"
| "admits (Ev_Transitioned task before after evidence) g =
     node_named g task (\<lambda>i n. tn_state n = before \<and>
       (\<exists>to. after = Inr to \<and> transition_allowed before to \<and> to \<noteq> Task_Running \<and>
          (before = Task_Pending \<and> to = Task_Ready \<longrightarrow> is_ready g n)))"
| "admits (Ev_Authorized task authority) g =
     node_named g task (\<lambda>i n. tn_authority n = [] \<and> (\<exists>gs. authority = Inr gs))"
| "admits (Ev_Authority_Narrowed task authority) g =
     node_named g task (\<lambda>i n. \<exists>gs. authority = Inr gs)"
| "admits (Ev_Budget_Used task used) g =
     node_named g task (\<lambda>i n. \<exists>u. used = Inr u \<and> fits_within u (available n))"
| "admits (Ev_Budget_Exhausted i e) g = True"
| "admits (Ev_Attempt_Started attempt) g =
     (\<exists>a n. attempt = Inr a \<and> omap_get (g_nodes g) (ta_task a) = Some n \<and>
        \<not> omap_has (g_attempts g) (ta_id a) \<and> tn_state n = Task_Ready \<and> dependencies_completed g n \<and>
        (rt_plan (tn_runtime n) = None \<or> is_plan_approved g (ta_task a)) \<and>
        ta_state a = At_Starting \<and> ta_authority a = tn_authority n \<and>
        ta_lease_epoch a = saturating_add (rt_lease_epoch (tn_runtime n)) 1)"
| "admits (Ev_Attempt_Finished attempt task state used reason retryable outcome evidence ended) g =
     attempt_named g attempt (\<lambda>a t. holds_lease g a t \<and>
       (\<exists>s. state = Inr s \<and> s \<in> {At_Completed, At_Failed, At_Cancelled}))"
| "admits (Ev_Attempt_Expired task attempt reason) g =
     node_named g task (\<lambda>i n. tn_state n = Task_Running \<and> attempt = rt_current_attempt (tn_runtime n))"
| "admits (Ev_Attempt_State_Changed attempt task state) g =
     attempt_named g attempt (\<lambda>a t. is_live (ta_state t) \<and>
       (\<exists>s. state = Inr s \<and> is_live s \<and> (ta_state t = At_Cancelling \<longrightarrow> s = At_Cancelling)))"
| "admits (Ev_Cancel_Requested attempt task reason) g =
     attempt_named g attempt (\<lambda>a t. is_live (ta_state t))"
| "admits (Ev_Pause_Requested attempt task) g =
     attempt_named g attempt (\<lambda>a t. is_live (ta_state t) \<and> ta_state t \<noteq> At_Cancelling)"
| "admits (Ev_Resumed attempt task) g =
     attempt_named g attempt (\<lambda>a t. is_live (ta_state t) \<and> a \<in> set (g_paused g))"
| "admits (Ev_Superseded attempt task) g = attempt_named g attempt (\<lambda>a t. True)"
| "admits (Ev_Trace attempt task kind data) g = attempt_named g attempt (\<lambda>a t. True)"
| "admits (Ev_Criterion_Declared criterion) g =
     (\<exists>c. criterion = Inr c \<and> omap_has (g_nodes g) (ac_task c) \<and> \<not> omap_has (g_criteria g) (ac_id c))"
| "admits (Ev_Criterion_Judged verdict) g =
     (\<exists>j c. verdict = Inr j \<and> omap_get (g_criteria g) (jd_criterion j) = Some c \<and>
        ac_verifier c \<in> {Review, Human})"
| "admits (Ev_Criterion_Retired criterion why) g = (\<exists>i. criterion = Inr i \<and> omap_has (g_criteria g) i)"
| "admits (Ev_Message_Sent message) g =
     (\<exists>m n. message = Inr m \<and> omap_has (g_nodes g) (tm_from m) \<and>
        omap_get (g_nodes g) (tm_to m) = Some n \<and>
        tn_state n \<notin> {Task_Completed, Task_Verified, Task_Failed} \<and>
        length (inbox_ids g (tm_to m)) < max_inbox)"
| "admits (Ev_Messages_Delivered task messages at) g =
     (\<exists>i. task = Inr i \<and> messages = Inr (inbox_ids g i))"
| "admits (Ev_Workspace_Assigned assignment) g =
     (\<exists>a. assignment = Inr a \<and> omap_has (g_attempts g) (wa_attempt a) \<and> view_free g a \<and>
        wa_dirty a \<noteq> Refused \<and> \<not> (wa_mutable a \<and> wa_view a = wa_source a))"
| "admits (Ev_Workspace_Released assignment task reason) g =
     (\<exists>i. assignment = Inr i \<and> omap_has (g_assignments g) i)"
| "admits (Ev_Writer_Result writer task) g =
     (\<exists>r a. writer = Inr r \<and> omap_get (g_assignments g) (wr_assignment r) = Some a \<and> wa_mutable a)"
| "admits (Ev_Validation r) g = True"
| "admits (Ev_Memory r) g = True"
| "admits (Ev_Summary r) g = True"
| "admits (Ev_Other kind data) g = True"

definition admitted :: "session_event envelope \<Rightarrow> graph \<Rightarrow> bool" where
  "admitted e g = (case ev_payload e of Artifact _ _ _ \<Rightarrow> True | Inline d \<Rightarrow> admits d g)"

fun lawful :: "graph \<Rightarrow> session_event envelope list \<Rightarrow> bool" where
  "lawful g [] = True"
| "lawful g (e # es) = (admitted e g \<and> lawful (snd (replay_seen e g)) es)"

lemma get_node_eq_Inr [simp]: "get_node g i = Inr n \<longleftrightarrow> omap_get (g_nodes g) i = Some n"
  by (simp add: get_node_def ok_or_def split: option.split)

lemma get_attempt_eq_Inr [simp]: "get_attempt g i = Inr a \<longleftrightarrow> omap_get (g_attempts g) i = Some a"
  by (simp add: get_attempt_def ok_or_def split: option.split)

lemma ok_or_eq_Inr [simp]: "ok_or e x = Inr y \<longleftrightarrow> x = Some y"
  by (simp add: ok_or_def split: option.split)

section \<open>Every command hands over admitted events\<close>

named_theorems admitted_intros \<open>what a command builds is admitted\<close>

lemma add_build_admitted [admitted_intros]:
  "add_build n g = Inr d \<Longrightarrow> n = fresh_runtime n \<Longrightarrow> u64_budget (tn_budget n) \<Longrightarrow> admits d g"
  by (auto simp: add_build_def and_then_eq_Inr split: if_splits option.splits)

lemma fresh_runtime_idem [simp]: "fresh_runtime (fresh_runtime n) = fresh_runtime n"
  by (simp add: fresh_runtime_def runtime_default_def)

lemma plan_intent_admitted [admitted_intros]:
  "plan_intent_build root steps g = Inr (Some d) \<Longrightarrow> admits d g"
  by (auto simp: plan_intent_build_def and_then_eq_Inr Let_def split: if_splits option.splits
      elim!: as_array.elims) (metis append_take_drop_id prefixI)

lemma plan_todo_admitted [admitted_intros]: "plan_todo_build root step item g = Inr (Some d) \<Longrightarrow> admits d g"
  by (auto simp: plan_todo_build_def Let_def split: if_splits option.splits)

lemma scripted_plan_admitted [admitted_intros]: "scripted_plan_build root g = Inr (Some d) \<Longrightarrow> admits d g"
  by (auto simp: scripted_plan_build_def split: if_splits)

text \<open>The identifiers the approval event carries are those of the request without an approval yet.\<close>

lemma unapproved_checked:
  assumes "unapproved g note is acc = Inr out" and "check_approval g note acc = Inr ()"
  shows "check_approval g note out = Inr ()"
  using assms
proof (induction "is" arbitrary: acc)
  case (Cons i "is")
  have check: "check_approval g note (insort i xs) = Inr ()"
    if "validate_plan_task g i = Inr ()" "omap_get (g_approved_plan g) i = None"
      "check_approval g note xs = Inr ()" for xs
    using that by (induction xs) (auto simp: and_then_eq_Inr split: option.splits if_splits)
  from Cons show ?case
    by (auto simp: and_then_eq_Inr oset_insert_def split: option.splits if_splits intro: check)
qed simp

lemma approve_plan_admitted [admitted_intros]: "approve_plan_build is note g = Inr (Some d) \<Longrightarrow> admits d g"
  by (auto simp: approve_plan_build_def and_then_eq_Inr dest: unapproved_checked split: if_splits)

lemma authorize_admitted [admitted_intros]: "authorize_build i authority g = Inr d \<Longrightarrow> admits d g"
  by (auto simp: authorize_build_def and_then_eq_Inr node_named_def split: if_splits)

lemma transition_admitted [admitted_intros]:
  "transition_build i target evidence g = Inr (Some d) \<Longrightarrow> target \<noteq> Task_Running \<Longrightarrow> admits d g"
  by (auto simp: transition_build_def and_then_eq_Inr node_named_def Let_def split: if_splits)

lemma ready_admitted [admitted_intros]: "ready_build i g = Inr (Some d) \<Longrightarrow> admits d g"
  by (auto simp: ready_build_def and_then_eq_Inr node_named_def is_ready_def split: if_splits)

lemma block_admitted [admitted_intros]: "block_build i g = Inr (Some d) \<Longrightarrow> admits d g"
  by (auto simp: block_build_def and_then_eq_Inr node_named_def split: if_splits)

lemma start_attempt_admitted [admitted_intros]:
  "start_attempt_build i request a g = Inr d \<Longrightarrow> \<not> omap_has (g_attempts g) a \<Longrightarrow> admits d g"
  by (auto simp: start_attempt_build_def and_then_eq_Inr split: if_splits)

lemma advance_admitted [admitted_intros]: "advance_build a target g = Inr d \<Longrightarrow> is_live target \<Longrightarrow> admits d g"
  by (auto simp: advance_build_def and_then_eq_Inr attempt_named_def split: if_splits)

lemma cancel_admitted [admitted_intros]: "cancel_build a reason g = Inr d \<Longrightarrow> admits d g"
  by (auto simp: cancel_build_def and_then_eq_Inr attempt_named_def split: if_splits)

lemma pause_admitted [admitted_intros]: "pause_build a g = Inr d \<Longrightarrow> admits d g"
  by (auto simp: pause_build_def and_then_eq_Inr attempt_named_def split: if_splits)

lemma resume_admitted [admitted_intros]: "resume_build a g = Inr d \<Longrightarrow> admits d g"
  by (auto simp: resume_build_def and_then_eq_Inr attempt_named_def split: if_splits)

lemma supersede_admitted [admitted_intros]: "supersede_build a g = Inr d \<Longrightarrow> admits d g"
  by (auto simp: supersede_build_def and_then_eq_Inr attempt_named_def)

lemma finish_admitted [admitted_intros]:
  "finish_build parse_json a outcome g = Inr d \<Longrightarrow>
   ao_state outcome \<in> {At_Completed, At_Failed, At_Cancelled} \<Longrightarrow> admits d g"
  by (auto simp: finish_build_def and_then_eq_Inr attempt_named_def holds_lease_def
      split: if_splits option.splits)

lemma consume_admitted [admitted_intros]: "consume_build i used g = Inr d \<Longrightarrow> admits d g"
  by (auto simp: consume_build_def and_then_eq_Inr node_named_def split: if_splits)

lemma expire_admitted [admitted_intros]: "expire_build i reason g = Inr d \<Longrightarrow> admits d g"
  by (auto simp: expire_build_def and_then_eq_Inr node_named_def split: if_splits)

lemma declare_criterion_admitted [admitted_intros]: "declare_criterion_build c g = Inr d \<Longrightarrow> admits d g"
  by (auto simp: declare_criterion_build_def split: if_splits)

lemma judge_admitted [admitted_intros]: "judge_build j g = Inr d \<Longrightarrow> admits d g"
  by (auto simp: judge_build_def and_then_eq_Inr split: if_splits)

lemma retire_admitted [admitted_intros]: "retire_build i why g = Inr d \<Longrightarrow> admits d g"
  by (auto simp: retire_build_def split: if_splits)

lemma assign_admitted [admitted_intros]:
  "assign_build a g = Inr d \<Longrightarrow> wa_dirty a \<noteq> Refused \<Longrightarrow> \<not> (wa_mutable a \<and> wa_view a = wa_source a)
   \<Longrightarrow> admits d g"
  by (auto simp: assign_build_def view_free_def find_None_iff live_assignments_def omap_values_def
      split: if_splits option.splits)

lemma release_admitted [admitted_intros]: "release_build i reason g = Inr d \<Longrightarrow> admits d g"
  by (auto simp: release_build_def and_then_eq_Inr omap_has_def)

lemma writer_result_admitted [admitted_intros]: "writer_result_build r g = Inr d \<Longrightarrow> admits d g"
  by (auto simp: writer_result_build_def and_then_eq_Inr split: if_splits)

lemma trace_admitted [admitted_intros]: "trace_build a kind data g = Inr d \<Longrightarrow> admits d g"
  by (auto simp: trace_build_def and_then_eq_Inr attempt_named_def)

lemma send_admitted [admitted_intros]: "send_build i sender to kind body causation at g = Inr d \<Longrightarrow> admits d g"
  by (auto simp: send_build_def and_then_eq_Inr split: if_splits)

lemma deliver_admitted [admitted_intros]: "deliver_build to now g = Inr d \<Longrightarrow> admits d g"
  by (auto simp: deliver_build_def)

end
