(* ===== verification/Task_Cycles.thy ===== *)
theory Task_Cycles
  imports Task_Commands
begin

text \<open>
  The dependency relation of a graph and the search \<open>would_cycle\<close> runs over it: the search
  answers exactly whether the new task is reachable from its dependencies, and a task added
  where it answers no leaves an acyclic relation acyclic.
\<close>

definition edges :: "graph \<Rightarrow> (task_id \<times> task_id) set" where
  "edges g = {(i, d). \<exists>n. omap_get (g_nodes g) i = Some n \<and> d \<in> set (tn_dependencies n)}"

text \<open>What the search has seen leads nowhere the stack does not.\<close>

definition explored :: "(task_id \<times> task_id) set \<Rightarrow> task_id \<Rightarrow> task_id set \<Rightarrow> task_id set \<Rightarrow> bool" where
  "explored E new S T \<longleftrightarrow> new \<notin> S \<and> (\<forall>a b. a \<in> S \<longrightarrow> (a, b) \<in> E \<longrightarrow> b \<in> S \<union> T)"

lemma explored_exit:
  assumes "explored E new S T" and "(a, new) \<in> E\<^sup>*" and "a \<in> S"
  shows "\<exists>t\<in>T. (t, new) \<in> E\<^sup>*"
  using assms(2,3)
proof (induction rule: converse_rtrancl_induct)
  case base
  with assms(1) show ?case by (simp add: explored_def)
next
  case (step a b)
  from step.prems step.hyps(1) assms(1) have "b \<in> S \<or> b \<in> T" by (auto simp: explored_def)
  with step.IH step.hyps(2) show ?case by blast
qed

lemma explored_skip: "explored E new S (insert i T) \<Longrightarrow> i \<in> S \<Longrightarrow> explored E new S T"
  by (auto simp: explored_def)

lemma cycle_search_correct:
  "explored (edges g) new (set seen) (set stack) \<Longrightarrow>
   cycle_search g new stack seen \<longleftrightarrow> (\<exists>i\<in>set stack. (i, new) \<in> (edges g)\<^sup>*)"
proof (induction g new stack seen rule: cycle_search.induct)
  case (1 g new seen)
  show ?case by simp
next
  case (2 g new i stack seen)
  show ?case
  proof (cases "i = new")
    case True
    then show ?thesis by auto
  next
    case other: False
    show ?thesis
    proof (cases "i \<in> set seen")
      case True
      have "explored (edges g) new (set seen) (set stack)"
        using explored_skip [OF _ True] 2(4) by simp
      with 2(1) [OF other True] explored_exit [OF this _ True] other True show ?thesis by auto
    next
      case new: False
      show ?thesis
      proof (cases "omap_get (g_nodes g) i")
        case None
        then have leaf: "(i, b) \<notin> edges g" for b by (simp add: edges_def)
        then have "(i, new) \<notin> (edges g)\<^sup>*" using other by (auto elim: converse_rtranclE)
        moreover have "explored (edges g) new (set (oset_insert i seen)) (set stack)"
          using 2(4) leaf other by (auto simp: explored_def)
        ultimately show ?thesis using 2(2) [OF other new None] other new None by simp
      next
        case (Some n)
        have succ: "(i, b) \<in> edges g \<longleftrightarrow> b \<in> set (tn_dependencies n)" for b
          using Some by (simp add: edges_def)
        then have "(i, new) \<in> (edges g)\<^sup>* \<longleftrightarrow> (\<exists>b\<in>set (tn_dependencies n). (b, new) \<in> (edges g)\<^sup>*)"
          using other by (meson converse_rtranclE converse_rtrancl_into_rtrancl)
        moreover have "explored (edges g) new (set (oset_insert i seen)) (set (rev (tn_dependencies n) @ stack))"
          using 2(4) succ other by (auto simp: explored_def)
        ultimately show ?thesis using 2(3) [OF other new Some] other new Some by auto
      qed
    qed
  qed
qed

lemma would_cycle_correct:
  "would_cycle g new dependencies \<longleftrightarrow> (\<exists>d\<in>set dependencies. (d, new) \<in> (edges g)\<^sup>*)"
  by (simp add: would_cycle_def cycle_search_correct explored_def)

section \<open>Adding a task\<close>

lemma reach_new:
  assumes "(a, new) \<in> (E \<union> {new} \<times> D)\<^sup>*"
  shows "(a, new) \<in> E\<^sup>*"
  using assms
  by (induction rule: converse_rtrancl_induct) (auto intro: converse_rtrancl_into_rtrancl)

lemma acyclic_extend:
  assumes "acyclic E" and "\<forall>d\<in>D. (d, new) \<notin> E\<^sup>*"
  shows "acyclic (E \<union> {new} \<times> D)"
proof (rule acyclicI, intro allI notI)
  let ?E = "E \<union> {new} \<times> D"
  have "(x, y) \<in> E\<^sup>+ \<or> (x, new) \<in> ?E\<^sup>* \<and> (new, y) \<in> ?E\<^sup>+" if "(x, y) \<in> ?E\<^sup>+" for x y
    using that
  proof (induction rule: trancl_induct)
    case (base y)
    then show ?case by auto
  next
    case (step y z)
    then show ?case
      by (cases "(y, z) \<in> E") (auto intro: trancl_into_trancl trancl_into_rtrancl trancl_mono [of _ E])
  qed
  moreover fix x assume "(x, x) \<in> ?E\<^sup>+"
  ultimately have "(x, x) \<in> E\<^sup>+ \<or> (new, new) \<in> ?E\<^sup>+"
    by (meson rtrancl_trancl_trancl trancl_rtrancl_trancl)
  moreover have "(x, x) \<notin> E\<^sup>+" using assms(1) by (simp add: acyclic_def)
  ultimately obtain z where z: "(new, z) \<in> ?E" "(z, new) \<in> ?E\<^sup>*" by (meson tranclD)
  from reach_new [OF z(2)] have home: "(z, new) \<in> E\<^sup>*" .
  show False
  proof (cases "(new, z) \<in> E")
    case True
    from this home have "(new, new) \<in> E\<^sup>+" by (rule rtrancl_into_trancl2)
    with assms(1) show False by (simp add: acyclic_def)
  next
    case False
    with z home assms(2) show False by auto
  qed
qed

end
