(* ===== verification/Task_Invariant.thy ===== *)
theory Task_Invariant
  imports Task_Spec Task_Cycles
begin

text \<open>
  The invariants of the task graph, each kept by every admitted event: nodes and attempts are
  filed under their own identifier and point at each other, a task's current attempt is alive
  and holds the task's lease, the dependency relation is acyclic, a parent's reservation is the
  sum of its unsettled children's budgets, live writers never share a view, and the bounds on
  inboxes and traces hold. An admitted event always replays.
\<close>

section \<open>What each replay leaves alone\<close>

lemma seed_sel [simp]:
  "g_session (seed i g) = g_session g" "g_actor (seed i g) = g_actor g"
  "g_version (seed i g) = g_version g" "g_last_event (seed i g) = g_last_event g"
  "g_nodes (seed i g) = g_nodes g" "g_dependents (seed i g) = g_dependents g"
  "g_approved_plan (seed i g) = g_approved_plan g" "g_plan_intents (seed i g) = g_plan_intents g"
  "g_plan_todos (seed i g) = g_plan_todos g" "g_todo_ids (seed i g) = g_todo_ids g"
  "g_scripted_plan_roots (seed i g) = g_scripted_plan_roots g"
  "g_reconciling (seed i g) = g_reconciling g" "g_attempts (seed i g) = g_attempts g"
  "g_messages (seed i g) = g_messages g" "g_inbox (seed i g) = g_inbox g"
  "g_traces (seed i g) = g_traces g" "g_paused (seed i g) = g_paused g"
  "g_assignments (seed i g) = g_assignments g" "g_writer_results (seed i g) = g_writer_results g"
  "g_criteria (seed i g) = g_criteria g" "g_judgments (seed i g) = g_judgments g"
  by (simp_all add: seed_def)

lemma settle_sel [simp]:
  "g_session (settle i g) = g_session g" "g_actor (settle i g) = g_actor g"
  "g_version (settle i g) = g_version g" "g_last_event (settle i g) = g_last_event g"
  "g_dependents (settle i g) = g_dependents g" "g_approved_plan (settle i g) = g_approved_plan g"
  "g_plan_intents (settle i g) = g_plan_intents g" "g_plan_todos (settle i g) = g_plan_todos g"
  "g_todo_ids (settle i g) = g_todo_ids g"
  "g_scripted_plan_roots (settle i g) = g_scripted_plan_roots g"
  "g_block_seeds (settle i g) = g_block_seeds g" "g_reconciling (settle i g) = g_reconciling g"
  "g_attempts (settle i g) = g_attempts g" "g_messages (settle i g) = g_messages g"
  "g_inbox (settle i g) = g_inbox g" "g_traces (settle i g) = g_traces g"
  "g_paused (settle i g) = g_paused g" "g_assignments (settle i g) = g_assignments g"
  "g_writer_results (settle i g) = g_writer_results g" "g_criteria (settle i g) = g_criteria g"
  "g_judgments (settle i g) = g_judgments g"
  by (simp_all add: settle_def Let_def split: option.split)

lemma add_dependent_sel [simp]:
  "g_session (add_dependent i n g) = g_session g" "g_actor (add_dependent i n g) = g_actor g"
  "g_version (add_dependent i n g) = g_version g"
  "g_last_event (add_dependent i n g) = g_last_event g"
  "g_nodes (add_dependent i n g) = g_nodes g"
  "g_approved_plan (add_dependent i n g) = g_approved_plan g"
  "g_plan_intents (add_dependent i n g) = g_plan_intents g"
  "g_plan_todos (add_dependent i n g) = g_plan_todos g"
  "g_todo_ids (add_dependent i n g) = g_todo_ids g"
  "g_scripted_plan_roots (add_dependent i n g) = g_scripted_plan_roots g"
  "g_reconciling (add_dependent i n g) = g_reconciling g"
  "g_attempts (add_dependent i n g) = g_attempts g"
  "g_messages (add_dependent i n g) = g_messages g" "g_inbox (add_dependent i n g) = g_inbox g"
  "g_traces (add_dependent i n g) = g_traces g" "g_paused (add_dependent i n g) = g_paused g"
  "g_assignments (add_dependent i n g) = g_assignments g"
  "g_writer_results (add_dependent i n g) = g_writer_results g"
  "g_criteria (add_dependent i n g) = g_criteria g"
  "g_judgments (add_dependent i n g) = g_judgments g"
  by (simp_all add: add_dependent_def Let_def)

lemma fold_dependents_sel [simp]:
  "g_session (fold (add_dependent n) is g) = g_session g"
  "g_actor (fold (add_dependent n) is g) = g_actor g"
  "g_version (fold (add_dependent n) is g) = g_version g"
  "g_last_event (fold (add_dependent n) is g) = g_last_event g"
  "g_nodes (fold (add_dependent n) is g) = g_nodes g"
  "g_approved_plan (fold (add_dependent n) is g) = g_approved_plan g"
  "g_plan_intents (fold (add_dependent n) is g) = g_plan_intents g"
  "g_plan_todos (fold (add_dependent n) is g) = g_plan_todos g"
  "g_todo_ids (fold (add_dependent n) is g) = g_todo_ids g"
  "g_scripted_plan_roots (fold (add_dependent n) is g) = g_scripted_plan_roots g"
  "g_reconciling (fold (add_dependent n) is g) = g_reconciling g"
  "g_attempts (fold (add_dependent n) is g) = g_attempts g"
  "g_messages (fold (add_dependent n) is g) = g_messages g"
  "g_inbox (fold (add_dependent n) is g) = g_inbox g"
  "g_traces (fold (add_dependent n) is g) = g_traces g"
  "g_paused (fold (add_dependent n) is g) = g_paused g"
  "g_assignments (fold (add_dependent n) is g) = g_assignments g"
  "g_writer_results (fold (add_dependent n) is g) = g_writer_results g"
  "g_criteria (fold (add_dependent n) is g) = g_criteria g"
  "g_judgments (fold (add_dependent n) is g) = g_judgments g"
  by (induction "is" arbitrary: g) simp_all

lemma omap_has_modify [simp]: "omap_has (omap_modify k f m) i = omap_has m i"
  by (simp add: omap_has_def)

lemma omap_has_settle [simp]: "omap_has (g_nodes (settle i g)) j = omap_has (g_nodes g) j"
  by (simp add: settle_def Let_def split: option.split)

text \<open>A node without its accounts: settling changes nothing else.\<close>

definition node_core :: "task_node \<Rightarrow> task_node" where
  "node_core = on_runtime (\<lambda>r. r\<lparr>rt_used := budget_default, rt_reserved := budget_default,
     rt_settled := False\<rparr>)"

lemma node_core_eqD:
  assumes "node_core m = node_core n"
  shows "tn_id m = tn_id n" "tn_dependencies m = tn_dependencies n" "tn_budget m = tn_budget n"
    "tn_state m = tn_state n" "tn_authority m = tn_authority n" "tn_workspace m = tn_workspace n"
    "rt_parent (tn_runtime m) = rt_parent (tn_runtime n)" "rt_plan (tn_runtime m) = rt_plan (tn_runtime n)"
    "rt_attempts (tn_runtime m) = rt_attempts (tn_runtime n)"
    "rt_current_attempt (tn_runtime m) = rt_current_attempt (tn_runtime n)"
    "rt_lease_epoch (tn_runtime m) = rt_lease_epoch (tn_runtime n)"
  using arg_cong [OF assms, of tn_id] arg_cong [OF assms, of tn_dependencies]
    arg_cong [OF assms, of tn_budget] arg_cong [OF assms, of tn_state] arg_cong [OF assms, of tn_authority]
    arg_cong [OF assms, of tn_workspace] arg_cong [OF assms, of "\<lambda>n. rt_parent (tn_runtime n)"]
    arg_cong [OF assms, of "\<lambda>n. rt_plan (tn_runtime n)"]
    arg_cong [OF assms, of "\<lambda>n. rt_attempts (tn_runtime n)"]
    arg_cong [OF assms, of "\<lambda>n. rt_current_attempt (tn_runtime n)"]
    arg_cong [OF assms, of "\<lambda>n. rt_lease_epoch (tn_runtime n)"]
  by (simp_all add: node_core_def)

lemma node_core_account [simp]:
  "node_core (on_runtime (\<lambda>r. r\<lparr>rt_settled := b\<rparr>) n) = node_core n"
  "node_core (on_runtime (\<lambda>r. r\<lparr>rt_reserved := f r\<rparr>) n) = node_core n"
  "node_core (on_runtime (\<lambda>r. r\<lparr>rt_used := f r\<rparr>) n) = node_core n"
  "node_core (on_runtime (\<lambda>r. r\<lparr>rt_reserved := f r, rt_used := h r\<rparr>) n) = node_core n"
  by (simp_all add: node_core_def on_runtime_def)

lemma cores_modify:
  "(\<And>n. node_core (f n) = node_core n) \<Longrightarrow>
   map_option node_core (omap_get (omap_modify i f m) j) = map_option node_core (omap_get m j)"
  by (cases "omap_get m j") auto

lemma cores_settle:
  "map_option node_core (omap_get (g_nodes (settle i g)) j) = map_option node_core (omap_get (g_nodes g) j)"
  by (auto simp: settle_def Let_def option.map_comp comp_def split: option.split)

lemma node_settle:
  assumes "omap_get (g_nodes (settle i g)) j = Some m"
  shows "\<exists>n. omap_get (g_nodes g) j = Some n \<and> node_core m = node_core n"
  using cores_settle [of i g j] assms by (cases "omap_get (g_nodes g) j") auto

section \<open>Nodes, attempts and leases\<close>

definition nodes_ok :: "graph \<Rightarrow> bool" where
  "nodes_ok g \<longleftrightarrow>
     omap_ok (g_nodes g) \<and>
     (\<forall>i n. omap_get (g_nodes g) i = Some n \<longrightarrow>
        tn_id n = i \<and> (\<forall>p. rt_parent (tn_runtime n) = Some p \<longrightarrow> omap_has (g_nodes g) p))"

definition attempts_ok :: "graph \<Rightarrow> bool" where
  "attempts_ok g \<longleftrightarrow>
     omap_ok (g_attempts g) \<and>
     (\<forall>a t. omap_get (g_attempts g) a = Some t \<longrightarrow> ta_id t = a \<and> omap_has (g_nodes g) (ta_task t))"

definition leases_ok :: "graph \<Rightarrow> bool" where
  "leases_ok g \<longleftrightarrow>
     (\<forall>i n a. omap_get (g_nodes g) i = Some n \<longrightarrow> rt_current_attempt (tn_runtime n) = Some a \<longrightarrow>
        (\<exists>t. omap_get (g_attempts g) a = Some t \<and> ta_task t = i \<and> is_live (ta_state t) \<and>
           ta_lease_epoch t = rt_lease_epoch (tn_runtime n)))"

definition filed_ok :: "graph \<Rightarrow> bool" where
  "filed_ok g \<longleftrightarrow> nodes_ok g \<and> attempts_ok g \<and> leases_ok g"

lemma need_node: "omap_get (g_nodes g) i = Some n \<Longrightarrow> need (get_node g i) f = f n"
  by (simp add: get_node_def fun_eq_iff)

lemma need_attempt: "omap_get (g_attempts g) i = Some t \<Longrightarrow> need (get_attempt g i) f = f t"
  by (simp add: get_attempt_def fun_eq_iff)

lemma attempt_node:
  assumes "filed_ok g" and "omap_get (g_attempts g) a = Some t"
  obtains n where "omap_get (g_nodes g) (ta_task t) = Some n"
  using assms by (auto simp: filed_ok_def attempts_ok_def omap_has_def)

lemma admitted_replays:
  assumes ok: "filed_ok g" and adm: "admits d g"
  shows "fst (replay_data d g) = Inr ()"
proof (cases d)
  case (Todo_Created item root step)
  then show ?thesis by (cases item) (simp_all add: Let_def)
next
  case (Ev_Task_Created node)
  with adm obtain n where "node = Inr n" by auto
  with Ev_Task_Created show ?thesis by (simp add: replay_created_def Let_def)
next
  case (Ev_Attempt_Expired task attempt reason)
  with adm obtain i n where "task = Inr i" "omap_get (g_nodes g) i = Some n"
    by (auto simp: node_named_def)
  with Ev_Attempt_Expired show ?thesis
    by (cases attempt) (simp_all add: replay_attempt_expired_def Let_def need_node)
next
  case (Ev_Attempt_Finished attempt task state used reason rtry outcome evidence ended)
  with adm obtain a t st where "attempt = Inr a" "omap_get (g_attempts g) a = Some t" "state = Inr st"
    by (auto simp: attempt_named_def)
  moreover from attempt_node [OF ok this(2)] obtain n where "omap_get (g_nodes g) (ta_task t) = Some n" .
  ultimately show ?thesis
    using Ev_Attempt_Finished by (simp add: replay_attempt_finished_def Let_def need_node need_attempt)
qed (use adm in \<open>auto simp: replay_defs node_named_def attempt_named_def Let_def omap_has_def
      need_node need_attempt\<close>)

section \<open>What a task keeps for good\<close>

definition node_static ::
  "task_node \<Rightarrow> task_id \<times> task_id list \<times> task_id option \<times> budget \<times> plan_task option \<times> workspace_requirement" where
  "node_static n =
     (tn_id n, tn_dependencies n, rt_parent (tn_runtime n), tn_budget n, rt_plan (tn_runtime n),
      tn_workspace n)"

definition statics :: "(task_id, task_node) omap \<Rightarrow> task_id \<Rightarrow>
    (task_id \<times> task_id list \<times> task_id option \<times> budget \<times> plan_task option \<times> workspace_requirement) option" where
  "statics m i = map_option node_static (omap_get m i)"

lemma statics_modify:
  assumes "\<And>n. node_static (f n) = node_static n"
  shows "statics (omap_modify i f m) = statics m"
proof
  fix j
  show "statics (omap_modify i f m) j = statics m j"
    by (cases "j = i"; cases "omap_get m j") (simp_all add: statics_def assms)
qed

lemma statics_cores:
  assumes "map_option node_core x = map_option node_core y"
  shows "map_option node_static x = map_option node_static y"
proof (cases x)
  case None
  with assms show ?thesis by simp
next
  case (Some m)
  with assms obtain n where y: "y = Some n" and core: "node_core m = node_core n"
    by (cases y) auto
  from node_core_eqD [OF core] show ?thesis by (simp add: Some y node_static_def)
qed

lemma statics_settle [simp]: "statics (g_nodes (settle i g)) = statics (g_nodes g)"
  unfolding statics_def by (rule ext) (rule statics_cores [OF cores_settle])

lemma omap_ok_settle [simp]: "omap_ok (g_nodes g) \<Longrightarrow> omap_ok (g_nodes (settle i g))"
  by (auto simp: settle_def Let_def split: option.split)

lemma statics_if [simp]:
  "statics (g_nodes (if c then g else h)) = (if c then statics (g_nodes g) else statics (g_nodes h))"
  by simp

lemma replay_statics:
  assumes "\<nexists>f. d = Ev_Task_Created f"
  shows "statics (g_nodes (snd (replay_data d g))) = statics (g_nodes g)"
proof (cases d)
  case (Todo_Created item root step)
  then show ?thesis by (cases item) (simp_all add: Let_def split: option.split)
next
  case (Ev_Task_Created f)
  with assms show ?thesis by blast
qed (auto simp: replay_defs need_def Let_def statics_modify node_static_def on_runtime_def
    split: sum.split option.split)

text \<open>The nodes after a creation.\<close>

definition reserve_at :: "task_node \<Rightarrow> (task_id, task_node) omap \<Rightarrow> (task_id, task_node) omap" where
  "reserve_at n m =
     (case rt_parent (tn_runtime n) of
        None \<Rightarrow> m
      | Some p \<Rightarrow>
          omap_modify p (on_runtime (\<lambda>r. r\<lparr>rt_reserved := budget_add (rt_reserved r) (tn_budget n)\<rparr>)) m)"

lemma created_nodes:
  "g_nodes (snd (replay_created (Inr n) g)) = omap_insert (tn_id n) n (reserve_at n (g_nodes g))"
  by (simp add: replay_created_def reserve_at_def Let_def split: option.split)

lemma created_attempts: "g_attempts (snd (replay_created (Inr n) g)) = g_attempts g"
  by (simp add: replay_created_def Let_def split: option.split)

lemma cores_reserve:
  "map_option node_core (omap_get (reserve_at n m) j) = map_option node_core (omap_get m j)"
  by (simp add: reserve_at_def option.map_comp comp_def split: option.split)

lemma statics_reserve [simp]: "statics (reserve_at n m) = statics m"
  unfolding statics_def by (rule ext) (rule statics_cores [OF cores_reserve])

lemma statics_insert [simp]: "statics (omap_insert i n m) = (statics m)(i \<mapsto> node_static n)"
  by (auto simp: statics_def fun_eq_iff)

lemma omap_ok_reserve [simp]: "omap_ok m \<Longrightarrow> omap_ok (reserve_at n m)"
  by (simp add: reserve_at_def split: option.split)

lemma omap_has_reserve [simp]: "omap_has (reserve_at n m) i = omap_has m i"
  by (simp add: reserve_at_def split: option.split)

lemma replay_nodes_sorted:
  "omap_ok (g_nodes g) \<Longrightarrow> omap_ok (g_nodes (snd (replay_data d g)))"
proof (cases d)
  case (Todo_Created item root step)
  then show "omap_ok (g_nodes g) \<Longrightarrow> ?thesis" by (cases item) (simp_all add: Let_def split: option.split)
next
  case (Ev_Task_Created f)
  assume "omap_ok (g_nodes g)"
  then show ?thesis
    using created_nodes by (cases f) (simp_all add: Ev_Task_Created replay_created_def decoded_or_def need_def Let_def
        split: option.split)
qed (simp_all add: replay_defs need_def Let_def split: sum.split option.split)

lemma omap_has_statics: "omap_has (g_nodes g) i \<longleftrightarrow> statics (g_nodes g) i \<noteq> None"
  by (simp add: omap_has_def statics_def)

section \<open>Identity of nodes, order of tasks\<close>

lemma statics_node:
  assumes "statics m = statics m'" and "omap_get m i = Some n"
  shows "\<exists>n'. omap_get m' i = Some n' \<and> node_static n = node_static n'"
  using fun_cong [OF assms(1), of i] assms(2)
  by (cases "omap_get m' i") (simp_all add: statics_def)

lemma edges_statics: "edges g = {(i, d). \<exists>j ds rest. statics (g_nodes g) i = Some (j, ds, rest) \<and> d \<in> set ds}"
  by (auto simp: edges_def statics_def node_static_def)

lemma admitted_created:
  assumes "admits (Ev_Task_Created f) g"
  shows "\<exists>n. f = Inr n \<and> omap_get (g_nodes g) (tn_id n) = None \<and>
    \<not> would_cycle g (tn_id n) (tn_dependencies n) \<and> fresh_runtime n = n \<and> u64_budget (tn_budget n) \<and>
    (\<forall>p. rt_parent (tn_runtime n) = Some p \<longrightarrow>
       (\<exists>m. omap_get (g_nodes g) p = Some m \<and> fits_within (tn_budget n) (available m)))"
  using assms by (auto simp: omap_has_def)

lemma nodes_ok_step:
  assumes ok: "nodes_ok g" and "admits d g"
  shows "nodes_ok (snd (replay_data d g))"
proof (cases "\<exists>f. d = Ev_Task_Created f")
  case False
  note same = replay_statics [OF False, of g]
  show ?thesis
    unfolding nodes_ok_def
  proof (intro conjI allI impI)
    show "omap_ok (g_nodes (snd (replay_data d g)))"
      using ok by (simp add: nodes_ok_def replay_nodes_sorted)
    fix i n assume "omap_get (g_nodes (snd (replay_data d g))) i = Some n"
    from statics_node [OF same this] obtain m where m: "omap_get (g_nodes g) i = Some m"
      and eq: "node_static n = node_static m" by blast
    show "tn_id n = i"
      using ok m eq by (auto simp: nodes_ok_def node_static_def)
    fix p assume "rt_parent (tn_runtime n) = Some p"
    with ok m eq have "omap_has (g_nodes g) p" by (auto simp: nodes_ok_def node_static_def)
    then show "omap_has (g_nodes (snd (replay_data d g))) p"
      by (simp add: omap_has_statics same)
  qed
next
  case True
  then obtain f where d: "d = Ev_Task_Created f" by blast
  from admitted_created [OF assms(2) [unfolded d]] obtain n
    where f: "f = Inr n" and new: "omap_get (g_nodes g) (tn_id n) = None"
    and par: "\<forall>p. rt_parent (tn_runtime n) = Some p \<longrightarrow> omap_has (g_nodes g) p"
    unfolding omap_has_def by blast
  let ?m = "g_nodes (snd (replay_data d g))"
  have m: "?m = omap_insert (tn_id n) n (reserve_at n (g_nodes g))" by (simp add: d f created_nodes)
  have has: "omap_has ?m p \<longleftrightarrow> p = tn_id n \<or> omap_has (g_nodes g) p" for p
    by (simp add: m)
  show ?thesis
    unfolding nodes_ok_def
  proof (intro conjI allI impI)
    show "omap_ok ?m" using ok by (simp add: m nodes_ok_def)
    fix i x assume x: "omap_get ?m i = Some x"
    have eq: "x = n \<and> i = tn_id n \<or> i \<noteq> tn_id n \<and> (\<exists>y. omap_get (g_nodes g) i = Some y \<and> node_static x = node_static y)"
      using x statics_node [OF statics_reserve, of n "g_nodes g" i x] by (auto simp: m split: if_splits)
    show "tn_id x = i"
      using ok eq by (auto simp: nodes_ok_def node_static_def)
    fix p assume "rt_parent (tn_runtime x) = Some p"
    with ok eq par have "omap_has (g_nodes g) p" by (auto simp: nodes_ok_def node_static_def)
    then show "omap_has ?m p" by (simp add: has)
  qed
qed

lemma acyclic_step:
  assumes "acyclic (edges g)" and "admits d g"
  shows "acyclic (edges (snd (replay_data d g)))"
proof (cases "\<exists>f. d = Ev_Task_Created f")
  case False
  with assms show ?thesis by (simp add: edges_statics replay_statics)
next
  case True
  then obtain f where d: "d = Ev_Task_Created f" by blast
  from admitted_created [OF assms(2) [unfolded d]] obtain n
    where f: "f = Inr n" and search: "\<not> would_cycle g (tn_id n) (tn_dependencies n)" by blast
  have "edges (snd (replay_data d g)) \<subseteq> edges g \<union> {tn_id n} \<times> set (tn_dependencies n)"
    by (auto simp: edges_statics d f created_nodes node_static_def split: if_splits)
  moreover have "acyclic (edges g \<union> {tn_id n} \<times> set (tn_dependencies n))"
    using assms(1) search by (intro acyclic_extend) (auto simp: would_cycle_correct)
  ultimately show ?thesis by (rule acyclic_subset [rotated])
qed

lemma nodes_grow: "omap_has (g_nodes g) i \<Longrightarrow> omap_has (g_nodes (snd (replay_data d g))) i"
proof (cases "\<exists>f. d = Ev_Task_Created f")
  case False
  from replay_statics [OF this, of g] show "omap_has (g_nodes g) i \<Longrightarrow> ?thesis"
    by (simp add: omap_has_statics)
next
  case True
  assume has: "omap_has (g_nodes g) i"
  from True obtain f where d: "d = Ev_Task_Created f" by blast
  show ?thesis
  proof (cases f)
    case (Inr n)
    from has show ?thesis by (simp add: d Inr created_nodes)
  qed (use has in \<open>simp add: d replay_created_def need_def decoded_or_def\<close>)
qed

section \<open>Attempts and leases\<close>

text \<open>What an event does to the attempts: starts one, or changes one without moving it.\<close>

definition attempt_change :: "session_event \<Rightarrow> graph \<Rightarrow> (attempt_id, task_attempt) omap \<Rightarrow> bool" where
  "attempt_change d g m \<longleftrightarrow>
     m = g_attempts g \<or>
     (\<exists>a. d = Ev_Attempt_Started (Inr a) \<and> m = omap_insert (ta_id a) a (g_attempts g)) \<or>
     (\<exists>i f. m = omap_modify i f (g_attempts g) \<and>
        (\<forall>t. ta_id (f t) = ta_id t \<and> ta_task (f t) = ta_task t \<and> ta_lease_epoch (f t) = ta_lease_epoch t))"

lemma attempt_change_same [simp]: "attempt_change d g (g_attempts g)"
  by (simp add: attempt_change_def)

lemma attempt_change_start [simp]:
  "attempt_change (Ev_Attempt_Started (Inr a)) g (omap_insert (ta_id a) a (g_attempts g))"
  by (simp add: attempt_change_def)

lemma attempt_change_modify [simp]:
  assumes "\<And>t. ta_id (f t) = ta_id t" "\<And>t. ta_task (f t) = ta_task t"
    "\<And>t. ta_lease_epoch (f t) = ta_lease_epoch t"
  shows "attempt_change d g (omap_modify i f (g_attempts g))"
  using assms unfolding attempt_change_def by blast

lemma replay_attempts: "attempt_change d g (g_attempts (snd (replay_data d g)))"
proof (cases d)
  case (Todo_Created item root step)
  then show ?thesis by (cases item) (simp_all add: Let_def split: option.split)
next
  case (Ev_Task_Created f)
  then show ?thesis
    using created_attempts by (cases f) (simp_all add: replay_created_def [of "Inl _"] need_def decoded_or_def)
next
  case (Ev_Attempt_Started f)
  then show ?thesis
    by (cases f) (simp_all add: replay_attempt_started_def need_def Let_def decoded_or_def split: sum.split)
next
  case (Ev_Attempt_Finished attempt task state used reason rtry outcome evidence ended)
  then show ?thesis
    by (simp add: replay_attempt_finished_def need_def Let_def split: sum.split)
qed (simp_all add: replay_defs need_def Let_def split: sum.split option.split)

lemma attempts_ok_step:
  assumes ok: "attempts_ok g" and adm: "admits d g"
  shows "attempts_ok (snd (replay_data d g))"
proof -
  let ?m = "g_attempts g" and ?m' = "g_attempts (snd (replay_data d g))"
  have sorted: "omap_ok ?m"
    and known: "\<And>a t. omap_get ?m a = Some t \<Longrightarrow> ta_id t = a \<and> omap_has (g_nodes g) (ta_task t)"
    using ok by (auto simp: attempts_ok_def)
  have "omap_ok ?m' \<and>
      (\<forall>a t. omap_get ?m' a = Some t \<longrightarrow> ta_id t = a \<and> omap_has (g_nodes g) (ta_task t))"
    using replay_attempts [of d g] unfolding attempt_change_def
  proof (elim disjE exE conjE)
    fix a assume d: "d = Ev_Attempt_Started (Inr a)" and "?m' = omap_insert (ta_id a) a ?m"
    moreover have "omap_has (g_nodes g) (ta_task a)" using adm d by (auto simp: omap_has_def)
    ultimately show ?thesis using known sorted by simp
  next
    fix i and f :: "task_attempt \<Rightarrow> task_attempt"
    assume "\<forall>t. ta_id (f t) = ta_id t \<and> ta_task (f t) = ta_task t \<and> ta_lease_epoch (f t) = ta_lease_epoch t"
      and "?m' = omap_modify i f ?m"
    with known sorted show ?thesis by auto
  qed (use known sorted in auto)
  then show ?thesis by (auto simp: attempts_ok_def intro: nodes_grow)
qed

lemma leases_ok_D:
  "leases_ok g \<Longrightarrow> omap_get (g_nodes g) i = Some n \<Longrightarrow> rt_current_attempt (tn_runtime n) = Some a \<Longrightarrow>
   \<exists>t. omap_get (g_attempts g) a = Some t \<and> ta_task t = i \<and> is_live (ta_state t) \<and>
     ta_lease_epoch t = rt_lease_epoch (tn_runtime n)"
  by (simp add: leases_ok_def)

text \<open>
  Two shapes cover the events that touch a lease: the nodes keep their current attempt and epoch
  and the attempts stay as alive as they were, or one attempt ends and its task lets go of it.
\<close>

lemma leases_ok_keep:
  assumes ok: "leases_ok g"
    and nodes: "\<And>i n'. omap_get (g_nodes g') i = Some n' \<Longrightarrow> rt_current_attempt (tn_runtime n') \<noteq> None \<Longrightarrow>
      \<exists>n. omap_get (g_nodes g) i = Some n \<and>
        rt_current_attempt (tn_runtime n) = rt_current_attempt (tn_runtime n') \<and>
        rt_lease_epoch (tn_runtime n) = rt_lease_epoch (tn_runtime n')"
    and attempts: "\<And>a t. omap_get (g_attempts g) a = Some t \<Longrightarrow> is_live (ta_state t) \<Longrightarrow>
      (\<exists>n. omap_get (g_nodes g') (ta_task t) = Some n \<and> rt_current_attempt (tn_runtime n) = Some a) \<Longrightarrow>
      \<exists>t'. omap_get (g_attempts g') a = Some t' \<and> ta_task t' = ta_task t \<and> is_live (ta_state t') \<and>
        ta_lease_epoch t' = ta_lease_epoch t"
  shows "leases_ok g'"
  unfolding leases_ok_def
proof (intro allI impI)
  fix i n' a
  assume n': "omap_get (g_nodes g') i = Some n'" and cur: "rt_current_attempt (tn_runtime n') = Some a"
  from nodes [OF n'] cur obtain n where n: "omap_get (g_nodes g) i = Some n"
    "rt_current_attempt (tn_runtime n) = Some a" "rt_lease_epoch (tn_runtime n) = rt_lease_epoch (tn_runtime n')"
    by auto
  from leases_ok_D [OF ok n(1,2)] obtain t where t: "omap_get (g_attempts g) a = Some t" "ta_task t = i"
    "is_live (ta_state t)" "ta_lease_epoch t = rt_lease_epoch (tn_runtime n)" by blast
  from attempts [OF t(1,3)] t n' cur n(3) show "\<exists>t. omap_get (g_attempts g') a = Some t \<and> ta_task t = i \<and>
      is_live (ta_state t) \<and> ta_lease_epoch t = rt_lease_epoch (tn_runtime n')" by auto
qed

lemma leases_ok_release:
  assumes ok: "leases_ok g"
    and nodes: "\<And>j n'. omap_get (g_nodes g') j = Some n' \<Longrightarrow> rt_current_attempt (tn_runtime n') \<noteq> None \<Longrightarrow>
      j \<noteq> i \<and> (\<exists>n. omap_get (g_nodes g) j = Some n \<and>
        rt_current_attempt (tn_runtime n) = rt_current_attempt (tn_runtime n') \<and>
        rt_lease_epoch (tn_runtime n) = rt_lease_epoch (tn_runtime n'))"
    and attempts: "\<And>b t. omap_get (g_attempts g) b = Some t \<Longrightarrow> ta_task t \<noteq> i \<Longrightarrow>
      omap_get (g_attempts g') b = Some t"
  shows "leases_ok g'"
proof (rule leases_ok_keep [OF ok])
  fix j n' assume "omap_get (g_nodes g') j = Some n'" "rt_current_attempt (tn_runtime n') \<noteq> None"
  from nodes [OF this] show "\<exists>n. omap_get (g_nodes g) j = Some n \<and>
        rt_current_attempt (tn_runtime n) = rt_current_attempt (tn_runtime n') \<and>
        rt_lease_epoch (tn_runtime n) = rt_lease_epoch (tn_runtime n')" by blast
next
  fix b t assume t: "omap_get (g_attempts g) b = Some t" "is_live (ta_state t)"
    and "\<exists>n. omap_get (g_nodes g') (ta_task t) = Some n \<and> rt_current_attempt (tn_runtime n) = Some b"
  with nodes [of "ta_task t"] have "ta_task t \<noteq> i" by auto
  with attempts [OF t(1)] t(2) show "\<exists>t'. omap_get (g_attempts g') b = Some t' \<and> ta_task t' = ta_task t \<and>
      is_live (ta_state t') \<and> ta_lease_epoch t' = ta_lease_epoch t" by blast
qed

lemma leases_ok_same:
  "leases_ok g \<Longrightarrow> g_nodes g' = g_nodes g \<Longrightarrow> g_attempts g' = g_attempts g \<Longrightarrow> leases_ok g'"
  by (simp add: leases_ok_def)

lemma cores_node:
  assumes "map_option node_core x = map_option node_core y" and "x = Some n'"
  shows "\<exists>n. y = Some n \<and> rt_current_attempt (tn_runtime n) = rt_current_attempt (tn_runtime n') \<and>
    rt_lease_epoch (tn_runtime n) = rt_lease_epoch (tn_runtime n')"
proof -
  from assms obtain n where "y = Some n" "node_core n' = node_core n" by (cases y) auto
  with node_core_eqD(10,11) [OF this(2)] show ?thesis by simp
qed

lemma leases_ok_cores:
  assumes ok: "leases_ok g"
    and nodes: "\<And>j. map_option node_core (omap_get (g_nodes g') j) = map_option node_core (omap_get (g_nodes g) j)"
    and attempts: "g_attempts g' = g_attempts g"
  shows "leases_ok g'"
  by (rule leases_ok_keep [OF ok]) (use cores_node [OF nodes] attempts in auto)

lemma leases_ok_on_attempt:
  assumes ok: "leases_ok g"
    and f: "\<And>t. ta_task (f t) = ta_task t" "\<And>t. ta_lease_epoch (f t) = ta_lease_epoch t"
      "\<And>t. omap_get (g_attempts g) a = Some t \<Longrightarrow> is_live (ta_state t) \<Longrightarrow> is_live (ta_state (f t))"
  shows "leases_ok (on_attempt a f g)"
  by (rule leases_ok_keep [OF ok]) (use f in auto)

lemma leases_ok_on_node:
  assumes ok: "leases_ok g"
    and f: "\<And>n. rt_current_attempt (tn_runtime (f n)) = rt_current_attempt (tn_runtime n)"
      "\<And>n. rt_lease_epoch (tn_runtime (f n)) = rt_lease_epoch (tn_runtime n)"
  shows "leases_ok (on_node i f g)"
  by (rule leases_ok_keep [OF ok]) (use f in \<open>auto split: if_splits\<close>)

lemma leases_ok_settle: "leases_ok g \<Longrightarrow> leases_ok (settle i g)"
  by (rule leases_ok_cores) (simp_all add: cores_settle)

lemma leases_ok_seed [simp]: "leases_ok (seed i g) = leases_ok g"
  by (simp add: leases_ok_def)

lemma fresh_runtime_sel:
  "rt_current_attempt (tn_runtime (fresh_runtime n)) = None" "\<not> rt_settled (tn_runtime (fresh_runtime n))"
  "rt_reserved (tn_runtime (fresh_runtime n)) = budget_default"
  "rt_used (tn_runtime (fresh_runtime n)) = budget_default"
  "rt_attempts (tn_runtime (fresh_runtime n)) = []"
  by (simp_all add: fresh_runtime_def runtime_default_def)

lemma fresh_runtime_eqD:
  assumes "fresh_runtime n = n"
  shows "rt_current_attempt (tn_runtime n) = None \<and> \<not> rt_settled (tn_runtime n) \<and>
    rt_reserved (tn_runtime n) = budget_default \<and> rt_used (tn_runtime n) = budget_default \<and>
    rt_attempts (tn_runtime n) = []"
  using fresh_runtime_sel [of n] unfolding assms by blast

lemma leases_ok_created:
  assumes ok: "leases_ok g" and adm: "admits (Ev_Task_Created f) g"
  shows "leases_ok (snd (replay_created f g))"
proof -
  from admitted_created [OF adm] obtain n where f: "f = Inr n" and n: "fresh_runtime n = n" by blast
  from fresh_runtime_eqD [OF n] have cur: "rt_current_attempt (tn_runtime n) = None" by simp
  show ?thesis
  proof (rule leases_ok_keep [OF ok])
    fix j n' assume n': "omap_get (g_nodes (snd (replay_created f g))) j = Some n'"
      and some: "rt_current_attempt (tn_runtime n') \<noteq> None"
    with cur have "omap_get (reserve_at n (g_nodes g)) j = Some n'"
      by (auto simp: f created_nodes split: if_splits)
    from cores_node [OF cores_reserve this]
    show "\<exists>n. omap_get (g_nodes g) j = Some n \<and>
        rt_current_attempt (tn_runtime n) = rt_current_attempt (tn_runtime n') \<and>
        rt_lease_epoch (tn_runtime n) = rt_lease_epoch (tn_runtime n')" .
  qed (auto simp: f created_attempts)
qed

lemma leases_ok_started:
  assumes ok: "leases_ok g" and adm: "admits (Ev_Attempt_Started f) g"
  shows "leases_ok (snd (replay_attempt_started f g))"
proof -
  from adm obtain a n where f: "f = Inr a" and n: "omap_get (g_nodes g) (ta_task a) = Some n"
    and fresh: "omap_get (g_attempts g) (ta_id a) = None" and live: "ta_state a = At_Starting"
    by (auto simp: omap_has_def)
  let ?g = "snd (replay_attempt_started f g)"
  have attempts: "g_attempts ?g = omap_insert (ta_id a) a (g_attempts g)"
    by (simp add: replay_attempt_started_def f need_node [OF n] Let_def)
  have this_node: "rt_current_attempt (tn_runtime n') = Some (ta_id a) \<and>
      rt_lease_epoch (tn_runtime n') = ta_lease_epoch a" if "omap_get (g_nodes ?g) (ta_task a) = Some n'" for n'
    using that by (auto simp: replay_attempt_started_def f need_node [OF n] Let_def n)
  have other_node: "omap_get (g_nodes ?g) j = omap_get (g_nodes g) j" if "j \<noteq> ta_task a" for j
    using that by (simp add: replay_attempt_started_def f need_node [OF n] Let_def)
  show ?thesis
    unfolding leases_ok_def
  proof (intro allI impI)
    fix j n' b
    assume n': "omap_get (g_nodes ?g) j = Some n'" and cur: "rt_current_attempt (tn_runtime n') = Some b"
    show "\<exists>t. omap_get (g_attempts ?g) b = Some t \<and> ta_task t = j \<and> is_live (ta_state t) \<and>
        ta_lease_epoch t = rt_lease_epoch (tn_runtime n')"
    proof (cases "j = ta_task a")
      case True
      with this_node n' cur live show ?thesis by (simp add: attempts is_live_def)
    next
      case False
      with n' other_node have "omap_get (g_nodes g) j = Some n'" by simp
      from leases_ok_D [OF ok this cur] fresh show ?thesis by (auto simp: attempts)
    qed
  qed
qed

lemma leases_ok_finished:
  assumes ok: "leases_ok g" and filed: "attempts_ok g"
    and adm: "admits (Ev_Attempt_Finished attempt task state used reason rtry outcome evidence ended) g"
  shows "leases_ok (snd (replay_attempt_finished attempt state used reason rtry outcome evidence ended g))"
proof -
  from adm obtain a t st n where f: "attempt = Inr a" "state = Inr st"
    and t: "omap_get (g_attempts g) a = Some t" and n: "omap_get (g_nodes g) (ta_task t) = Some n"
    by (auto simp: attempt_named_def holds_lease_def)
  let ?F = "\<lambda>t. t\<lparr>ta_state := st, ta_used := budget_add (ta_used t) (field_or budget_default used),
       ta_ended_at_ms := ended, ta_terminal_reason := reason, ta_retryable := field_or NotRetryable rtry,
       ta_result := (case outcome of Some JNull \<Rightarrow> None | _ \<Rightarrow> outcome),
       ta_evidence := field_or [] evidence\<rparr>"
  let ?N = "\<lambda>n. on_runtime (\<lambda>r. r\<lparr>rt_used := budget_add (rt_used r) (field_or budget_default used),
       rt_current_attempt := None\<rparr>) (n\<lparr>tn_lease_expires_at_ms := None, tn_state := task_state_after st\<rparr>)"
  let ?g = "on_node (ta_task t) ?N (on_attempt a ?F g)"
  have "leases_ok ?g"
    by (rule leases_ok_release [OF ok, of _ "ta_task t"]) (use t in \<open>auto split: if_splits\<close>)
  then have "leases_ok (settle (ta_task t) ?g)" by (rule leases_ok_settle)
  moreover have "omap_get (g_nodes (on_attempt a ?F g)) (ta_task t) = Some n" using n by simp
  ultimately show ?thesis
    by (simp add: replay_attempt_finished_def f need_attempt [OF t] need_node [of "on_attempt _ _ _"] n Let_def)
qed

lemma leases_ok_expired:
  assumes ok: "leases_ok g" and adm: "admits (Ev_Attempt_Expired task attempt reason) g"
  shows "leases_ok (snd (replay_attempt_expired task attempt reason g))"
proof -
  from adm obtain i n where f: "task = Inr i" and n: "omap_get (g_nodes g) i = Some n"
    and cur: "attempt = rt_current_attempt (tn_runtime n)"
    by (auto simp: node_named_def)
  let ?g1 = "case attempt of None \<Rightarrow> g
    | Some a \<Rightarrow> on_attempt a (\<lambda>t. t\<lparr>ta_state := At_Expired, ta_terminal_reason := reason\<rparr>) g"
  let ?N = "\<lambda>n. on_runtime (\<lambda>r. r\<lparr>rt_current_attempt := None\<rparr>)
    (n\<lparr>tn_state := Task_Ready, tn_assignee := None, tn_lease_expires_at_ms := None\<rparr>)"
  have n1: "omap_get (g_nodes ?g1) i = Some n" using n by (simp split: option.split)
  have "leases_ok (on_node i ?N ?g1)"
  proof (rule leases_ok_release [OF ok, of _ i])
    fix b t assume t: "omap_get (g_attempts g) b = Some t" "ta_task t \<noteq> i"
    have "attempt \<noteq> Some b"
      using leases_ok_D [OF ok n, of b] t cur by auto
    with t show "omap_get (g_attempts (on_node i ?N ?g1)) b = Some t" by (auto split: option.split)
  qed (use n in \<open>auto split: option.splits if_splits\<close>)
  then show ?thesis by (simp add: replay_attempt_expired_def f Let_def need_node [OF n1])
qed

lemma leases_ok_superseded:
  assumes ok: "leases_ok g" and adm: "admits (Ev_Superseded attempt task) g"
  shows "leases_ok (snd (replay_attempt_superseded attempt g))"
proof -
  from adm obtain a t where f: "attempt = Inr a" and t: "omap_get (g_attempts g) a = Some t"
    by (auto simp: attempt_named_def)
  let ?N = "\<lambda>n. on_runtime (\<lambda>r. r\<lparr>rt_current_attempt := None\<rparr>) (n\<lparr>tn_lease_expires_at_ms := None\<rparr>)"
  have "leases_ok (on_node (ta_task t) ?N (on_attempt a (\<lambda>t. t\<lparr>ta_state := At_Superseded\<rparr>) g))"
    by (rule leases_ok_release [OF ok, of _ "ta_task t"]) (use t in \<open>auto split: if_splits\<close>)
  then show ?thesis by (simp add: replay_attempt_superseded_def f need_attempt [OF t])
qed

lemma leases_ok_step:
  assumes ok: "leases_ok g" "attempts_ok g" and adm: "admits d g"
  shows "leases_ok (snd (replay_data d g))"
proof (cases d)
  case (Todo_Created item root step)
  then show ?thesis
    using ok by (cases item) (auto simp: Let_def intro!: leases_ok_same [OF ok(1)] split: option.split)
next
  case (Ev_Transitioned task before after evidence)
  with ok show ?thesis
    by (auto simp: replay_transitioned_def need_def Let_def split: sum.split
        intro!: leases_ok_settle leases_ok_on_node)
next
  case (Ev_Budget_Used task used)
  with ok show ?thesis
    by (auto simp: replay_budget_used_def need_def Let_def split: sum.split option.split
        intro!: leases_ok_on_attempt leases_ok_on_node)
next
  case (Ev_Attempt_State_Changed attempt task state)
  with ok adm show ?thesis
    by (auto simp: replay_attempt_state_def need_def attempt_named_def split: sum.split
        intro!: leases_ok_on_attempt)
next
  case (Ev_Cancel_Requested attempt task reason)
  with ok show ?thesis
    by (auto simp: replay_cancel_requested_def need_def is_live_def split: sum.split
        intro!: leases_ok_on_attempt)
next
  case (Ev_Task_Created f)
  with leases_ok_created [OF ok(1)] adm show ?thesis by simp
next
  case (Ev_Attempt_Started f)
  with leases_ok_started [OF ok(1)] adm show ?thesis by simp
next
  case (Ev_Attempt_Finished attempt task state used reason rtry outcome evidence ended)
  with leases_ok_finished [OF ok] adm show ?thesis by simp
next
  case (Ev_Attempt_Expired task attempt reason)
  with leases_ok_expired [OF ok(1)] adm show ?thesis by simp
next
  case (Ev_Superseded attempt task)
  with leases_ok_superseded [OF ok(1)] adm show ?thesis by simp
next
  case (Ev_Authorized task authority)
  with ok show ?thesis
    by (auto simp: replay_authority_def need_def split: sum.split intro!: leases_ok_on_node)
next
  case (Ev_Authority_Narrowed task authority)
  with ok show ?thesis
    by (auto simp: replay_authority_def need_def split: sum.split intro!: leases_ok_on_node)
qed (use ok in \<open>auto simp: replay_defs need_def Let_def split: sum.split option.split
      intro!: leases_ok_same [OF ok(1)]\<close>)

end
