(* ===== verification/Task_Budget.thy ===== *)
theory Task_Budget
  imports Task_Invariant
begin

text \<open>
  Budget conservation: in each of its three components, what a task holds reserved is the sum
  of the budgets of its children that have not settled, and never more than its own budget. A
  child's allowance is therefore promised once, and given back once.
\<close>

section \<open>Sums over a map\<close>

definition sum_values :: "('v \<Rightarrow> nat) \<Rightarrow> ('k, 'v) omap \<Rightarrow> nat" where
  "sum_values f m = sum_list (map f (omap_values m))"

lemma sum_values_simps [simp]:
  "sum_values f [] = 0" "sum_values f ((k, v) # m) = f v + sum_values f m"
  by (simp_all add: sum_values_def omap_values_def)

lemma sum_values_insert_new:
  "omap_get m k = None \<Longrightarrow> sum_values f (omap_insert k v m) = f v + sum_values f m"
  by (induction k v m rule: omap_insert.induct) (auto split: if_splits)

lemma sum_values_insert_old:
  "omap_ok m \<Longrightarrow> omap_get m k = Some v \<Longrightarrow>
   sum_values f (omap_insert k v' m) + f v = sum_values f m + f v'"
proof (induction k v' m rule: omap_insert.induct)
  case (2 k v' j w m)
  show ?case
  proof (cases "k < j")
    case True
    then have "omap_get ((j, w) # m) k = None"
      using 2(2) by (auto simp: omap_ok_def map_of_eq_None_iff)
    with 2(3) show ?thesis by simp
  next
    case False
    with 2 show ?thesis by (cases "k = j") (auto simp: omap_ok_def)
  qed
qed simp

lemma sum_values_modify:
  "omap_ok m \<Longrightarrow> omap_get m k = Some v \<Longrightarrow>
   sum_values f (omap_modify k h m) + f v = sum_values f m + f (h v)"
  by (simp add: omap_modify_def sum_values_insert_old)

lemma sum_values_modify_same:
  "omap_ok m \<Longrightarrow> (\<And>v. f (h v) = f v) \<Longrightarrow> sum_values f (omap_modify k h m) = sum_values f m"
  using sum_values_modify [of m k _ f h] by (cases "omap_get m k") (auto simp: omap_modify_def)

lemma sum_values_zero:
  "omap_ok m \<Longrightarrow> (\<And>k v. omap_get m k = Some v \<Longrightarrow> f v = 0) \<Longrightarrow> sum_values f m = 0"
  by (auto simp: sum_values_def omap_values_def omap_get_iff)

section \<open>The invariant\<close>

definition component :: "(budget \<Rightarrow> nat) \<Rightarrow> bool" where
  "component c \<longleftrightarrow> c = b_tokens \<or> c = b_cost_micros \<or> c = b_wall_ms"

lemma component_laws:
  assumes "component c"
  shows "c (budget_add a b) = saturating_add (c a) (c b)" "c (budget_sub a b) = c a - c b"
    "fits_within a b \<Longrightarrow> c a \<le> c b" "u64_budget a \<Longrightarrow> c a \<le> u64_max" "c budget_default = 0"
  using assms
  by (auto simp: component_def budget_add_def budget_sub_def fits_within_def u64_budget_def
      budget_default_def)

definition unsettled_share :: "(budget \<Rightarrow> nat) \<Rightarrow> task_id \<Rightarrow> task_node \<Rightarrow> nat" where
  "unsettled_share c p n =
     (if rt_parent (tn_runtime n) = Some p \<and> \<not> rt_settled (tn_runtime n) then c (tn_budget n) else 0)"

definition budgets_ok :: "(budget \<Rightarrow> nat) \<Rightarrow> (task_id, task_node) omap \<Rightarrow> bool" where
  "budgets_ok c m \<longleftrightarrow>
     (\<forall>p n. omap_get m p = Some n \<longrightarrow>
        c (rt_reserved (tn_runtime n)) = sum_values (unsettled_share c p) m \<and>
        c (rt_reserved (tn_runtime n)) \<le> c (tn_budget n) \<and> c (tn_budget n) \<le> u64_max)"

lemma budgets_okD:
  "budgets_ok c m \<Longrightarrow> omap_get m p = Some n \<Longrightarrow>
   c (rt_reserved (tn_runtime n)) = sum_values (unsettled_share c p) m \<and>
   c (rt_reserved (tn_runtime n)) \<le> c (tn_budget n) \<and> c (tn_budget n) \<le> u64_max"
  unfolding budgets_ok_def by blast

lemma budgets_ok_modify:
  assumes ok: "omap_ok m" "budgets_ok c m"
    and f: "\<And>n. rt_reserved (tn_runtime (f n)) = rt_reserved (tn_runtime n)"
      "\<And>n. tn_budget (f n) = tn_budget n" "\<And>n. rt_parent (tn_runtime (f n)) = rt_parent (tn_runtime n)"
      "\<And>n. rt_settled (tn_runtime (f n)) = rt_settled (tn_runtime n)"
  shows "budgets_ok c (omap_modify i f m)"
proof -
  have "sum_values (unsettled_share c p) (omap_modify i f m) = sum_values (unsettled_share c p) m" for p
    by (rule sum_values_modify_same [OF ok(1)]) (simp add: unsettled_share_def f)
  note sums = this
  show ?thesis
    unfolding budgets_ok_def
  proof (intro allI impI)
    fix p n assume n: "omap_get (omap_modify i f m) p = Some n"
    then obtain z where z: "omap_get m p = Some z" and "n = z \<or> n = f z"
      by (auto split: if_splits)
    then have "rt_reserved (tn_runtime n) = rt_reserved (tn_runtime z)" "tn_budget n = tn_budget z"
      using f by auto
    with budgets_okD [OF ok(2) z] sums
    show "c (rt_reserved (tn_runtime n)) = sum_values (unsettled_share c p) (omap_modify i f m) \<and>
        c (rt_reserved (tn_runtime n)) \<le> c (tn_budget n) \<and> c (tn_budget n) \<le> u64_max" by simp
  qed
qed

lemma budgets_ok_settle:
  assumes c: "component c" and ok: "omap_ok (g_nodes g)" "budgets_ok c (g_nodes g)"
  shows "budgets_ok c (g_nodes (settle i g))"
proof (cases "omap_get (g_nodes g) i")
  case None
  with ok show ?thesis by (simp add: settle_def)
next
  case (Some n)
  show ?thesis
  proof (cases "rt_settled (tn_runtime n)")
    case True
    with Some ok show ?thesis by (simp add: settle_def)
  next
    case unset: False
    let ?m = "g_nodes g" and ?S = "on_runtime (\<lambda>r. r\<lparr>rt_settled := True\<rparr>)"
    let ?m1 = "omap_modify i ?S ?m"
    have m1: "omap_ok ?m1" using ok by simp
    have sum1: "sum_values (unsettled_share c q) ?m1 + unsettled_share c q n =
        sum_values (unsettled_share c q) ?m" for q
      using sum_values_modify [OF ok(1) Some, of "unsettled_share c q" ?S]
      by (simp add: unsettled_share_def)
    have node1: "\<exists>x'. omap_get ?m q = Some x' \<and> rt_reserved (tn_runtime x') = rt_reserved (tn_runtime x) \<and>
        tn_budget x' = tn_budget x" if "omap_get ?m1 q = Some x" for q x
      using that by (auto split: if_splits)
    show ?thesis
    proof (cases "rt_parent (tn_runtime n)")
      case None
      with sum1 have "sum_values (unsettled_share c q) ?m1 = sum_values (unsettled_share c q) ?m" for q
        by (simp add: unsettled_share_def)
      with node1 ok(2) have "budgets_ok c ?m1" unfolding budgets_ok_def by metis
      with Some unset None show ?thesis by (simp add: settle_def)
    next
      case (Some p)
      let ?P = "on_runtime (\<lambda>r. r\<lparr>rt_reserved := budget_sub (rt_reserved r) (tn_budget n),
                    rt_used := budget_add (rt_used r) (rt_used (tn_runtime n))\<rparr>)"
      let ?m2 = "omap_modify p ?P ?m1"
      have sum2: "sum_values (unsettled_share c q) ?m2 = sum_values (unsettled_share c q) ?m1" for q
        by (rule sum_values_modify_same [OF m1]) (simp add: unsettled_share_def)
      have "budgets_ok c ?m2"
        unfolding budgets_ok_def
      proof (intro allI impI)
        fix q x assume x: "omap_get ?m2 q = Some x"
        then obtain y where y: "omap_get ?m1 q = Some y" and "x = (if q = p then ?P y else y)"
          by (auto split: if_splits)
        with node1 [OF y] obtain z where z: "omap_get ?m q = Some z" "tn_budget x = tn_budget z"
          and r: "c (rt_reserved (tn_runtime x)) =
            c (rt_reserved (tn_runtime z)) - (if q = p then c (tn_budget n) else 0)"
          by (auto simp: component_laws [OF c])
        have "unsettled_share c q n = (if q = p then c (tn_budget n) else 0)"
          using Some unset by (auto simp: unsettled_share_def)
        with z r ok(2) sum1 [of q] sum2 [of q]
        show "c (rt_reserved (tn_runtime x)) = sum_values (unsettled_share c q) ?m2 \<and>
            c (rt_reserved (tn_runtime x)) \<le> c (tn_budget x) \<and> c (tn_budget x) \<le> u64_max"
          by (fastforce simp: budgets_ok_def)
      qed
      with \<open>omap_get (g_nodes g) i = Some n\<close> unset Some show ?thesis by (simp add: settle_def)
    qed
  qed
qed

lemma budgets_ok_created:
  assumes c: "component c" and ok: "nodes_ok g" "budgets_ok c (g_nodes g)"
    and adm: "admits (Ev_Task_Created f) g"
  shows "budgets_ok c (g_nodes (snd (replay_created f g)))"
proof -
  from admitted_created [OF adm] obtain n where f: "f = Inr n"
    and new: "omap_get (g_nodes g) (tn_id n) = None" and fresh: "fresh_runtime n = n"
    and small: "u64_budget (tn_budget n)"
    and par: "\<And>p. rt_parent (tn_runtime n) = Some p \<Longrightarrow>
      \<exists>m. omap_get (g_nodes g) p = Some m \<and> fits_within (tn_budget n) (available m)" by blast
  let ?m = "g_nodes g" and ?m1 = "reserve_at n (g_nodes g)"
  let ?m2 = "omap_insert (tn_id n) n ?m1"
  have sorted: "omap_ok ?m" using ok(1) by (simp add: nodes_ok_def)
  have new1: "omap_get ?m1 (tn_id n) = None"
    using new by (simp add: reserve_at_def split: option.split)
  have sum1: "sum_values (unsettled_share c q) ?m1 = sum_values (unsettled_share c q) ?m" for q
    unfolding reserve_at_def using sorted
    by (auto simp: unsettled_share_def intro!: sum_values_modify_same split: option.split)
  have sum2: "sum_values (unsettled_share c q) ?m2 =
      unsettled_share c q n + sum_values (unsettled_share c q) ?m" for q
    by (simp add: sum_values_insert_new [OF new1] sum1)
  have share: "unsettled_share c q n = (if rt_parent (tn_runtime n) = Some q then c (tn_budget n) else 0)" for q
    using fresh_runtime_eqD [OF fresh] by (simp add: unsettled_share_def)
  have "budgets_ok c ?m2"
    unfolding budgets_ok_def
  proof (intro allI impI)
    fix q x assume x: "omap_get ?m2 q = Some x"
    show "c (rt_reserved (tn_runtime x)) = sum_values (unsettled_share c q) ?m2 \<and>
        c (rt_reserved (tn_runtime x)) \<le> c (tn_budget x) \<and> c (tn_budget x) \<le> u64_max"
    proof (cases "q = tn_id n")
      case True
      then have "x = n" using x by simp
      have "rt_parent (tn_runtime v) \<noteq> Some q" if "omap_get ?m k = Some v" for k v
      proof
        assume "rt_parent (tn_runtime v) = Some q"
        with ok(1) that have "omap_has ?m q" unfolding nodes_ok_def by blast
        with new True show False by (simp add: omap_has_def)
      qed
      then have "sum_values (unsettled_share c q) ?m = 0"
        by (intro sum_values_zero [OF sorted]) (auto simp: unsettled_share_def)
      moreover have "unsettled_share c q n = 0" using par new True by (auto simp: share)
      ultimately show ?thesis
        using \<open>x = n\<close> fresh_runtime_eqD [OF fresh] small sum2 by (simp add: component_laws [OF c])
    next
      case False
      with x have x1: "omap_get ?m1 q = Some x" by simp
      show ?thesis
      proof (cases "rt_parent (tn_runtime n) = Some q")
        case True
        with par [OF True] obtain m where m: "omap_get ?m q = Some m" and fit: "fits_within (tn_budget n) (available m)"
          by blast
        with x1 True have x': "x = on_runtime (\<lambda>r. r\<lparr>rt_reserved := budget_add (rt_reserved r) (tn_budget n)\<rparr>) m"
          by (auto simp: reserve_at_def)
        have room: "c (tn_budget n) \<le> c (tn_budget m) - c (rt_used (tn_runtime m)) - c (rt_reserved (tn_runtime m))"
          using component_laws(3) [OF c fit] by (simp add: available_def component_laws [OF c])
        have m_ok: "c (rt_reserved (tn_runtime m)) = sum_values (unsettled_share c q) ?m"
          "c (rt_reserved (tn_runtime m)) \<le> c (tn_budget m)" "c (tn_budget m) \<le> u64_max"
          using budgets_okD [OF ok(2) m] by blast+
        have "c (rt_reserved (tn_runtime x)) = c (rt_reserved (tn_runtime m)) + c (tn_budget n)"
          using room m_ok by (simp add: x' component_laws [OF c] saturating_add_exact)
        with room m_ok show ?thesis by (simp add: sum2 share True x')
      next
        case other: False
        with x1 have "omap_get ?m q = Some x"
          by (auto simp: reserve_at_def split: option.splits if_splits)
        from budgets_okD [OF ok(2) this] other show ?thesis by (simp add: sum2 share)
      qed
    qed
  qed
  then show ?thesis by (simp add: f created_nodes)
qed

lemma budgets_ok_step:
  assumes c: "component c" and ok: "nodes_ok g" "budgets_ok c (g_nodes g)" and adm: "admits d g"
  shows "budgets_ok c (g_nodes (snd (replay_data d g)))"
proof -
  have sorted: "omap_ok (g_nodes g)" using ok(1) by (simp add: nodes_ok_def)
  note keep = budgets_ok_modify [OF sorted ok(2)]
  show ?thesis
  proof (cases d)
    case (Todo_Created item root step)
    with ok show ?thesis by (cases item) (simp_all add: Let_def split: option.split)
  next
    case (Ev_Task_Created f)
    with budgets_ok_created [OF c ok] adm show ?thesis by simp
  next
    case (Ev_Transitioned task before after evidence)
    with ok sorted show ?thesis
      by (auto simp: replay_transitioned_def need_def Let_def split: sum.split
          intro!: budgets_ok_settle [OF c] keep)
  next
    case (Ev_Attempt_Finished attempt task state used reason rtry outcome evidence ended)
    with ok sorted show ?thesis
      by (auto simp: replay_attempt_finished_def need_def Let_def split: sum.split
          intro!: budgets_ok_settle [OF c] keep)
  qed (use ok sorted in \<open>auto simp: replay_defs need_def Let_def split: sum.split option.split
      intro!: keep\<close>)
qed

end
