(* ===== verification/Task_Safety.thy ===== *)
theory Task_Safety
  imports Task_Budget
begin

text \<open>
  What holds of every graph a lawful stream projects to, and what one admitted event can do to
  a task, an attempt, a view and an inbox.
\<close>

section \<open>Views and inboxes\<close>

definition views_ok :: "graph \<Rightarrow> bool" where
  "views_ok g \<longleftrightarrow>
     omap_ok (g_assignments g) \<and>
     (\<forall>i j a b. omap_get (g_assignments g) i = Some a \<longrightarrow> omap_get (g_assignments g) j = Some b \<longrightarrow>
        i \<noteq> j \<longrightarrow> \<not> wa_released a \<longrightarrow> \<not> wa_released b \<longrightarrow> wa_view a = wa_view b \<longrightarrow>
        \<not> wa_mutable a \<and> \<not> wa_mutable b) \<and>
     (\<forall>i a. omap_get (g_assignments g) i = Some a \<longrightarrow>
        wa_dirty a \<noteq> Refused \<and> \<not> (wa_mutable a \<and> wa_view a = wa_source a))"

definition inboxes_ok :: "graph \<Rightarrow> bool" where
  "inboxes_ok g \<longleftrightarrow> (\<forall>i. length (inbox_ids g i) \<le> max_inbox)"

lemma todo_created_sel [simp]:
  "g_assignments (snd (replay_todo_created t r s g)) = g_assignments g"
  "g_inbox (snd (replay_todo_created t r s g)) = g_inbox g"
  "g_nodes (snd (replay_todo_created t r s g)) = g_nodes g"
  "g_attempts (snd (replay_todo_created t r s g)) = g_attempts g"
  by (cases t; simp add: Let_def split: option.split)+

lemma created_sel [simp]:
  "g_assignments (snd (replay_created f g)) = g_assignments g"
  "g_inbox (snd (replay_created f g)) = g_inbox g"
  by (simp_all add: replay_created_def need_def Let_def split: sum.split option.split)

lemma replay_assignments:
  "g_assignments (snd (replay_data d g)) =
     (case d of
        Ev_Workspace_Assigned (Inr a) \<Rightarrow> omap_insert (wa_id a) a (g_assignments g)
      | Ev_Workspace_Released (Inr i) _ _ \<Rightarrow> omap_modify i (\<lambda>a. a\<lparr>wa_released := True\<rparr>) (g_assignments g)
      | _ \<Rightarrow> g_assignments g)"
  by (cases d)
    (auto simp: replay_defs need_def Let_def decoded_or_def omap_modify_def split: sum.split option.split)

lemma view_free_get:
  "view_free g a \<Longrightarrow> omap_get (g_assignments g) i = Some held \<Longrightarrow> \<not> wa_released held \<Longrightarrow>
   wa_view held = wa_view a \<Longrightarrow> \<not> wa_mutable held \<and> \<not> wa_mutable a"
  by (auto simp: view_free_def dest: omap_get_value)

lemma views_ok_step:
  assumes ok: "views_ok g" and adm: "admits d g"
  shows "views_ok (snd (replay_data d g))"
proof -
  have same: ?thesis if "g_assignments (snd (replay_data d g)) = g_assignments g"
    using ok that by (simp add: views_ok_def)
  consider (assigned) a where "d = Ev_Workspace_Assigned (Inr a)"
    | (released) i t r where "d = Ev_Workspace_Released (Inr i) t r"
    | (other) "g_assignments (snd (replay_data d g)) = g_assignments g"
    using replay_assignments [of d g] by (cases d) (auto split: sum.splits)
  then show ?thesis
  proof cases
    case assigned
    with adm have free: "view_free g a" and a: "wa_dirty a \<noteq> Refused" "\<not> (wa_mutable a \<and> wa_view a = wa_source a)"
      by auto
    have m: "g_assignments (snd (replay_data d g)) = omap_insert (wa_id a) a (g_assignments g)"
      using replay_assignments [of d g] assigned by simp
    show ?thesis
      using ok a view_free_get [OF free] unfolding views_ok_def m by (auto split: if_splits)
  next
    case released
    have m: "g_assignments (snd (replay_data d g)) =
        omap_modify i (\<lambda>a. a\<lparr>wa_released := True\<rparr>) (g_assignments g)"
      using replay_assignments [of d g] released by simp
    show ?thesis
      using ok unfolding views_ok_def m by (auto split: if_splits)
  qed (rule same)
qed

lemma replay_inbox:
  "g_inbox (snd (replay_data d g)) =
     (case d of
        Ev_Message_Sent (Inr m) \<Rightarrow>
          omap_insert (tm_to m) (inbox_ids g (tm_to m) @ [tm_id m]) (g_inbox g)
      | Ev_Messages_Delivered (Inr i) (Inr ids) _ \<Rightarrow>
          omap_modify i (filter (\<lambda>j. j \<notin> set ids)) (g_inbox g)
      | _ \<Rightarrow> g_inbox g)"
  by (cases d)
    (auto simp: replay_defs need_def Let_def decoded_or_def event_task_id_def split: sum.split option.split)

lemma inbox_ids_modify:
  "g_inbox g' = omap_modify i f (g_inbox g) \<Longrightarrow> f [] = [] \<Longrightarrow>
   inbox_ids g' j = (if j = i then f (inbox_ids g j) else inbox_ids g j)"
  by (simp add: inbox_ids_def split: option.split)

text \<open>
  An inbox is a queue: a message goes to its end, a delivery takes all that waits, and nothing
  else touches it.
\<close>

lemma inbox_step:
  assumes "admits d g"
  shows "inbox_ids (snd (replay_data d g)) i =
    (case d of
       Ev_Message_Sent (Inr m) \<Rightarrow> if tm_to m = i then inbox_ids g i @ [tm_id m] else inbox_ids g i
     | Ev_Messages_Delivered (Inr j) _ _ \<Rightarrow> if j = i then [] else inbox_ids g i
     | _ \<Rightarrow> inbox_ids g i)"
proof -
  have same: "inbox_ids (snd (replay_data d g)) i = inbox_ids g i"
    if "g_inbox (snd (replay_data d g)) = g_inbox g"
    using that by (simp add: inbox_ids_def)
  consider (sent) m where "d = Ev_Message_Sent (Inr m)"
    | (delivered) j at where "d = Ev_Messages_Delivered (Inr j) (Inr (inbox_ids g j)) at"
    | (other) "\<forall>m. d \<noteq> Ev_Message_Sent m" "\<forall>j ids at. d \<noteq> Ev_Messages_Delivered j ids at"
    using assms by (cases d) auto
  then show ?thesis
  proof cases
    case sent
    with replay_inbox [of d g] show ?thesis by (simp add: inbox_ids_def)
  next
    case delivered
    have "g_inbox (snd (replay_data d g)) = omap_modify j (filter (\<lambda>x. x \<notin> set (inbox_ids g j))) (g_inbox g)"
      using replay_inbox [of d g] delivered by simp
    from inbox_ids_modify [OF this, of i] show ?thesis by (auto simp: delivered)
  next
    case other
    then have "g_inbox (snd (replay_data d g)) = g_inbox g"
      using replay_inbox [of d g] by (simp split: session_event.splits)
    with other same show ?thesis by (simp split: session_event.split)
  qed
qed

lemma inboxes_ok_step:
  assumes "inboxes_ok g" and "admits d g"
  shows "inboxes_ok (snd (replay_data d g))"
  using assms inbox_step [OF assms(2)]
  by (cases d) (auto simp: inboxes_ok_def split: sum.splits)

section \<open>Every lawful stream projects, and projects well\<close>

definition state_ok :: "graph \<Rightarrow> bool" where
  "state_ok g \<longleftrightarrow>
     filed_ok g \<and> acyclic (edges g) \<and> (\<forall>c. component c \<longrightarrow> budgets_ok c (g_nodes g)) \<and>
     views_ok g \<and> inboxes_ok g"

lemma state_ok_empty [simp]: "state_ok (graph_empty k p)"
  by (simp add: state_ok_def graph_empty_def filed_ok_def nodes_ok_def attempts_ok_def leases_ok_def
      edges_def acyclic_def budgets_ok_def views_ok_def inboxes_ok_def inbox_ids_def)

lemma state_ok_last [simp]: "state_ok (g\<lparr>g_last_event := l\<rparr>) = state_ok g"
  by (simp add: state_ok_def filed_ok_def nodes_ok_def attempts_ok_def leases_ok_def
      edges_def views_ok_def inboxes_ok_def inbox_ids_def)

lemma state_ok_step:
  assumes ok: "state_ok g" and adm: "admits d g"
  shows "state_ok (snd (replay_data d g))"
proof -
  have filed: "nodes_ok g" "attempts_ok g" "leases_ok g" using ok by (auto simp: state_ok_def filed_ok_def)
  have "filed_ok (snd (replay_data d g))"
    using nodes_ok_step [OF filed(1) adm] attempts_ok_step [OF filed(2) adm] leases_ok_step [OF filed(3,2) adm]
    by (simp add: filed_ok_def)
  moreover have "acyclic (edges (snd (replay_data d g)))"
    using ok adm by (intro acyclic_step) (simp_all add: state_ok_def)
  moreover have "budgets_ok c (g_nodes (snd (replay_data d g)))" if "component c" for c
    using ok that budgets_ok_step [OF that filed(1) _ adm] by (simp add: state_ok_def)
  moreover have "views_ok (snd (replay_data d g))" "inboxes_ok (snd (replay_data d g))"
    using ok adm views_ok_step inboxes_ok_step by (simp_all add: state_ok_def)
  ultimately show ?thesis by (simp add: state_ok_def)
qed

lemma replay_seen_admitted:
  assumes ok: "state_ok g" and adm: "admitted e g"
  shows "\<exists>g'. replay_seen e g = (Inr (), g') \<and> state_ok g'"
proof (cases "ev_payload e")
  case (Inline d)
  with adm have d: "admits d g" by (simp add: admitted_def)
  have "fst (replay_data d g) = Inr ()"
    using ok d by (intro admitted_replays) (simp_all add: state_ok_def)
  with Inline state_ok_step [OF ok d] show ?thesis
    by (cases "replay_data d g") (simp add: replay_seen_def replay_def)
qed (use ok in \<open>simp add: replay_seen_def replay_def\<close>)

lemma lawful_replays:
  "state_ok g \<Longrightarrow> lawful g es \<Longrightarrow> \<exists>g'. replay_batch replay_seen es g = (Inr (), g') \<and> state_ok g'"
proof (induction es arbitrary: g)
  case (Cons e es)
  then obtain g1 where "replay_seen e g = (Inr (), g1)" "state_ok g1"
    using replay_seen_admitted [of g e] by auto
  with Cons show ?case by auto
qed simp

section \<open>The life of a task\<close>

text \<open>What an event does to the state of one task.\<close>

definition moved :: "session_event \<Rightarrow> task_id \<Rightarrow> task_node \<Rightarrow> task_state" where
  "moved d i n =
     (case d of
        Ev_Transitioned (Inr j) _ (Inr to) _ \<Rightarrow> if j = i then to else tn_state n
      | Ev_Attempt_Started (Inr a) \<Rightarrow> if ta_task a = i then Task_Running else tn_state n
      | Ev_Attempt_Expired (Inr j) _ _ \<Rightarrow> if j = i then Task_Ready else tn_state n
      | Ev_Attempt_Finished (Inr a) _ (Inr st) _ _ _ _ _ _ \<Rightarrow>
          if rt_current_attempt (tn_runtime n) = Some a then task_state_after st else tn_state n
      | _ \<Rightarrow> tn_state n)"

definition states :: "(task_id, task_node) omap \<Rightarrow> task_id \<Rightarrow> task_state option" where
  "states m i = map_option tn_state (omap_get m i)"

lemma states_modify:
  assumes "\<And>n. tn_state (f n) = tn_state n"
  shows "states (omap_modify i f m) = states m"
proof
  fix j show "states (omap_modify i f m) j = states m j"
    by (cases "j = i"; cases "omap_get m j") (simp_all add: states_def assms)
qed

lemma states_cores:
  assumes "map_option node_core x = map_option node_core y"
  shows "map_option tn_state x = map_option tn_state y"
proof (cases x)
  case None
  with assms show ?thesis by simp
next
  case (Some m)
  with assms obtain n where y: "y = Some n" and core: "node_core m = node_core n" by (cases y) auto
  from node_core_eqD(4) [OF core] show ?thesis by (simp add: Some y)
qed

lemma states_settle [simp]: "states (g_nodes (settle i g)) = states (g_nodes g)"
  unfolding states_def by (rule ext) (rule states_cores [OF cores_settle])

lemma states_if [simp]: "states (g_nodes (if c then g else h)) = (if c then states (g_nodes g) else states (g_nodes h))"
  by simp

lemma states_unmoved:
  assumes "\<nexists>f. d = Ev_Task_Created f" "\<nexists>t b a e. d = Ev_Transitioned t b a e"
    "\<nexists>a. d = Ev_Attempt_Started a" "\<nexists>t a r. d = Ev_Attempt_Expired t a r"
    "\<nexists>a t s u r y v w x. d = Ev_Attempt_Finished a t s u r y v w x"
  shows "states (g_nodes (snd (replay_data d g))) = states (g_nodes g)"
  by (cases d) (use assms in \<open>auto simp: replay_defs need_def Let_def states_modify split: sum.split option.split\<close>)

lemma moved_eq:
  assumes ok: "filed_ok g" and adm: "admits d g"
    and n: "omap_get (g_nodes g) i = Some n" and n': "omap_get (g_nodes (snd (replay_data d g))) i = Some n'"
  shows "tn_state n' = moved d i n"
proof -
  let ?after = "states (g_nodes (snd (replay_data d g)))"
  have here: "?after i = Some (tn_state n')" "states (g_nodes g) i = Some (tn_state n)"
    using n n' by (simp_all add: states_def)
  show ?thesis
  proof (cases d)
    case (Ev_Transitioned task before after evidence)
    with adm obtain j m to where f: "task = Inr j" "after = Inr to" "omap_get (g_nodes g) j = Some m"
      by (auto simp: node_named_def)
    then have "?after = (states (g_nodes g))(j \<mapsto> to)"
      by (auto simp: Ev_Transitioned replay_transitioned_def need_node Let_def states_def fun_eq_iff)
    with here f show ?thesis by (auto simp: moved_def Ev_Transitioned split: if_splits)
  next
    case (Ev_Attempt_Started f)
    with adm obtain a m where f: "f = Inr a" "omap_get (g_nodes g) (ta_task a) = Some m" by auto
    then have "?after = (states (g_nodes g))(ta_task a \<mapsto> Task_Running)"
      by (auto simp: Ev_Attempt_Started replay_attempt_started_def need_node Let_def states_def fun_eq_iff)
    with here f show ?thesis by (auto simp: moved_def Ev_Attempt_Started split: if_splits)
  next
    case (Ev_Attempt_Expired task attempt reason)
    with adm obtain j m where f: "task = Inr j" "omap_get (g_nodes g) j = Some m"
      by (auto simp: node_named_def)
    then have "?after = (states (g_nodes g))(j \<mapsto> Task_Ready)"
      by (cases attempt) (auto simp: Ev_Attempt_Expired replay_attempt_expired_def need_node Let_def states_def fun_eq_iff)
    with here f show ?thesis by (auto simp: moved_def Ev_Attempt_Expired split: if_splits)
  next
    case (Ev_Attempt_Finished attempt task state used reason rtry outcome evidence ended)
    with adm obtain a t st m where f: "attempt = Inr a" "state = Inr st" "omap_get (g_attempts g) a = Some t"
      "omap_get (g_nodes g) (ta_task t) = Some m" "rt_current_attempt (tn_runtime m) = Some a"
      by (auto simp: attempt_named_def holds_lease_def)
    then have after: "?after = (states (g_nodes g))(ta_task t \<mapsto> task_state_after st)"
      by (auto simp: Ev_Attempt_Finished replay_attempt_finished_def need_node need_attempt Let_def
          states_def fun_eq_iff)
    have "rt_current_attempt (tn_runtime n) = Some a \<longleftrightarrow> i = ta_task t"
      using leases_ok_D [of g i n a] ok n f by (auto simp: filed_ok_def)
    with here f after show ?thesis by (auto simp: moved_def Ev_Attempt_Finished)
  next
    case (Ev_Task_Created f)
    from admitted_created [OF adm [unfolded Ev_Task_Created]] obtain c
      where f: "f = Inr c" and new: "omap_get (g_nodes g) (tn_id c) = None" by blast
    with n n' have "omap_get (reserve_at c (g_nodes g)) i = Some n'"
      by (auto simp: Ev_Task_Created created_nodes split: if_splits)
    with states_cores [OF cores_reserve, of c "g_nodes g" i] n show ?thesis
      by (simp add: moved_def Ev_Task_Created)
  qed (use here states_unmoved [of d g] in \<open>simp_all add: moved_def\<close>)
qed

text \<open>
  The state machine of a task under every admitted event. Outside the table of transitions there
  are two moves: a lease that expires sends its task back to the queue, and the holder of the
  current lease ends the task whatever state it is in.
\<close>

lemma task_state_machine:
  assumes ok: "filed_ok g" and adm: "admits d g"
    and n: "omap_get (g_nodes g) i = Some n" and n': "omap_get (g_nodes (snd (replay_data d g))) i = Some n'"
  shows "tn_state n' = tn_state n \<or> transition_allowed (tn_state n) (tn_state n') \<or>
    (tn_state n = Task_Running \<and> tn_state n' = Task_Ready) \<or>
    (rt_current_attempt (tn_runtime n) \<noteq> None \<and> tn_state n' \<in> {Task_Completed, Task_Failed, Task_Cancelled})"
  unfolding moved_eq [OF assms]
  using adm n
  by (cases d)
    (auto simp: moved_def node_named_def attempt_named_def task_state_after_def
      split: sum.splits if_splits attempt_state.splits)

section \<open>The life of an attempt\<close>

lemma attempt_lifecycle:
  assumes adm: "admits d g" and t: "omap_get (g_attempts g) a = Some t"
    and t': "omap_get (g_attempts (snd (replay_data d g))) a = Some t'"
  shows "(is_terminal (ta_state t) \<longrightarrow> is_terminal (ta_state t')) \<and>
    (ta_state t = At_Cancelling \<longrightarrow> ta_state t' = At_Cancelling \<or> is_terminal (ta_state t')) \<and>
    ta_task t' = ta_task t \<and> ta_lease_epoch t' = ta_lease_epoch t"
proof -
  have keep: ?thesis if "g_attempts (snd (replay_data d g)) = g_attempts g"
    using t t' that by simp
  have change: ?thesis
    if "g_attempts (snd (replay_data d g)) = omap_modify b f (g_attempts g)"
      "\<And>t. ta_task (f t) = ta_task t" "\<And>t. ta_lease_epoch (f t) = ta_lease_epoch t"
      "\<And>t. omap_get (g_attempts g) b = Some t \<Longrightarrow> ta_state (f t) = ta_state t \<or> is_terminal (ta_state (f t)) \<or>
        (is_live (ta_state t) \<and> is_live (ta_state (f t)) \<and>
          (ta_state t = At_Cancelling \<longrightarrow> ta_state (f t) = At_Cancelling))" for b f
    using t t' that by (cases "a = b") (auto simp: live_or_terminal)
  note here = is_terminal_def is_live_def
  show ?thesis
  proof (cases d)
    case (Ev_Attempt_Started f)
    with adm obtain b m where "f = Inr b" "omap_get (g_nodes g) (ta_task b) = Some m"
      "omap_get (g_attempts g) (ta_id b) = None" by (auto simp: omap_has_def)
    with t t' show ?thesis
      by (auto simp: Ev_Attempt_Started replay_attempt_started_def need_node Let_def split: if_splits)
  next
    case (Ev_Attempt_Finished attempt task state used reason rtry outcome evidence ended)
    with adm obtain b u st m where f: "attempt = Inr b" "state = Inr st" "omap_get (g_attempts g) b = Some u"
      "omap_get (g_nodes g) (ta_task u) = Some m" "is_terminal st"
      by (auto simp: attempt_named_def holds_lease_def here)
    let ?F = "\<lambda>t. t\<lparr>ta_state := st, ta_used := budget_add (ta_used t) (field_or budget_default used),
       ta_ended_at_ms := ended, ta_terminal_reason := reason, ta_retryable := field_or NotRetryable rtry,
       ta_result := (case outcome of Some JNull \<Rightarrow> None | _ \<Rightarrow> outcome),
       ta_evidence := field_or [] evidence\<rparr>"
    have "g_attempts (snd (replay_data d g)) = omap_modify b ?F (g_attempts g)"
      using f by (simp add: Ev_Attempt_Finished replay_attempt_finished_def need_node need_attempt Let_def)
    then show ?thesis by (rule change) (use f in simp_all)
  next
    case (Ev_Attempt_Expired task attempt reason)
    with adm obtain j m where f: "task = Inr j" "omap_get (g_nodes g) j = Some m" by (auto simp: node_named_def)
    show ?thesis
    proof (cases attempt)
      case None
      with f show ?thesis
        by (intro keep) (simp add: Ev_Attempt_Expired replay_attempt_expired_def need_node)
    next
      case (Some b)
      with f show ?thesis
        by (intro change [where b = b and f = "\<lambda>t. t\<lparr>ta_state := At_Expired, ta_terminal_reason := reason\<rparr>"])
          (simp_all add: Ev_Attempt_Expired replay_attempt_expired_def need_node here)
    qed
  next
    case (Ev_Attempt_State_Changed attempt task state)
    with adm obtain b u st where f: "attempt = Inr b" "state = Inr st" "omap_get (g_attempts g) b = Some u"
      "is_live (ta_state u)" "is_live st" "ta_state u = At_Cancelling \<longrightarrow> st = At_Cancelling"
      by (auto simp: attempt_named_def)
    then show ?thesis
      by (intro change [where b = b and f = "\<lambda>t. t\<lparr>ta_state := st\<rparr>"])
        (auto simp: Ev_Attempt_State_Changed replay_attempt_state_def need_attempt)
  next
    case (Ev_Cancel_Requested attempt task reason)
    with adm obtain b u where f: "attempt = Inr b" "omap_get (g_attempts g) b = Some u" "is_live (ta_state u)"
      by (auto simp: attempt_named_def)
    then show ?thesis
      by (intro change [where b = b and f = "\<lambda>t. t\<lparr>ta_state := At_Cancelling, ta_terminal_reason := reason\<rparr>"])
        (auto simp: Ev_Cancel_Requested replay_cancel_requested_def need_attempt here)
  next
    case (Ev_Superseded attempt task)
    with adm obtain b u where f: "attempt = Inr b" "omap_get (g_attempts g) b = Some u"
      by (auto simp: attempt_named_def)
    then show ?thesis
      by (intro change [where b = b and f = "\<lambda>t. t\<lparr>ta_state := At_Superseded\<rparr>"])
        (auto simp: Ev_Superseded replay_attempt_superseded_def need_attempt here)
  next
    case (Ev_Budget_Used task used)
    with adm obtain j m u where f: "task = Inr j" "omap_get (g_nodes g) j = Some m" "used = Inr u"
      by (auto simp: node_named_def)
    show ?thesis
    proof (cases "rt_current_attempt (tn_runtime m)")
      case None
      with f show ?thesis by (intro keep) (simp add: Ev_Budget_Used replay_budget_used_def need_node)
    next
      case (Some b)
      with f show ?thesis
        by (intro change [where b = b and f = "\<lambda>t. t\<lparr>ta_used := budget_add (ta_used t) u\<rparr>"])
          (simp_all add: Ev_Budget_Used replay_budget_used_def need_node)
    qed
  next
    case (Ev_Task_Created f)
    with adm obtain n where "f = Inr n" by auto
    then show ?thesis by (intro keep) (simp add: Ev_Task_Created created_attempts)
  qed (intro keep; auto simp: replay_defs need_def Let_def split: sum.split option.split)+
qed

section \<open>Results are accepted once, from the holder\<close>

lemma finish_build_InrD:
  assumes "finish_build parse_json a outcome g = Inr d"
  shows "\<exists>t n. omap_get (g_attempts g) a = Some t \<and> omap_get (g_nodes g) (ta_task t) = Some n \<and>
    is_live (ta_state t) \<and> rt_current_attempt (tn_runtime n) = Some a \<and>
    rt_lease_epoch (tn_runtime n) = ta_lease_epoch t \<and>
    (ao_state outcome = At_Completed \<longrightarrow>
       violation (contract_parse parse_json (ta_required_output t)) (ao_result outcome) = None) \<and>
    d = Ev_Attempt_Finished (Inr a) (ta_task t) (Inr (ao_state outcome)) (Inr (ao_used outcome))
      (ao_reason outcome) (Inr (ao_retryable outcome)) (ao_result outcome) (Inr (ao_evidence outcome))
      (Some (ao_ended_at_ms outcome))"
  using assms by (auto simp: finish_build_def and_then_eq_Inr split: if_splits option.splits)

lemma finish_build_unique:
  assumes "finish_build parse_json a outcome g = Inr d" and "finish_build parse_json' b outcome' g = Inr d'"
    and "omap_get (g_attempts g) a = Some t" and "omap_get (g_attempts g) b = Some u" and "ta_task t = ta_task u"
  shows "a = b"
proof -
  obtain t1 n1 where 1: "omap_get (g_attempts g) a = Some t1" "omap_get (g_nodes g) (ta_task t1) = Some n1"
    "rt_current_attempt (tn_runtime n1) = Some a"
    using finish_build_InrD [OF assms(1)] by blast
  obtain t2 n2 where 2: "omap_get (g_attempts g) b = Some t2" "omap_get (g_nodes g) (ta_task t2) = Some n2"
    "rt_current_attempt (tn_runtime n2) = Some b"
    using finish_build_InrD [OF assms(2)] by blast
  from 1 2 assms(3-5) show ?thesis by simp
qed

lemma finished_sel:
  assumes "finish_build parse_json a outcome g = Inr d" and "omap_get (g_attempts g) a = Some t"
  shows "\<exists>f n. g_attempts (snd (replay_data d g)) = omap_modify a f (g_attempts g) \<and>
    ta_state (f t) = ao_state outcome \<and>
    omap_get (g_nodes (snd (replay_data d g))) (ta_task t) = Some n \<and>
    tn_state n = task_state_after (ao_state outcome) \<and> rt_current_attempt (tn_runtime n) = None"
proof -
  from finish_build_InrD [OF assms(1)] assms(2) obtain n where n: "omap_get (g_nodes g) (ta_task t) = Some n"
    and d: "d = Ev_Attempt_Finished (Inr a) (ta_task t) (Inr (ao_state outcome)) (Inr (ao_used outcome))
      (ao_reason outcome) (Inr (ao_retryable outcome)) (ao_result outcome) (Inr (ao_evidence outcome))
      (Some (ao_ended_at_ms outcome))" by auto
  let ?F = "\<lambda>t. t\<lparr>ta_state := ao_state outcome, ta_used := budget_add (ta_used t) (ao_used outcome),
       ta_ended_at_ms := Some (ao_ended_at_ms outcome), ta_terminal_reason := ao_reason outcome,
       ta_retryable := ao_retryable outcome,
       ta_result := (case ao_result outcome of Some JNull \<Rightarrow> None | _ \<Rightarrow> ao_result outcome),
       ta_evidence := ao_evidence outcome\<rparr>"
  let ?N = "\<lambda>n. on_runtime (\<lambda>r. r\<lparr>rt_used := budget_add (rt_used r) (ao_used outcome),
       rt_current_attempt := None\<rparr>)
       (n\<lparr>tn_lease_expires_at_ms := None, tn_state := task_state_after (ao_state outcome)\<rparr>)"
  let ?h = "on_node (ta_task t) ?N (on_attempt a ?F g)"
  have m: "omap_get (g_nodes ?h) (ta_task t) = Some (?N n)" using n by simp
  have "map_option node_core (omap_get (g_nodes (settle (ta_task t) ?h)) (ta_task t)) = Some (node_core (?N n))"
    by (simp only: cores_settle m option.map)
  then obtain n' where n': "omap_get (g_nodes (settle (ta_task t) ?h)) (ta_task t) = Some n'"
    and core: "node_core n' = node_core (?N n)" by auto
  have "tn_state n' = task_state_after (ao_state outcome)" "rt_current_attempt (tn_runtime n') = None"
    using node_core_eqD [OF core] by simp_all
  moreover have "g_nodes (snd (replay_data d g)) = g_nodes (settle (ta_task t) ?h)"
    and "g_attempts (snd (replay_data d g)) = omap_modify a ?F (g_attempts g)"
    using n assms(2) by (simp_all add: d replay_attempt_finished_def need_node need_attempt Let_def)
  ultimately show ?thesis using n' by (intro exI [of _ ?F] exI [of _ n']) simp
qed

lemma finish_once:
  assumes "finish_build parse_json a outcome g = Inr d"
    and "ao_state outcome \<in> {At_Completed, At_Failed, At_Cancelled}"
  shows "finish_build parse_json' a outcome' (snd (replay_data d g)) = Inl (FencedAttempt a)"
proof -
  from finish_build_InrD [OF assms(1)] obtain t where t: "omap_get (g_attempts g) a = Some t" by blast
  from finished_sel [OF assms(1) t] t assms(2)
  obtain t' where t': "omap_get (g_attempts (snd (replay_data d g))) a = Some t'" "\<not> is_live (ta_state t')"
    by (auto simp: is_live_def)
  then have get: "get_attempt (snd (replay_data d g)) a = Inr t'" by simp
  show ?thesis unfolding finish_build_def get using t'(2) by simp
qed

section \<open>Authority only narrows\<close>

lemma attenuate_requests_below:
  assumes "attenuate_requests authority assignee requests w = (Inr grants, w')"
    and "\<And>p. p \<in> set authority \<Longrightarrow> cg_scope p \<noteq> []"
  shows "length grants = length requests \<and>
    (\<forall>c\<in>set grants. cg_actor c = Agent assignee \<and>
      (\<exists>p\<in>set authority. grant_below G c p \<and> cg_delegation_depth c < cg_delegation_depth p))"
  using assms(1)
proof (induction requests arbitrary: w grants w')
  case (Cons request rest)
  let ?p = "authority ! cc_parent_grant request"
  from Cons.prems have len: "cc_parent_grant request < length authority"
    by (auto split: if_splits)
  from Cons.prems len obtain c where c: "attenuate (fst (draw_uuid w)) ?p (Agent assignee)
      (cc_action request) (cc_scope request) (cc_expires_at_ms request) = Inr c"
    by (cases "attenuate (fst (draw_uuid w)) ?p (Agent assignee) (cc_action request) (cc_scope request)
      (cc_expires_at_ms request)") auto
  with Cons.prems len obtain more where more: "attenuate_requests authority assignee rest (snd (draw_uuid w)) = (Inr more, w')"
    and grants: "grants = c # more"
    by (auto simp: bindE_def ret_def split: prod.splits sum.splits)
  from Cons.IH [OF more] attenuate_below [OF c assms(2)] attenuate_InrD [OF c] len nth_mem [OF len]
  show ?case by (auto simp: grants intro!: bexI [of _ ?p])
qed simp

lemma narrow_grant_below:
  assumes "narrow_grant current held = Some c" and "cg_scope held \<noteq> []"
  shows "grant_below G c held \<and> cg_delegation_depth c \<le> cg_delegation_depth held \<and>
    (\<exists>now\<in>set current. cg_action now = cg_action held \<and> cg_delegation_depth c \<le> cg_delegation_depth now \<and>
      (cg_scope now \<noteq> [] \<longrightarrow> (\<forall>r. scope_admits G (cg_scope c) r \<longrightarrow> scope_admits G (cg_scope now) r)))"
proof -
  from assms(1) obtain now where now: "find (\<lambda>grant. cg_action grant = cg_action held) current = Some now"
    and c: "c = held\<lparr>cg_scope := scope_narrow (cg_scope held) (cg_scope now),
                   cg_expires_at_ms := earliest (cg_expires_at_ms held) (cg_expires_at_ms now),
                   cg_delegation_depth := min (cg_delegation_depth held) (cg_delegation_depth now)\<rparr>"
    by (auto simp: narrow_grant_def)
  from now have "now \<in> set current" "cg_action now = cg_action held"
    by (auto simp: find_Some_iff)
  moreover have "grant_below G c held"
    using assms(2) earliest_expired
    by (simp add: c grant_below_def is_expired_def scope_admits_iff)
  moreover have "scope_admits G (cg_scope c) r \<Longrightarrow> scope_admits G (cg_scope now) r" if "cg_scope now \<noteq> []" for r
    using that by (simp add: c scope_admits_iff)
  moreover have "cg_delegation_depth c \<le> cg_delegation_depth held" "cg_delegation_depth c \<le> cg_delegation_depth now"
    by (simp_all add: c)
  ultimately show ?thesis by blast
qed

end
