(* ===== verification/Task_Session.thy ===== *)
theory Task_Session
  imports Task_Safety
begin

text \<open>
  A session's log as any number of holders write it. \<open>issues g d\<close> says that some command of
  \<open>TaskGraph\<close>, evaluated on the projection \<open>g\<close>, builds the event \<open>d\<close>; \<open>session_log k es\<close> says that
  every event of \<open>es\<close> was issued against a projection of exactly the events before it. That is
  what \<open>commit_if\<close> guarantees of its own appends (\<open>commit_if_linear\<close>), whatever the rivals do.
\<close>

section \<open>Questions only the projected fields answer\<close>

text \<open>Two graphs that agree on what the commands ask about.\<close>

definition agree :: "graph \<Rightarrow> graph \<Rightarrow> bool" where
  "agree g h \<longleftrightarrow>
     g_nodes g = g_nodes h \<and> g_attempts g = g_attempts h \<and> g_inbox g = g_inbox h \<and>
     g_paused g = g_paused h \<and> g_assignments g = g_assignments h \<and> g_criteria g = g_criteria h \<and>
     g_approved_plan g = g_approved_plan h \<and> g_plan_intents g = g_plan_intents h"

lemma agree_fields:
  assumes "agree g h"
  shows "g_nodes g = g_nodes h" "g_attempts g = g_attempts h" "g_inbox g = g_inbox h"
    "g_paused g = g_paused h" "g_assignments g = g_assignments h" "g_criteria g = g_criteria h"
    "g_approved_plan g = g_approved_plan h" "g_plan_intents g = g_plan_intents h"
  using assms by (simp_all add: agree_def)

lemma view_agree:
  assumes "view g = view h"
  shows "agree g h"
proof -
  have "f (view g) = f (view h)" for f :: "graph \<Rightarrow> 'a" by (simp add: assms)
  from this [of g_nodes] this [of g_attempts] this [of g_inbox] this [of g_paused] this [of g_assignments]
    this [of g_criteria] this [of g_approved_plan] this [of g_plan_intents]
  show ?thesis by (simp add: agree_def view_def unseeded_def)
qed

lemma cycle_search_nodes:
  "g_nodes g = g_nodes h \<Longrightarrow> cycle_search g new stack seen = cycle_search h new stack seen"
  by (induction g new stack seen rule: cycle_search.induct) (simp_all split: option.split)

lemma would_cycle_agree: "agree g h \<Longrightarrow> would_cycle g new ds = would_cycle h new ds"
  by (simp add: would_cycle_def cycle_search_nodes [OF agree_fields(1)])

lemma get_node_agree: "agree g h \<Longrightarrow> get_node g i = get_node h i"
  by (simp add: get_node_def agree_fields)

lemma get_attempt_agree: "agree g h \<Longrightarrow> get_attempt g i = get_attempt h i"
  by (simp add: get_attempt_def agree_fields)

lemma is_plan_approved_agree: "agree g h \<Longrightarrow> is_plan_approved g i = is_plan_approved h i"
  by (simp add: is_plan_approved_def agree_fields)

lemma dependencies_completed_agree:
  "agree g h \<Longrightarrow> dependencies_completed g n = dependencies_completed h n"
  by (simp add: dependencies_completed_def agree_fields)

lemma is_ready_agree: "agree g h \<Longrightarrow> is_ready g n = is_ready h n"
  by (simp add: is_ready_def is_plan_approved_agree dependencies_completed_agree)

lemma inbox_ids_agree: "agree g h \<Longrightarrow> inbox_ids g i = inbox_ids h i"
  by (simp add: inbox_ids_def agree_fields)

lemma validate_plan_task_agree: "agree g h \<Longrightarrow> validate_plan_task g i = validate_plan_task h i"
  by (simp add: validate_plan_task_def get_node_agree agree_fields cong: option.case_cong if_cong)

lemma check_approval_agree: "agree g h \<Longrightarrow> check_approval g note is = check_approval h note is"
  by (induction g "note" "is" rule: check_approval.induct)
    (simp_all add: validate_plan_task_agree agree_fields split: option.split)

lemma holds_lease_agree: "agree g h \<Longrightarrow> holds_lease g a t = holds_lease h a t"
  by (simp add: holds_lease_def agree_fields)

lemma free_agree: "agree g h \<Longrightarrow> view_free g a = view_free h a"
  by (simp add: view_free_def agree_fields)

lemma admits_agree:
  assumes "agree g h"
  shows "admits d g = admits d h"
  by (cases d)
    (simp_all add: agree_fields [OF assms] would_cycle_agree [OF assms] is_ready_agree [OF assms]
      is_plan_approved_agree [OF assms] dependencies_completed_agree [OF assms] inbox_ids_agree [OF assms]
      check_approval_agree [OF assms] holds_lease_agree [OF assms] free_agree [OF assms]
      node_named_def attempt_named_def)

section \<open>What the commands issue\<close>

inductive issues :: "graph \<Rightarrow> session_event \<Rightarrow> bool" for g where
  adds: "add_build (fresh_runtime n) g = Inr d \<Longrightarrow> u64_budget (tn_budget n) \<Longrightarrow> issues g d"
| finds_cycle: "issues g (Ev_Cycle_Detected i)"
| plans: "plan_intent_build root steps g = Inr (Some d) \<Longrightarrow> issues g d"
| plans_todo: "plan_todo_build root step item g = Inr (Some d) \<Longrightarrow> issues g d"
| scripts: "scripted_plan_build root g = Inr (Some d) \<Longrightarrow> issues g d"
| approves: "approve_plan_build is note g = Inr (Some d) \<Longrightarrow> issues g d"
| authorizes: "authorize_build i authority g = Inr d \<Longrightarrow> issues g d"
| narrows: "omap_has (g_nodes g) i \<Longrightarrow> issues g (Ev_Authority_Narrowed (Inr i) (Inr narrowed))"
| transitions: "transition_build i target evidence g = Inr (Some d) \<Longrightarrow>
    target \<in> {Task_Ready, Task_Completed, Task_Failed, Task_Cancelled, Task_Verified} \<Longrightarrow> issues g d"
| readies: "ready_build i g = Inr (Some d) \<Longrightarrow> issues g d"
| blocks: "block_build i g = Inr (Some d) \<Longrightarrow> issues g d"
| starts: "start_attempt_build i request a g = Inr d \<Longrightarrow> \<not> omap_has (g_attempts g) a \<Longrightarrow> issues g d"
| advances: "advance_build a target g = Inr d \<Longrightarrow> is_live target \<Longrightarrow> issues g d"
| cancels: "cancel_build a reason g = Inr d \<Longrightarrow> issues g d"
| pauses: "pause_build a g = Inr d \<Longrightarrow> issues g d"
| resumes: "resume_build a g = Inr d \<Longrightarrow> issues g d"
| supersedes: "supersede_build a g = Inr d \<Longrightarrow> issues g d"
| finishes: "finish_build parse_json a outcome g = Inr d \<Longrightarrow>
    ao_state outcome \<in> {At_Completed, At_Failed, At_Cancelled} \<Longrightarrow> issues g d"
| consumes: "consume_build i used g = Inr d \<Longrightarrow> issues g d"
| exhausts: "issues g (Ev_Budget_Exhausted i evidence)"
| expires: "expire_build i reason g = Inr d \<Longrightarrow> issues g d"
| declares: "declare_criterion_build c g = Inr d \<Longrightarrow> issues g d"
| judges: "judge_build j g = Inr d \<Longrightarrow> issues g d"
| retires: "retire_build c why g = Inr d \<Longrightarrow> issues g d"
| assigns: "assign_build a g = Inr d \<Longrightarrow> wa_dirty a \<noteq> Refused \<Longrightarrow>
    \<not> (wa_mutable a \<and> wa_view a = wa_source a) \<Longrightarrow> issues g d"
| releases: "release_build i reason g = Inr d \<Longrightarrow> issues g d"
| reports: "writer_result_build r g = Inr d \<Longrightarrow> issues g d"
| traces: "trace_build a kind data g = Inr d \<Longrightarrow> issues g d"
| sends: "send_build m sender to kind body causation at g = Inr d \<Longrightarrow> issues g d"
| delivers: "deliver_build to now g = Inr d \<Longrightarrow> issues g d"
| foreign: "issues g (Ev_Other kind data)"
| checks: "issues g (Ev_Validation record)"
| summarizes: "issues g (Ev_Summary summary)"
| creates_item: "issues g (Todo_Created item None None)"
| updates_item: "issues g (Todo_Updated item)"
| reorders: "issues g (Todo_Reordered order)"

lemma issued_admitted: "issues g d \<Longrightarrow> admits d g"
proof (induction rule: issues.induct)
  case (transitions i target evidence d)
  then show ?case by (intro transition_admitted [of i target evidence]) auto
next
  case (narrows i narrowed)
  then show ?case by (auto simp: node_named_def omap_has_def)
next
  case (adds n d)
  then show ?case by (intro add_build_admitted [of "fresh_runtime n"]) (simp_all add: fresh_runtime_def)
qed (assumption | erule admitted_intros | simp)+

section \<open>The log\<close>

inductive session_log :: "session_id \<Rightarrow> session_event envelope list \<Rightarrow> bool" for k where
  opened: "session_log k []"
| committed: "session_log k es \<Longrightarrow> synced g es \<Longrightarrow> g_session g = k \<Longrightarrow> g_version g = length es \<Longrightarrow>
    issues g d \<Longrightarrow> ev_payload e = Inline d \<Longrightarrow> session_log k (es @ [e])"

lemma lawful_append: "lawful g (es @ fs) \<longleftrightarrow>
    lawful g es \<and> lawful (snd (replay_batch replay_seen es g)) fs" if "fst (replay_batch replay_seen es g) = Inr ()"
  using that
proof (induction es arbitrary: g)
  case (Cons e es)
  then show ?case by (cases "replay_seen e g"; cases "fst (replay_seen e g)") auto
qed simp

text \<open>Projections under two actors differ in the actor alone.\<close>

definition acting :: "principal \<Rightarrow> graph \<Rightarrow> graph" where
  "acting q g = g\<lparr>g_actor := q\<rparr>"

lemma replay_acting: "replay e (acting q g) = apsnd (acting q) (replay e g)"
proof -
  obtain r g' where run: "replay e g = (r, g')" by fastforce
  note kept = replay_keeps_header [OF run]
  have "acting q g = with_header (g_session g) q (g_version g) (g_last_event g) (g_reconciling g) g"
    and "acting q g' = with_header (g_session g) q (g_version g) (g_last_event g) (g_reconciling g) g'"
    using kept by (simp_all add: acting_def with_header_def)
  with run show ?thesis by (simp add: replay_header)
qed

lemma replay_seen_acting: "replay_seen e (acting q g) = apsnd (acting q) (replay_seen e g)"
  by (cases "replay e g"; cases "fst (replay e g)")
    (auto simp: replay_seen_def replay_acting, simp add: acting_def)

lemma replay_batch_acting:
  "replay_batch replay_seen es (acting q g) = apsnd (acting q) (replay_batch replay_seen es g)"
  by (induction es arbitrary: g) (simp_all add: replay_seen_acting split: prod.split sum.split)

lemma project_acting: "project k q es = apsnd (acting q) (project k p es)"
  using replay_batch_acting [of es q "graph_empty k p"]
  by (simp add: project_def acting_def graph_empty_def)

lemma admits_acting [simp]: "admits d (acting q g) = admits d g"
  by (rule admits_agree) (simp add: agree_def acting_def)

lemma session_log_lawful: "session_log k es \<Longrightarrow> lawful (graph_empty k p) es"
proof (induction rule: session_log.induct)
  case (committed es g d e)
  then obtain h where h: "project (g_session g) (g_actor g) es = (Inr (), h)" "view g = view h"
    by (auto simp: synced_def)
  then have proj: "project k p es = (Inr (), acting p h)"
    using committed.hyps(3) project_acting [of k p es "g_actor g"] by simp
  have "admits d (acting p h)"
    using issued_admitted [OF committed.hyps(5)] admits_agree [OF view_agree [OF h(2)]] by simp
  with proj committed.hyps(6) committed.IH show ?case
    by (simp add: lawful_append project_def admitted_def)
qed simp

section \<open>Every log is well formed\<close>

text \<open>The graph a log projects to, and that graph before and after one more event.\<close>

definition state_after :: "session_id \<Rightarrow> session_event envelope list \<Rightarrow> graph" where
  "state_after k es = snd (project k System es)"

lemma session_log_ok:
  assumes "session_log k es"
  shows "fst (project k p es) = Inr () \<and> state_ok (snd (project k p es))"
  using lawful_replays [OF state_ok_empty session_log_lawful [OF assms]]
  by (metis project_def fst_conv snd_conv)

lemma state_after_ok: "session_log k es \<Longrightarrow> state_ok (state_after k es)"
  by (simp add: state_after_def session_log_ok)

inductive_cases session_log_snocE: "session_log k (es @ [e])"

lemma session_log_prefix: "session_log k (es @ fs) \<Longrightarrow> session_log k es"
proof (induction fs rule: rev_induct)
  case (snoc e fs)
  then show ?case using session_log_snocE [of k "es @ fs" e] by auto
qed simp

lemma session_log_last:
  assumes "session_log k (es @ [e])"
  obtains d where "ev_payload e = Inline d" "admits d (state_after k es)"
    "state_after k (es @ [e]) = (snd (replay_data d (state_after k es)))\<lparr>g_last_event := Some (ev_id e)\<rparr>"
proof -
  note before = session_log_ok [OF session_log_prefix [OF assms], of System]
  then obtain h where h: "project k System es = (Inr (), h)" by (cases "project k System es") auto
  from session_log_lawful [OF assms, of System] h have adm: "admitted e h"
    by (simp add: lawful_append project_def)
  from assms obtain d where d: "ev_payload e = Inline d" by (elim session_log_snocE) simp
  with adm have "admits d h" by (simp add: admitted_def)
  then have "fst (replay_data d h) = Inr ()"
    using before h by (intro admitted_replays) (simp_all add: state_ok_def)
  then obtain h' where run: "replay_data d h = (Inr (), h')" by (cases "replay_data d h") simp
  with d h have "state_after k (es @ [e]) = h'\<lparr>g_last_event := Some (ev_id e)\<rparr>"
    by (simp add: state_after_def project_append replay_seen_def replay_def)
  with that [OF d] \<open>admits d h\<close> run h show ?thesis by (simp add: state_after_def)
qed

lemma after_last_event [simp]:
  "g_nodes (g\<lparr>g_last_event := l\<rparr>) = g_nodes g" "g_attempts (g\<lparr>g_last_event := l\<rparr>) = g_attempts g"
  "inbox_ids (g\<lparr>g_last_event := l\<rparr>) i = inbox_ids g i"
  by (simp_all add: inbox_ids_def)

text \<open>One more event on a log that is at hand as a concrete projection.\<close>

lemma session_log_extend:
  assumes "session_log k es" and "project k p es = (Inr (), h)"
    and "issues (h\<lparr>g_version := length es\<rparr>) d" and "ev_payload e = Inline d"
  shows "session_log k (es @ [e])"
proof (rule session_log.committed)
  have hdr: "g_session h = k \<and> g_actor h = p"
  proof -
    have "g_session (snd (replay_batch replay_seen es g)) = g_session g \<and>
        g_actor (snd (replay_batch replay_seen es g)) = g_actor g" for g
    proof (induction es arbitrary: g)
      case (Cons e es)
      obtain r g' where run: "replay e g = (r, g')" by fastforce
      from Cons.IH [of "g'\<lparr>g_last_event := Some (ev_id e)\<rparr>"] run replay_keeps_header [OF run]
      show ?case by (cases r) (simp_all add: replay_seen_def)
    qed simp
    from this [of "graph_empty k p"] assms(2) show ?thesis by (simp add: project_def graph_empty_def)
  qed
  show "synced (h\<lparr>g_version := length es\<rparr>) es" using assms(2) hdr by (simp add: synced_def)
  show "g_session (h\<lparr>g_version := length es\<rparr>) = k" using hdr by simp
qed (use assms in simp_all)

section \<open>A commit is one step of the log\<close>

text \<open>
  What \<open>commit_if\<close> appends it built on a projection of the whole stream before it, so its append
  is a step of \<open>session_log\<close> whenever the closure is one of the commands'.
\<close>

lemma commit_extends_log:
  assumes "store_ok (w_store w)" and "synced g (stream_of (w_store w) (g_session g))"
    and run: "commit_if build (g, w) = (Inr True, (g', w'))"
    and F: "replays (g_session g) (g_actor g) (stream_of (w_store w') (g_session g))"
      "length (stream_of (w_store w') (g_session g)) < u64_max"
    and issued: "\<And>h d. build h = Inr (Some d) \<Longrightarrow> issues h d"
  shows "\<exists>pre event. prefix (stream_of (w_store w) (g_session g)) pre \<and>
    prefix (pre @ [event]) (stream_of (w_store w') (g_session g)) \<and>
    (session_log (g_session g) pre \<longrightarrow> session_log (g_session g) (pre @ [event]))"
proof -
  from commit_if_linear [OF assms(1,2) run F] obtain pre event data g1
    where "prefix (stream_of (w_store w) (g_session g)) pre"
      "prefix (pre @ [event]) (stream_of (w_store w') (g_session g))"
      "ev_payload event = Inline data" "build g1 = Inr (Some data)" "g_session g1 = g_session g"
      "g_version g1 = length pre" "synced g1 pre" by blast
  moreover from this have "session_log (g_session g) pre \<longrightarrow> session_log (g_session g) (pre @ [event])"
    using session_log.committed [of "g_session g" pre g1 data event] issued by blast
  ultimately show ?thesis by blast
qed

end
