(* ===== verification/Task_Properties.thy ===== *)
theory Task_Properties
  imports Task_Session
begin

text \<open>
  The properties of the event log and of the task graph, each as one statement about a session's
  log, and the small logs their witnesses run on.
\<close>

section \<open>Sample inputs\<close>

definition sample_budget :: budget where
  "sample_budget = \<lparr>b_tokens = 10, b_cost_micros = 10, b_wall_ms = 10\<rparr>"

definition sample_node :: "task_id \<Rightarrow> task_id option \<Rightarrow> task_id list \<Rightarrow> task_node" where
  "sample_node i parent deps =
     \<lparr>tn_id = i, tn_goal = ''work'', tn_dependencies = deps, tn_assignee = Some 7,
      tn_required_output = [], tn_workspace = IsolatedWriter, tn_budget = sample_budget,
      tn_authority = [], tn_state = Task_Ready, tn_lease_expires_at_ms = None,
      tn_runtime = runtime_default\<lparr>rt_parent := parent\<rparr>\<rparr>"

definition sample_request :: attempt_request where
  "sample_request =
     \<lparr>aq_role = [], aq_assignee = 7, aq_model = None, aq_base_revision = None,
      aq_started_at_ms = 5, aq_lease_expires_at_ms = 50\<rparr>"

definition sample_world :: "session_event world" where
  "sample_world =
     \<lparr>w_store = memory_store_new, w_bytes_of = (\<lambda>_. Inr 100), w_uuid = (\<lambda>n. 1000 + n),
      w_drawn = 0, w_clock = 5, w_rivals = []\<rparr>"

definition sample_event :: "nat \<Rightarrow> session_event \<Rightarrow> session_event envelope" where
  "sample_event n d =
     \<lparr>ev_id = n, ev_session = 1, ev_sequence = n, ev_occurred_at_ms = 0, ev_actor = System,
      ev_causation = None, ev_correlation = 0, ev_schema = 1, ev_kind = event_kind d,
      ev_payload = Inline d\<rparr>"

definition sample_created :: session_event where
  "sample_created = Ev_Task_Created (Inr (sample_node 2 None []))"

definition sample_graph :: graph where
  "sample_graph =
     (graph_empty 1 System)\<lparr>g_nodes := [(2, sample_node 2 None [])], g_last_event := Some 1\<rparr>"

definition sample_attempt :: task_attempt where
  "sample_attempt =
     \<lparr>ta_schema = 1, ta_id = 20, ta_task = 2, ta_parent_task = None, ta_parent_attempt = None,
      ta_retry_of = None, ta_role = [], ta_assignee = 7, ta_model = None,
      ta_workspace = IsolatedWriter, ta_base_revision = None, ta_authority = [],
      ta_required_output = [], ta_reserved = sample_budget, ta_used = budget_default,
      ta_lease_epoch = 1, ta_lease_expires_at_ms = 50, ta_started_at_ms = 5, ta_ended_at_ms = None,
      ta_state = At_Starting, ta_terminal_reason = None, ta_retryable = NotRetryable,
      ta_result = None, ta_evidence = []\<rparr>"

definition sample_log :: "session_event envelope list" where
  "sample_log = [sample_event 1 sample_created, sample_event 2 (Ev_Attempt_Started (Inr sample_attempt))]"

lemmas sample_defs =
  sample_budget_def sample_node_def sample_request_def sample_world_def sample_event_def
  sample_created_def sample_graph_def sample_attempt_def graph_empty_def runtime_default_def
  budget_default_def

text \<open>What runs a projection on a concrete log.\<close>

lemmas projection_run =
  sample_defs project_def replay_seen_def replay_def replay_created_def replay_attempt_started_def
  need_def Let_def decoded_def ok_or_def get_node_def get_attempt_def

lemma sample_first: "project 1 System [sample_event 1 sample_created] = (Inr (), sample_graph)"
  by (simp add: projection_run)

lemma sample_log_first: "session_log 1 [sample_event 1 sample_created]"
proof -
  have "add_build (fresh_runtime (sample_node 2 None [])) ((graph_empty 1 System)\<lparr>g_version := 0\<rparr>) =
      Inr sample_created"
    by (simp add: sample_defs add_build_def fresh_runtime_def would_cycle_def omap_has_def)
  then have "issues ((graph_empty 1 System)\<lparr>g_version := length []\<rparr>) sample_created"
    by (auto intro!: issues.adds simp: sample_defs u64_budget_def u64_max_def)
  from session_log_extend [OF session_log.opened [of 1] _ this, of System "sample_event 1 sample_created"]
  show ?thesis by (simp add: project_def sample_event_def)
qed

lemma sample_log_ok: "session_log 1 sample_log"
proof -
  have "start_attempt_build 2 sample_request 20 (sample_graph\<lparr>g_version := 1\<rparr>) =
      Inr (Ev_Attempt_Started (Inr sample_attempt))"
    by (simp add: start_attempt_build_def sample_defs get_node_def dependencies_completed_def
        attempt_schema_version_def available_def saturating_add_def u64_max_def budget_sub_def)
  then have "issues (sample_graph\<lparr>g_version := length [sample_event 1 sample_created]\<rparr>)
      (Ev_Attempt_Started (Inr sample_attempt))"
    by (intro issues.starts [of 2 sample_request 20]) (simp_all add: sample_defs omap_has_def)
  from session_log_extend [OF sample_log_first sample_first this,
      of "sample_event 2 (Ev_Attempt_Started (Inr sample_attempt))"]
  show ?thesis by (simp add: sample_log_def sample_event_def)
qed

definition sample_running :: graph where
  "sample_running = sample_graph\<lparr>
     g_nodes := [(2, (sample_node 2 None [])\<lparr>tn_state := Task_Running, tn_lease_expires_at_ms := Some 50,
       tn_runtime := runtime_default\<lparr>rt_attempts := [20], rt_current_attempt := Some 20, rt_lease_epoch := 1\<rparr>\<rparr>)],
     g_attempts := [(20, sample_attempt)], g_last_event := Some 2\<rparr>"

lemma sample_state: "project 1 System sample_log = (Inr (), sample_running)"
  by (simp add: projection_run sample_log_def sample_running_def on_node_def on_attempt_def omap_modify_def on_runtime_def)

lemma sample_state_after: "state_after 1 sample_log = sample_running"
  by (simp only: state_after_def sample_state snd_conv)

lemmas running_defs = sample_running_def sample_defs

section \<open>The event log\<close>

text \<open>
  Whatever is appended, in whatever order and by whomever, to a store that starts empty, every
  stream stays numbered from one without gaps, holds only its own session's events, and repeats no
  event identifier.
\<close>

theorem streams_stay_well_formed:
  "stream_ok k (stream_of (fold (\<lambda>(k, v, es) s. snd (append_events bytes_of k v es s)) calls
     memory_store_new) k)"
proof -
  have "store_ok (fold (\<lambda>(k, v, es) s. snd (append_events bytes_of k v es s)) calls s)"
    if "store_ok s" for s :: "'a memory_store"
    using that
  proof (induction calls arbitrary: s)
    case (Cons call calls)
    obtain j v es where call: "call = (j, v, es)" by (cases call)
    from memory.append_keeps [OF Cons.prems surjective_pairing]
    have "store_ok (snd (append_events bytes_of j v es s))" .
    with Cons.IH call show ?case by simp
  qed simp
  from this [OF store_ok_new] show ?thesis by (rule memory.events_ok)
qed



text \<open>
  Reading a stream page by page is reading it at once: a projection that is in step with the
  first events of a stream catches up, however many pages that takes, to what replaying the rest
  in one go gives, and then stands at the end of the stream.
\<close>

theorem catching_up_is_replaying:
  assumes "store_ok s" and "length (stream_of s k) < u64_max" and "v \<le> length (stream_of s k)"
    and "replay_batch replay_seen (drop v (stream_of s k)) g = (Inr (), g')"
  shows "catch_up_with replay_seen set_version overflow wrap s k v g =
    (Inr (), if v < length (stream_of s k) then set_version (length (stream_of s k)) g' else g')"
  using assms by (rule task_graph.catch_up_is_replay)

definition sample_store :: "session_event memory_store" where
  "sample_store = \<lparr>ms_poisoned = False, ms_streams = [(1, sample_log)]\<rparr>"

lemma sample_stream [simp]:
  "stream_of sample_store 1 = sample_log" "stream_of sample_store (Suc 0) = sample_log"
  by (simp_all add: sample_store_def stream_of_def)

lemma sample_store_ok: "store_ok sample_store"
  by (auto simp: store_ok_def sample_store_def stream_of_def stream_ok_def sample_log_def sample_event_def
      u64_max_def)

theorem catching_up_is_replaying_witness:
  "fst (catch_up_with replay_seen set_version Overflow StoreFailed sample_store 1 0 (graph_empty 1 System)) =
   Inr ()"
proof -
  have "length (stream_of sample_store 1) < u64_max" by (simp add: sample_log_def u64_max_def)
  moreover have "replay_batch replay_seen (drop 0 (stream_of sample_store 1)) (graph_empty 1 System) =
      (Inr (), sample_running)"
    using sample_state by (simp add: project_def)
  ultimately show ?thesis
    using catching_up_is_replaying [OF sample_store_ok, of 1 0 "graph_empty 1 System" sample_running
      Overflow StoreFailed] by simp
qed

section \<open>The task graph as a projection\<close>

text \<open>
  C2: Every log that commands of any number of holders wrote can be read back: its projection
  never fails, under any actor.
\<close>

theorem every_log_projects:
  assumes "session_log k es"
  shows "fst (project k p es) = Inr ()"
  using session_log_ok [OF assms] by blast

theorem every_log_projects_witness: "fst (project 1 (Agent 7) sample_log) = Inr ()"
  using sample_log_ok by (rule every_log_projects)

text \<open>
  C11: A task that is being added would close a cycle exactly when it can be reached along
  dependencies from one of the tasks it is to depend on; the search that decides this terminates
  on every graph, whatever its dependencies name.
\<close>

theorem cycle_check_exact:
  "would_cycle g new dependencies \<longleftrightarrow> (\<exists>d\<in>set dependencies. (d, new) \<in> (edges g)\<^sup>*)"
  by (rule would_cycle_correct)

text \<open>C10: The dependencies of a session's tasks never form a cycle.\<close>

theorem dependencies_stay_acyclic:
  assumes "session_log k es"
  shows "acyclic (edges (state_after k es))"
  using state_after_ok [OF assms] by (simp add: state_ok_def)

theorem dependencies_stay_acyclic_witness: "acyclic (edges (state_after 1 sample_log))"
  using sample_log_ok by (rule dependencies_stay_acyclic)

text \<open>
  C3: A task is run by one attempt at a time: the attempt a task names as current exists, is live,
  belongs to that task and carries the task's current lease epoch; so no attempt is current for
  two tasks.
\<close>

theorem one_holder_per_task:
  assumes "session_log k es" and "omap_get (g_nodes (state_after k es)) i = Some n"
    and "rt_current_attempt (tn_runtime n) = Some a"
  shows "\<exists>t. omap_get (g_attempts (state_after k es)) a = Some t \<and> ta_task t = i \<and>
    is_live (ta_state t) \<and> ta_lease_epoch t = rt_lease_epoch (tn_runtime n)"
  using state_after_ok [OF assms(1)] assms(2,3) by (simp add: state_ok_def filed_ok_def leases_ok_def)

theorem one_holder_per_task_witness:
  "\<exists>t. omap_get (g_attempts (state_after 1 sample_log)) 20 = Some t \<and> ta_task t = 2"
proof -
  have "omap_get (g_nodes (state_after 1 sample_log)) 2 = Some (snd (hd (g_nodes sample_running)))"
    unfolding sample_state_after by (simp add: running_defs)
  from one_holder_per_task [OF sample_log_ok this] show ?thesis
    by (auto simp: running_defs)
qed

text \<open>
  C5: Budgets are conserved: in each of its three components, what a task has reserved is the sum
  of the budgets of its children that have not settled yet, and it never exceeds the task's own
  budget, however many holders add children at once.
\<close>

theorem budgets_conserved:
  assumes "session_log k es" and "omap_get (g_nodes (state_after k es)) p = Some n"
    and "c \<in> {b_tokens, b_cost_micros, b_wall_ms}"
  shows "c (rt_reserved (tn_runtime n)) =
      (\<Sum>child\<leftarrow>omap_values (g_nodes (state_after k es)).
         if rt_parent (tn_runtime child) = Some p \<and> \<not> rt_settled (tn_runtime child)
         then c (tn_budget child) else 0) \<and>
    c (rt_reserved (tn_runtime n)) \<le> c (tn_budget n)"
proof -
  from assms(3) have "component c" by (auto simp: component_def)
  with state_after_ok [OF assms(1)] have "budgets_ok c (g_nodes (state_after k es))" by (simp add: state_ok_def)
  from budgets_okD [OF this assms(2)] show ?thesis by (simp add: sum_values_def unsettled_share_def [abs_def])
qed

theorem budgets_conserved_witness:
  "b_tokens (rt_reserved (tn_runtime (snd (hd (g_nodes (state_after 1 sample_log)))))) \<le> 10"
proof -
  have "omap_get (g_nodes (state_after 1 sample_log)) 2 = Some (snd (hd (g_nodes sample_running)))"
    unfolding sample_state_after by (simp add: running_defs)
  from budgets_conserved [OF sample_log_ok this, of b_tokens] show ?thesis
    unfolding sample_state_after by (simp add: running_defs)
qed

text \<open>
  A view somebody may write to has one owner: of two assignments of the same view that are
  both unreleased neither is mutable, and no writer is ever assigned the source itself or a view
  of a source it was refused.
\<close>

theorem one_writer_per_view:
  assumes "session_log k es"
    and "omap_get (g_assignments (state_after k es)) i = Some a"
    and "omap_get (g_assignments (state_after k es)) j = Some b"
    and "i \<noteq> j" and "wa_view a = wa_view b" and "\<not> wa_released a" and "\<not> wa_released b"
  shows "\<not> wa_mutable a \<and> \<not> wa_mutable b \<and> wa_dirty a \<noteq> Refused"
proof -
  have ok: "views_ok (state_after k es)" using state_after_ok [OF assms(1)] by (simp add: state_ok_def)
  show ?thesis
    using ok [unfolded views_ok_def] assms(2-7) by metis
qed

definition sample_view :: "assignment_id \<Rightarrow> workspace_assignment" where
  "sample_view i =
     \<lparr>wa_id = i, wa_task = 2, wa_attempt = 20, wa_owner = 7, wa_repository = ''r'', wa_source = ''s'',
      wa_base_revision = ''b'', wa_view = ''v'', wa_backend = GitWorktree, wa_mutable = False,
      wa_lease_epoch = 1, wa_expires_at_ms = 50, wa_dirty = Clean_Source, wa_released = False\<rparr>"

definition sample_assigned :: "assignment_id \<Rightarrow> session_event envelope" where
  "sample_assigned i = sample_event i (Ev_Workspace_Assigned (Inr (sample_view i)))"

lemma sample_views_ok:
  "session_log 1 ((sample_log @ [sample_assigned 3]) @ [sample_assigned 4])"
  "omap_get (g_assignments (state_after 1 ((sample_log @ [sample_assigned 3]) @ [sample_assigned 4]))) 3 =
     Some (sample_view 3)"
  "omap_get (g_assignments (state_after 1 ((sample_log @ [sample_assigned 3]) @ [sample_assigned 4]))) 4 =
     Some (sample_view 4)"
proof -
  define one where "one = sample_running\<lparr>g_assignments := [(3, sample_view 3)], g_last_event := Some 3\<rparr>"
  define two where "two = sample_running\<lparr>g_assignments := [(3, sample_view 3), (4, sample_view 4)], g_last_event := Some 4\<rparr>"
  note run = project_append replay_seen_def replay_def replay_assigned_def sample_assigned_def
    sample_event_def decoded_def sample_view_def
  have first: "project 1 System (sample_log @ [sample_assigned 3]) = (Inr (), one)"
    unfolding project_append sample_state by (simp add: run one_def running_defs)
  have second: "project 1 System ((sample_log @ [sample_assigned 3]) @ [sample_assigned 4]) = (Inr (), two)"
    unfolding project_append [of _ _ "sample_log @ [sample_assigned 3]"] first by (simp add: run one_def two_def running_defs)
  note build = assign_build_def omap_has_def live_assignments_def omap_values_def running_defs sample_view_def
  have third: "session_log 1 (sample_log @ [sample_assigned 3])"
    by (rule session_log_extend [OF sample_log_ok sample_state issues.assigns [of "sample_view 3"]])
      (simp_all add: build sample_assigned_def)
  show "session_log 1 ((sample_log @ [sample_assigned 3]) @ [sample_assigned 4])"
    by (rule session_log_extend [OF third first issues.assigns [of "sample_view 4"]])
      (simp_all add: build one_def sample_assigned_def)
  show "omap_get (g_assignments (state_after 1 ((sample_log @ [sample_assigned 3]) @ [sample_assigned 4]))) 3 =
      Some (sample_view 3)"
    "omap_get (g_assignments (state_after 1 ((sample_log @ [sample_assigned 3]) @ [sample_assigned 4]))) 4 =
      Some (sample_view 4)"
    by (simp_all only: state_after_def second snd_conv) (simp_all add: two_def)
qed

theorem one_writer_per_view_witness: "\<not> wa_mutable (sample_view 3) \<and> \<not> wa_mutable (sample_view 4)"
  using one_writer_per_view [OF sample_views_ok] by (simp add: sample_view_def)

text \<open>
  An inbox is a bounded queue: at most 64 messages wait in one, a message that is sent goes to
  the end of its recipient's inbox, a delivery takes everything that waits, and no other event
  touches an inbox.
\<close>

theorem inboxes_are_queues:
  assumes "session_log k (es @ [e])"
  shows "length (inbox_ids (state_after k (es @ [e])) i) \<le> 64 \<and>
    inbox_ids (state_after k (es @ [e])) i =
      (case ev_payload e of
         Inline (Ev_Message_Sent (Inr m)) \<Rightarrow>
           if tm_to m = i then inbox_ids (state_after k es) i @ [tm_id m] else inbox_ids (state_after k es) i
       | Inline (Ev_Messages_Delivered (Inr j) _ _) \<Rightarrow> if j = i then [] else inbox_ids (state_after k es) i
       | _ \<Rightarrow> inbox_ids (state_after k es) i)"
proof -
  from session_log_last [OF assms] obtain d where d: "ev_payload e = Inline d" "admits d (state_after k es)"
    "state_after k (es @ [e]) = (snd (replay_data d (state_after k es)))\<lparr>g_last_event := Some (ev_id e)\<rparr>" by blast
  have "length (inbox_ids (state_after k (es @ [e])) i) \<le> max_inbox"
    using state_after_ok [OF assms] by (simp add: state_ok_def inboxes_ok_def)
  with inbox_step [OF d(2), of i] d show ?thesis by (simp add: max_inbox_def)
qed

text \<open>Splitting the sample log after its first event.\<close>

lemma sample_split: "session_log 1 ([sample_event 1 sample_created] @
    [sample_event 2 (Ev_Attempt_Started (Inr sample_attempt))])"
  using sample_log_ok by (simp add: sample_log_def)

lemma sample_state_first: "state_after 1 [sample_event 1 sample_created] = sample_graph"
  by (simp only: state_after_def sample_first snd_conv)

lemma sample_state_split: "state_after 1 ([sample_event 1 sample_created] @
    [sample_event 2 (Ev_Attempt_Started (Inr sample_attempt))]) = sample_running"
  using sample_state_after by (simp add: sample_log_def)

theorem inboxes_are_queues_witness: "length (inbox_ids sample_running 2) \<le> 64"
  using inboxes_are_queues [OF sample_split, of 2] unfolding sample_state_split by blast

section \<open>What one event can change\<close>



text \<open>
  The life of an attempt: once it ended it never lives again, a cancellation that was
  requested is only ever followed by the end, and neither its task nor its lease epoch changes.
\<close>

theorem attempts_end_once:
  assumes "session_log k (es @ [e])"
    and "omap_get (g_attempts (state_after k es)) a = Some t"
    and "omap_get (g_attempts (state_after k (es @ [e]))) a = Some t'"
  shows "(is_terminal (ta_state t) \<longrightarrow> is_terminal (ta_state t')) \<and>
    (ta_state t = At_Cancelling \<longrightarrow> ta_state t' = At_Cancelling \<or> is_terminal (ta_state t')) \<and>
    ta_task t' = ta_task t \<and> ta_lease_epoch t' = ta_lease_epoch t"
proof -
  from session_log_last [OF assms(1)] obtain d where "admits d (state_after k es)"
    "state_after k (es @ [e]) = (snd (replay_data d (state_after k es)))\<lparr>g_last_event := Some (ev_id e)\<rparr>" by blast
  with attempt_lifecycle [of d "state_after k es" a t t'] assms(2,3) show ?thesis by simp
qed

lemma sample_cancelling:
  "session_log 1 (sample_log @ [sample_event 3 (Ev_Cancel_Requested (Inr 20) 2 (Some []))])"
  "state_after 1 (sample_log @ [sample_event 3 (Ev_Cancel_Requested (Inr 20) 2 (Some []))]) =
     sample_running\<lparr>g_attempts := [(20, sample_attempt\<lparr>ta_state := At_Cancelling, ta_terminal_reason := Some []\<rparr>)],
       g_last_event := Some 3\<rparr>"
proof -
  show "session_log 1 (sample_log @ [sample_event 3 (Ev_Cancel_Requested (Inr 20) 2 (Some []))])"
    by (rule session_log_extend [OF sample_log_ok sample_state issues.cancels [of 20 "[]"]])
      (simp_all add: cancel_build_def get_attempt_def running_defs is_live_def)
  show "state_after 1 (sample_log @ [sample_event 3 (Ev_Cancel_Requested (Inr 20) 2 (Some []))]) =
     sample_running\<lparr>g_attempts := [(20, sample_attempt\<lparr>ta_state := At_Cancelling, ta_terminal_reason := Some []\<rparr>)],
       g_last_event := Some 3\<rparr>"
    unfolding state_after_def project_append sample_state
    by (simp add: replay_seen_def replay_def replay_cancel_requested_def need_def decoded_def get_attempt_def
        on_attempt_def omap_modify_def running_defs)
qed

theorem attempts_end_once_witness:
  "ta_lease_epoch (sample_attempt\<lparr>ta_state := At_Cancelling, ta_terminal_reason := Some []\<rparr>) = ta_lease_epoch sample_attempt"
proof -
  have "omap_get (g_attempts (state_after 1 sample_log)) 20 = Some sample_attempt"
    unfolding sample_state_after by (simp add: sample_running_def)
  moreover have "omap_get (g_attempts (state_after 1 (sample_log @
      [sample_event 3 (Ev_Cancel_Requested (Inr 20) 2 (Some []))]))) 20 =
      Some (sample_attempt\<lparr>ta_state := At_Cancelling, ta_terminal_reason := Some []\<rparr>)"
    unfolding sample_cancelling(2) by simp
  ultimately show ?thesis using attempts_end_once [OF sample_cancelling(1)] by blast
qed

section \<open>Commands\<close>

text \<open>
  C4: A result is accepted once and only from the holder: what \<open>finish_attempt\<close> accepts comes
  from the live attempt its task names as current, under the task's lease epoch, and when it
  claims completion the result meets the task's contract; afterwards the task has no holder, its
  state is the one the outcome stands for, and the same attempt finishing again, with whatever
  outcome, is fenced.
\<close>

theorem results_accepted_once:
  assumes "finish_build parse_json a outcome g = Inr d"
    and "ao_state outcome \<in> {At_Completed, At_Failed, At_Cancelled}"
  shows "(\<exists>t n. omap_get (g_attempts g) a = Some t \<and> is_live (ta_state t) \<and>
      omap_get (g_nodes g) (ta_task t) = Some n \<and> rt_current_attempt (tn_runtime n) = Some a \<and>
      rt_lease_epoch (tn_runtime n) = ta_lease_epoch t \<and>
      (ao_state outcome = At_Completed \<longrightarrow>
         violation (contract_parse parse_json (ta_required_output t)) (ao_result outcome) = None) \<and>
      (\<exists>n'. omap_get (g_nodes (snd (replay_data d g))) (ta_task t) = Some n' \<and>
         tn_state n' = task_state_after (ao_state outcome) \<and> rt_current_attempt (tn_runtime n') = None)) \<and>
    finish_build parse_json' a outcome' (snd (replay_data d g)) = Inl (FencedAttempt a)"
proof -
  from finish_build_InrD [OF assms(1)] obtain t n where t: "omap_get (g_attempts g) a = Some t"
    "omap_get (g_nodes g) (ta_task t) = Some n" "is_live (ta_state t)"
    "rt_current_attempt (tn_runtime n) = Some a" "rt_lease_epoch (tn_runtime n) = ta_lease_epoch t"
    "ao_state outcome = At_Completed \<longrightarrow>
       violation (contract_parse parse_json (ta_required_output t)) (ao_result outcome) = None" by blast
  obtain n' where
    "omap_get (g_nodes (snd (replay_data d g))) (ta_task t) = Some n'"
    "tn_state n' = task_state_after (ao_state outcome)" "rt_current_attempt (tn_runtime n') = None"
    using finished_sel [OF assms(1) t(1)] by (elim exE conjE)
  with t have "\<exists>t n. omap_get (g_attempts g) a = Some t \<and> is_live (ta_state t) \<and>
      omap_get (g_nodes g) (ta_task t) = Some n \<and> rt_current_attempt (tn_runtime n) = Some a \<and>
      rt_lease_epoch (tn_runtime n) = ta_lease_epoch t \<and>
      (ao_state outcome = At_Completed \<longrightarrow>
         violation (contract_parse parse_json (ta_required_output t)) (ao_result outcome) = None) \<and>
      (\<exists>n'. omap_get (g_nodes (snd (replay_data d g))) (ta_task t) = Some n' \<and>
         tn_state n' = task_state_after (ao_state outcome) \<and> rt_current_attempt (tn_runtime n') = None)"
    by metis
  then show ?thesis by (intro conjI finish_once [OF assms])
qed

theorem results_accepted_once_witness:
  "finish_build (\<lambda>_. None) 20 (outcome_failed budget_default [] 9)
     (snd (replay_data (Ev_Attempt_Finished (Inr 20) 2 (Inr At_Failed) (Inr budget_default) (Some [])
        (Inr NotRetryable) None (Inr []) (Some 9)) sample_running)) = Inl (FencedAttempt 20)"
proof -
  have "finish_build (\<lambda>_. None) 20 (outcome_failed budget_default [] 9) sample_running =
      Inr (Ev_Attempt_Finished (Inr 20) 2 (Inr At_Failed) (Inr budget_default) (Some [])
        (Inr NotRetryable) None (Inr []) (Some 9))"
    by (simp add: finish_build_def outcome_failed_def get_attempt_def get_node_def running_defs is_live_def)
  from results_accepted_once [OF this] show ?thesis by (simp add: outcome_failed_def)
qed

text \<open>
  What a parent hands to a child it holds itself: each grant \<open>add_child\<close> makes goes to the
  child's assignee, admits only resources the parent's grant of the same action admits, expires
  no later and can be delegated fewer times.
\<close>

theorem children_hold_less:
  assumes "attenuate_requests authority assignee requests w = (Inr grants, w')"
    and "[] \<notin> cg_scope ` set authority" and "c \<in> set grants"
  shows "cg_actor c = Agent assignee \<and> length grants = length requests \<and>
    (\<exists>p\<in>set authority. grant_below G c p \<and> cg_delegation_depth c < cg_delegation_depth p)"
  using attenuate_requests_below [OF assms(1), of G] assms(2,3) by (metis image_eqI)

definition sample_held :: capability_grant where
  "sample_held =
     \<lparr>cg_id = 1, cg_actor = Agent 6, cg_action = FsRead,
      cg_scope = [\<lparr>rp_scheme = ''file'', rp_glob = ''a''\<rparr>], cg_expires_at_ms = Some 90,
      cg_delegation_depth = 2, cg_source = User_Source\<rparr>"

definition sample_child_request :: child_capability_request where
  "sample_child_request =
     \<lparr>cc_parent_grant = 0, cc_action = FsRead, cc_scope = [], cc_expires_at_ms = None\<rparr>"

theorem children_hold_less_witness:
  "\<exists>c. c \<in> set [sample_held\<lparr>cg_id := 1000, cg_actor := Agent 7, cg_delegation_depth := 1\<rparr>] \<and>
     cg_actor c = Agent 7"
proof -
  have "attenuate_requests [sample_held] 7 [sample_child_request] sample_world =
      (Inr [sample_held\<lparr>cg_id := 1000, cg_actor := Agent 7, cg_delegation_depth := 1\<rparr>], sample_world\<lparr>w_drawn := 1\<rparr>)"
    by (simp add: sample_held_def sample_child_request_def sample_world_def draw_uuid_def attenuate_def
        bindE_def ret_def)
  from children_hold_less [OF this] show ?thesis by (auto simp: sample_held_def)
qed

text \<open>
  Recovered authority is cut to current policy: a grant that survives \<open>narrow_authority\<close> is
  below the grant that was held, and where the current grant of its action names resources at
  all, it admits only those.
\<close>

theorem recovered_authority_narrows:
  assumes "narrow_grant current held = Some c" and "cg_scope held \<noteq> []"
  shows "grant_below G c held \<and> cg_delegation_depth c \<le> cg_delegation_depth held \<and>
    (\<exists>now\<in>set current. cg_action now = cg_action held \<and>
      (cg_scope now \<noteq> [] \<longrightarrow> (\<forall>r. scope_admits G (cg_scope c) r \<longrightarrow> scope_admits G (cg_scope now) r)))"
  using narrow_grant_below [OF assms, of G] by blast

theorem recovered_authority_narrows_witness:
  "cg_delegation_depth (sample_held\<lparr>cg_delegation_depth := 1\<rparr>) \<le> cg_delegation_depth sample_held"
proof -
  have "narrow_grant [sample_held\<lparr>cg_delegation_depth := 1\<rparr>] sample_held =
      Some (sample_held\<lparr>cg_delegation_depth := 1\<rparr>)"
    by (simp add: narrow_grant_def sample_held_def scope_narrow_def)
  from recovered_authority_narrows [OF this] show ?thesis by (simp add: sample_held_def)
qed


text \<open>What runs a command on a concrete world.\<close>

lemmas command_run =
  commit_if_def commit_def commit_attempts_def numeral_3_eq_3 reconcile_blocked_def bindE_def observe_def need_def
  current_version_def stream_of_def last_sequence_def ret_def raise_def built_def submit_def ok_or_def
  checked_add_def u64_max_def draw_uuid_def envelope_new_def world_append_def rival_turn_def
  append_events_def Let_def validate_for_append_def max_inline_event_bytes_def applied_def replay_def
  set_version_def decoded_def get_node_def get_attempt_def omap_has_def

definition sample_build :: build where
  "sample_build g = map_sum (\<lambda>e. e) Some (add_build (fresh_runtime (sample_node 2 None [])) g)"

definition sample_opened :: "graph \<times> session_event world" where
  "sample_opened =
     ((graph_empty 1 System)\<lparr>g_version := 1, g_last_event := Some 1001, g_nodes := [(2, sample_node 2 None [])]\<rparr>,
      sample_world\<lparr>w_drawn := 2, w_store := \<lparr>ms_poisoned = False, ms_streams = [(1,
        [\<lparr>ev_id = 1001, ev_session = 1, ev_sequence = 1, ev_occurred_at_ms = 5, ev_actor = System,
          ev_causation = None, ev_correlation = 1000, ev_schema = 1, ev_kind = event_kind sample_created,
          ev_payload = Inline sample_created\<rparr>])]\<rparr>\<rparr>)"

lemma sample_commit: "commit_if sample_build (graph_empty 1 System, sample_world) = (Inr True, sample_opened)"
  by (simp add: command_run sample_defs sample_opened_def sample_build_def add_build_def fresh_runtime_def
      memory_store_new_def would_cycle_def replay_created_def)


end
