(* ===== verification/Task_Races.thy ===== *)
theory Task_Races
  imports Task_Properties
begin

text \<open>
  Three places where a command decides on a view that has gone stale by the time its event is
  appended, each exhibited on a concrete session with one other holder. The commands are those of
  \<^verbatim>\<open>crates/arsy-kernel/src/orchestration.rs\<close>, run in full: catch up, build, conflict, catch up,
  rebuild, append.
\<close>

text \<open>A session whose log is \<open>es\<close>, where another holder appends \<open>d\<close> just before our next append.\<close>

definition rival_world :: "session_event envelope list \<Rightarrow> session_event \<Rightarrow> session_event world" where
  "rival_world es d =
     sample_world\<lparr>w_store := \<lparr>ms_poisoned = False, ms_streams = [(1, es)]\<rparr>,
                  w_rivals := [(1, [sample_event (Suc (length es)) d])]\<rparr>"

lemmas race_run =
  rival_world_def command_run catch_up_def catch_up_with.simps read_events_def max_catch_up_batch_def
  replay_seen_def

section \<open>A message delivered to nobody\<close>

definition sample_mail :: "message_id \<Rightarrow> nat option \<Rightarrow> task_message" where
  "sample_mail i delivered =
     \<lparr>tm_id = i, tm_from = 2, tm_to = 2, tm_kind = Question, tm_body = JNull, tm_causation = None,
      tm_sent_at_ms = 0, tm_delivered_at_ms = delivered\<rparr>"

definition mail_log :: "session_event envelope list" where
  "mail_log = [sample_event 1 sample_created, sample_event 2 (Ev_Message_Sent (Inr (sample_mail 30 None)))]"

definition mail_graph :: graph where
  "mail_graph =
     sample_graph\<lparr>g_version := 2, g_last_event := Some 2, g_messages := [(30, sample_mail 30 None)],
                  g_inbox := [(2, [30])]\<rparr>"

lemma mail_graph_synced: "synced mail_graph mail_log"
  by (simp add: synced_def mail_graph_def mail_log_def projection_run replay_message_sent_def inbox_ids_def
      view_def unseeded_def sample_mail_def)

lemmas mail_defs = deliver_def deliver_build_def mail_graph_def mail_log_def sample_defs inbox_ids_def
  sample_mail_def replay_message_sent_def replay_messages_delivered_def

text \<open>
  A message can be lost: \<open>deliver\<close> returns the messages its view held when it was called, but
  the event it commits marks everything that waits after catching up. A message another holder
  sends in between is recorded as delivered and returned to no one.
\<close>

theorem delivery_can_lose_messages:
  "\<exists>g w. synced g (stream_of (w_store w) 1) \<and>
     fst (deliver 2 9 (g, w)) = Inr [sample_mail 30 (Some 9)] \<and>
     inbox_ids (fst (snd (deliver 2 9 (g, w)))) 2 = [] \<and>
     omap_get (g_messages (fst (snd (deliver 2 9 (g, w))))) 31 = Some (sample_mail 31 (Some 9))"
proof (intro exI conjI)
  let ?w = "rival_world mail_log (Ev_Message_Sent (Inr (sample_mail 31 None)))"
  show "synced mail_graph (stream_of (w_store ?w) 1)"
    using mail_graph_synced by (simp add: rival_world_def stream_of_def)
  show "fst (deliver 2 9 (mail_graph, ?w)) = Inr [sample_mail 30 (Some 9)]"
    by (simp add: race_run mail_defs List.map_filter_def)
  show "inbox_ids (fst (snd (deliver 2 9 (mail_graph, ?w)))) 2 = []"
    by (simp add: race_run mail_defs List.map_filter_def)
  show "omap_get (g_messages (fst (snd (deliver 2 9 (mail_graph, ?w))))) 31 = Some (sample_mail 31 (Some 9))"
    by (simp add: race_run mail_defs List.map_filter_def)
qed

section \<open>A cancelled task that completes\<close>

definition idle_graph :: graph where
  "idle_graph = sample_graph\<lparr>g_version := 1\<rparr>"

lemma idle_graph_synced: "synced idle_graph [sample_event 1 sample_created]"
  by (simp add: synced_def idle_graph_def projection_run view_def unseeded_def)

text \<open>What the cancelling holder is left with: a cancelled task with a live attempt.\<close>

definition cancelled_graph :: graph where
  "cancelled_graph = sample_running\<lparr>g_version := 3, g_last_event := Some 1003,
     g_nodes := [(2, (sample_node 2 None [])\<lparr>tn_state := Task_Cancelled, tn_lease_expires_at_ms := Some 50,
       tn_runtime := runtime_default\<lparr>rt_attempts := [20], rt_current_attempt := Some 20, rt_lease_epoch := 1,
         rt_settled := True\<rparr>\<rparr>)]\<rparr>"

lemma cancel_race:
  "fst (cancel (\<lambda>_. None) 2 []
     (idle_graph, rival_world [sample_event 1 sample_created] (Ev_Attempt_Started (Inr sample_attempt)))) = Inr ()"
  "view (fst (snd (cancel (\<lambda>_. None) 2 []
     (idle_graph, rival_world [sample_event 1 sample_created] (Ev_Attempt_Started (Inr sample_attempt)))))) =
     view cancelled_graph"
  by (simp_all add: cancel_def close_def refresh_def transition_def transition_build_def idle_graph_def
      race_run sample_defs replay_transitioned_def replay_attempt_started_def on_node_def on_attempt_def
      omap_modify_def on_runtime_def is_permanently_stopped_def seed_def settle_def dependents_of_def drain_def
      oset_insert_def oset_extend_def view_def unseeded_def cancelled_graph_def sample_running_def)

text \<open>
  A cancelled task can complete: \<open>cancel\<close> reads that a task has no attempt and commits a
  transition; when another holder starts an attempt in between, the task is recorded as cancelled
  while the attempt stays its current one, so the attempt's later result is accepted and moves
  the task from cancelled to completed, a move the table of transitions forbids.
\<close>

theorem cancelled_task_can_complete:
  "\<exists>g w d. synced g (stream_of (w_store w) 1) \<and>
     fst (cancel (\<lambda>_. None) 2 [] (g, w)) = Inr () \<and>
     view (fst (snd (cancel (\<lambda>_. None) 2 [] (g, w)))) = view cancelled_graph \<and>
     map_option tn_state (omap_get (g_nodes cancelled_graph) 2) = Some Task_Cancelled \<and>
     finish_build (\<lambda>_. None) 20 (outcome_completed budget_default (JInt 1) 9) cancelled_graph = Inr d \<and>
     map_option tn_state (omap_get (g_nodes (snd (replay_data d cancelled_graph))) 2) = Some Task_Completed \<and>
     \<not> transition_allowed Task_Cancelled Task_Completed"
proof (intro exI conjI)
  let ?w = "rival_world [sample_event 1 sample_created] (Ev_Attempt_Started (Inr sample_attempt))"
  let ?d = "Ev_Attempt_Finished (Inr 20) 2 (Inr At_Completed) (Inr budget_default) None (Inr NotRetryable)
      (Some (JInt 1)) (Inr []) (Some 9)"
  show "synced idle_graph (stream_of (w_store ?w) 1)"
    using idle_graph_synced by (simp add: rival_world_def stream_of_def)
  show "finish_build (\<lambda>_. None) 20 (outcome_completed budget_default (JInt 1) 9) cancelled_graph = Inr ?d"
    by (simp add: finish_build_def outcome_completed_def get_attempt_def get_node_def cancelled_graph_def
        running_defs is_live_def contract_parse_def)
  show "map_option tn_state (omap_get (g_nodes (snd (replay_data ?d cancelled_graph))) 2) = Some Task_Completed"
    by (simp add: cancelled_graph_def running_defs replay_attempt_finished_def need_def decoded_def
        get_attempt_def get_node_def Let_def on_node_def on_attempt_def omap_modify_def on_runtime_def
        settle_def task_state_after_def)
qed (rule cancel_race | simp add: cancelled_graph_def)+

section \<open>A retry that fences its successor\<close>

text \<open>
  A retry decided on a stale view fences the attempt that replaced the one it retries: once
  the superseding event for an older attempt is in the log, the task names no attempt at all,
  the live attempt that was current stays live, and whatever result that attempt brings is refused.
\<close>

theorem stale_retry_fences_successor:
  assumes "supersede_build old g = Inr d" and "omap_get (g_attempts g) old = Some t"
    and "omap_get (g_attempts g) a = Some u" and "ta_task u = ta_task t" and "a \<noteq> old"
    and "omap_get (g_nodes g) (ta_task t) = Some n" and "rt_current_attempt (tn_runtime n) = Some a"
    and "is_live (ta_state u)"
  shows "omap_get (g_attempts (snd (replay_data d g))) a = Some u \<and>
    map_option (\<lambda>n. (tn_state n, rt_current_attempt (tn_runtime n)))
      (omap_get (g_nodes (snd (replay_data d g))) (ta_task t)) = Some (tn_state n, None) \<and>
    finish_build parse_json a outcome (snd (replay_data d g)) = Inl (FencedAttempt a)"
proof -
  have d: "d = Ev_Superseded (Inr old) (ta_task t)"
    using assms(1,2) by (simp add: supersede_build_def get_attempt_def)
  obtain h where h: "snd (replay_data d g) = h" "omap_get (g_attempts h) a = Some u"
    "omap_get (g_nodes h) (ta_task t) =
       Some (on_runtime (\<lambda>r. r\<lparr>rt_current_attempt := None\<rparr>) (n\<lparr>tn_lease_expires_at_ms := None\<rparr>))"
    using assms(2-6) by (simp add: d replay_attempt_superseded_def need_def decoded_def get_attempt_def)
  have "finish_build parse_json a outcome h = Inl (FencedAttempt a)"
    using h(2,3) assms(4,8) by (simp add: finish_build_def get_attempt_def get_node_def)
  with h show ?thesis by simp
qed

definition retried_graph :: graph where
  "retried_graph = sample_running\<lparr>g_attempts :=
     [(19, sample_attempt\<lparr>ta_id := 19, ta_state := At_Failed, ta_retryable := Retryable\<rparr>), (20, sample_attempt)]\<rparr>"

theorem stale_retry_fences_successor_witness:
  "finish_build (\<lambda>_. None) 20 (outcome_completed budget_default (JInt 1) 9)
     (snd (replay_data (Ev_Superseded (Inr 19) 2) retried_graph)) = Inl (FencedAttempt 20)"
proof -
  have "supersede_build 19 retried_graph = Inr (Ev_Superseded (Inr 19) 2)"
    by (simp add: supersede_build_def get_attempt_def retried_graph_def sample_attempt_def)
  from stale_retry_fences_successor [OF this, where a = 20 and u = sample_attempt] show ?thesis
    by (simp add: retried_graph_def running_defs is_live_def)
qed

end
