(* ===== verification/Decimal.thy ===== *)
theory Decimal
  imports Base
begin

text \<open>
  Decimal numbers as Rust prints and parses them: \<open>format!("{n}")\<close> of an unsigned value and
  \<open>str::parse::<u64>\<close>, which takes an optional plus sign and digits and refuses what does not fit.
\<close>

definition digit_char :: "nat \<Rightarrow> char" where
  "digit_char n = char_of (48 + n)"

fun print_nat :: "nat \<Rightarrow> string" where
  "print_nat n = (if n < 10 then [digit_char n] else print_nat (n div 10) @ [digit_char (n mod 10)])"

declare print_nat.simps [simp del]

definition digit_of :: "char \<Rightarrow> nat option" where
  "digit_of c = (let n = of_char c in if 48 \<le> n \<and> n \<le> 57 then Some (n - 48) else None)"

fun digits_value :: "nat \<Rightarrow> string \<Rightarrow> nat option" where
  "digits_value acc [] = Some acc"
| "digits_value acc (c # s) = (case digit_of c of None \<Rightarrow> None | Some d \<Rightarrow> digits_value (10 * acc + d) s)"

definition parse_u64 :: "string \<Rightarrow> nat option" where
  "parse_u64 s =
     (let digits = (case s of [] \<Rightarrow> [] | c # rest \<Rightarrow> if c = CHR ''+'' then rest else s)
      in if digits = [] then None
         else case digits_value 0 digits of
                None \<Rightarrow> None
              | Some n \<Rightarrow> if n \<le> u64_max then Some n else None)"

lemma digit_of_char [simp]: "n < 10 \<Longrightarrow> digit_of (digit_char n) = Some n"
  by (simp add: digit_of_def digit_char_def Let_def)

lemma digit_char_neq [simp]:
  "n < 10 \<Longrightarrow> digit_char n \<noteq> CHR ''+''" "n < 10 \<Longrightarrow> digit_char n \<noteq> CHR ''-''"
proof -
  have "digit_of CHR ''+'' = None" "digit_of CHR ''-'' = None"
    by (simp_all add: digit_of_def Let_def)
  then show "n < 10 \<Longrightarrow> digit_char n \<noteq> CHR ''+''" "n < 10 \<Longrightarrow> digit_char n \<noteq> CHR ''-''"
    by (metis digit_of_char option.distinct(1))+
qed

lemma digits_value_append:
  "digits_value acc (s @ t) = Option.bind (digits_value acc s) (\<lambda>n. digits_value n t)"
  by (induction acc s rule: digits_value.induct) (auto split: option.split)

lemma digits_value_print: "digits_value 0 (print_nat n) = Some n"
proof (induction n rule: print_nat.induct)
  case (1 n)
  then show ?case
    by (subst print_nat.simps) (simp add: digits_value_append)
qed

lemma print_nat_nonempty [simp]: "print_nat n \<noteq> []"
  by (subst print_nat.simps) simp

lemma print_nat_digits: "c \<in> set (print_nat n) \<Longrightarrow> \<exists>d<10. c = digit_char d"
proof (induction n rule: print_nat.induct)
  case (1 n)
  show ?case
  proof (cases "n < 10")
    case True
    with 1(2) show ?thesis by (auto simp: print_nat.simps [of n])
  next
    case False
    from 1(2) False have "c \<in> set (print_nat (n div 10)) \<or> c = digit_char (n mod 10)"
      by (subst (asm) print_nat.simps) auto
    moreover have "n mod 10 < 10" by simp
    ultimately show ?thesis using 1(1) [OF False] by blast
  qed
qed

lemma parse_print: "n \<le> u64_max \<Longrightarrow> parse_u64 (print_nat n) = Some n"
proof -
  assume "n \<le> u64_max"
  have "hd (print_nat n) \<noteq> CHR ''+''"
    using print_nat_digits [of "hd (print_nat n)" n] by (metis digit_char_neq(1) hd_in_set print_nat_nonempty)
  then have "(case print_nat n of [] \<Rightarrow> [] | c # rest \<Rightarrow> if c = CHR ''+'' then rest else print_nat n) = print_nat n"
    by (cases "print_nat n") simp_all
  with \<open>n \<le> u64_max\<close> show ?thesis by (simp add: parse_u64_def digits_value_print)
qed

lemma print_nat_inj: "print_nat m = print_nat n \<Longrightarrow> m = n"
  by (metis digits_value_print option.inject)

lemma parse_u64_bound: "parse_u64 s = Some n \<Longrightarrow> n \<le> u64_max"
  by (auto simp: parse_u64_def Let_def split: if_splits option.splits)

end
