(* ===== verification/Todo.thy ===== *)
theory Todo
  imports Task_Types Decimal "HOL-Library.Multiset"
begin

text \<open>
  The checklist of a session: \<^verbatim>\<open>crates/arsy-kernel/src/todo.rs\<close>. Like the task graph it is a
  projection of the session's stream; unlike the graph it changes its own copy after an append
  instead of replaying the event it wrote, and its commands are not rebuilt after a conflict.
\<close>

section \<open>Items\<close>

fun todo_status_str :: "todo_status \<Rightarrow> string" where
  "todo_status_str Todo_Pending = ''pending''"
| "todo_status_str Todo_InProgress = ''in_progress''"
| "todo_status_str Todo_Completed = ''completed''"
| "todo_status_str Todo_Cancelled = ''cancelled''"

definition todo_status_parse :: "string \<Rightarrow> todo_status option" where
  "todo_status_parse value =
     (if value = ''pending'' then Some Todo_Pending
      else if value = ''in_progress'' then Some Todo_InProgress
      else if value = ''completed'' then Some Todo_Completed
      else if value = ''cancelled'' then Some Todo_Cancelled
      else None)"

lemma todo_status_parse_str: "todo_status_parse (todo_status_str s) = Some s"
  by (cases s) (simp_all add: todo_status_parse_def)

definition is_settled :: "todo_status \<Rightarrow> bool" where
  "is_settled s \<longleftrightarrow> s = Todo_Completed \<or> s = Todo_Cancelled"

definition blocked_by :: "todo_item \<Rightarrow> todo_item list \<Rightarrow> string list" where
  "blocked_by item items =
     filter (\<lambda>i. case find (\<lambda>other. td_id other = i) items of
                   None \<Rightarrow> True | Some other \<Rightarrow> \<not> is_settled (td_status other))
       (td_depends_on item)"

datatype todo_error =
  Todo_Empty
| Todo_Unknown string
| Todo_Blocked string "string list"
| Todo_Order
| Todo_Overflow
| Todo_Contended
| Todo_Store store_error

record todo_list =
  tl_session :: session_id
  tl_actor :: principal
  tl_version :: nat
  tl_items :: "todo_item list"
  tl_next_id :: nat

record todo_snapshot =
  ts_items :: "todo_item list"
  ts_total :: nat
  ts_completed :: nat
  ts_current :: "string option"

definition snapshot :: "todo_list \<Rightarrow> todo_snapshot" where
  "snapshot l =
     \<lparr>ts_items = tl_items l, ts_total = length (tl_items l),
      ts_completed = length (filter (\<lambda>i. td_status i = Todo_Completed) (tl_items l)),
      ts_current = map_option td_id (find (\<lambda>i. \<not> is_settled (td_status i)) (tl_items l))\<rparr>"

section \<open>Replaying\<close>

text \<open>\<open>id.rsplit('-').next()\<close> is what follows the last dash, or all of the text.\<close>

definition numeric_suffix :: "string \<Rightarrow> nat" where
  "numeric_suffix i =
     (case parse_u64 (rev (takeWhile (\<lambda>c. c \<noteq> CHR ''-'') (rev i))) of None \<Rightarrow> 0 | Some n \<Rightarrow> n)"

definition todo_put :: "todo_item \<Rightarrow> todo_item list \<Rightarrow> todo_item list" where
  "todo_put item items =
     (case index_of (\<lambda>held. td_id held = td_id item) items of
        Some position \<Rightarrow> items[position := item]
      | None \<Rightarrow> items @ [item])"

definition replay_item :: "todo_item option \<Rightarrow> todo_list \<Rightarrow> todo_list" where
  "replay_item item l =
     (case item of
        None \<Rightarrow> l
      | Some item \<Rightarrow>
          l\<lparr>tl_next_id := max (tl_next_id l) (numeric_suffix (td_id item)),
            tl_items := todo_put item (tl_items l)\<rparr>)"

text \<open>The place an item is sorted to: \<open>unwrap_or(usize::MAX)\<close> where the order does not name it.\<close>

definition order_place :: "string list \<Rightarrow> todo_item \<Rightarrow> nat" where
  "order_place order item =
     (case index_of (\<lambda>i. i = td_id item) order of None \<Rightarrow> u64_max | Some n \<Rightarrow> n)"

definition replay_todo_data :: "session_event \<Rightarrow> todo_list \<Rightarrow> todo_list" where
  "replay_todo_data data l =
     (case data of
        Todo_Created item _ _ \<Rightarrow> replay_item item l
      | Todo_Updated item \<Rightarrow> replay_item item l
      | Todo_Reordered order \<Rightarrow> l\<lparr>tl_items := sort_key (order_place order) (tl_items l)\<rparr>
      | _ \<Rightarrow> l)"

definition replay_todo :: "session_event envelope \<Rightarrow> todo_list \<Rightarrow> todo_list" where
  "replay_todo e l =
     (case ev_payload e of Artifact _ _ _ \<Rightarrow> l | Inline data \<Rightarrow> replay_todo_data data l)"

definition todo_seen :: "session_event envelope \<Rightarrow> (todo_list, todo_error, unit) effect" where
  "todo_seen e l = (Inr (), replay_todo e l)"

definition set_todo_version :: "nat \<Rightarrow> todo_list \<Rightarrow> todo_list" where
  "set_todo_version v l = l\<lparr>tl_version := v\<rparr>"

interpretation checklist: projection todo_seen set_todo_version
  by unfold_locales
    (auto simp: todo_seen_def set_todo_version_def replay_todo_def replay_todo_data_def replay_item_def
      split: event_payload.split session_event.split option.split)

section \<open>Commands\<close>

type_synonym todo_sys = "todo_list \<times> session_event world"
type_synonym 'a todo_command = "(todo_sys, todo_error, 'a) effect"

definition todo_catch_up :: "unit todo_command" where
  "todo_catch_up = (\<lambda>(l, w).
     (case catch_up_with todo_seen set_todo_version Todo_Overflow Todo_Store
             (w_store w) (tl_session l) (tl_version l) l of
        (r, l') \<Rightarrow> (r, (l', w))))"

definition todo_empty :: "session_id \<Rightarrow> principal \<Rightarrow> todo_list" where
  "todo_empty session actor =
     \<lparr>tl_session = session, tl_actor = actor, tl_version = 0, tl_items = [], tl_next_id = 0\<rparr>"

definition todo_open :: "session_id \<Rightarrow> principal \<Rightarrow> session_event world \<Rightarrow> todo_error + todo_list" where
  "todo_open session actor w =
     (case todo_catch_up (todo_empty session actor, w) of
        (Inl e, _) \<Rightarrow> Inl e
      | (Inr _, (l, _)) \<Rightarrow> Inr l)"

text \<open>The tries that are left; the code makes two and catches up between them.\<close>

primrec todo_record_loop :: "nat \<Rightarrow> session_event \<Rightarrow> unit todo_command" where
  "todo_record_loop 0 payload = raise Todo_Contended"
| "todo_record_loop (Suc n) payload = (\<lambda>(l, w).
     need (ok_or Todo_Overflow (checked_add (tl_version l) 1)) (\<lambda>sequence (l, w).
       (let (correlation, w1) = draw_uuid w;
            (event, w2) = envelope_new (tl_session l) sequence (tl_actor l) None correlation 1
                            (event_kind payload) (Inline payload) w1;
            (answer, w3) = world_append (tl_session l) (tl_version l) [event] w2
        in case answer of
             Inr version \<Rightarrow> (Inr (), (l\<lparr>tl_version := version\<rparr>, w3))
           | Inl e \<Rightarrow>
               if is_conflict e \<and> n > 0
               then bindE todo_catch_up (\<lambda>_. todo_record_loop n payload) (l, w3)
               else (Inl (Todo_Store e), (l, w3)))) (l, w))"

definition todo_record :: "session_event \<Rightarrow> unit todo_command" where
  "todo_record payload = todo_record_loop 2 payload"

text \<open>
  \<open>self.next_id += 1\<close> on an unsigned 64-bit counter: a release build wraps around. The counter
  keeps its new value when the append is refused.
\<close>

definition todo_add :: "string \<Rightarrow> string list \<Rightarrow> todo_author \<Rightarrow> todo_item todo_command" where
  "todo_add given depends_on author = (\<lambda>(l, w).
     (let text = trim given
      in if text = [] then (Inl Todo_Empty, (l, w))
         else case find (\<lambda>i. i \<notin> td_id ` set (tl_items l)) depends_on of
                Some i \<Rightarrow> (Inl (Todo_Unknown i), (l, w))
              | None \<Rightarrow>
                  (let next = (tl_next_id l + 1) mod (u64_max + 1);
                       item = \<lparr>td_id = ''todo-'' @ print_nat next, td_text = text,
                               td_status = Todo_Pending, td_depends_on = depends_on, td_author = author\<rparr>
                   in bindE (todo_record (Todo_Created (Some item) None None))
                        (\<lambda>_ (l, w). (Inr item, (l\<lparr>tl_items := tl_items l @ [item]\<rparr>, w)))
                        (l\<lparr>tl_next_id := next\<rparr>, w))))"

definition todo_update :: "string \<Rightarrow> todo_status option \<Rightarrow> string option \<Rightarrow> todo_item todo_command" where
  "todo_update i status text = (\<lambda>(l, w).
     (case index_of (\<lambda>item. td_id item = i) (tl_items l) of
        None \<Rightarrow> (Inl (Todo_Unknown i), (l, w))
      | Some position \<Rightarrow>
          (let item = tl_items l ! position;
               blocked = blocked_by item (tl_items l)
           in if status \<in> {Some Todo_InProgress, Some Todo_Completed} \<and> blocked \<noteq> []
              then (Inl (Todo_Blocked i blocked), (l, w))
              else
                (let retitled = (case text of None \<Rightarrow> td_text item
                                 | Some t \<Rightarrow> if trim t = [] then td_text item else trim t);
                     updated = item\<lparr>td_status := (case status of None \<Rightarrow> td_status item | Some s \<Rightarrow> s),
                                    td_text := retitled\<rparr>
                 in bindE (todo_record (Todo_Updated (Some updated)))
                      (\<lambda>_ (l, w). (Inr updated, (l\<lparr>tl_items := (tl_items l)[position := updated]\<rparr>, w)))
                      (l, w)))))"

definition todo_cancel :: "string \<Rightarrow> todo_item todo_command" where
  "todo_cancel i = todo_update i (Some Todo_Cancelled) None"

definition todo_reorder :: "string list \<Rightarrow> unit todo_command" where
  "todo_reorder order = (\<lambda>(l, w).
     if sort (map td_id (tl_items l)) \<noteq> sort order then (Inl Todo_Order, (l, w))
     else
       (let reordered = map (\<lambda>i. the (find (\<lambda>item. td_id item = i) (tl_items l))) order
        in bindE (todo_record (Todo_Reordered order))
             (\<lambda>_ (l, w). (Inr (), (l\<lparr>tl_items := reordered\<rparr>, w))) (l, w)))"

end
