(* ===== verification/Todo_Laws.thy ===== *)
theory Todo_Laws
  imports Todo
begin

text \<open>
  What the checklist keeps: distinct identifiers below the counter, and, when nobody else appends
  in between, a local copy that is exactly what replaying the stream gives.
\<close>

section \<open>Identifiers\<close>

definition todo_ok :: "todo_list \<Rightarrow> bool" where
  "todo_ok l \<longleftrightarrow>
     distinct (map td_id (tl_items l)) \<and>
     (\<forall>item\<in>set (tl_items l). numeric_suffix (td_id item) \<le> tl_next_id l)"

lemma todo_put_ids:
  "map td_id (todo_put item items) =
     (if td_id item \<in> td_id ` set items then map td_id items else map td_id items @ [td_id item])"
proof (cases "index_of (\<lambda>held. td_id held = td_id item) items")
  case None
  then have "td_id item \<notin> td_id ` set items" by auto
  then show ?thesis unfolding todo_put_def None by simp
next
  case (Some i)
  note at = index_of_SomeD [OF Some]
  then have "map td_id (items[i := item]) = map td_id items"
    by (simp add: map_update list_update_same_conv)
  moreover have "td_id item \<in> td_id ` set items" using at by (metis image_eqI nth_mem)
  ultimately show ?thesis by (simp add: todo_put_def Some)
qed

lemma todo_put_new:
  assumes "td_id item \<notin> td_id ` set items"
  shows "todo_put item items = items @ [item]"
proof -
  have "index_of (\<lambda>held. td_id held = td_id item) items = None"
    unfolding index_of_None using assms by (auto simp: image_iff)
  then show ?thesis unfolding todo_put_def by (simp only: option.case)
qed

lemma set_todo_put: "set (todo_put item items) \<subseteq> insert item (set items)"
  by (auto simp: todo_put_def split: option.splits dest: set_update_subset_insert [THEN subsetD])

lemma replay_todo_ok:
  assumes "todo_ok l"
  shows "todo_ok (replay_todo e l)"
proof -
  have put: "todo_ok (replay_item item l)" for item
    using assms set_todo_put [of _ "tl_items l"]
    by (fastforce simp: todo_ok_def replay_item_def todo_put_ids le_max_iff_disj split: option.split)
  have order: "todo_ok (l\<lparr>tl_items := sort_key f (tl_items l)\<rparr>)" for f :: "todo_item \<Rightarrow> nat"
    using assms by (simp add: todo_ok_def distinct_map)
  from put order assms show ?thesis
    by (simp add: replay_todo_def replay_todo_data_def split: event_payload.split session_event.split)
qed

definition todo_project :: "session_id \<Rightarrow> principal \<Rightarrow> session_event envelope list \<Rightarrow> todo_list" where
  "todo_project k p es = fold replay_todo es (todo_empty k p)"

lemma todo_project_ok: "todo_ok (todo_project k p es)"
proof -
  have "todo_ok (fold replay_todo es l)" if "todo_ok l" for l
    using that by (induction es arbitrary: l) (simp_all add: replay_todo_ok)
  then show ?thesis by (simp add: todo_project_def todo_ok_def todo_empty_def)
qed

lemma replay_todo_header [simp]:
  "tl_session (replay_todo e l) = tl_session l" "tl_actor (replay_todo e l) = tl_actor l"
  "tl_version (replay_todo e l) = tl_version l"
  by (simp_all add: replay_todo_def replay_todo_data_def replay_item_def
      split: event_payload.split session_event.split option.split)

lemma todo_project_header [simp]:
  "tl_session (todo_project k p es) = k" "tl_actor (todo_project k p es) = p"
  "tl_version (todo_project k p es) = 0"
proof -
  have "tl_session (fold replay_todo es l) = tl_session l \<and> tl_actor (fold replay_todo es l) = tl_actor l \<and>
      tl_version (fold replay_todo es l) = tl_version l" for l
    by (induction es arbitrary: l) simp_all
  then show "tl_session (todo_project k p es) = k" "tl_actor (todo_project k p es) = p"
    "tl_version (todo_project k p es) = 0"
    by (simp_all add: todo_project_def todo_empty_def)
qed

text \<open>The local copy is what the stream says.\<close>

definition todo_in_step :: "todo_list \<Rightarrow> session_event envelope list \<Rightarrow> bool" where
  "todo_in_step l es \<longleftrightarrow>
     l = set_todo_version (length es) (todo_project (tl_session l) (tl_actor l) es)"

lemma todo_in_stepD:
  assumes "todo_in_step l es"
  shows "tl_version l = length es" "todo_ok l"
proof -
  from assms have l: "l = set_todo_version (length es) (todo_project (tl_session l) (tl_actor l) es)"
    by (simp add: todo_in_step_def)
  from arg_cong [OF l, of tl_version] show "tl_version l = length es" by (simp add: set_todo_version_def)
  have "todo_ok (set_todo_version n l') = todo_ok l'" for n l' by (simp add: todo_ok_def set_todo_version_def)
  with todo_project_ok l show "todo_ok l" by metis
qed

lemma replay_todo_version: "replay_todo e (set_todo_version n l) = set_todo_version n (replay_todo e l)"
  using checklist.replay_version [of e n l] by (simp add: todo_seen_def)

lemma todo_in_step_next:
  assumes "todo_in_step l es" and "l' = set_todo_version (Suc (length es)) (replay_todo e l)"
  shows "todo_in_step l' (es @ [e])"
proof -
  from assms(1) have l: "l = set_todo_version (length es) (todo_project (tl_session l) (tl_actor l) es)"
    by (simp add: todo_in_step_def)
  have hdr: "tl_session l' = tl_session l" "tl_actor l' = tl_actor l"
    by (simp_all add: assms(2) set_todo_version_def)
  have "replay_todo e l = set_todo_version (length es)
      (replay_todo e (todo_project (tl_session l) (tl_actor l) es))"
    by (subst (1) l) (rule replay_todo_version)
  then show ?thesis
    unfolding todo_in_step_def hdr
    by (simp add: assms(2) todo_project_def) (simp add: set_todo_version_def)
qed

section \<open>Recording without rivals\<close>

lemma payload_validate_no_conflict: "payload_validate bytes_of p = Inl e \<Longrightarrow> \<not> is_conflict e"
  by (cases p) (auto split: sum.splits if_splits)

lemma check_batch_no_conflict: "check_batch bytes_of k v n ids es = Inl e \<Longrightarrow> \<not> is_conflict e"
  by (induction bytes_of k v n ids es rule: check_batch.induct)
    (auto simp: validate_for_append_def and_then_def payload_validate_no_conflict
      split: option.splits if_splits sum.splits)

lemma append_no_conflict:
  assumes "store_ok s" and "v = length (stream_of s k)" and "append_events bytes_of k v es s = (Inl e, s')"
  shows "\<not> is_conflict e"
proof -
  have "last_sequence (stream_of s k) = v" "\<not> ms_poisoned s"
    using assms(1,2) by (simp_all add: store_ok_def stream_ok_def last_sequence_numbered)
  with assms(3) have "check_batch bytes_of k v 0 (map ev_id (stream_of s k)) es = Inl e"
    by (cases "check_batch bytes_of k v 0 (map ev_id (stream_of s k)) es")
      (simp_all add: append_events_def Let_def split: if_splits)
  then show ?thesis by (rule check_batch_no_conflict)
qed

lemma todo_record_calm:
  assumes ok: "store_ok (w_store w)" and calm: "w_rivals w = []"
    and version: "tl_version l = length (stream_of (w_store w) (tl_session l))"
    and run: "todo_record payload (l, w) = (Inr (), (l', w'))"
  shows "\<exists>event. ev_payload event = Inline payload \<and>
    l' = set_todo_version (Suc (tl_version l)) l \<and>
    stream_of (w_store w') (tl_session l) = stream_of (w_store w) (tl_session l) @ [event] \<and>
    store_ok (w_store w') \<and> w_rivals w' = []"
proof -
  from run obtain sequence where sq: "checked_add (tl_version l) 1 = Some sequence"
    by (cases "checked_add (tl_version l) 1") (auto simp: todo_record_def numeral_2_eq_2)
  obtain correlation w1 where d: "draw_uuid w = (correlation, w1)" by fastforce
  obtain event w2 where n: "envelope_new (tl_session l) sequence (tl_actor l) None correlation 1
      (event_kind payload) (Inline payload) w1 = (event, w2)" by fastforce
  have w2: "w_store w2 = w_store w" "w_rivals w2 = []" "ev_payload event = Inline payload"
    using d n calm by (auto simp: draw_uuid_def envelope_new_def Let_def)
  obtain answer s where ap: "append_events (w_bytes_of w2) (tl_session l) (tl_version l) [event] (w_store w) =
      (answer, s)" by fastforce
  have wa: "world_append (tl_session l) (tl_version l) [event] w2 = (answer, w2\<lparr>w_store := s\<rparr>)"
    using w2 ap by (simp add: world_append_def rival_turn_def)
  show ?thesis
  proof (cases answer)
    case (Inr v)
    from memory.append_Inr [OF ok ap [unfolded Inr]] memory.append_keeps [OF ok ap] run sq d n wa Inr w2
    show ?thesis
      by (auto simp: todo_record_def numeral_2_eq_2 set_todo_version_def)
  next
    case (Inl e)
    have "\<not> is_conflict e"
      using append_no_conflict [OF ok version ap [unfolded Inl]] .
    with run sq d n wa Inl show ?thesis
      by (simp add: todo_record_def numeral_2_eq_2)
  qed
qed

section \<open>Commands without rivals\<close>

text \<open>A checklist in step with its stream, in a world where nobody else is about to append.\<close>

definition todo_settled :: "todo_list \<Rightarrow> session_event world \<Rightarrow> bool" where
  "todo_settled l w \<longleftrightarrow>
     store_ok (w_store w) \<and> w_rivals w = [] \<and> todo_in_step l (stream_of (w_store w) (tl_session l))"

definition todo_kept :: "todo_list \<Rightarrow> todo_list \<Rightarrow> session_event world \<Rightarrow> bool" where
  "todo_kept l l' w' \<longleftrightarrow>
     todo_settled l' w' \<and> tl_session l' = tl_session l \<and> tl_actor l' = tl_actor l"

lemma numeric_suffix_print:
  assumes "n \<le> u64_max"
  shows "numeric_suffix (''todo-'' @ print_nat n) = n"
proof -
  have "CHR ''-'' \<notin> set (print_nat n)"
    using print_nat_digits [of "CHR ''-''" n] digit_char_neq(2) by metis
  then have "takeWhile (\<lambda>c. c \<noteq> CHR ''-'') (rev (print_nat n) @ CHR ''-'' # CHR ''o'' # CHR ''d'' # CHR ''o'' # [CHR ''t'']) =
      rev (print_nat n)"
    by (subst takeWhile_append2) auto
  with assms show ?thesis by (simp add: numeric_suffix_def parse_print)
qed

lemma todo_fresh:
  assumes "todo_ok l" and "tl_next_id l < u64_max"
  shows "''todo-'' @ print_nat (Suc (tl_next_id l)) \<notin> td_id ` set (tl_items l)"
proof
  assume "''todo-'' @ print_nat (Suc (tl_next_id l)) \<in> td_id ` set (tl_items l)"
  then obtain item where "item \<in> set (tl_items l)" "td_id item = ''todo-'' @ print_nat (Suc (tl_next_id l))"
    by (metis imageE)
  with assms numeric_suffix_print [of "Suc (tl_next_id l)"] show False
    by (auto simp: todo_ok_def)
qed

lemma todo_add_settled:
  assumes settled: "todo_settled l w"
    and next_ok: "tl_next_id l < u64_max"
    and run: "todo_add text deps author (l, w) = (Inr item, (l', w'))"
  shows "todo_kept l l' w'"
proof -
  from settled have ok: "store_ok (w_store w)" and calm: "w_rivals w = []"
    and step: "todo_in_step l (stream_of (w_store w) (tl_session l))" by (simp_all add: todo_settled_def)
  let ?next = "Suc (tl_next_id l)"
  let ?item = "\<lparr>td_id = ''todo-'' @ print_nat ?next, td_text = trim text, td_status = Todo_Pending,
      td_depends_on = deps, td_author = author\<rparr>"
  let ?l1 = "l\<lparr>tl_next_id := ?next\<rparr>"
  have "(tl_next_id l + 1) mod (u64_max + 1) = ?next" using next_ok by simp
  with run obtain l2 where rec: "todo_record (Todo_Created (Some ?item) None None) (?l1, w) = (Inr (), (l2, w'))"
    and l': "l' = l2\<lparr>tl_items := tl_items l2 @ [?item]\<rparr>"
    by (auto simp: todo_add_def Let_def bindE_def split: if_splits option.splits prod.splits sum.splits)
  have "tl_version ?l1 = length (stream_of (w_store w) (tl_session ?l1))"
    using todo_in_stepD(1) [OF step] by simp
  from todo_record_calm [OF ok calm this rec] obtain event where e: "ev_payload event = Inline (Todo_Created (Some ?item) None None)"
    and l2: "l2 = set_todo_version (Suc (tl_version l)) ?l1"
    and es: "stream_of (w_store w') (tl_session l) = stream_of (w_store w) (tl_session l) @ [event]"
    and after: "store_ok (w_store w')" "w_rivals w' = []"
    by auto
  have "td_id ?item \<notin> td_id ` set (tl_items l)"
    using todo_fresh [OF todo_in_stepD(2) [OF step] next_ok] by simp
  then have "todo_put ?item (tl_items l) = tl_items l @ [?item]" by (rule todo_put_new)
  moreover have "numeric_suffix (td_id ?item) = ?next"
    using numeric_suffix_print [of ?next] next_ok by simp
  ultimately have "replay_todo event l = l\<lparr>tl_next_id := ?next, tl_items := tl_items l @ [?item]\<rparr>"
    by (simp add: replay_todo_def e replay_todo_data_def replay_item_def)
  then have "l' = set_todo_version (Suc (length (stream_of (w_store w) (tl_session l)))) (replay_todo event l)"
    using todo_in_stepD(1) [OF step] by (simp add: l' l2 set_todo_version_def)
  moreover from todo_in_step_next [OF step this]
  have "todo_in_step l' (stream_of (w_store w') (tl_session l))" by (simp add: es)
  ultimately show ?thesis
    using after by (simp add: todo_kept_def todo_settled_def set_todo_version_def)
qed

lemma todo_update_settled:
  assumes settled: "todo_settled l w"
    and run: "todo_update i status text (l, w) = (Inr item, (l', w'))"
  shows "todo_kept l l' w'"
proof -
  from settled have ok: "store_ok (w_store w)" and calm: "w_rivals w = []"
    and step: "todo_in_step l (stream_of (w_store w) (tl_session l))" by (simp_all add: todo_settled_def)
  from run obtain position where pos: "index_of (\<lambda>item. td_id item = i) (tl_items l) = Some position"
    by (cases "index_of (\<lambda>item. td_id item = i) (tl_items l)") (simp_all add: todo_update_def)
  note at = index_of_SomeD [OF pos]
  from run pos obtain l2 where rec: "todo_record (Todo_Updated (Some item)) (l, w) = (Inr (), (l2, w'))"
    and l': "l' = l2\<lparr>tl_items := (tl_items l2)[position := item]\<rparr>" and same: "td_id item = i"
    using at by (auto simp: todo_update_def Let_def bindE_def split: if_splits prod.splits sum.splits)
  from todo_record_calm [OF ok calm todo_in_stepD(1) [OF step] rec]
  obtain event where e: "ev_payload event = Inline (Todo_Updated (Some item))"
    and l2: "l2 = set_todo_version (Suc (tl_version l)) l"
    and es: "stream_of (w_store w') (tl_session l) = stream_of (w_store w) (tl_session l) @ [event]"
    and after: "store_ok (w_store w')" "w_rivals w' = []"
    by auto
  have "numeric_suffix (td_id item) \<le> tl_next_id l"
    using todo_in_stepD(2) [OF step] at same by (metis nth_mem todo_ok_def)
  then have "replay_todo event l = l\<lparr>tl_items := (tl_items l)[position := item]\<rparr>"
    by (simp add: replay_todo_def e replay_todo_data_def replay_item_def todo_put_def same pos max_absorb1)
  then have "l' = set_todo_version (Suc (length (stream_of (w_store w) (tl_session l)))) (replay_todo event l)"
    using todo_in_stepD(1) [OF step] by (simp add: l' l2 set_todo_version_def)
  moreover from todo_in_step_next [OF step this]
  have "todo_in_step l' (stream_of (w_store w') (tl_session l))" by (simp add: es)
  ultimately show ?thesis
    using after by (simp add: todo_kept_def todo_settled_def set_todo_version_def)
qed

text \<open>Sorting by the place in a complete order is picking the items in that order.\<close>

lemma sort_by_order:
  assumes "distinct (map td_id items)" and "mset (map td_id items) = mset order"
  shows "sort_key (order_place order) items = map (\<lambda>i. the (find (\<lambda>item. td_id item = i) items)) order"
    (is "_ = map ?pick order")
proof -
  have order: "distinct order" "set order = td_id ` set items"
    using assms by (metis mset_eq_imp_distinct_iff, metis mset_eq_setD set_map)
  have pick: "?pick (td_id item) = item" if held: "item \<in> set items" for item
  proof -
    obtain other where "find (\<lambda>x. td_id x = td_id item) items = Some other"
      using held by (cases "find (\<lambda>x. td_id x = td_id item) items") (auto simp: find_None_iff)
    moreover from this have "other = item"
      using held assms(1) by (auto simp: find_Some_iff distinct_map inj_on_def dest: nth_mem)
    ultimately show ?thesis by simp
  qed
  have named: "td_id (?pick i) = i" "?pick i \<in> set items" if "i \<in> set order" for i
    using that order(2) pick by auto
  have place: "order_place order (?pick (order ! j)) = j" if "j < length order" for j
  proof -
    have "index_of (\<lambda>x. x = order ! j) order = Some j"
      using index_of_distinct [of "\<lambda>x. x" order j] order(1) that by simp
    then show ?thesis using named(1) [of "order ! j"] that by (simp add: order_place_def)
  qed
  have places: "map (order_place order) (map ?pick order) = [0..<length order]"
    using place by (auto intro: nth_equalityI)
  have "item \<in> ?pick ` set order" if "item \<in> set items" for item
    using pick [OF that] that order(2) by (metis imageI)
  with named(2) have sets: "set (map ?pick order) = set items" by auto
  have "inj_on (order_place order) (set items)"
    unfolding sets [symmetric] using places by (metis distinct_map distinct_upt)
  moreover have "distinct (map (order_place order) (sort_key (order_place order) items))"
    using calculation assms(1) by (simp add: distinct_map)
  ultimately show ?thesis
    by (intro map_sorted_distinct_set_unique [where f = "order_place order"])
      (simp_all only: places sets set_sort Un_absorb sorted_sort_key sorted_upt distinct_upt)
qed

lemma sort_eq_mset: "sort xs = sort ys \<longleftrightarrow> mset xs = mset ys"
  by (metis mset_sort sorted_list_of_multiset_mset)

lemma todo_reorder_settled:
  assumes settled: "todo_settled l w"
    and run: "todo_reorder order (l, w) = (Inr (), (l', w'))"
  shows "todo_kept l l' w'"
proof -
  from settled have ok: "store_ok (w_store w)" and calm: "w_rivals w = []"
    and step: "todo_in_step l (stream_of (w_store w) (tl_session l))" by (simp_all add: todo_settled_def)
  let ?items = "map (\<lambda>i. the (find (\<lambda>item. td_id item = i) (tl_items l))) order"
  from run have perm: "mset (map td_id (tl_items l)) = mset order"
    by (simp add: todo_reorder_def sort_eq_mset split: if_splits)
  from run obtain l2 where rec: "todo_record (Todo_Reordered order) (l, w) = (Inr (), (l2, w'))"
    and l': "l' = l2\<lparr>tl_items := ?items\<rparr>"
    by (auto simp: todo_reorder_def Let_def bindE_def split: if_splits prod.splits sum.splits)
  from todo_record_calm [OF ok calm todo_in_stepD(1) [OF step] rec]
  obtain event where e: "ev_payload event = Inline (Todo_Reordered order)"
    and l2: "l2 = set_todo_version (Suc (tl_version l)) l"
    and es: "stream_of (w_store w') (tl_session l) = stream_of (w_store w) (tl_session l) @ [event]"
    and after: "store_ok (w_store w')" "w_rivals w' = []"
    by auto
  have "replay_todo event l = l\<lparr>tl_items := ?items\<rparr>"
    using sort_by_order [OF _ perm] todo_in_stepD(2) [OF step]
    by (simp add: replay_todo_def e replay_todo_data_def todo_ok_def)
  then have "l' = set_todo_version (Suc (length (stream_of (w_store w) (tl_session l)))) (replay_todo event l)"
    using todo_in_stepD(1) [OF step] by (simp add: l' l2 set_todo_version_def)
  moreover from todo_in_step_next [OF step this]
  have "todo_in_step l' (stream_of (w_store w') (tl_session l))" by (simp add: es)
  ultimately show ?thesis
    using after by (simp add: todo_kept_def todo_settled_def set_todo_version_def)
qed

section \<open>Opening\<close>

lemma todo_batch: "replay_batch todo_seen es l = (Inr (), fold replay_todo es l)"
  by (induction es arbitrary: l) (simp_all add: todo_seen_def)

lemma todo_open_in_step:
  assumes "store_ok (w_store w)" and "length (stream_of (w_store w) k) < u64_max"
  shows "\<exists>l. todo_open k p w = Inr l \<and> tl_session l = k \<and> tl_actor l = p \<and>
    todo_in_step l (stream_of (w_store w) k)"
proof -
  let ?es = "stream_of (w_store w) k"
  have "catch_up_with todo_seen set_todo_version Todo_Overflow Todo_Store (w_store w) k 0 (todo_empty k p) =
      (Inr (), if 0 < length ?es then set_todo_version (length ?es) (todo_project k p ?es) else todo_project k p ?es)"
    by (rule checklist.catch_up_is_replay [OF assms]) (simp_all add: todo_batch todo_project_def)
  moreover have "set_todo_version 0 (todo_project k p ?es) = todo_project k p ?es"
    using todo_project_header(3) [of k p ?es] by (simp add: set_todo_version_def)
  ultimately have "todo_open k p w = Inr (set_todo_version (length ?es) (todo_project k p ?es))"
    by (auto simp: todo_open_def todo_catch_up_def todo_empty_def)
  then show ?thesis
    by (simp add: todo_in_step_def) (simp add: set_todo_version_def)
qed

end
