(* ===== verification/Todo_Properties.thy ===== *)
theory Todo_Properties
  imports Todo_Laws
begin

text \<open>The properties of the checklist, and the small sessions their witnesses run on.\<close>

section \<open>A checklist survives being rebuilt\<close>

text \<open>The commands that change a checklist, where nobody else appends in between.\<close>

inductive todo_step :: "todo_sys \<Rightarrow> todo_sys \<Rightarrow> bool" where
  added: "todo_add text deps author (l, w) = (Inr item, s) \<Longrightarrow> tl_next_id l < u64_max \<Longrightarrow> todo_step (l, w) s"
| updated: "todo_update i status text (l, w) = (Inr item, s) \<Longrightarrow> todo_step (l, w) s"
| cancelled: "todo_cancel i (l, w) = (Inr item, s) \<Longrightarrow> todo_step (l, w) s"
| reordered: "todo_reorder order (l, w) = (Inr (), s) \<Longrightarrow> todo_step (l, w) s"

lemma todo_step_kept:
  assumes "todo_step (l, w) (l', w')" and "todo_settled l w"
  shows "todo_kept l l' w'"
  using assms
  by (cases rule: todo_step.cases)
    (auto simp: todo_cancel_def intro: todo_add_settled todo_update_settled todo_reorder_settled)

lemma todo_steps_kept:
  assumes "todo_step\<^sup>*\<^sup>* s t" and "todo_settled (fst s) (snd s)"
  shows "todo_kept (fst s) (fst t) (snd t)"
  using assms
proof (induction rule: rtranclp_induct)
  case base
  then show ?case by (simp add: todo_kept_def)
next
  case (step t u)
  then show ?case
    using todo_step_kept [of "fst t" "snd t" "fst u" "snd u"] by (simp add: todo_kept_def)
qed

text \<open>
  C14: A checklist survives its process: after any sequence of additions, updates, cancellations and
  reorderings that returned, opening the session again rebuilds exactly the list the commands left
  in memory, its order and its next number included, as long as no other holder appended meanwhile.
\<close>

theorem checklist_survives_reopening:
  assumes "store_ok (w_store w)" and "w_rivals w = []" and "length (stream_of (w_store w) k) < u64_max"
    and "todo_open k p w = Inr l" and "todo_step\<^sup>*\<^sup>* (l, w) (l', w')"
    and "length (stream_of (w_store w') k) < u64_max"
  shows "todo_open k p w' = Inr l'"
proof -
  from todo_open_in_step [OF assms(1,3), of p] assms(2,4,1)
  have start: "todo_settled l w" "tl_session l = k" "tl_actor l = p" by (auto simp: todo_settled_def)
  from todo_steps_kept [OF assms(5)] start
  have l': "todo_settled l' w'" "tl_session l' = k" "tl_actor l' = p" by (simp_all add: todo_kept_def)
  then obtain m where "todo_open k p w' = Inr m" "tl_session m = k" "tl_actor m = p"
    "todo_in_step m (stream_of (w_store w') k)"
    using todo_open_in_step [of w' k p] assms(6) by (auto simp: todo_settled_def)
  moreover have "m = l'"
    using calculation l' unfolding todo_settled_def todo_in_step_def by metis
  ultimately show ?thesis by simp
qed

definition todo_sample_world :: "(session_id \<times> session_event envelope list) list \<Rightarrow> session_event world" where
  "todo_sample_world rivals =
     \<lparr>w_store = memory_store_new, w_bytes_of = (\<lambda>_. Inr 100), w_uuid = (\<lambda>n. 1000 + n), w_drawn = 0,
      w_clock = 5, w_rivals = rivals\<rparr>"

definition todo_sample_item :: "string \<Rightarrow> todo_item" where
  "todo_sample_item text =
     \<lparr>td_id = ''todo-1'', td_text = text, td_status = Todo_Pending, td_depends_on = [], td_author = By_User\<rparr>"

text \<open>What runs a checklist command on a concrete world.\<close>

lemmas todo_run =
  todo_add_def todo_record_def todo_empty_def todo_sample_world_def todo_sample_item_def numeral_2_eq_2
  need_def ok_or_def bindE_def checked_add_def u64_max_def draw_uuid_def envelope_new_def world_append_def
  rival_turn_def append_events_def memory_store_new_def stream_of_def last_sequence_def Let_def
  validate_for_append_def max_inline_event_bytes_def print_nat.simps digit_char_def trim_def trim_start_def
  trim_end_def todo_catch_up_def catch_up_with.simps read_events_def max_catch_up_batch_def todo_seen_def
  replay_todo_def replay_todo_data_def replay_item_def todo_put_def numeric_suffix_def parse_u64_def
  digit_of_def set_todo_version_def current_version_def

lemma todo_sample_digit [simp]: "char_of (49 :: nat) = CHR ''1''"
  by (simp add: char_of_def bit_0)

lemma todo_sample_added:
  "fst (todo_add ''a'' [] By_User (todo_empty 1 System, todo_sample_world [])) = Inr (todo_sample_item ''a'')"
  "fst (snd (todo_add ''a'' [] By_User (todo_empty 1 System, todo_sample_world []))) =
     (todo_empty 1 System)\<lparr>tl_version := 1, tl_next_id := 1, tl_items := [todo_sample_item ''a'']\<rparr>"
  "length (stream_of (w_store (snd (snd (todo_add ''a'' [] By_User
      (todo_empty 1 System, todo_sample_world []))))) 1) = 1"
  by (simp_all add: todo_run)

theorem checklist_survives_reopening_witness:
  "todo_open 1 System (snd (snd (todo_add ''a'' [] By_User (todo_empty 1 System, todo_sample_world [])))) =
     Inr ((todo_empty 1 System)\<lparr>tl_version := 1, tl_next_id := 1, tl_items := [todo_sample_item ''a'']\<rparr>)"
proof -
  let ?w = "todo_sample_world []"
  let ?s = "snd (todo_add ''a'' [] By_User (todo_empty 1 System, ?w))"
  have start: "store_ok (w_store ?w)" "w_rivals ?w = []" "length (stream_of (w_store ?w) 1) < u64_max"
    by (simp_all add: todo_sample_world_def)
      (simp_all add: memory_store_new_def stream_of_def u64_max_def)
  have opened: "todo_open 1 System ?w = Inr (todo_empty 1 System)"
    by (simp add: todo_open_def todo_run)
  have "todo_add ''a'' [] By_User (todo_empty 1 System, ?w) = (Inr (todo_sample_item ''a''), ?s)"
    using todo_sample_added(1) by (simp only: prod_eq_iff fst_conv snd_conv)
  then have "todo_step (todo_empty 1 System, ?w) ?s"
    by (rule todo_step.added) (simp add: todo_empty_def u64_max_def)
  then have "todo_step\<^sup>*\<^sup>* (todo_empty 1 System, ?w) (fst ?s, snd ?s)" by simp
  from checklist_survives_reopening [OF start opened this] todo_sample_added(2,3) show ?thesis
    by (simp add: u64_max_def)
qed

section \<open>Dependencies\<close>

text \<open>
  An item is started or finished only when every item it depends on is on the list and is
  itself finished or dropped; asked for anything else, the command is refused with the identifiers
  that still block it and changes nothing.
\<close>

theorem blocked_items_do_not_start:
  assumes "todo_update i (Some s) text (l, w) = (r, t)" and "s \<in> {Todo_InProgress, Todo_Completed}"
    and "index_of (\<lambda>item. td_id item = i) (tl_items l) = Some position"
  shows "(\<exists>d\<in>set (td_depends_on (tl_items l ! position)).
       \<not> (\<exists>other. find (\<lambda>x. td_id x = d) (tl_items l) = Some other \<and> is_settled (td_status other))) \<longleftrightarrow>
    (\<exists>blocked. r = Inl (Todo_Blocked i blocked) \<and> blocked \<noteq> [] \<and> t = (l, w))"
proof -
  let ?item = "tl_items l ! position"
  have caught: "todo_catch_up s \<noteq> (Inl (Todo_Blocked j b), t)" for s t j b
  proof -
    obtain l w where s: "s = (l, w)" by fastforce
    have "fst (catch_up_with todo_seen set_todo_version Todo_Overflow Todo_Store st k v m) \<noteq> Inl (Todo_Blocked j b)"
      for st k v m
      by (induction todo_seen set_todo_version Todo_Overflow Todo_Store st k v m rule: catch_up_with.induct)
        (subst catch_up_with.simps, auto simp: todo_batch split: option.split sum.split)
    then show ?thesis by (simp add: s todo_catch_up_def split: prod.split) (metis fst_conv)
  qed
  have "todo_record_loop n payload s \<noteq> (Inl (Todo_Blocked j b), t)" for n payload s t j b
  proof (induction n arbitrary: s)
    case (Suc n)
    obtain l w where "s = (l, w)" by fastforce
    then show ?case
      using Suc caught
      by (auto simp: need_def Let_def bindE_def ok_or_def split: option.split prod.split sum.split)
  qed (simp add: raise_def)
  then have no_block: "todo_record payload s \<noteq> (Inl (Todo_Blocked j b), t)" for payload s t j b
    by (simp add: todo_record_def)
  have blocked: "blocked_by ?item (tl_items l) \<noteq> [] \<longleftrightarrow>
      (\<exists>d\<in>set (td_depends_on ?item).
        \<not> (\<exists>other. find (\<lambda>x. td_id x = d) (tl_items l) = Some other \<and> is_settled (td_status other)))"
    by (auto simp: blocked_by_def filter_empty_conv split: option.splits)
  show ?thesis
    unfolding blocked [symmetric]
    using assms no_block
    by (auto simp: todo_update_def Let_def bindE_def split: if_splits prod.splits sum.splits)
qed

theorem blocked_items_do_not_start_witness:
  "\<exists>blocked. fst (todo_update ''todo-1'' (Some Todo_InProgress) None
     ((todo_empty 1 System)\<lparr>tl_items := [(todo_sample_item ''a'')\<lparr>td_depends_on := [''z'']\<rparr>]\<rparr>, todo_sample_world []))
     = Inl (Todo_Blocked ''todo-1'' blocked)"
proof -
  let ?l = "(todo_empty 1 System)\<lparr>tl_items := [(todo_sample_item ''a'')\<lparr>td_depends_on := [''z'']\<rparr>]\<rparr>"
  let ?run = "todo_update ''todo-1'' (Some Todo_InProgress) None (?l, todo_sample_world [])"
  have "?run = (fst ?run, snd ?run)" by simp
  from blocked_items_do_not_start [OF this, of 0] show ?thesis
    by (auto simp: todo_empty_def todo_sample_item_def)
qed

section \<open>Two holders add at once\<close>

definition todo_rival_item :: "session_event envelope" where
  "todo_rival_item =
     \<lparr>ev_id = 7, ev_session = 1, ev_sequence = 1, ev_occurred_at_ms = 0, ev_actor = System,
      ev_causation = None, ev_correlation = 0, ev_schema = 1, ev_kind = ''todo.created'',
      ev_payload = Inline (Todo_Created (Some (todo_sample_item ''b'')) None None)\<rparr>"

text \<open>
  Two holders that add at once lose an item: the identifier is chosen before the append and kept
  after the conflict, so both items carry the same one; the holder that lost the race still lists
  both, but the session opened again has only the later of the two.
\<close>

theorem concurrent_adds_collide:
  "\<exists>w s. fst s = Inr (todo_sample_item ''a'') \<and>
     todo_add ''a'' [] By_User (todo_empty 1 System, w) = s \<and>
     todo_open 1 System w = Inr (todo_empty 1 System) \<and>
     map td_text (tl_items (fst (snd s))) = [''b'', ''a''] \<and>
     map_sum id (\<lambda>l. map td_text (tl_items l)) (todo_open 1 System (snd (snd s))) = Inr [''a'']"
proof (intro exI conjI)
  let ?w = "todo_sample_world [(1, [todo_rival_item])]"
  let ?s = "todo_add ''a'' [] By_User (todo_empty 1 System, ?w)"
  show "todo_add ''a'' [] By_User (todo_empty 1 System, ?w) = ?s" ..
  show "fst ?s = Inr (todo_sample_item ''a'')" "map td_text (tl_items (fst (snd ?s))) = [''b'', ''a'']"
    by (simp_all add: todo_run todo_rival_item_def)
  show "todo_open 1 System ?w = Inr (todo_empty 1 System)"
    by (simp add: todo_open_def todo_run)
  show "map_sum id (\<lambda>l. map td_text (tl_items l)) (todo_open 1 System (snd (snd ?s))) = Inr [''a'']"
    by (simp add: todo_open_def todo_run todo_rival_item_def)
qed

end
