(* ===== verification/Task_Supply.thy ===== *)
theory Task_Supply
  imports Task_Commands
begin

text \<open>
  The supply of identifiers (\<open>Uuid::new_v4\<close>) under the commands of the task graph: a command may
  draw identifiers, but none is drawn again later. What files things under fresh identifiers
  rests on this.
\<close>

definition later :: "(nat \<Rightarrow> uuid) \<Rightarrow> nat \<Rightarrow> sys \<Rightarrow> bool" where
  "later ids n s \<longleftrightarrow> w_uuid (snd s) = ids \<and> n \<le> w_drawn (snd s)"

definition moves_on :: "'a command \<Rightarrow> bool" where
  "moves_on cmd \<longleftrightarrow> (\<forall>ids n. valid (later ids n) cmd (\<lambda>_. later ids n) (later ids n))"

lemma moves_onD: "moves_on cmd \<Longrightarrow> later ids n s \<Longrightarrow> later ids n (snd (cmd s))"
  by (auto simp: moves_on_def intro: valid_sndD)

lemma moves_onI: "(\<And>s. later (w_uuid (snd s)) (w_drawn (snd s)) (snd (cmd s))) \<Longrightarrow> moves_on cmd"
  unfolding moves_on_def by (auto intro!: valid_snd simp: later_def) (meson le_trans later_def)+

named_theorems moves_on_intros \<open>commands that draw identifiers forward\<close>

lemma moves_on_bind [moves_on_intros]:
  "moves_on m \<Longrightarrow> (\<And>x. moves_on (f x)) \<Longrightarrow> moves_on (bindE m f)"
  unfolding moves_on_def by (blast intro: valid_bindE)

lemma moves_on_ret [moves_on_intros]: "moves_on (ret x)"
  by (simp add: moves_on_def valid_ret)

lemma moves_on_raise [moves_on_intros]: "moves_on (raise e)"
  by (simp add: moves_on_def valid_raise)

lemma catch_up_world [simp]: "snd (snd (catch_up s)) = snd s"
  by (cases s) (simp add: catch_up_def split: prod.split)

lemma observe_world [simp]: "snd (snd (observe s)) = snd s"
  by (cases s) (auto simp: observe_def need_def split: sum.split)

lemma applied_world [simp]: "snd (snd (applied event v s)) = snd s"
  by (cases s) (auto simp: applied_def split: prod.split sum.split)

lemma moves_on_same_world: "(\<And>s. snd (snd (cmd s)) = snd s) \<Longrightarrow> moves_on cmd"
  by (rule moves_onI) (simp add: later_def)

lemma rival_turn_supply [simp]: "w_uuid (rival_turn w) = w_uuid w" "w_drawn (rival_turn w) = w_drawn w"
  by (simp_all add: rival_turn_def split: list.split prod.split)

lemma world_append_supply:
  "world_append k v es w = (r, w') \<Longrightarrow> w_uuid w' = w_uuid w \<and> w_drawn w' = w_drawn w"
  by (auto simp: world_append_def Let_def split: prod.splits)

lemma moves_on_submit [moves_on_intros]: "moves_on (submit data)"
proof (rule moves_onI)
  fix s :: sys
  obtain g w where s: "s = (g, w)" by fastforce
  show "later (w_uuid (snd s)) (w_drawn (snd s)) (snd (submit data s))"
    by (auto simp: s submit_def need_def later_def Let_def draw_uuid_def envelope_new_def ok_or_def
        split: option.split sum.split prod.split dest!: world_append_supply)
qed

lemma valid_moves_on: "moves_on cmd \<Longrightarrow> valid (later ids n) cmd (\<lambda>_. later ids n) (later ids n)"
  by (simp add: moves_on_def)

lemma moves_on_commit_loop [moves_on_intros]:
  assumes "moves_on settle_first"
  shows "moves_on (commit_loop n settle_first build)"
  unfolding moves_on_def
proof (intro allI commit_loop_keeps)
  fix ids m and event :: "session_event envelope" and v data
  show "valid (later ids m) observe (\<lambda>_. later ids m) (later ids m)"
    and "valid (later ids m) catch_up (\<lambda>_. later ids m) (later ids m)"
    and "valid (later ids m) settle_first (\<lambda>_. later ids m) (later ids m)"
    and "valid (later ids m) (applied event v) (\<lambda>_. later ids m) (later ids m)"
    by (simp_all add: valid_moves_on moves_on_same_world assms)
  have "valid (\<lambda>s. later ids m s \<and> build (fst s) = Inr (Some data)) (submit data)
      (\<lambda>_. later ids m) (later ids m)"
    by (rule valid_weaken [OF valid_moves_on [OF moves_on_submit]]) auto
  then show "valid (\<lambda>s. later ids m s \<and> build (fst s) = Inr (Some data)) (submit data)
      (\<lambda>(event, answer) s. case answer of Inr v \<Rightarrow> later ids m s | Inl _ \<Rightarrow> later ids m s) (later ids m)"
    by (rule valid_weaken) (auto split: sum.split)
qed

lemma moves_on_reconcile_blocked [moves_on_intros]: "moves_on reconcile_blocked"
  unfolding moves_on_def
proof (intro allI reconcile_blocked_keeps)
  fix ids n i and s :: sys
  assume "later ids n s"
  then show "later ids n (snd (commit_quiet (block_build i) s))"
    unfolding commit_quiet_def by (rule moves_onD [OF moves_on_commit_loop [OF moves_on_ret]])
qed (simp_all add: later_def)

lemma moves_on_commit_if [moves_on_intros]: "moves_on (commit_if build)"
  unfolding commit_if_def by (intro moves_on_intros)

lemma moves_on_commit [moves_on_intros]: "moves_on (commit build)"
  unfolding commit_def by (intro moves_on_intros)

end
