(* ===== verification/Scheduler.thy ===== *)
theory Scheduler
  imports Task_Supply
begin

text \<open>
  Admission and lifecycle of attempts: \<^verbatim>\<open>crates/arsy-kernel/src/scheduler.rs\<close>. A stop signal is an
  \<open>Arc<AtomicBool>\<close> shared with whoever runs the attempt: the model keeps the flags in \<open>sc_tokens\<close>
  and a \<open>CancelToken\<close> is an index into it, so a holder's token outlives its entry in the scheduler.
\<close>

section \<open>Admission\<close>

record admission =
  ad_limits :: "(string, nat) omap"
  ad_in_use :: "(string, nat) omap"

definition admission_new :: admission where
  "admission_new = \<lparr>ad_limits = [], ad_in_use = []\<rparr>"

definition limit :: "string \<Rightarrow> nat \<Rightarrow> admission \<Rightarrow> admission" where
  "limit key most a = a\<lparr>ad_limits := omap_insert key most (ad_limits a)\<rparr>"

definition in_use :: "admission \<Rightarrow> string \<Rightarrow> nat" where
  "in_use a key = (case omap_get (ad_in_use a) key of None \<Rightarrow> 0 | Some n \<Rightarrow> n)"

definition slot_full :: "admission \<Rightarrow> string \<Rightarrow> bool" where
  "slot_full a key \<longleftrightarrow>
     (case omap_get (ad_limits a) key of None \<Rightarrow> False | Some most \<Rightarrow> in_use a key \<ge> most)"

definition take_slot :: "string \<Rightarrow> admission \<Rightarrow> admission" where
  "take_slot key a = a\<lparr>ad_in_use := omap_insert key (in_use a key + 1) (ad_in_use a)\<rparr>"

definition give_slot :: "string \<Rightarrow> admission \<Rightarrow> admission" where
  "give_slot key a = a\<lparr>ad_in_use := omap_modify key (\<lambda>n. n - 1) (ad_in_use a)\<rparr>"

definition try_admit :: "string list \<Rightarrow> admission \<Rightarrow> string + admission" where
  "try_admit keys a =
     (case find (slot_full a) keys of
        Some full \<Rightarrow> Inl full
      | None \<Rightarrow> Inr (fold take_slot keys a))"

definition release :: "string list \<Rightarrow> admission \<Rightarrow> admission" where
  "release keys a = fold give_slot keys a"

section \<open>Retrying\<close>

record retry_policy =
  rp_max_attempts :: nat
  rp_base_backoff_ms :: nat

definition retry_policy_default :: retry_policy where
  "retry_policy_default = \<lparr>rp_max_attempts = 3, rp_base_backoff_ms = 1000\<rparr>"

definition backoff_shift_cap :: nat where
  "backoff_shift_cap = 16"

definition backoff_ms :: "retry_policy \<Rightarrow> nat \<Rightarrow> nat" where
  "backoff_ms p attempts_made =
     saturating_mul (rp_base_backoff_ms p) (2 ^ min attempts_made backoff_shift_cap)"

section \<open>The scheduler\<close>

type_synonym cancel_token = nat

record admitted_attempt =
  aa_attempt :: attempt_id
  aa_cancel :: cancel_token

datatype scheduler_error = Deferred string | Graph_Failed graph_error

record scheduler =
  sc_graph :: graph
  sc_admission :: admission
  sc_retry :: retry_policy
  sc_held :: "(attempt_id, string list) omap"
  sc_cancels :: "(attempt_id, cancel_token) omap"
  sc_tokens :: "bool list"

type_synonym sched_sys = "scheduler \<times> session_event world"
type_synonym ('e, 'a) sched_command = "(sched_sys, 'e, 'a) effect"

definition scheduler_new :: "graph \<Rightarrow> admission \<Rightarrow> retry_policy \<Rightarrow> scheduler" where
  "scheduler_new g admission rtry =
     \<lparr>sc_graph = g, sc_admission = admission, sc_retry = rtry, sc_held = [], sc_cancels = [],
      sc_tokens = []\<rparr>"

text \<open>A command of the graph the scheduler holds.\<close>

definition on_graph :: "'a command \<Rightarrow> (graph_error, 'a) sched_command" where
  "on_graph cmd = (\<lambda>(s, w).
     (case cmd (sc_graph s, w) of (r, (g, w')) \<Rightarrow> (r, (s\<lparr>sc_graph := g\<rparr>, w'))))"

definition is_cancelled :: "scheduler \<Rightarrow> cancel_token \<Rightarrow> bool" where
  "is_cancelled s t \<longleftrightarrow> t < length (sc_tokens s) \<and> sc_tokens s ! t"

text \<open>
  What \<open>start\<close> and \<open>retry\<close> share: take every slot, run the graph's command, and either file the
  attempt with its slots and a fresh stop signal or give the slots back.
\<close>

definition admit_attempt ::
  "attempt_id command \<Rightarrow> string list \<Rightarrow> (scheduler_error, admitted_attempt) sched_command" where
  "admit_attempt cmd slots = (\<lambda>(s, w).
     (case try_admit slots (sc_admission s) of
        Inl full \<Rightarrow> (Inl (Deferred full), (s, w))
      | Inr adm \<Rightarrow>
          (case on_graph cmd (s\<lparr>sc_admission := adm\<rparr>, w) of
             (Inl e, (s', w')) \<Rightarrow>
               (Inl (Graph_Failed e), (s'\<lparr>sc_admission := release slots (sc_admission s')\<rparr>, w'))
           | (Inr attempt, (s', w')) \<Rightarrow>
               (let token = length (sc_tokens s')
                in (Inr \<lparr>aa_attempt = attempt, aa_cancel = token\<rparr>,
                    (s'\<lparr>sc_tokens := sc_tokens s' @ [False],
                        sc_held := omap_insert attempt slots (sc_held s'),
                        sc_cancels := omap_insert attempt token (sc_cancels s')\<rparr>, w'))))))"

definition scheduler_start ::
  "task_id \<Rightarrow> attempt_request \<Rightarrow> string list \<Rightarrow> (scheduler_error, admitted_attempt) sched_command" where
  "scheduler_start task request slots = admit_attempt (start_attempt task request) slots"

definition scheduler_retry ::
  "task_id \<Rightarrow> attempt_request \<Rightarrow> string list \<Rightarrow> (scheduler_error, admitted_attempt) sched_command" where
  "scheduler_retry task request slots = (\<lambda>(s, w).
     admit_attempt (retry task request (rp_max_attempts (sc_retry s))) slots (s, w))"

definition scheduler_running :: "attempt_id \<Rightarrow> (graph_error, unit) sched_command" where
  "scheduler_running attempt = on_graph (advance_attempt attempt At_Running)"

definition give_back :: "attempt_id \<Rightarrow> scheduler \<Rightarrow> scheduler" where
  "give_back attempt s =
     (case omap_get (sc_held s) attempt of
        None \<Rightarrow> s
      | Some slots \<Rightarrow>
          s\<lparr>sc_held := omap_remove attempt (sc_held s),
            sc_admission := release slots (sc_admission s)\<rparr>)"

definition scheduler_finish ::
  "(string \<Rightarrow> json option) \<Rightarrow> attempt_id \<Rightarrow> attempt_outcome \<Rightarrow> (graph_error, unit) sched_command" where
  "scheduler_finish parse_json attempt outcome = (\<lambda>(s, w).
     (case on_graph (finish_attempt parse_json attempt outcome) (s, w) of
        (result, (s', w')) \<Rightarrow>
          bindE (on_graph block_unreachable) (\<lambda>_ s. (result, s))
            ((give_back attempt s')\<lparr>sc_cancels := omap_remove attempt (sc_cancels s')\<rparr>, w')))"

definition scheduler_cancel :: "attempt_id \<Rightarrow> string \<Rightarrow> (graph_error, unit) sched_command" where
  "scheduler_cancel attempt reason =
     bindE (on_graph (request_cancel attempt reason)) (\<lambda>_ (s, w).
       (Inr (), (case omap_get (sc_cancels s) attempt of
                   None \<Rightarrow> s
                 | Some token \<Rightarrow> s\<lparr>sc_tokens := (sc_tokens s)[token := True]\<rparr>, w)))"

definition joined :: "scheduler \<Rightarrow> task_id list \<Rightarrow> join_policy \<Rightarrow> bool" where
  "joined s tasks policy =
     satisfied policy (map tn_state (List.map_filter (omap_get (g_nodes (sc_graph s))) tasks))"

definition retry_due :: "scheduler \<Rightarrow> nat \<Rightarrow> task_node \<Rightarrow> bool" where
  "retry_due s now_ms n \<longleftrightarrow>
     tn_state n = Task_Failed \<and>
     length (rt_attempts (tn_runtime n)) < rp_max_attempts (sc_retry s) \<and>
     (case (if rt_attempts (tn_runtime n) = [] then None
            else omap_get (g_attempts (sc_graph s)) (last (rt_attempts (tn_runtime n)))) of
        None \<Rightarrow> False
      | Some t \<Rightarrow>
          ta_retryable t = Retryable \<and>
          (case ta_ended_at_ms t of
             None \<Rightarrow> False
           | Some ended \<Rightarrow>
               saturating_add ended (backoff_ms (sc_retry s) (length (rt_attempts (tn_runtime n)))) \<le> now_ms))"

definition scheduler_retryable :: "scheduler \<Rightarrow> nat \<Rightarrow> task_id list" where
  "scheduler_retryable s now_ms =
     map tn_id (filter (retry_due s now_ms) (omap_values (g_nodes (sc_graph s))))"

end
