(* ===== verification/Scheduler_Laws.thy ===== *)
theory Scheduler_Laws
  imports Scheduler Task_Budget
begin

text \<open>
  The invariants of the scheduler: every slot in use is held by exactly one filed attempt, no
  limit is exceeded by attempts that name each key once, and every filed attempt has a stop signal
  of its own.
\<close>

section \<open>Slots are counted\<close>

lemma in_use_take [simp]:
  "in_use (take_slot key a) k = (if k = key then Suc (in_use a k) else in_use a k)"
  by (simp add: in_use_def take_slot_def)

lemma in_use_give [simp]:
  "in_use (give_slot key a) k = (if k = key then in_use a k - 1 else in_use a k)"
  by (simp add: in_use_def give_slot_def split: option.split)

lemma slot_limits [simp]:
  "ad_limits (take_slot key a) = ad_limits a" "ad_limits (give_slot key a) = ad_limits a"
  by (simp_all add: take_slot_def give_slot_def)

lemma in_use_admit: "in_use (fold take_slot keys a) k = in_use a k + count_list keys k"
  by (induction keys arbitrary: a) auto

lemma in_use_release: "in_use (release keys a) k = in_use a k - count_list keys k"
  unfolding release_def by (induction keys arbitrary: a) auto

lemma admit_limits [simp]: "ad_limits (fold take_slot keys a) = ad_limits a"
  by (induction keys arbitrary: a) auto

lemma release_limits [simp]: "ad_limits (release keys a) = ad_limits a"
  unfolding release_def by (induction keys arbitrary: a) auto

lemma try_admit_Inr:
  "try_admit keys a = Inr a' \<longleftrightarrow> (\<forall>k\<in>set keys. \<not> slot_full a k) \<and> a' = fold take_slot keys a"
proof (cases "find (slot_full a) keys")
  case None
  then show ?thesis by (auto simp: try_admit_def dest: find_None_iff [THEN iffD1])
next
  case (Some k)
  then show ?thesis by (auto simp: try_admit_def dest: find_Some_iff [THEN iffD1])
qed

lemma omap_remove_absent: "omap_get m k = None \<Longrightarrow> omap_remove k m = m"
  by (force simp: omap_remove_def map_of_eq_None_iff filter_id_conv)

lemma sum_values_remove:
  assumes "omap_ok m" and "omap_get m k = Some v"
  shows "sum_values f (omap_remove k m) + f v = sum_values f m"
  using assms
proof (induction m)
  case (Cons p m)
  obtain j w where p: "p = (j, w)" by fastforce
  with Cons have "omap_ok m" by (simp add: omap_ok_def)
  moreover have "omap_remove j m = m"
    using Cons.prems(1) by (intro omap_remove_absent) (auto simp: p omap_ok_def map_of_eq_None_iff)
  ultimately show ?case
    using Cons by (cases "j = k") (auto simp: p omap_remove_def)
qed simp

section \<open>The steps\<close>

lemma on_graphD:
  "on_graph cmd (s, w) = (r, (s', w')) \<Longrightarrow>
   \<exists>g. cmd (sc_graph s, w) = (r, (g, w')) \<and> s' = s\<lparr>sc_graph := g\<rparr>"
  by (auto simp: on_graph_def split: prod.splits)

definition supplied :: "sched_sys \<Rightarrow> sched_sys \<Rightarrow> bool" where
  "supplied p q \<longleftrightarrow> w_uuid (snd q) = w_uuid (snd p) \<and> w_drawn (snd p) \<le> w_drawn (snd q)"

lemma supplied_refl [simp]: "supplied p p"
  by (simp add: supplied_def)

lemma on_graph_supplied:
  assumes "moves_on cmd" and "on_graph cmd (s, w) = (r, (s', w'))"
  shows "supplied (s, w) (s', w')"
proof -
  from on_graphD [OF assms(2)] obtain g where run: "cmd (sc_graph s, w) = (r, (g, w'))" by blast
  have "later (w_uuid w) (w_drawn w) (snd (cmd (sc_graph s, w)))"
    by (rule moves_onD [OF assms(1)]) (simp add: later_def)
  with run show ?thesis by (simp add: later_def supplied_def)
qed

text \<open>Commands that answer with an identifier drawn while they ran.\<close>

definition draws :: "attempt_id command \<Rightarrow> bool" where
  "draws cmd \<longleftrightarrow> moves_on cmd \<and>
     (\<forall>s a s'. cmd s = (Inr a, s') \<longrightarrow>
        (\<exists>n. a = w_uuid (snd s) n \<and> w_drawn (snd s) \<le> n \<and> n < w_drawn (snd s')))"

lemma draws_moves_on: "draws cmd \<Longrightarrow> moves_on cmd"
  by (simp add: draws_def)

lemma draws_bind:
  assumes m: "moves_on m" and f: "\<And>x. draws (f x)"
  shows "draws (bindE m f)"
  unfolding draws_def
proof (intro conjI allI impI)
  show "moves_on (bindE m f)" by (rule moves_on_bind [OF m draws_moves_on [OF f]])
  fix s a s' assume "bindE m f s = (Inr a, s')"
  then obtain x t where run: "m s = (Inr x, t)" "f x t = (Inr a, s')" by (auto simp: bindE_eq_Inr)
  have "later (w_uuid (snd s)) (w_drawn (snd s)) (snd (m s))"
    by (rule moves_onD [OF m]) (simp add: later_def)
  with run have t: "w_uuid (snd t) = w_uuid (snd s)" "w_drawn (snd s) \<le> w_drawn (snd t)"
    by (simp_all add: later_def)
  from run f [of x] obtain n where "a = w_uuid (snd t) n" "w_drawn (snd t) \<le> n" "n < w_drawn (snd s')"
    unfolding draws_def by blast
  with t show "\<exists>n. a = w_uuid (snd s) n \<and> w_drawn (snd s) \<le> n \<and> n < w_drawn (snd s')"
    by (intro exI [of _ n]) simp
qed

lemma draws_start_attempt: "draws (start_attempt i request)"
proof -
  let ?cmd = "\<lambda>a. bindE (commit (start_attempt_build i request a)) (\<lambda>_. ret a)"
  have moves: "moves_on (?cmd a)" for a by (intro moves_on_intros)
  have run: "start_attempt i request s =
      ?cmd (w_uuid (snd s) (w_drawn (snd s))) (fst s, (snd s)\<lparr>w_drawn := Suc (w_drawn (snd s))\<rparr>)" for s
    by (cases s) (simp add: start_attempt_def draw_uuid_def)
  have after: "later (w_uuid (snd s)) (Suc (w_drawn (snd s))) (snd (start_attempt i request s))" for s
    unfolding run by (rule moves_onD [OF moves]) (simp add: later_def)
  show ?thesis
    unfolding draws_def
  proof (intro conjI allI impI)
    show "moves_on (start_attempt i request)"
      using after by (intro moves_onI) (auto simp: later_def dest: Suc_leD)
    fix s a s' assume h: "start_attempt i request s = (Inr a, s')"
    then have "a = w_uuid (snd s) (w_drawn (snd s))"
      unfolding run by (auto simp: bindE_eq_Inr ret_def)
    with h after [of s] show "\<exists>n. a = w_uuid (snd s) n \<and> w_drawn (snd s) \<le> n \<and> n < w_drawn (snd s')"
      by (auto simp: later_def)
  qed
qed

lemma draws_retry: "draws (retry i request most)"
proof -
  have "draws (bindE (commit (supersede_build a)) (\<lambda>_. bindE (transition i Task_Ready None) (\<lambda>_.
      start_attempt i request)))" for a
    by (intro draws_bind draws_start_attempt moves_on_intros) (simp add: transition_def moves_on_intros)
  then show ?thesis
    by (auto simp: draws_def retry_def need_def later_def moves_on_def valid_def split: sum.splits)
qed

section \<open>The invariant\<close>

definition slots_counted :: "scheduler \<Rightarrow> bool" where
  "slots_counted s \<longleftrightarrow>
     omap_ok (sc_held s) \<and>
     (\<forall>k. in_use (sc_admission s) k = sum_values (\<lambda>slots. count_list slots k) (sc_held s))"

definition within_limits :: "scheduler \<Rightarrow> bool" where
  "within_limits s \<longleftrightarrow>
     (\<forall>k most. omap_get (ad_limits (sc_admission s)) k = Some most \<longrightarrow> in_use (sc_admission s) k \<le> most)"

definition signals_ok :: "scheduler \<Rightarrow> bool" where
  "signals_ok s \<longleftrightarrow>
     (\<forall>a. omap_get (sc_cancels s) a = None \<longleftrightarrow> omap_get (sc_held s) a = None) \<and>
     (\<forall>a t. omap_get (sc_cancels s) a = Some t \<longrightarrow> t < length (sc_tokens s)) \<and>
     (\<forall>a b t. omap_get (sc_cancels s) a = Some t \<longrightarrow> omap_get (sc_cancels s) b = Some t \<longrightarrow> a = b)"

definition held_drawn :: "sched_sys \<Rightarrow> bool" where
  "held_drawn p \<longleftrightarrow>
     (\<forall>a. omap_get (sc_held (fst p)) a \<noteq> None \<longrightarrow> (\<exists>n<w_drawn (snd p). a = w_uuid (snd p) n))"

definition scheduler_ok :: "sched_sys \<Rightarrow> bool" where
  "scheduler_ok p \<longleftrightarrow> slots_counted (fst p) \<and> signals_ok (fst p) \<and> held_drawn p"

lemma held_drawn_supplied:
  "held_drawn p \<Longrightarrow> supplied p q \<Longrightarrow> sc_held (fst q) = sc_held (fst p) \<Longrightarrow> held_drawn q"
  unfolding held_drawn_def supplied_def by (metis order_less_le_trans)

text \<open>What a step may not touch without losing the invariant.\<close>

definition same_slots :: "scheduler \<Rightarrow> scheduler \<Rightarrow> bool" where
  "same_slots s s' \<longleftrightarrow>
     sc_held s' = sc_held s \<and> sc_cancels s' = sc_cancels s \<and> length (sc_tokens s') = length (sc_tokens s) \<and>
     ad_limits (sc_admission s') = ad_limits (sc_admission s) \<and>
     in_use (sc_admission s') = in_use (sc_admission s)"

lemma same_slots_ok:
  assumes "same_slots s s'" and "supplied (s, w) (s', w')" and "scheduler_ok (s, w)"
  shows "scheduler_ok (s', w')"
  using assms held_drawn_supplied [of "(s, w)" "(s', w')"]
  by (auto simp: scheduler_ok_def slots_counted_def signals_ok_def same_slots_def)

lemma same_slots_limits: "same_slots s s' \<Longrightarrow> within_limits s' = within_limits s"
  by (simp add: same_slots_def within_limits_def)

lemma same_slots_refl [simp]: "same_slots s s" "same_slots s (s\<lparr>sc_graph := g\<rparr>)"
  by (simp_all add: same_slots_def)

lemma admit_attempt_cases:
  assumes "admit_attempt cmd slots (s, w) = (r, (s', w'))"
  obtains (deferred) full where "r = Inl (Deferred full)" and "s' = s" and "w' = w"
      and "full \<in> set slots" and "slot_full (sc_admission s) full"
  | (refused) e g where "r = Inl (Graph_Failed e)" and "cmd (sc_graph s, w) = (Inl e, (g, w'))"
      and "same_slots s s'" and "sc_graph s' = g"
  | (filed) a g where "cmd (sc_graph s, w) = (Inr a, (g, w'))"
      and "r = Inr \<lparr>aa_attempt = a, aa_cancel = length (sc_tokens s)\<rparr>"
      and "\<forall>k\<in>set slots. \<not> slot_full (sc_admission s) k"
      and "s' = s\<lparr>sc_admission := fold take_slot slots (sc_admission s), sc_graph := g,
        sc_tokens := sc_tokens s @ [False], sc_held := omap_insert a slots (sc_held s),
        sc_cancels := omap_insert a (length (sc_tokens s)) (sc_cancels s)\<rparr>"
proof (cases "try_admit slots (sc_admission s)")
  case (Inl full)
  with assms have "r = Inl (Deferred full)" "s' = s" "w' = w" by (auto simp: admit_attempt_def)
  moreover from Inl have "full \<in> set slots" "slot_full (sc_admission s) full"
    by (auto simp: try_admit_def find_Some_iff split: option.splits)
  ultimately show thesis by (rule deferred)
next
  case (Inr adm)
  then have adm: "adm = fold take_slot slots (sc_admission s)"
    and free: "\<forall>k\<in>set slots. \<not> slot_full (sc_admission s) k" by (simp_all add: try_admit_Inr)
  obtain answer g w1 where run: "cmd (sc_graph s, w) = (answer, (g, w1))" by (metis surj_pair)
  show thesis
  proof (cases answer)
    case (Inl e)
    with assms Inr run have "r = Inl (Graph_Failed e)" "w1 = w'"
      "s' = s\<lparr>sc_graph := g, sc_admission := release slots adm\<rparr>"
      by (auto simp: admit_attempt_def on_graph_def)
    with refused Inl run adm show thesis
      by (simp add: same_slots_def fun_eq_iff in_use_release in_use_admit)
  next
    case attempt: (Inr a)
    with assms Inr run adm have "w1 = w'" "r = Inr \<lparr>aa_attempt = a, aa_cancel = length (sc_tokens s)\<rparr>"
      "s' = s\<lparr>sc_admission := fold take_slot slots (sc_admission s), sc_graph := g,
        sc_tokens := sc_tokens s @ [False], sc_held := omap_insert a slots (sc_held s),
        sc_cancels := omap_insert a (length (sc_tokens s)) (sc_cancels s)\<rparr>"
      by (auto simp: admit_attempt_def on_graph_def Let_def)
    with filed [of a g] attempt run free show thesis by simp
  qed
qed

text \<open>What filing an attempt does to the invariant.\<close>

lemma signals_file:
  assumes ok: "signals_ok s" and fresh: "omap_get (sc_held s) a = None"
    and s': "sc_held s' = omap_insert a slots (sc_held s)" "sc_tokens s' = sc_tokens s @ [False]"
      "sc_cancels s' = omap_insert a (length (sc_tokens s)) (sc_cancels s)"
  shows "signals_ok s'"
proof -
  have same: "omap_get (sc_cancels s) b = None \<longleftrightarrow> omap_get (sc_held s) b = None" for b
    using ok by (simp add: signals_ok_def)
  have bound: "t < length (sc_tokens s)" if "omap_get (sc_cancels s) b = Some t" for b t
    using ok that by (simp add: signals_ok_def)
  have own: "b = c" if "omap_get (sc_cancels s) b = Some t" "omap_get (sc_cancels s) c = Some t" for b c t
    using ok that unfolding signals_ok_def by blast
  show ?thesis
    unfolding signals_ok_def
  proof (intro conjI allI impI)
    fix b c t
    show "omap_get (sc_cancels s') b = None \<longleftrightarrow> omap_get (sc_held s') b = None" by (simp add: s' same)
    show "t < length (sc_tokens s')" if "omap_get (sc_cancels s') b = Some t"
      using that bound [of b t] by (cases "b = a") (simp_all add: s')
    show "b = c" if "omap_get (sc_cancels s') b = Some t" "omap_get (sc_cancels s') c = Some t"
      using that bound [of b t] bound [of c t] own [of b t c]
      by (cases "b = a"; cases "c = a") (simp_all add: s')
  qed
qed

lemma filed_ok:
  assumes ok: "scheduler_ok (s, w)" and inj: "inj (w_uuid w)"
    and a: "a = w_uuid w n" "w_drawn w \<le> n" "n < w_drawn w'" and ids: "w_uuid w' = w_uuid w"
  shows "scheduler_ok (s\<lparr>sc_admission := fold take_slot slots (sc_admission s), sc_graph := g,
        sc_tokens := sc_tokens s @ [False], sc_held := omap_insert a slots (sc_held s),
        sc_cancels := omap_insert a (length (sc_tokens s)) (sc_cancels s)\<rparr>, w')"
    (is "scheduler_ok (?s, w')")
proof -
  from ok have held: "held_drawn (s, w)" and counted: "slots_counted s" and signals: "signals_ok s"
    by (simp_all add: scheduler_ok_def)
  have fresh: "omap_get (sc_held s) a = None"
  proof (rule ccontr)
    assume "omap_get (sc_held s) a \<noteq> None"
    with held obtain m where "m < w_drawn w" "w_uuid w n = w_uuid w m" by (auto simp: held_drawn_def a)
    with injD [OF inj, of n m] a(2) show False by simp
  qed
  from counted fresh have "slots_counted ?s"
    by (simp add: slots_counted_def sum_values_insert_new in_use_admit)
  moreover have "signals_ok ?s" by (rule signals_file [OF signals fresh]) simp_all
  moreover have "held_drawn (?s, w')"
    unfolding held_drawn_def
  proof (intro allI impI)
    fix b assume "omap_get (sc_held (fst (?s, w'))) b \<noteq> None"
    then consider "b = a" | "omap_get (sc_held s) b \<noteq> None" by (auto split: if_splits)
    then show "\<exists>n<w_drawn (snd (?s, w')). b = w_uuid (snd (?s, w')) n"
    proof cases
      case 1
      with a ids show ?thesis by auto
    next
      case 2
      with held obtain m where "m < w_drawn w" "b = w_uuid w m" by (auto simp: held_drawn_def)
      with a ids show ?thesis by (intro exI [of _ m]) simp
    qed
  qed
  ultimately show ?thesis by (simp add: scheduler_ok_def)
qed

lemma count_list_at_most_once: "distinct xs \<Longrightarrow> count_list xs x = (if x \<in> set xs then 1 else 0)"
  by (induction xs) auto

lemma filed_within:
  assumes "within_limits s" and "distinct slots" and "\<forall>k\<in>set slots. \<not> slot_full (sc_admission s) k"
  shows "within_limits (s\<lparr>sc_admission := fold take_slot slots (sc_admission s), sc_graph := g,
    sc_tokens := ts, sc_held := h, sc_cancels := c\<rparr>)"
  using assms
  by (auto simp: within_limits_def slot_full_def in_use_admit count_list_at_most_once
      split: option.splits)

text \<open>What ending an attempt gives back.\<close>

lemma give_back_sel [simp]:
  "sc_held (give_back a s) = omap_remove a (sc_held s)"
  "sc_cancels (give_back a s) = sc_cancels s" "sc_tokens (give_back a s) = sc_tokens s"
  "ad_limits (sc_admission (give_back a s)) = ad_limits (sc_admission s)"
  by (simp_all add: give_back_def omap_remove_absent split: option.split)

lemma give_back_in_use:
  assumes "slots_counted s"
  shows "in_use (sc_admission (give_back a s)) k +
      (case omap_get (sc_held s) a of None \<Rightarrow> 0 | Some slots \<Rightarrow> count_list slots k) =
    in_use (sc_admission s) k"
proof (cases "omap_get (sc_held s) a")
  case (Some slots)
  with assms have "sum_values (\<lambda>slots. count_list slots k) (omap_remove a (sc_held s)) + count_list slots k
      = in_use (sc_admission s) k"
    using sum_values_remove [of "sc_held s" a slots "\<lambda>slots. count_list slots k"]
    by (simp add: slots_counted_def)
  with Some show ?thesis by (simp add: give_back_def in_use_release)
qed (simp add: give_back_def)

lemma give_back_counted:
  assumes "slots_counted s"
  shows "slots_counted (give_back a s)"
proof (cases "omap_get (sc_held s) a")
  case None
  with assms show ?thesis by (simp add: give_back_def)
next
  case (Some slots)
  have "in_use (sc_admission (give_back a s)) k =
      sum_values (\<lambda>slots. count_list slots k) (omap_remove a (sc_held s))" for k
    using give_back_in_use [OF assms, of a k] sum_values_remove [of "sc_held s" a slots "\<lambda>slots. count_list slots k"]
      assms Some by (simp add: slots_counted_def)
  with assms show ?thesis by (simp add: slots_counted_def)
qed

lemma ended_ok:
  assumes ok: "scheduler_ok (s, w)"
  shows "scheduler_ok ((give_back a s)\<lparr>sc_cancels := omap_remove a (sc_cancels s)\<rparr>, w)"
proof -
  have "slots_counted ((give_back a s)\<lparr>sc_cancels := omap_remove a (sc_cancels s)\<rparr>)"
    using give_back_counted [of s a] ok by (simp add: scheduler_ok_def slots_counted_def)
  moreover have "signals_ok ((give_back a s)\<lparr>sc_cancels := omap_remove a (sc_cancels s)\<rparr>)"
    using ok by (simp add: scheduler_ok_def signals_ok_def)
  moreover have "held_drawn ((give_back a s)\<lparr>sc_cancels := omap_remove a (sc_cancels s)\<rparr>, w)"
    using ok by (simp add: scheduler_ok_def held_drawn_def)
  ultimately show ?thesis by (simp add: scheduler_ok_def)
qed

lemma ended_within:
  assumes "slots_counted s" and "within_limits s"
  shows "within_limits ((give_back a s)\<lparr>sc_cancels := c\<rparr>)"
  unfolding within_limits_def
proof (intro allI impI)
  fix k most assume "omap_get (ad_limits (sc_admission (give_back a s\<lparr>sc_cancels := c\<rparr>))) k = Some most"
  with assms(2) have "in_use (sc_admission s) k \<le> most" by (simp add: within_limits_def)
  with give_back_in_use [OF assms(1), of a k]
  show "in_use (sc_admission (give_back a s\<lparr>sc_cancels := c\<rparr>)) k \<le> most" by simp
qed

section \<open>The life of a scheduler\<close>

text \<open>
  Every operation, in any order and whatever it answers; \<open>worked\<close> is any command of the graph
  taken through \<open>graph_mut\<close>.
\<close>

inductive scheduler_step :: "(string \<Rightarrow> json option) \<Rightarrow> sched_sys \<Rightarrow> sched_sys \<Rightarrow> bool"
  for parse_json where
  started: "scheduler_start task request slots p = (r, q) \<Longrightarrow> distinct slots \<Longrightarrow>
    scheduler_step parse_json p q"
| retried: "scheduler_retry task request slots p = (r, q) \<Longrightarrow> distinct slots \<Longrightarrow>
    scheduler_step parse_json p q"
| was_running: "scheduler_running attempt p = (r, q) \<Longrightarrow> scheduler_step parse_json p q"
| finished: "scheduler_finish parse_json attempt outcome p = (r, q) \<Longrightarrow> scheduler_step parse_json p q"
| cancelled: "scheduler_cancel attempt reason p = (r, q) \<Longrightarrow> scheduler_step parse_json p q"
| worked: "moves_on (cmd :: unit command) \<Longrightarrow> on_graph cmd p = (r, q) \<Longrightarrow> scheduler_step parse_json p q"

inductive_cases scheduler_stepE: "scheduler_step parse_json p q"

text \<open>What every step keeps: the invariant, the limits, and the supply of identifiers.\<close>

definition safe_move :: "sched_sys \<Rightarrow> sched_sys \<Rightarrow> bool" where
  "safe_move p q \<longleftrightarrow> supplied p q \<and> ad_limits (sc_admission (fst q)) = ad_limits (sc_admission (fst p)) \<and>
     (inj (w_uuid (snd p)) \<longrightarrow> scheduler_ok p \<longrightarrow>
        scheduler_ok q \<and> (within_limits (fst p) \<longrightarrow> within_limits (fst q)))"

lemma safe_move_trans: "safe_move p q \<Longrightarrow> safe_move q r \<Longrightarrow> safe_move p r"
  unfolding safe_move_def supplied_def by auto

lemma safe_move_same:
  "same_slots (fst p) (fst q) \<Longrightarrow> supplied p q \<Longrightarrow> safe_move p q"
  using same_slots_ok [of "fst p" "fst q" "snd p" "snd q"] same_slots_limits [of "fst p" "fst q"]
  by (simp add: safe_move_def same_slots_def)

lemma safe_on_graph:
  assumes "moves_on cmd" and "on_graph cmd p = (r, q)"
  shows "safe_move p q"
proof (rule safe_move_same)
  from assms(2) on_graphD [of cmd "fst p" "snd p" r "fst q" "snd q"]
  show "same_slots (fst p) (fst q)" by auto
  from assms on_graph_supplied [of cmd "fst p" "snd p" r "fst q" "snd q"] show "supplied p q" by simp
qed

lemma safe_admit:
  assumes cmd: "draws cmd" and run: "admit_attempt cmd slots p = (r, q)" and "distinct slots"
  shows "safe_move p q"
proof -
  obtain s w s' w' where pq: "p = (s, w)" "q = (s', w')" by fastforce
  from run have run': "admit_attempt cmd slots (s, w) = (r, (s', w'))" by (simp add: pq)
  have supplied: "supplied (s, w) (t, w')" if "cmd (sc_graph s, w) = (x, (g, w'))" for x g t
    using moves_onD [OF draws_moves_on [OF cmd], of "w_uuid w" "w_drawn w" "(sc_graph s, w)"] that
    by (simp add: later_def supplied_def)
  from run' show ?thesis
  proof (cases rule: admit_attempt_cases)
    case deferred
    then show ?thesis by (simp add: pq safe_move_same)
  next
    case refused
    with supplied show ?thesis by (simp add: pq safe_move_same)
  next
    case (filed a g)
    from cmd filed(1) obtain n where n: "a = w_uuid w n" "w_drawn w \<le> n" "n < w_drawn w'"
      unfolding draws_def by fastforce
    from supplied [OF filed(1)] have sup: "supplied (s, w) (s', w')" and ids: "w_uuid w' = w_uuid w"
      by (simp_all add: supplied_def)
    show ?thesis
      using sup filed_ok [OF _ _ n ids, where s = s and g = g and slots = slots] filed_within [where s = s and slots = slots] \<open>distinct slots\<close> filed(3)
      by (simp add: safe_move_def pq filed(4))
  qed
qed

lemma moves_on_advance: "moves_on (advance_attempt attempt target)"
  by (simp add: advance_attempt_def moves_on_intros)

lemma moves_on_finish: "moves_on (finish_attempt parse_json attempt outcome)"
  by (simp add: finish_attempt_def moves_on_intros)

lemma moves_on_request_cancel: "moves_on (request_cancel attempt reason)"
  by (simp add: request_cancel_def moves_on_intros)

lemma moves_on_block_unreachable: "moves_on block_unreachable"
  by (simp add: block_unreachable_def moves_on_intros moves_on_same_world)

lemma safe_finish:
  assumes run: "scheduler_finish parse_json attempt outcome p = (r, q)"
  shows "safe_move p q"
proof -
  obtain s w where p: "p = (s, w)" by fastforce
  obtain result s1 w1 where fin: "on_graph (finish_attempt parse_json attempt outcome) (s, w) = (result, (s1, w1))"
    by (metis surj_pair)
  let ?t = "(give_back attempt s1)\<lparr>sc_cancels := omap_remove attempt (sc_cancels s1)\<rparr>"
  obtain x s2 w2 where block: "on_graph block_unreachable (?t, w1) = (x, (s2, w2))" by (metis surj_pair)
  have "q = (s2, w2)"
    using run fin block by (auto simp: p scheduler_finish_def bindE_def split: sum.splits)
  with safe_on_graph [OF moves_on_block_unreachable block] have "safe_move (?t, w1) q" by simp
  moreover have "safe_move (s1, w1) (?t, w1)"
    using ended_ok [of s1 w1 attempt] ended_within [where s = s1 and a = attempt and c = "omap_remove attempt (sc_cancels s1)"]
    by (simp add: safe_move_def supplied_def scheduler_ok_def)
  moreover have "safe_move p (s1, w1)"
    using safe_on_graph [OF moves_on_finish fin] by (simp add: p)
  ultimately show ?thesis by (blast intro: safe_move_trans)
qed

lemma safe_cancel:
  assumes run: "scheduler_cancel attempt reason p = (r, q)"
  shows "safe_move p q"
proof -
  obtain s w where p: "p = (s, w)" by fastforce
  obtain x s1 w1 where req: "on_graph (request_cancel attempt reason) (s, w) = (x, (s1, w1))"
    by (metis surj_pair)
  from safe_on_graph [OF moves_on_request_cancel req] have first: "safe_move p (s1, w1)" by (simp add: p)
  have "same_slots s1 (fst q) \<and> supplied (s1, w1) q"
    using run req by (auto simp: p scheduler_cancel_def bindE_def same_slots_def supplied_def split: sum.splits option.splits)
  with safe_move_same [of "(s1, w1)" q] have "safe_move (s1, w1) q" by simp
  with first show ?thesis by (rule safe_move_trans)
qed

lemma scheduler_step_safe: "scheduler_step parse_json p q \<Longrightarrow> safe_move p q"
proof (induction rule: scheduler_step.induct)
  case (started task request slots p r q)
  then show ?case by (auto simp: scheduler_start_def intro: safe_admit [OF draws_start_attempt])
next
  case (retried task request slots p r q)
  then show ?case by (cases p) (auto simp: scheduler_retry_def intro: safe_admit [OF draws_retry])
next
  case (was_running attempt p r q)
  then show ?case by (auto simp: scheduler_running_def intro: safe_on_graph [OF moves_on_advance])
qed (rule safe_finish safe_cancel safe_on_graph; assumption)+

lemma scheduler_steps_safe: "(scheduler_step parse_json)\<^sup>*\<^sup>* p q \<Longrightarrow> safe_move p q"
  by (induction rule: rtranclp_induct)
    (auto simp: safe_move_same intro: safe_move_trans scheduler_step_safe)

lemma scheduler_new_ok [simp]:
  "ad_in_use admission = [] \<Longrightarrow> scheduler_ok (scheduler_new g admission rtry, w)"
  "ad_in_use admission = [] \<Longrightarrow> within_limits (scheduler_new g admission rtry)"
  by (simp_all add: scheduler_ok_def slots_counted_def signals_ok_def held_drawn_def within_limits_def
      scheduler_new_def in_use_def)

end
