(* ===== verification/Scheduler_Properties.thy ===== *)
theory Scheduler_Properties
  imports Scheduler_Laws Task_Properties
begin

text \<open>The properties of the scheduler.\<close>

section \<open>Samples\<close>

definition sample_admission :: admission where
  "sample_admission = limit ''model'' 1 admission_new"

definition sample_scheduler :: sched_sys where
  "sample_scheduler =
     (scheduler_new (graph_empty 1 System) sample_admission retry_policy_default, sample_world)"

lemma sample_supply: "inj (w_uuid sample_world)"
  by (simp add: sample_world_def inj_def)

lemma sample_admission_idle: "ad_in_use sample_admission = []"
  by (simp add: sample_admission_def limit_def admission_new_def)

lemma scheduler_step_start: "distinct slots \<Longrightarrow>
    scheduler_step parse_json p (snd (scheduler_start task request slots p))"
  by (rule scheduler_step.started) (rule prod.collapse [symmetric])

section \<open>Slots\<close>



text \<open>
  Finishing an attempt gives back exactly the slots it holds and forgets its stop signal,
  whatever the graph answers: an outcome refused as fenced, a contract violation or a store error
  leaks no slot, and no other attempt loses one.
\<close>

theorem finish_gives_slots_back:
  assumes "slots_counted s"
    and "scheduler_finish parse_json attempt outcome (s, w) = (r, (s', w'))"
  shows "omap_get (sc_held s') = (omap_get (sc_held s))(attempt := None) \<and>
    omap_get (sc_cancels s') attempt = None \<and>
    in_use (sc_admission s') k +
      (case omap_get (sc_held s) attempt of None \<Rightarrow> 0 | Some slots \<Rightarrow> count_list slots k) =
    in_use (sc_admission s) k"
proof -
  obtain result s1 w1 where fin: "on_graph (finish_attempt parse_json attempt outcome) (s, w) = (result, (s1, w1))"
    by (metis surj_pair)
  then obtain g where s1: "s1 = s\<lparr>sc_graph := g\<rparr>" by (blast dest: on_graphD)
  let ?t = "(give_back attempt s1)\<lparr>sc_cancels := omap_remove attempt (sc_cancels s1)\<rparr>"
  obtain x s2 w2 where block: "on_graph block_unreachable (?t, w1) = (x, (s2, w2))" by (metis surj_pair)
  have "s' = s2"
    using assms(2) fin block by (auto simp: scheduler_finish_def bindE_def split: sum.splits)
  then obtain h where "s' = ?t\<lparr>sc_graph := h\<rparr>" using block by (blast dest: on_graphD)
  moreover have "slots_counted s1" using assms(1) by (simp add: s1 slots_counted_def)
  ultimately show ?thesis
    using give_back_in_use [of s1 attempt k] by (simp add: s1)
qed

definition sample_outcome :: attempt_outcome where
  "sample_outcome =
     \<lparr>ao_state = At_Completed, ao_used = budget_default, ao_reason = None, ao_retryable = NotRetryable,
      ao_result = None, ao_evidence = [], ao_ended_at_ms = 9\<rparr>"

definition sample_busy :: scheduler where
  "sample_busy = (fst sample_scheduler)\<lparr>sc_held := [(20, [''model''])],
     sc_admission := take_slot ''model'' sample_admission, sc_cancels := [(20, 0)], sc_tokens := [False]\<rparr>"

theorem finish_gives_slots_back_witness:
  "in_use (sc_admission (fst (snd (scheduler_finish (\<lambda>_. None) 20 sample_outcome (sample_busy, sample_world)))))
     ''model'' = 0"
proof -
  obtain r s' w' where run: "scheduler_finish (\<lambda>_. None) 20 sample_outcome (sample_busy, sample_world) = (r, (s', w'))"
    by (metis surj_pair)
  have counted: "slots_counted sample_busy"
    by (simp add: slots_counted_def sample_busy_def sample_admission_def limit_def admission_new_def in_use_def
        take_slot_def omap_ok_def)
  from finish_gives_slots_back [OF counted run, of "''model''"] run show ?thesis
    by (simp add: sample_busy_def sample_admission_def limit_def admission_new_def in_use_def take_slot_def)
qed

text \<open>
  A request that names a key twice is admitted past the limit: each key is checked against
  the count before the request takes anything.
\<close>

theorem duplicate_keys_exceed_limit:
  "\<exists>a. try_admit [''model'', ''model''] sample_admission = Inr a \<and>
    omap_get (ad_limits a) ''model'' = Some 1 \<and> in_use a ''model'' = 2"
  by (simp add: try_admit_def slot_full_def sample_admission_def limit_def admission_new_def in_use_def take_slot_def)

section \<open>Backoff\<close>

text \<open>
  The delay before a retry doubles with every attempt made while it fits 64 bits, never
  falls as attempts are added, never leaves 64 bits, and stops growing at sixteen doublings.
\<close>

theorem backoff_doubles_to_a_cap:
  assumes "m \<le> n"
  shows "backoff_ms p m \<le> backoff_ms p n \<and> backoff_ms p n \<le> u64_max \<and>
    backoff_ms p n \<le> rp_base_backoff_ms p * 65536 \<and>
    (n \<le> 16 \<longrightarrow> rp_base_backoff_ms p * 2 ^ n \<le> u64_max \<longrightarrow> backoff_ms p n = rp_base_backoff_ms p * 2 ^ n)"
proof -
  have pow: "(2::nat) ^ min m 16 \<le> 2 ^ min n 16" using assms by (intro power_increasing) auto
  have top: "(2::nat) ^ min n 16 \<le> 65536" using power_increasing [of "min n 16" 16 "2::nat"] by simp
  have "backoff_ms p m \<le> backoff_ms p n"
    unfolding backoff_ms_def backoff_shift_cap_def saturating_mul_def
    by (intro min.mono mult_le_mono2 pow order_refl)
  moreover have "backoff_ms p n \<le> rp_base_backoff_ms p * 65536"
    unfolding backoff_ms_def backoff_shift_cap_def saturating_mul_def
    by (rule min.coboundedI1) (rule mult_le_mono2 [OF top])
  ultimately show ?thesis by (simp add: backoff_ms_def backoff_shift_cap_def saturating_mul_def)
qed

theorem backoff_doubles_to_a_cap_witness:
  "backoff_ms retry_policy_default 2 = 4000 \<and>
   backoff_ms retry_policy_default 1 \<le> backoff_ms retry_policy_default 2"
  using backoff_doubles_to_a_cap [of 1 2 retry_policy_default]
  by (simp add: retry_policy_default_def u64_max_def)

end
