(* ===== verification/Utf8.thy ===== *)
theory Utf8
  imports Base
begin

text \<open>Character boundaries of a UTF-8 text held as bytes, as \<open>str\<close> computes them.\<close>

text \<open>\<open>(b as i8) >= -0x40\<close>: everything but a continuation byte starts a character.\<close>

definition starts_char :: "char \<Rightarrow> bool" where
  "starts_char c \<longleftrightarrow> \<not> (128 \<le> (of_char c :: nat) \<and> (of_char c :: nat) < 192)"

definition is_char_boundary :: "string \<Rightarrow> nat \<Rightarrow> bool" where
  "is_char_boundary s i \<longleftrightarrow> i = 0 \<or> i = length s \<or> (i < length s \<and> starts_char (s ! i))"

text \<open>\<open>while cut > 0 && !s.is_char_boundary(cut) { cut -= 1 }\<close>.\<close>

fun boundary_below :: "string \<Rightarrow> nat \<Rightarrow> nat" where
  "boundary_below s 0 = 0"
| "boundary_below s (Suc n) = (if is_char_boundary s (Suc n) then Suc n else boundary_below s n)"

definition floor_char_boundary :: "string \<Rightarrow> nat \<Rightarrow> nat" where
  "floor_char_boundary s i = (if length s \<le> i then length s else boundary_below s i)"

lemma boundary_below_le: "boundary_below s n \<le> n"
  by (induction n) (auto intro: le_SucI)

lemma boundary_below_boundary: "is_char_boundary s (boundary_below s n)"
  by (induction n) (auto simp: is_char_boundary_def)

lemma floor_char_boundary_le: "floor_char_boundary s i \<le> min i (length s)"
  using boundary_below_le [of s i] by (simp add: floor_char_boundary_def)

lemma floor_char_boundary_boundary: "is_char_boundary s (floor_char_boundary s i)"
  by (simp add: floor_char_boundary_def boundary_below_boundary) (simp add: is_char_boundary_def)

lemma boundary_below_greatest: "is_char_boundary s j \<Longrightarrow> j \<le> n \<Longrightarrow> j \<le> boundary_below s n"
  by (induction n) (auto simp: le_Suc_eq)

text \<open>The characters of a text, each as its bytes.\<close>

function utf8_chars :: "string \<Rightarrow> string list" where
  "utf8_chars [] = []"
| "utf8_chars (c # cs) =
     (c # takeWhile (\<lambda>b. \<not> starts_char b) cs) # utf8_chars (dropWhile (\<lambda>b. \<not> starts_char b) cs)"
  by pat_completeness auto
termination
  by (relation "measure length") (auto simp: le_imp_less_Suc length_dropWhile_le)

lemma concat_utf8_chars [simp]: "concat (utf8_chars s) = s"
  by (induction s rule: utf8_chars.induct) auto

text \<open>\<open>s.split(|c| p(c))\<close>: the pieces between the characters with \<open>p\<close>, empty ones included.\<close>

fun split_on :: "('a \<Rightarrow> bool) \<Rightarrow> 'a list \<Rightarrow> 'a list list" where
  "split_on P [] = [[]]"
| "split_on P (x # xs) =
     (if P x then [] # split_on P xs
      else case split_on P xs of [] \<Rightarrow> [[x]] | piece # rest \<Rightarrow> (x # piece) # rest)"

definition split_chars :: "(string \<Rightarrow> bool) \<Rightarrow> string \<Rightarrow> string list" where
  "split_chars P s = map concat (split_on P (utf8_chars s))"

end
