(* ===== verification/Validation.thy ===== *)
theory Validation
  imports Task_Types Folds Utf8
begin

text \<open>
  The log of recorded checks: \<^verbatim>\<open>crates/arsy-kernel/src/validation.rs\<close>. SHA-256 of a command's
  text is the parameter \<open>sha256\<close>. An event holds the record it decodes to, or nothing when it does
  not decode.
\<close>

section \<open>The log\<close>

definition validation_schema_version :: nat where
  "validation_schema_version = 1"

definition max_record_attempts :: nat where
  "max_record_attempts = 16"

definition max_detail_bytes :: nat where
  "max_detail_bytes = 4096"

record new_validation =
  nv_operation :: string
  nv_command :: string
  nv_artifact :: artifact_id
  nv_task :: "task_id option"
  nv_attempt :: "attempt_id option"
  nv_grants :: "grant_id list"
  nv_workspace_revision :: "workspace_version option"
  nv_outcome :: validation_outcome
  nv_detail :: string
  nv_recorded_at_ms :: nat

datatype validation_state = Unvalidated | Passed_State | Failed_State | Stale_State

definition actionable :: "validation_state \<Rightarrow> bool" where
  "actionable s \<longleftrightarrow> s \<noteq> Passed_State"

record validation_log =
  vl_durable :: bool
  vl_session :: session_id
  vl_actor :: principal
  vl_version :: nat
  vl_records :: "validation_record list"

record validation_status =
  vs_state :: validation_state
  vs_actionable :: bool
  vs_durable :: bool
  vs_records :: "validation_record list"

datatype validation_error =
  Missing_Command | Validation_Contended | Validation_Overflow | Validation_Store store_error

definition validation_empty :: "session_id \<Rightarrow> principal \<Rightarrow> validation_log" where
  "validation_empty session actor =
     \<lparr>vl_durable = True, vl_session = session, vl_actor = actor, vl_version = 0, vl_records = []\<rparr>"

definition ephemeral :: "session_id \<Rightarrow> validation_log" where
  "ephemeral session =
     \<lparr>vl_durable = False, vl_session = session, vl_actor = System, vl_version = 0, vl_records = []\<rparr>"

text \<open>\<open>matches!((recorded, current), (Some(r), Some(c)) if r != c)\<close>.\<close>

definition other_revision :: "workspace_version option \<Rightarrow> workspace_version option \<Rightarrow> bool" where
  "other_revision recorded current \<longleftrightarrow>
     (case (recorded, current) of (Some r, Some c) \<Rightarrow> r \<noteq> c | _ \<Rightarrow> False)"

definition validation_status_of :: "validation_log \<Rightarrow> workspace_version option \<Rightarrow> validation_status" where
  "validation_status_of l revision =
     (let state = (if vl_records l = [] then Unvalidated
                   else case vr_outcome (last (vl_records l)) of
                          Check_Failed \<Rightarrow> Failed_State
                        | Check_Passed \<Rightarrow>
                            if other_revision (vr_workspace_revision (last (vl_records l))) revision
                            then Stale_State else Passed_State)
      in \<lparr>vs_state = state, vs_actionable = actionable state, vs_durable = vl_durable l,
          vs_records = vl_records l\<rparr>)"

section \<open>Replaying\<close>

definition replay_validation :: "session_event envelope \<Rightarrow> validation_log \<Rightarrow> validation_log" where
  "replay_validation e l =
     (case ev_payload e of
        Inline (Ev_Validation (Some r)) \<Rightarrow> l\<lparr>vl_records := vl_records l @ [r]\<rparr>
      | _ \<Rightarrow> l)"

definition set_validation_version :: "nat \<Rightarrow> validation_log \<Rightarrow> validation_log" where
  "set_validation_version v l = l\<lparr>vl_version := v\<rparr>"

definition validation_seen :: "session_event envelope \<Rightarrow> (validation_log, validation_error, unit) effect" where
  "validation_seen e l = (Inr (), replay_validation e l)"

interpretation checks: log_fold replay_validation set_validation_version vl_version
  by unfold_locales
    (auto simp: replay_validation_def set_validation_version_def split: event_payload.split
      session_event.split option.split)

lemma validation_seen_folded: "validation_seen = checks.folded"
  by (simp add: fun_eq_iff validation_seen_def checks.folded_def)

section \<open>Recording\<close>

type_synonym validation_sys = "validation_log \<times> session_event world"
type_synonym 'a validation_command = "(validation_sys, validation_error, 'a) effect"

definition validation_catch_up :: "unit validation_command" where
  "validation_catch_up = (\<lambda>(l, w).
     if \<not> vl_durable l then (Inr (), (l, w))
     else
       (case catch_up_with validation_seen set_validation_version Validation_Overflow Validation_Store
               (w_store w) (vl_session l) (vl_version l) l of
          (r, l') \<Rightarrow> (r, (l', w))))"

definition validation_open ::
  "session_id \<Rightarrow> principal \<Rightarrow> session_event world \<Rightarrow> validation_error + validation_log" where
  "validation_open session actor w =
     (case validation_catch_up (validation_empty session actor, w) of
        (Inl e, _) \<Rightarrow> Inl e
      | (Inr _, (l, _)) \<Rightarrow> Inr l)"

definition number_record :: "validation_log \<Rightarrow> validation_record \<Rightarrow> validation_record" where
  "number_record l r = r\<lparr>vr_sequence := length (vl_records l) + 1\<rparr>"

definition record_of :: "(string \<Rightarrow> state_version) \<Rightarrow> new_validation \<Rightarrow> validation_record" where
  "record_of sha256 new =
     \<lparr>vr_schema = validation_schema_version, vr_sequence = 0, vr_operation = nv_operation new,
      vr_command = nv_command new, vr_command_digest = sha256 (nv_command new),
      vr_artifact = nv_artifact new, vr_task = nv_task new, vr_attempt = nv_attempt new,
      vr_grants = nv_grants new, vr_workspace_revision = nv_workspace_revision new,
      vr_outcome = nv_outcome new,
      vr_detail = take (floor_char_boundary (nv_detail new) max_detail_bytes) (nv_detail new),
      vr_recorded_at_ms = nv_recorded_at_ms new\<rparr>"

text \<open>The tries that are left. The record is numbered again on every try.\<close>

primrec validation_record_loop :: "nat \<Rightarrow> validation_record \<Rightarrow> validation_record validation_command" where
  "validation_record_loop 0 given = raise Validation_Contended"
| "validation_record_loop (Suc n) given =
     bindE validation_catch_up (\<lambda>_ (l, w).
       need (ok_or Validation_Overflow (checked_add (vl_version l) 1)) (\<lambda>sequence (l, w).
         (let r = number_record l given;
              (correlation, w1) = draw_uuid w;
              (event, w2) = envelope_new (vl_session l) sequence (vl_actor l) None correlation 1
                              ''validation.recorded'' (Inline (Ev_Validation (Some r))) w1;
              (answer, w3) = world_append (vl_session l) (vl_version l) [event] w2
          in case answer of
               Inr version \<Rightarrow> (Inr r, (l\<lparr>vl_records := vl_records l @ [r], vl_version := version\<rparr>, w3))
             | Inl e \<Rightarrow>
                 if is_conflict e
                 then if n > 0 then validation_record_loop n given (l, w3)
                      else (Inl Validation_Contended, (l, w3))
                 else (Inl (Validation_Store e), (l, w3)))) (l, w))"

definition record_validation ::
  "(string \<Rightarrow> state_version) \<Rightarrow> new_validation \<Rightarrow> validation_record validation_command" where
  "record_validation sha256 new = (\<lambda>(l, w).
     if trim (nv_command new) = [] then (Inl Missing_Command, (l, w))
     else if vl_durable l then validation_record_loop max_record_attempts (record_of sha256 new) (l, w)
     else
       (let r = number_record l (record_of sha256 new)
        in (Inr r, (l\<lparr>vl_records := vl_records l @ [r]\<rparr>, w))))"

section \<open>What a recorded check leaves behind\<close>

lemma replay_validation_header [simp]:
  "vl_session (replay_validation e l) = vl_session l" "vl_actor (replay_validation e l) = vl_actor l"
  "vl_durable (replay_validation e l) = vl_durable l"
  by (simp_all add: replay_validation_def split: event_payload.split session_event.split option.split)

lemma fold_validation_header [simp]:
  "vl_session (fold replay_validation es l) = vl_session l"
  "vl_actor (fold replay_validation es l) = vl_actor l"
  "vl_durable (fold replay_validation es l) = vl_durable l"
  by (induction es arbitrary: l) simp_all

text \<open>A log that has read a part of its stream.\<close>

definition validation_tracks :: "validation_log \<Rightarrow> session_event world \<Rightarrow> bool" where
  "validation_tracks l w \<longleftrightarrow>
     store_ok (w_store w) \<and> vl_durable l \<and>
     checks.reads (validation_empty (vl_session l) (vl_actor l)) l (stream_of (w_store w) (vl_session l))"

definition validation_current :: "validation_log \<Rightarrow> session_event world \<Rightarrow> bool" where
  "validation_current l w \<longleftrightarrow>
     store_ok (w_store w) \<and> vl_durable l \<and>
     checks.caught_up (validation_empty (vl_session l) (vl_actor l)) l
       (stream_of (w_store w) (vl_session l))"

lemma validation_current_tracks: "validation_current l w \<Longrightarrow> validation_tracks l w"
  using checks.caught_up_reads [of _ l _ "[]"] by (simp add: validation_current_def validation_tracks_def)

lemma validation_catch_up_run:
  assumes "validation_tracks l w" and "length (stream_of (w_store w) (vl_session l)) < u64_max"
  shows "\<exists>l'. validation_catch_up (l, w) = (Inr (), (l', w)) \<and> validation_current l' w \<and>
    vl_session l' = vl_session l \<and> vl_actor l' = vl_actor l"
proof -
  let ?es = "stream_of (w_store w) (vl_session l)"
  from assms checks.catch_up_reads [of "w_store w" "vl_session l" "validation_empty (vl_session l) (vl_actor l)" l
      Validation_Overflow Validation_Store]
  obtain l' where run: "catch_up_with validation_seen set_validation_version Validation_Overflow Validation_Store
      (w_store w) (vl_session l) (vl_version l) l = (Inr (), l')"
    and up: "checks.caught_up (validation_empty (vl_session l) (vl_actor l)) l' ?es"
    unfolding validation_seen_folded validation_tracks_def by blast
  from up have "vl_session l' = vl_session l" "vl_actor l' = vl_actor l" "vl_durable l'"
    by (simp_all add: checks.caught_up_def set_validation_version_def validation_empty_def)
  with up run assms(1) show ?thesis
    by (simp add: validation_catch_up_def validation_tracks_def validation_current_def)
qed

lemma validation_append:
  assumes cur: "validation_current l w"
    and app: "world_append (vl_session l) (vl_version l) [event] w = (answer, w')"
    and event: "ev_payload event = Inline (Ev_Validation (Some r))"
  shows "case answer of
      Inr version \<Rightarrow> validation_current (l\<lparr>vl_records := vl_records l @ [r], vl_version := version\<rparr>) w'
    | Inl _ \<Rightarrow> validation_tracks l w'"
proof -
  let ?k = "vl_session l" and ?l0 = "validation_empty (vl_session l) (vl_actor l)"
  let ?es = "stream_of (w_store w) ?k"
  from cur have ok: "store_ok (w_store w)" "vl_durable l" and up: "checks.caught_up ?l0 l ?es"
    by (simp_all add: validation_current_def)
  from world_append_extends [OF ok(1) app] obtain more where ok': "store_ok (w_store w')"
    and es': "stream_of (w_store w') ?k = ?es @ more @ (case answer of Inr _ \<Rightarrow> [event] | Inl _ \<Rightarrow> [])"
    and ver: "\<And>n. answer = Inr n \<Longrightarrow> vl_version l = length (?es @ more) \<and> n = Suc (vl_version l)"
    by auto
  show ?thesis
  proof (cases answer)
    case (Inl e)
    from checks.caught_up_reads [OF up] es' ok ok' Inl show ?thesis by (simp add: validation_tracks_def)
  next
    case (Inr n)
    from ver [OF Inr] checks.caught_up_version [OF up] have "more = []" "n = Suc (length ?es)" by simp_all
    moreover have "replay_validation event l = l\<lparr>vl_records := vl_records l @ [r]\<rparr>"
      by (simp add: replay_validation_def event)
    ultimately show ?thesis
      using checks.caught_up_next [OF up, of event] es' ok ok' Inr
      by (simp add: validation_current_def set_validation_version_def)
  qed
qed

lemma draw_envelope_store:
  assumes "draw_uuid w = (correlation, w1)"
    and "envelope_new session sequence actor causation correlation schema kind payload w1 = (event, w2)"
  shows "w_store w2 = w_store w \<and> ev_payload event = payload"
  using draw_uuid_store [OF assms(1)] envelope_new_store [OF assms(2)] by simp

lemma validation_catch_up_world: "validation_catch_up (l, w) = (r, (l', w')) \<Longrightarrow> w' = w"
  by (auto simp: validation_catch_up_def split: if_splits prod.splits)

text \<open>One try, taken apart.\<close>

lemma validation_record_tryE:
  assumes run: "validation_record_loop (Suc n) given (l, w) = (Inr r, (l', w'))"
  obtains l1 event w2 answer w3 where "validation_catch_up (l, w) = (Inr (), (l1, w))"
    and "w_store w2 = w_store w" and "ev_payload event = Inline (Ev_Validation (Some (number_record l1 given)))"
    and "world_append (vl_session l1) (vl_version l1) [event] w2 = (answer, w3)"
    and "case answer of
        Inr version \<Rightarrow> r = number_record l1 given \<and> w' = w3 \<and>
          l' = l1\<lparr>vl_records := vl_records l1 @ [r], vl_version := version\<rparr>
      | Inl e \<Rightarrow> validation_record_loop n given (l1, w3) = (Inr r, (l', w'))"
proof -
  from run obtain l1 w1 where up: "validation_catch_up (l, w) = (Inr (), (l1, w1))"
    by (auto simp: bindE_eq_Inr)
  with validation_catch_up_world have w1: "w1 = w" by blast
  from run up obtain sequence where sq: "checked_add (vl_version l1) 1 = Some sequence"
    by (cases "checked_add (vl_version l1) 1") (auto simp: bindE_def)
  obtain correlation wa where d: "draw_uuid w = (correlation, wa)" by fastforce
  obtain event w2 where n: "envelope_new (vl_session l1) sequence (vl_actor l1) None correlation 1
      ''validation.recorded'' (Inline (Ev_Validation (Some (number_record l1 given)))) wa = (event, w2)"
    by fastforce
  obtain answer w3 where ap: "world_append (vl_session l1) (vl_version l1) [event] w2 = (answer, w3)"
    by fastforce
  note stored = draw_envelope_store [OF d n]
  from run up sq d n ap w1
  have "case answer of
        Inr version \<Rightarrow> r = number_record l1 given \<and> w' = w3 \<and>
          l' = l1\<lparr>vl_records := vl_records l1 @ [r], vl_version := version\<rparr>
      | Inl e \<Rightarrow> validation_record_loop n given (l1, w3) = (Inr r, (l', w'))"
    by (auto simp: bindE_def Let_def split: sum.splits if_splits)
  with that up w1 stored ap show thesis by blast
qed

lemma validation_record_extends:
  assumes "store_ok (w_store w)" and "validation_record_loop n given (l, w) = (Inr r, (l', w'))"
  shows "prefix (stream_of (w_store w) k) (stream_of (w_store w') k)"
  using assms
proof (induction n arbitrary: l w)
  case (Suc n)
  from Suc.prems(2) obtain l1 event w2 answer w3 where w2: "w_store w2 = w_store w"
    and ap: "world_append (vl_session l1) (vl_version l1) [event] w2 = (answer, w3)"
    and rest: "case answer of
        Inr version \<Rightarrow> r = number_record l1 given \<and> w' = w3 \<and>
          l' = l1\<lparr>vl_records := vl_records l1 @ [r], vl_version := version\<rparr>
      | Inl e \<Rightarrow> validation_record_loop n given (l1, w3) = (Inr r, (l', w'))"
    by (rule validation_record_tryE)
  from world_append_prefix(1) [OF _ ap, of k] world_append_prefix(2) [OF _ ap] Suc.prems(1) w2
  have "prefix (stream_of (w_store w) k) (stream_of (w_store w3) k)" "store_ok (w_store w3)" by simp_all
  with rest Suc.IH [of w3 l1] show ?case
    by (cases answer) (auto intro: prefix_order.trans)
qed (simp add: raise_def)

lemma validation_record_current:
  assumes "validation_tracks l w" and "validation_record_loop n given (l, w) = (Inr r, (l', w'))"
    and "length (stream_of (w_store w') (vl_session l)) < u64_max"
  shows "validation_current l' w' \<and> vl_session l' = vl_session l \<and> vl_actor l' = vl_actor l \<and>
    (\<exists>before. vl_records l' = before @ [r] \<and> r = given\<lparr>vr_sequence := Suc (length before)\<rparr>)"
  using assms
proof (induction n arbitrary: l w)
  case (Suc n)
  have ok: "store_ok (w_store w)" using Suc.prems(1) by (simp add: validation_tracks_def)
  from validation_record_extends [OF ok Suc.prems(2), of "vl_session l"] Suc.prems(3)
  have "length (stream_of (w_store w) (vl_session l)) < u64_max" by (auto simp: prefix_def)
  from validation_catch_up_run [OF Suc.prems(1) this] obtain l2 where l2:
    "validation_catch_up (l, w) = (Inr (), (l2, w))" "validation_current l2 w"
    "vl_session l2 = vl_session l" "vl_actor l2 = vl_actor l" by blast
  from Suc.prems(2) obtain l1 event w2 answer w3 where up: "validation_catch_up (l, w) = (Inr (), (l1, w))"
    and w2: "w_store w2 = w_store w"
    and event: "ev_payload event = Inline (Ev_Validation (Some (number_record l1 given)))"
    and ap: "world_append (vl_session l1) (vl_version l1) [event] w2 = (answer, w3)"
    and rest: "case answer of
        Inr version \<Rightarrow> r = number_record l1 given \<and> w' = w3 \<and>
          l' = l1\<lparr>vl_records := vl_records l1 @ [r], vl_version := version\<rparr>
      | Inl e \<Rightarrow> validation_record_loop n given (l1, w3) = (Inr r, (l', w'))"
    by (rule validation_record_tryE)
  from l2 up have l1: "l1 = l2" by simp
  have "validation_current l2 w2" using l2(2) w2 by (simp add: validation_current_def)
  from validation_append [OF this ap [unfolded l1] event [unfolded l1]]
  have done_or_not: "case answer of
      Inr version \<Rightarrow> validation_current (l2\<lparr>vl_records := vl_records l2 @ [number_record l2 given], vl_version := version\<rparr>) w3
    | Inl _ \<Rightarrow> validation_tracks l2 w3" .
  show ?case
  proof (cases answer)
    case (Inl e)
    with rest done_or_not l1 Suc.IH [of l2 w3] Suc.prems(3) l2 show ?thesis by simp
  next
    case (Inr version)
    with rest done_or_not l1 l2 show ?thesis by (auto simp: number_record_def)
  qed
qed (simp add: raise_def)

lemma validation_open_current:
  assumes "validation_current l w" and "length (stream_of (w_store w) (vl_session l)) < u64_max"
  shows "validation_open (vl_session l) (vl_actor l) w = Inr l"
proof -
  let ?l0 = "validation_empty (vl_session l) (vl_actor l)"
  have "validation_tracks ?l0 w"
    using assms(1)
    by (simp add: validation_tracks_def validation_current_def checks.reads_def validation_empty_def
        set_validation_version_def)
  from validation_catch_up_run [OF this] assms(2) obtain l' where
    "validation_catch_up (?l0, w) = (Inr (), (l', w))" "validation_current l' w"
    "vl_session l' = vl_session l" "vl_actor l' = vl_actor l" by (auto simp: validation_empty_def)
  moreover from this assms(1) have "l' = l"
    by (simp add: validation_current_def checks.caught_up_def)
  ultimately show ?thesis by (simp add: validation_open_def)
qed

end
