(* ===== verification/Proof.thy ===== *)
theory Proof
  imports Task_Commands Validation
begin

text \<open>
  Completion proofs: \<^verbatim>\<open>crates/arsy-kernel/src/proof.rs\<close>. The artifact store is a parameter: which
  artifact identifiers it has metadata for, or nothing when the caller has no store.
\<close>

section \<open>States\<close>

datatype proof_state =
  Unverified | PartiallyVerified | Stale | Failed_Proof | Unverifiable_Proof | Verified

fun proof_rank :: "proof_state \<Rightarrow> nat" where
  "proof_rank Unverified = 0"
| "proof_rank PartiallyVerified = 1"
| "proof_rank Stale = 2"
| "proof_rank Failed_Proof = 3"
| "proof_rank Unverifiable_Proof = 4"
| "proof_rank Verified = 5"

lemma proof_rank_inj: "proof_rank a = proof_rank b \<Longrightarrow> a = b"
  by (cases a; cases b) simp_all

text \<open>The derived order: the order of the variants.\<close>

instantiation proof_state :: linorder
begin

definition less_eq_proof_state :: "proof_state \<Rightarrow> proof_state \<Rightarrow> bool" where
  "less_eq_proof_state a b \<longleftrightarrow> proof_rank a \<le> proof_rank b"

definition less_proof_state :: "proof_state \<Rightarrow> proof_state \<Rightarrow> bool" where
  "less_proof_state a b \<longleftrightarrow> proof_rank a < proof_rank b"

instance
  by standard (auto simp: less_eq_proof_state_def less_proof_state_def intro: proof_rank_inj)

end

definition is_verified :: "proof_state \<Rightarrow> bool" where
  "is_verified s \<longleftrightarrow> s = Verified"

section \<open>Documents\<close>

record evidence_ref =
  er_kind :: string
  er_artifact :: "artifact_id option"
  er_command :: "string option"
  er_command_digest :: "state_version option"
  er_task :: "task_id option"
  er_attempt :: "attempt_id option"
  er_actor :: principal
  er_workspace_revision :: "workspace_version option"
  er_recorded_at_ms :: nat
  er_rejected :: "string option"

record criterion_proof =
  cp_criterion :: criterion_id
  cp_statement :: string
  cp_required :: bool
  cp_state :: proof_state
  cp_why :: string
  cp_human_judgment :: bool
  cp_evidence :: "evidence_ref list"

record completion_proof =
  pf_schema :: nat
  pf_session :: session_id
  pf_task :: task_id
  pf_revision :: "workspace_version option"
  pf_state :: proof_state
  pf_criteria :: "criterion_proof list"
  pf_built_at_ms :: nat

definition outstanding :: "completion_proof \<Rightarrow> criterion_proof list" where
  "outstanding p =
     sort_key cp_state (filter (\<lambda>c. cp_required c \<and> \<not> is_verified (cp_state c)) (pf_criteria p))"

definition exit_code :: "completion_proof \<Rightarrow> nat" where
  "exit_code p =
     (case pf_state p of
        Verified \<Rightarrow> 0
      | Failed_Proof \<Rightarrow> 1
      | Stale \<Rightarrow> 2
      | Unverifiable_Proof \<Rightarrow> 3
      | Unverified \<Rightarrow> 4
      | PartiallyVerified \<Rightarrow> 4)"

section \<open>Deciding a criterion\<close>

record prover =
  pv_graph :: graph
  pv_validations :: "validation_record list"
  pv_artifacts :: "(artifact_id \<Rightarrow> bool) option"

definition criterion_proof_of ::
  "acceptance_criterion \<Rightarrow> proof_state \<Rightarrow> string \<Rightarrow> evidence_ref list \<Rightarrow> criterion_proof" where
  "criterion_proof_of c state why evidence =
     \<lparr>cp_criterion = ac_id c, cp_statement = ac_statement c, cp_required = ac_required c,
      cp_state = state, cp_why = why,
      cp_human_judgment = (ac_verifier c = Review \<or> ac_verifier c = Human), cp_evidence = evidence\<rparr>"

definition judged :: "prover \<Rightarrow> acceptance_criterion \<Rightarrow> workspace_version option \<Rightarrow> criterion_proof" where
  "judged p c revision =
     (if judgments_of (pv_graph p) (ac_id c) = []
      then criterion_proof_of c Unverified ''nobody has given a verdict on this'' []
      else
        (let verdict = last (judgments_of (pv_graph p) (ac_id c));
             evidence = [\<lparr>er_kind = ''judgment'', er_artifact = None, er_command = None,
                          er_command_digest = None, er_task = Some (ac_task c), er_attempt = None,
                          er_actor = jd_actor verdict,
                          er_workspace_revision = jd_workspace_revision verdict,
                          er_recorded_at_ms = jd_recorded_at_ms verdict, er_rejected = None\<rparr>]
         in if \<not> jd_met verdict then criterion_proof_of c Failed_Proof (jd_note verdict) evidence
            else if other_revision (jd_workspace_revision verdict) revision
            then criterion_proof_of c Stale ''the verdict was given about another revision'' evidence
            else criterion_proof_of c Verified
                   ''a reviewer says it holds; this is a judgment, not a deterministic check'' evidence))"

text \<open>What \<open>checked\<close> asks of the record it found, in the order it asks.\<close>

definition checked ::
  "prover \<Rightarrow> acceptance_criterion \<Rightarrow> state_version \<Rightarrow> workspace_version option \<Rightarrow> nat \<Rightarrow> criterion_proof" where
  "checked p c digest revision now_ms =
     (let candidates = filter (\<lambda>r. vr_command_digest r = digest) (pv_validations p)
      in if candidates = [] then criterion_proof_of c Unverified ''this check has not been run'' []
         else
           (let r = last candidates;
                reference = \<lparr>er_kind = ''validation'', er_artifact = Some (vr_artifact r),
                  er_command = Some (vr_command r), er_command_digest = Some (vr_command_digest r),
                  er_task = vr_task r, er_attempt = vr_attempt r, er_actor = System,
                  er_workspace_revision = vr_workspace_revision r,
                  er_recorded_at_ms = vr_recorded_at_ms r, er_rejected = None\<rparr>;
                reject = (\<lambda>state why.
                  criterion_proof_of c state why [reference\<lparr>er_rejected := Some why\<rparr>])
            in if (case vr_task r of None \<Rightarrow> False | Some t \<Rightarrow> t \<noteq> ac_task c)
               then reject Unverified ''the check belongs to another task''
               else if (case Option.bind (vr_attempt r) (omap_get (g_attempts (pv_graph p))) of
                          None \<Rightarrow> False
                        | Some t \<Rightarrow> ta_state t = At_Superseded \<or> ta_state t = At_Expired)
               then reject Unverified ''the attempt that ran it was superseded''
               else (case pv_artifacts p of
                       None \<Rightarrow> reject Unverifiable_Proof ''no artifact store to check the evidence against''
                     | Some has \<Rightarrow>
                         if \<not> has (vr_artifact r)
                         then reject Unverified ''the artifact this cites is not in the store''
                         else if vr_outcome r = Check_Failed
                         then criterion_proof_of c Failed_Proof (vr_detail r) [reference]
                         else if other_revision (vr_workspace_revision r) revision
                         then reject Stale ''the check ran against another revision''
                         else if (case ac_freshness_ms c of None \<Rightarrow> False
                                  | Some window \<Rightarrow> now_ms - vr_recorded_at_ms r > window)
                         then reject Stale ''the check is older than this criterion allows''
                         else criterion_proof_of c Verified (vr_command r) [reference])))"

definition prove_criterion ::
  "prover \<Rightarrow> acceptance_criterion \<Rightarrow> workspace_version option \<Rightarrow> nat \<Rightarrow> criterion_proof" where
  "prove_criterion p c revision now_ms =
     (case ac_inapplicable c of
        Some why \<Rightarrow> criterion_proof_of c Verified why []
      | None \<Rightarrow>
          (case ac_verifier c of
             Unverifiable why \<Rightarrow> criterion_proof_of c Unverifiable_Proof why []
           | Review \<Rightarrow> judged p c revision
           | Human \<Rightarrow> judged p c revision
           | Command digest \<Rightarrow> checked p c digest revision now_ms))"

text \<open>One state for the task.\<close>

definition overall :: "criterion_proof list \<Rightarrow> proof_state" where
  "overall criteria =
     (let required = filter cp_required criteria
      in if required = [] then Unverified
         else
           (let worst = Min (set (map cp_state required))
            in if worst = Unverified \<and> (\<exists>c\<in>set required. is_verified (cp_state c))
               then PartiallyVerified else worst))"

definition proof_schema_version :: nat where
  "proof_schema_version = 1"

definition prove_task :: "prover \<Rightarrow> task_id \<Rightarrow> workspace_version option \<Rightarrow> nat \<Rightarrow> completion_proof" where
  "prove_task p task revision now_ms =
     (let criteria = map (\<lambda>c. prove_criterion p c revision now_ms) (criteria_of (pv_graph p) task)
      in \<lparr>pf_schema = proof_schema_version, pf_session = g_session (pv_graph p), pf_task = task,
          pf_revision = revision, pf_state = overall criteria, pf_criteria = criteria,
          pf_built_at_ms = now_ms\<rparr>)"

section \<open>What a verified criterion rests on\<close>

text \<open>
  The contract in the module's own words: a check counts when its last run passed, for this task,
  under an attempt that may still commit, with its artifact in the store, at this revision, and
  recently enough; a verdict counts when the last one is favourable and not about another revision.
\<close>

definition check_counts ::
  "prover \<Rightarrow> acceptance_criterion \<Rightarrow> workspace_version option \<Rightarrow> nat \<Rightarrow> validation_record \<Rightarrow> bool" where
  "check_counts p c revision now_ms r \<longleftrightarrow>
     (\<forall>t. vr_task r = Some t \<longrightarrow> t = ac_task c) \<and>
     (\<forall>a t. vr_attempt r = Some a \<longrightarrow> omap_get (g_attempts (pv_graph p)) a = Some t \<longrightarrow>
        ta_state t \<noteq> At_Superseded \<and> ta_state t \<noteq> At_Expired) \<and>
     (\<exists>has. pv_artifacts p = Some has \<and> has (vr_artifact r)) \<and>
     vr_outcome r = Check_Passed \<and>
     \<not> other_revision (vr_workspace_revision r) revision \<and>
     (\<forall>window. ac_freshness_ms c = Some window \<longrightarrow> now_ms - vr_recorded_at_ms r \<le> window)"

definition verdict_counts :: "workspace_version option \<Rightarrow> criterion_judgment \<Rightarrow> bool" where
  "verdict_counts revision j \<longleftrightarrow> jd_met j \<and> \<not> other_revision (jd_workspace_revision j) revision"

definition criterion_met ::
  "prover \<Rightarrow> acceptance_criterion \<Rightarrow> workspace_version option \<Rightarrow> nat \<Rightarrow> bool" where
  "criterion_met p c revision now_ms \<longleftrightarrow>
     ac_inapplicable c \<noteq> None \<or>
     (case ac_verifier c of
        Unverifiable _ \<Rightarrow> False
      | Command digest \<Rightarrow>
          (\<exists>earlier r later. pv_validations p = earlier @ r # later \<and> vr_command_digest r = digest \<and>
             (\<forall>s\<in>set later. vr_command_digest s \<noteq> digest) \<and> check_counts p c revision now_ms r)
      | _ \<Rightarrow> (\<exists>js j. judgments_of (pv_graph p) (ac_id c) = js @ [j] \<and> verdict_counts revision j))"

lemma last_filter_iff:
  "(filter P xs \<noteq> [] \<and> last (filter P xs) = x) \<longleftrightarrow>
   (\<exists>as bs. xs = as @ x # bs \<and> P x \<and> (\<forall>y\<in>set bs. \<not> P y))" (is "?l \<longleftrightarrow> ?r")
proof
  show "?l \<Longrightarrow> ?r"
  proof (induction xs rule: rev_induct)
    case (snoc y xs)
    show ?case
    proof (cases "P y")
      case True
      with snoc.prems show ?thesis by (intro exI [of _ xs] exI [of _ "[]"]) simp
    next
      case False
      with snoc obtain as bs where "xs = as @ x # bs" "P x" "\<forall>y\<in>set bs. \<not> P y" by auto
      with False show ?thesis by (intro exI [of _ as] exI [of _ "bs @ [y]"]) simp
    qed
  qed simp
next
  assume ?r
  then obtain as bs where xs: "xs = as @ x # bs" "P x" "\<forall>y\<in>set bs. \<not> P y" by blast
  then have "filter P bs = []" by (simp add: filter_empty_conv)
  with xs show ?l by simp
qed

lemma last_filter_that:
  "(filter P xs \<noteq> [] \<and> Q (last (filter P xs))) \<longleftrightarrow>
   (\<exists>as x bs. xs = as @ x # bs \<and> P x \<and> (\<forall>y\<in>set bs. \<not> P y) \<and> Q x)" (is "?l \<longleftrightarrow> ?r")
proof
  assume ?l
  with last_filter_iff [of P xs "last (filter P xs)"] show ?r by auto
next
  assume ?r
  then obtain as x bs where "xs = as @ x # bs" "P x" "\<forall>y\<in>set bs. \<not> P y" "Q x" by blast
  with last_filter_iff [of P xs x] show ?l by auto
qed

lemma cp_state_of [simp]: "cp_state (criterion_proof_of c state why evidence) = state"
  by (simp add: criterion_proof_of_def)

lemma cp_required_of [simp]: "cp_required (criterion_proof_of c state why evidence) = ac_required c"
  by (simp add: criterion_proof_of_def)

lemma checked_verified:
  "cp_state (checked p c digest revision now_ms) = Verified \<longleftrightarrow>
   filter (\<lambda>r. vr_command_digest r = digest) (pv_validations p) \<noteq> [] \<and>
   check_counts p c revision now_ms (last (filter (\<lambda>r. vr_command_digest r = digest) (pv_validations p)))"
proof (cases "filter (\<lambda>r. vr_command_digest r = digest) (pv_validations p) = []")
  case False
  define r where "r = last (filter (\<lambda>r. vr_command_digest r = digest) (pv_validations p))"
  have "cp_state (checked p c digest revision now_ms) = Verified \<longleftrightarrow> check_counts p c revision now_ms r"
    unfolding checked_def Let_def r_def [symmetric]
    using False
    by (cases "vr_outcome r"; cases "vr_attempt r")
      (auto simp: check_counts_def not_less split: option.splits)
  with False show ?thesis by (simp add: r_def)
qed (simp add: checked_def)

lemma judged_verified:
  "cp_state (judged p c revision) = Verified \<longleftrightarrow>
   judgments_of (pv_graph p) (ac_id c) \<noteq> [] \<and>
   verdict_counts revision (last (judgments_of (pv_graph p) (ac_id c)))"
  by (simp add: judged_def verdict_counts_def Let_def)

lemma prove_criterion_verified:
  "cp_state (prove_criterion p c revision now_ms) = Verified \<longleftrightarrow> criterion_met p c revision now_ms"
proof (cases "ac_inapplicable c")
  case None
  have command: "(\<exists>earlier r later. pv_validations p = earlier @ r # later \<and> vr_command_digest r = digest \<and>
        (\<forall>s\<in>set later. vr_command_digest s \<noteq> digest) \<and> check_counts p c revision now_ms r) \<longleftrightarrow>
      cp_state (checked p c digest revision now_ms) = Verified" for digest
    unfolding checked_verified by (rule last_filter_that [symmetric])
  have verdict: "(\<exists>js j. judgments_of (pv_graph p) (ac_id c) = js @ [j] \<and> verdict_counts revision j) \<longleftrightarrow>
      cp_state (judged p c revision) = Verified"
    unfolding judged_verified by (metis append_butlast_last_id last_snoc snoc_eq_iff_butlast)
  show ?thesis
    unfolding prove_criterion_def criterion_met_def None option.case
    by (cases "ac_verifier c") (simp_all only: verifier.case command verdict simp_thms cp_state_of proof_state.distinct)
qed (simp add: prove_criterion_def criterion_met_def)

lemma judged_required: "cp_required (judged p c revision) = ac_required c"
  by (simp add: judged_def Let_def)

lemma checked_required: "cp_required (checked p c digest revision now_ms) = ac_required c"
  unfolding checked_def Let_def
  by (cases "pv_artifacts p")
    (simp_all only: if_distrib [of cp_required] cp_required_of if_cancel option.case)

lemma prove_criterion_required [simp]:
  "cp_required (prove_criterion p c revision now_ms) = ac_required c"
  by (cases "ac_inapplicable c"; cases "ac_verifier c")
    (simp_all add: prove_criterion_def judged_required checked_required)

lemma verified_top: "(s :: proof_state) \<le> Verified"
  by (cases s) (simp_all add: less_eq_proof_state_def)

lemma overall_verified:
  "overall cs = Verified \<longleftrightarrow>
   (\<exists>c\<in>set cs. cp_required c) \<and> (\<forall>c\<in>set cs. cp_required c \<longrightarrow> cp_state c = Verified)"
proof (cases "filter cp_required cs = []")
  case True
  then show ?thesis by (auto simp: overall_def filter_empty_conv)
next
  case False
  let ?states = "cp_state ` set (filter cp_required cs)"
  have "?states \<noteq> {}" using False by (cases "filter cp_required cs") auto
  then have "Min ?states = Verified \<longleftrightarrow> (\<forall>s\<in>?states. s = Verified)"
    using verified_top by (auto simp: Min_eq_iff intro: antisym)
  with False show ?thesis
    by (auto simp: overall_def Let_def filter_empty_conv)
qed

end
