(* ===== verification/Proof_Properties.thy ===== *)
theory Proof_Properties
  imports Proof Task_Properties
begin

text \<open>The properties of recorded checks and of the proofs that rest on them.\<close>

section \<open>Samples\<close>

definition sample_check :: new_validation where
  "sample_check =
     \<lparr>nv_operation = ''process.exec'', nv_command = ''t'', nv_artifact = 90, nv_task = Some 2,
      nv_attempt = None, nv_grants = [], nv_workspace_revision = None, nv_outcome = Check_Passed,
      nv_detail = [], nv_recorded_at_ms = 5\<rparr>"

definition sample_digest :: "string \<Rightarrow> state_version" where
  "sample_digest s = map of_char s"

definition sample_checked :: validation_record where
  "sample_checked = (record_of sample_digest sample_check)\<lparr>vr_sequence := 1\<rparr>"

lemmas first_try = validation_record_loop.simps(2) [of 15, unfolded Suc_numeral semiring_norm]

lemmas validation_run =
  record_validation_def sample_check_def sample_world_def validation_empty_def record_of_def
  number_record_def need_def ok_or_def bindE_def checked_add_def u64_max_def draw_uuid_def envelope_new_def
  world_append_def rival_turn_def append_events_def memory_store_new_def stream_of_def last_sequence_def
  Let_def validate_for_append_def max_inline_event_bytes_def trim_def trim_start_def trim_end_def
  validation_catch_up_def catch_up_with.simps read_events_def max_catch_up_batch_def first_try
  max_record_attempts_def validation_schema_version_def floor_char_boundary_def current_version_def

lemma sample_recorded:
  "fst (record_validation sample_digest sample_check (validation_empty 1 System, sample_world)) =
     Inr sample_checked"
  "fst (snd (record_validation sample_digest sample_check (validation_empty 1 System, sample_world))) =
     (validation_empty 1 System)\<lparr>vl_records := [sample_checked], vl_version := 1\<rparr>"
  "length (stream_of (w_store (snd (snd (record_validation sample_digest sample_check
      (validation_empty 1 System, sample_world))))) 1) = 1"
  by (simp_all add: validation_run sample_checked_def)

lemma sample_log_tracks: "validation_tracks (validation_empty 1 System) sample_world"
  by (simp add: validation_tracks_def validation_empty_def checks.reads_def set_validation_version_def
      sample_world_def)

section \<open>Recorded checks survive\<close>

text \<open>
  A check that was recorded is evidence after a restart. However many other holders append to
  the session in between, when recording returns, the record is the last one of the log, carries
  the digest of the command it names and the number of its place, and opening the session again
  rebuilds exactly the log in memory.
\<close>

theorem recorded_checks_survive:
  assumes "validation_tracks l w"
    and run: "record_validation sha256 new (l, w) = (Inr r, (l', w'))"
    and short: "length (stream_of (w_store w') (vl_session l)) < u64_max"
  shows "validation_open (vl_session l) (vl_actor l) w' = Inr l' \<and>
    (\<exists>before. vl_records l' = before @ [r] \<and> vr_sequence r = Suc (length before)) \<and>
    vr_command r = nv_command new \<and> vr_command_digest r = sha256 (nv_command new) \<and>
    vr_outcome r = nv_outcome new \<and> length (vr_detail r) \<le> max_detail_bytes"
proof -
  have "vl_durable l" using assms(1) by (simp add: validation_tracks_def)
  with run have loop: "validation_record_loop max_record_attempts (record_of sha256 new) (l, w) = (Inr r, (l', w'))"
    by (simp add: record_validation_def split: if_splits)
  from validation_record_current [OF assms(1) this short]
  have cur: "validation_current l' w'" "vl_session l' = vl_session l" "vl_actor l' = vl_actor l"
    and rec: "\<exists>before. vl_records l' = before @ [r] \<and>
      r = (record_of sha256 new)\<lparr>vr_sequence := Suc (length before)\<rparr>" by simp_all
  from validation_open_current [OF cur(1)] short cur have "validation_open (vl_session l) (vl_actor l) w' = Inr l'"
    by simp
  moreover have "floor_char_boundary (nv_detail new) max_detail_bytes \<le> max_detail_bytes"
    using floor_char_boundary_le [of "nv_detail new" max_detail_bytes] by simp
  ultimately show ?thesis using rec by (auto simp: record_of_def)
qed

theorem recorded_checks_survive_witness:
  "validation_open 1 System (snd (snd (record_validation sample_digest sample_check
      (validation_empty 1 System, sample_world)))) =
    Inr ((validation_empty 1 System)\<lparr>vl_records := [sample_checked], vl_version := 1\<rparr>)"
proof -
  let ?run = "record_validation sample_digest sample_check (validation_empty 1 System, sample_world)"
  have "?run = (Inr sample_checked, (fst (snd ?run), snd (snd ?run)))"
    using sample_recorded(1) by (simp only: prod_eq_iff fst_conv snd_conv)
  from recorded_checks_survive [OF sample_log_tracks this] sample_recorded(2,3) show ?thesis
    by (simp add: validation_empty_def u64_max_def)
qed

section \<open>Verified means met\<close>

text \<open>
  C17: A task is reported verified exactly when it has a required criterion and every required
  one is met: retired as inapplicable; or decided by a person whose last verdict is favourable and
  not about another revision; or decided by a command whose last recorded run passed, belongs to
  no other task, was not produced by a superseded or expired attempt, cites an artifact the store
  has, is about no other revision and is recent enough. Nothing else verifies anything.
\<close>

theorem verified_exactly_when_met:
  "pf_state (prove_task p task revision now_ms) = Verified \<longleftrightarrow>
   (\<exists>c\<in>set (criteria_of (pv_graph p) task). ac_required c) \<and>
   (\<forall>c\<in>set (criteria_of (pv_graph p) task). ac_required c \<longrightarrow> criterion_met p c revision now_ms)"
  by (simp add: prove_task_def Let_def overall_verified prove_criterion_verified)

definition sample_criterion :: "criterion_id \<Rightarrow> verifier \<Rightarrow> acceptance_criterion" where
  "sample_criterion i v =
     \<lparr>ac_id = i, ac_task = 2, ac_statement = [], ac_verifier = v, ac_required = True,
      ac_freshness_ms = None, ac_inapplicable = None\<rparr>"

definition sample_prover :: "validation_record list \<Rightarrow> acceptance_criterion list \<Rightarrow> prover" where
  "sample_prover records criteria =
     \<lparr>pv_graph = sample_running\<lparr>g_criteria := map (\<lambda>c. (ac_id c, c)) criteria\<rparr>,
      pv_validations = records, pv_artifacts = Some (\<lambda>a. a = 90)\<rparr>"

lemmas prover_defs =
  sample_prover_def sample_criterion_def sample_running_def sample_defs criteria_of_def omap_values_def
  sample_digest_def

theorem verified_exactly_when_met_witness:
  "pf_state (prove_task (sample_prover [sample_checked] [sample_criterion 70 (Command (sample_digest ''t''))])
     2 None 9) = Verified"
  unfolding verified_exactly_when_met
  by (auto simp: prover_defs criterion_met_def check_counts_def sample_checked_def record_of_def
      sample_check_def other_revision_def Cons_eq_append_conv)



section \<open>A failure that is masked\<close>

definition sample_failed :: validation_record where
  "sample_failed = (record_of sample_digest (sample_check\<lparr>nv_command := ''u'', nv_outcome := Check_Failed\<rparr>))
     \<lparr>vr_sequence := 2\<rparr>"

definition sample_mixed :: prover where
  "sample_mixed = sample_prover [sample_checked, sample_failed]
     [sample_criterion 70 (Command (sample_digest ''t'')), sample_criterion 71 (Command (sample_digest ''u'')),
      sample_criterion 72 Human]"

text \<open>
  A failing required criterion is not always what the proof reports: beside a criterion
  nobody has looked at and one that is met, the task is called partially verified and the exit
  code is 4, although its documented meaning of 1 is that something failed.
\<close>

theorem failure_is_masked:
  "map cp_state (pf_criteria (prove_task sample_mixed 2 None 9)) = [Verified, Failed_Proof, Unverified] \<and>
   pf_state (prove_task sample_mixed 2 None 9) = PartiallyVerified \<and>
   exit_code (prove_task sample_mixed 2 None 9) = 4"
proof -
  have criteria: "criteria_of (pv_graph sample_mixed) 2 =
      [sample_criterion 70 (Command (sample_digest ''t'')), sample_criterion 71 (Command (sample_digest ''u'')),
       sample_criterion 72 Human]"
    by (simp add: sample_mixed_def sample_prover_def criteria_of_def omap_values_def sample_criterion_def)
  have passed: "cp_state (prove_criterion sample_mixed
      (sample_criterion 70 (Command (sample_digest ''t''))) None 9) = Verified"
    and failed: "cp_state (prove_criterion sample_mixed
      (sample_criterion 71 (Command (sample_digest ''u''))) None 9) = Failed_Proof"
    and unseen: "cp_state (prove_criterion sample_mixed (sample_criterion 72 Human) None 9) = Unverified"
    unfolding prove_criterion_def sample_criterion_def sample_mixed_def sample_prover_def
    by (simp_all add: checked_def judged_def judgments_of_def sample_failed_def sample_checked_def
        record_of_def sample_check_def criterion_proof_of_def other_revision_def sample_digest_def
        sample_running_def sample_defs)
  have required: "ac_required (sample_criterion i v)" for i v
    by (simp add: sample_criterion_def)
  have "min Verified (min Failed_Proof Unverified) = Unverified"
    by (simp add: min_def less_eq_proof_state_def)
  then show ?thesis
    by (simp add: prove_task_def Let_def criteria passed failed unseen required overall_def is_verified_def
        exit_code_def)
qed

end
