(* ===== verification/Secret.thy ===== *)
theory Secret
  imports Domain Strings
begin

text \<open>
  Secret handles, the redactor and the broker that feeds it: \<^verbatim>\<open>crates/arsy-kernel/src/secret.rs\<close>.
  A credential store is a function from names to credentials (the file store is input and output
  and is a parameter); what the broker and the redactor do with the answers is modelled.
\<close>

section \<open>Handles\<close>

definition secret_scheme :: string where
  "secret_scheme = ''secret://''"

definition min_secret_bytes :: nat where
  "min_secret_bytes = 8"

record secret_handle =
  sh_store :: string
  sh_name :: string

datatype secret_error =
  Malformed_Handle string | Unknown_Store string | Withdrawn_Store secret_handle
| Secret_Not_Found secret_handle | Secret_Store secret_handle string | Unredactable secret_handle
| Redaction_Failed secret_handle

definition handle_print :: "secret_handle \<Rightarrow> string" where
  "handle_print h = secret_scheme @ sh_store h @ ''/'' @ sh_name h"

definition secret_handle_new :: "string \<Rightarrow> string \<Rightarrow> secret_error + secret_handle" where
  "secret_handle_new store name =
     (if store = [] \<or> name = [] \<or> CHR ''/'' \<in> set store
      then Inl (Malformed_Handle (secret_scheme @ store @ ''/'' @ name))
      else Inr \<lparr>sh_store = store, sh_name = name\<rparr>)"

definition handle_ok :: "secret_handle \<Rightarrow> bool" where
  "handle_ok h \<longleftrightarrow> sh_store h \<noteq> [] \<and> sh_name h \<noteq> [] \<and> CHR ''/'' \<notin> set (sh_store h)"

definition placeholder :: "secret_handle \<Rightarrow> string" where
  "placeholder h = ''[redacted:'' @ handle_print h @ '']''"

text \<open>\<open>strip_prefix\<close>, then \<open>split_once('/')\<close>: the first slash ends the store.\<close>

definition handle_parse :: "string \<Rightarrow> secret_error + secret_handle" where
  "handle_parse s =
     (if \<not> starts_with secret_scheme s then Inl (Malformed_Handle s)
      else
        (let rest = drop (length secret_scheme) s
         in if CHR ''/'' \<notin> set rest then Inl (Malformed_Handle s)
            else secret_handle_new (takeWhile (\<lambda>c. c \<noteq> CHR ''/'') rest)
                   (tl (dropWhile (\<lambda>c. c \<noteq> CHR ''/'') rest))))"

lemma handle_roundtrip: "handle_ok h \<Longrightarrow> handle_parse (handle_print h) = Inr h"
proof -
  assume ok: "handle_ok h"
  then have "\<forall>c\<in>set (sh_store h). c \<noteq> CHR ''/''" by (auto simp: handle_ok_def)
  then have "takeWhile (\<lambda>c. c \<noteq> CHR ''/'') (sh_store h @ CHR ''/'' # sh_name h) = sh_store h"
    "dropWhile (\<lambda>c. c \<noteq> CHR ''/'') (sh_store h @ CHR ''/'' # sh_name h) = CHR ''/'' # sh_name h"
    by (simp_all add: takeWhile_append2 dropWhile_append2)
  with ok show ?thesis
    by (simp add: handle_parse_def handle_print_def starts_with_def secret_scheme_def secret_handle_new_def
        handle_ok_def)
qed

lemma split_once:
  assumes "c \<in> set s"
  shows "s = takeWhile (\<lambda>x. x \<noteq> c) s @ c # tl (dropWhile (\<lambda>x. x \<noteq> c) s)"
  using assms by (induction s) auto

lemma handle_parse_ok: "handle_parse s = Inr h \<Longrightarrow> handle_ok h \<and> handle_print h = s"
proof -
  assume run: "handle_parse s = Inr h"
  define rest where "rest = drop (length secret_scheme) s"
  define store where "store = takeWhile (\<lambda>c. c \<noteq> CHR ''/'') rest"
  define name where "name = tl (dropWhile (\<lambda>c. c \<noteq> CHR ''/'') rest)"
  from run have pre: "take (length secret_scheme) s = secret_scheme" and slash: "CHR ''/'' \<in> set rest"
    and new: "secret_handle_new store name = Inr h"
    unfolding handle_parse_def starts_with_def Let_def rest_def [symmetric] store_def [symmetric] name_def [symmetric]
    by (simp_all split: if_splits)
  from pre have "s = secret_scheme @ rest" unfolding rest_def by (metis append_take_drop_id)
  moreover have "rest = store @ CHR ''/'' # name"
    unfolding store_def name_def by (rule split_once [OF slash])
  ultimately show ?thesis
    using new by (simp add: secret_handle_new_def handle_ok_def handle_print_def split: if_splits)
      (auto simp: handle_ok_def)
qed

section \<open>The redactor\<close>

type_synonym redactor = "(secret_handle \<times> string) list"

definition redactor_new :: redactor where
  "redactor_new = []"

definition register_secret :: "secret_handle \<Rightarrow> string \<Rightarrow> redactor \<Rightarrow> secret_error + redactor" where
  "register_secret h v entries =
     (if length v < min_secret_bytes then Inl (Unredactable h)
      else if contains_str v (placeholder h) then Inl (Unredactable h)
      else Inr (sort_key (\<lambda>(h, v). (- int (length v), sh_store h, sh_name h))
             (filter (\<lambda>(known, _). known \<noteq> h) entries @ [(h, v)])))"

definition redact_one :: "secret_handle \<times> string \<Rightarrow> string \<Rightarrow> string" where
  "redact_one entry text =
     (case entry of (h, v) \<Rightarrow> if contains_str v text then replace_all v (placeholder h) text else text)"

definition sanitize :: "redactor \<Rightarrow> string \<Rightarrow> secret_error + string" where
  "sanitize entries text =
     (let sanitized = fold redact_one entries text
      in case find (\<lambda>(h, v). contains_str v sanitized) entries of
           Some (h, _) \<Rightarrow> Inl (Redaction_Failed h)
         | None \<Rightarrow> Inr sanitized)"

lemma sanitize_Inr:
  "sanitize entries text = Inr out \<Longrightarrow>
   out = fold redact_one entries text \<and> (\<forall>(h, v)\<in>set entries. \<not> contains_str v out)"
  by (auto simp: sanitize_def Let_def split: option.splits dest!: find_None_iff [THEN iffD1])

lemma redact_absent: "(\<forall>(h, v)\<in>set entries. \<not> contains_str v text) \<Longrightarrow> fold redact_one entries text = text"
  by (induction entries) (auto simp: redact_one_def)

lemma sanitize_clean:
  "(\<forall>(h, v)\<in>set entries. \<not> contains_str v text) \<Longrightarrow> sanitize entries text = Inr text"
  by (auto simp: sanitize_def redact_absent Let_def split: option.split dest!: find_Some_iff [THEN iffD1] nth_mem)

section \<open>The broker\<close>

record secret_broker =
  sb_stores :: "(string, string \<Rightarrow> secret_error + string) omap"
  sb_redactor :: redactor

definition secret_broker_new :: secret_broker where
  "secret_broker_new = \<lparr>sb_stores = [], sb_redactor = redactor_new\<rparr>"

definition register_store :: "string \<Rightarrow> (string \<Rightarrow> secret_error + string) \<Rightarrow> secret_broker \<Rightarrow> secret_broker" where
  "register_store i store b = b\<lparr>sb_stores := omap_insert i store (sb_stores b)\<rparr>"

text \<open>The withdrawn platform keyring: it knows its handles and resolves none.\<close>

definition os_store :: "string \<Rightarrow> secret_error + string" where
  "os_store name = Inl (Withdrawn_Store \<lparr>sh_store = ''os'', sh_name = name\<rparr>)"

record secret_value =
  sv_handle :: secret_handle
  sv_value :: string

definition resolve_secret :: "secret_handle \<Rightarrow> (secret_broker, secret_error, secret_value) effect" where
  "resolve_secret h b =
     (case omap_get (sb_stores b) (sh_store h) of
        None \<Rightarrow> (Inl (Unknown_Store (sh_store h)), b)
      | Some store \<Rightarrow>
          need (store (sh_name h)) (\<lambda>v b.
            case register_secret h v (sb_redactor b) of
              Inl e \<Rightarrow> (Inl e, b)
            | Inr r \<Rightarrow> (Inr \<lparr>sv_handle = h, sv_value = v\<rparr>, b\<lparr>sb_redactor := r\<rparr>)) b)"

text \<open>What registering guarantees of every entry.\<close>

definition redactor_ok :: "redactor \<Rightarrow> bool" where
  "redactor_ok entries \<longleftrightarrow>
     distinct (map fst entries) \<and>
     (\<forall>(h, v)\<in>set entries. min_secret_bytes \<le> length v \<and> \<not> contains_str v (placeholder h)) \<and>
     sorted_wrt (\<lambda>(_, v) (_, v'). length v' \<le> length v) entries"

lemma redactor_new_ok [simp]: "redactor_ok redactor_new"
  by (simp add: redactor_ok_def redactor_new_def)

lemma register_secret_Inr:
  assumes ok: "redactor_ok entries" and run: "register_secret h v entries = Inr entries'"
  shows "redactor_ok entries' \<and>
    set entries' = insert (h, v) {(h', v'). (h', v') \<in> set entries \<and> h' \<noteq> h}"
proof -
  let ?key = "\<lambda>(h, v :: string). (- int (length v), sh_store h, sh_name h)"
  let ?kept = "filter (\<lambda>(known, _). known \<noteq> h) entries"
  from run have e': "entries' = sort_key ?key (?kept @ [(h, v)])"
    and v: "min_secret_bytes \<le> length v" "\<not> contains_str v (placeholder h)"
    by (auto simp: register_secret_def not_less split: if_splits)
  have set: "set entries' = insert (h, v) (set ?kept)" by (simp add: e')
  have "h \<notin> fst ` set ?kept" by auto
  moreover have "distinct (map fst ?kept)"
    using ok by (auto simp: redactor_ok_def distinct_map intro: inj_on_subset)
  ultimately have "distinct (map fst (?kept @ [(h, v)]))" by auto
  then have "distinct (map fst entries')"
    unfolding e' distinct_map set_sort by (simp add: distinct_map)
  moreover have "sorted_wrt (\<lambda>(_, v) (_, v'). length v' \<le> length v) entries'"
  proof -
    have "sorted (map ?key entries')" unfolding e' by (rule sorted_sort_key)
    then have "sorted_wrt (\<lambda>x y. ?key x \<le> ?key y) entries'" by (simp add: sorted_map)
    then show ?thesis by (rule sorted_wrt_mono_rel [rotated]) (auto simp: less_eq_prod_def)
  qed
  ultimately show ?thesis
    using ok v set by (auto simp: redactor_ok_def)
qed

text \<open>Every value the broker hands out is one its redactor knows.\<close>

lemma resolve_registers:
  assumes "redactor_ok (sb_redactor b)" and "resolve_secret h b = (Inr s, b')"
  shows "redactor_ok (sb_redactor b') \<and> sv_handle s = h \<and> (h, sv_value s) \<in> set (sb_redactor b')"
  using assms
  by (auto simp: resolve_secret_def need_def split: option.splits sum.splits dest: register_secret_Inr)

lemma resolve_keeps_ok:
  assumes "redactor_ok (sb_redactor b)" and "resolve_secret h b = (r, b')"
  shows "redactor_ok (sb_redactor b')"
  using assms
  by (auto simp: resolve_secret_def need_def split: option.splits sum.splits dest: register_secret_Inr)

end
