(* ===== verification/Secret_Properties.thy ===== *)
theory Secret_Properties
  imports Secret
begin

text \<open>The properties of secret handles and of redaction.\<close>

section \<open>Handles\<close>

text \<open>
  A text is read as a handle exactly when it is what printing that handle gives, and the
  handle names a store without a slash and a secret, both non-empty; so a handle survives being
  written down, and no two texts name one secret.
\<close>

theorem handle_print_parse:
  "handle_parse s = Inr h \<longleftrightarrow> handle_ok h \<and> handle_print h = s"
  using handle_roundtrip handle_parse_ok by blast

section \<open>What the broker has handed out\<close>

text \<open>A broker in use, with the value each handle last resolved to.\<close>

inductive broker_session :: "secret_broker \<Rightarrow> (secret_handle \<Rightarrow> string option) \<Rightarrow> bool" where
  fresh_broker: "broker_session secret_broker_new Map.empty"
| store_added: "broker_session b known \<Longrightarrow> broker_session (register_store i store b) known"
| resolved: "broker_session b known \<Longrightarrow> resolve_secret h b = (Inr s, b') \<Longrightarrow>
    broker_session b' (known(h \<mapsto> sv_value s))"
| refused: "broker_session b known \<Longrightarrow> resolve_secret h b = (Inl e, b') \<Longrightarrow> broker_session b' known"

lemma resolve_set:
  assumes "redactor_ok (sb_redactor b)" and "resolve_secret h b = (Inr s, b')"
  shows "set (sb_redactor b') = insert (h, sv_value s) {(h', v'). (h', v') \<in> set (sb_redactor b) \<and> h' \<noteq> h}"
proof -
  from assms(2) have "register_secret h (sv_value s) (sb_redactor b) = Inr (sb_redactor b')"
    by (auto simp: resolve_secret_def need_def split: option.splits sum.splits)
  from register_secret_Inr [OF assms(1) this] show ?thesis by blast
qed

lemma resolve_refused: "resolve_secret h b = (Inl e, b') \<Longrightarrow> b' = b"
  by (auto simp: resolve_secret_def need_def split: option.splits sum.splits)

lemma broker_session_known:
  "broker_session b known \<Longrightarrow>
   redactor_ok (sb_redactor b) \<and> (\<forall>h v. known h = Some v \<longleftrightarrow> (h, v) \<in> set (sb_redactor b))"
proof (induction rule: broker_session.induct)
  case fresh_broker
  then show ?case by (simp add: secret_broker_new_def) (simp add: redactor_new_def)
next
  case (store_added b known i store)
  then show ?case by (simp add: register_store_def)
next
  case (resolved b known h s b')
  then show ?case using resolve_set [of b h s b'] resolve_keeps_ok [of b h "Inr s" b'] by auto
next
  case (refused b known h e b')
  then show ?case by (auto dest: resolve_refused)
qed

definition sample_vault :: "string \<Rightarrow> secret_error + string" where
  "sample_vault name = (if name = ''key'' then Inr ''hunter2hunter2'' else Inl (Unknown_Store name))"

definition sample_handle :: secret_handle where
  "sample_handle = \<lparr>sh_store = ''f'', sh_name = ''key''\<rparr>"

definition sample_broker :: secret_broker where
  "sample_broker = register_store ''f'' sample_vault secret_broker_new"

lemma sample_resolve:
  "resolve_secret sample_handle sample_broker =
     (Inr \<lparr>sv_handle = sample_handle, sv_value = ''hunter2hunter2''\<rparr>,
      sample_broker\<lparr>sb_redactor := [(sample_handle, ''hunter2hunter2'')]\<rparr>)"
  by (simp add: resolve_secret_def sample_broker_def register_store_def secret_broker_new_def sample_handle_def
      sample_vault_def need_def register_secret_def redactor_new_def min_secret_bytes_def placeholder_def
      handle_print_def secret_scheme_def starts_with_def)

text \<open>
  C22: A secret the broker handed out does not leave through a sanitized sink. Whatever stores are
  added and handles resolved, when the redactor lets a text through, the text holds no value any
  handle last resolved to, and sanitizing it again changes nothing; a text that holds none to
  begin with is let through as it is.
\<close>

theorem secrets_do_not_leak:
  assumes "broker_session b known" and "known h = Some v"
  shows "(sanitize (sb_redactor b) text = Inr out \<longrightarrow>
      \<not> contains_str v out \<and> sanitize (sb_redactor b) out = Inr out) \<and>
    ((\<forall>h' v'. known h' = Some v' \<longrightarrow> \<not> contains_str v' text) \<longrightarrow> sanitize (sb_redactor b) text = Inr text)"
proof -
  have known: "\<And>h v. known h = Some v \<longleftrightarrow> (h, v) \<in> set (sb_redactor b)"
    using broker_session_known [OF assms(1)] by blast
  show ?thesis
    using assms(2) sanitize_Inr [of "sb_redactor b" "text" out] sanitize_clean [of "sb_redactor b"]
    by (auto simp: known)
qed

theorem secrets_do_not_leak_witness:
  "\<not> contains_str ''hunter2hunter2'' ''pw=[redacted:secret://f/key]'' \<and>
   sanitize [(sample_handle, ''hunter2hunter2'')] ''pw=hunter2hunter2'' = Inr ''pw=[redacted:secret://f/key]''"
proof -
  have start: "broker_session sample_broker Map.empty"
    unfolding sample_broker_def by (intro broker_session.intros)
  from broker_session.resolved [OF start sample_resolve]
  have run: "broker_session (sample_broker\<lparr>sb_redactor := [(sample_handle, ''hunter2hunter2'')]\<rparr>)
      [sample_handle \<mapsto> ''hunter2hunter2'']" by simp
  have found: "contains_str ''hunter2hunter2'' ''pw=hunter2hunter2''"
    and hidden: "\<not> contains_str ''hunter2hunter2'' ''pw=[redacted:secret://f/key]''"
    by (simp_all add: starts_with_def)
  have mark: "placeholder sample_handle = ''[redacted:secret://f/key]''"
    by (simp add: placeholder_def handle_print_def secret_scheme_def sample_handle_def)
  have replaced: "replace_all ''hunter2hunter2'' ''[redacted:secret://f/key]'' ''pw=hunter2hunter2'' =
      ''pw=[redacted:secret://f/key]''"
    by (simp add: starts_with_def)
  have out: "sanitize [(sample_handle, ''hunter2hunter2'')] ''pw=hunter2hunter2'' =
      Inr ''pw=[redacted:secret://f/key]''"
    by (simp only: sanitize_def redact_one_def found replaced hidden mark fold_simps Let_def prod.case if_True
        find.simps if_False option.case id_apply)
  have broker: "sb_redactor (sample_broker\<lparr>sb_redactor := [(sample_handle, ''hunter2hunter2'')]\<rparr>) =
      [(sample_handle, ''hunter2hunter2'')]" by simp
  have "[sample_handle \<mapsto> ''hunter2hunter2''] sample_handle = Some ''hunter2hunter2''" by simp
  from secrets_do_not_leak [OF run this, THEN conjunct1, unfolded broker, rule_format, OF out] out
  show ?thesis by (rule conjI [OF conjunct1])
qed

section \<open>A rotated secret\<close>

text \<open>
  A rotated secret is forgotten. When a handle resolves to a new value, the redactor drops
  the value it knew, although that was handed out too: a text that holds the old value is let
  through unchanged.
\<close>

theorem rotated_secret_leaks:
  assumes "redactor_ok (sb_redactor b)" and "sb_redactor b = [(h, old)]"
    and "resolve_secret h b = (Inr s, b')" and "\<not> contains_str (sv_value s) text"
  shows "sanitize (sb_redactor b') text = Inr text"
proof (rule sanitize_clean)
  show "\<forall>(h, v)\<in>set (sb_redactor b'). \<not> contains_str v text"
    using resolve_set [OF assms(1,3)] assms(2,4) by auto
qed

theorem rotated_secret_leaks_witness:
  "sanitize (sb_redactor (snd (resolve_secret sample_handle
      (sample_broker\<lparr>sb_redactor := [(sample_handle, ''old-password'')]\<rparr>)))) ''pw=old-password'' =
   Inr ''pw=old-password''"
proof -
  let ?b = "sample_broker\<lparr>sb_redactor := [(sample_handle, ''old-password'')]\<rparr>"
  let ?s = "\<lparr>sv_handle = sample_handle, sv_value = ''hunter2hunter2''\<rparr>"
  have ok: "redactor_ok (sb_redactor ?b)"
    by (simp add: redactor_ok_def min_secret_bytes_def sample_handle_def placeholder_def handle_print_def
        secret_scheme_def starts_with_def)
  have run: "resolve_secret sample_handle ?b = (Inr ?s, snd (resolve_secret sample_handle ?b))"
    by (simp add: resolve_secret_def sample_broker_def register_store_def secret_broker_new_def
        sample_handle_def sample_vault_def need_def register_secret_def min_secret_bytes_def placeholder_def
        handle_print_def secret_scheme_def starts_with_def)
  have "\<not> contains_str (sv_value ?s) ''pw=old-password''" by (simp add: starts_with_def)
  from rotated_secret_leaks [OF ok _ run this] show ?thesis by simp
qed

end
