(* ===== verification/Memory.thy ===== *)
theory Memory
  imports Task_Types Secret Folds Utf8
begin

text \<open>
  Memory records and the store that keeps them: \<^verbatim>\<open>crates/arsy-kernel/src/memory.rs\<close>. Whether a
  character outside ASCII is alphanumeric is the parameter \<open>alnum\<close> (Rust's Unicode tables). A
  refusal keeps what its message is built from.
\<close>

section \<open>Records\<close>

fun confidence_rank :: "confidence \<Rightarrow> nat" where
  "confidence_rank Reported = 0"
| "confidence_rank Observed = 1"
| "confidence_rank Confirmed = 2"

lemma confidence_rank_inj: "confidence_rank a = confidence_rank b \<Longrightarrow> a = b"
  by (cases a; cases b) simp_all

text \<open>The derived order: the order of the variants.\<close>

instantiation confidence :: linorder
begin

definition less_eq_confidence :: "confidence \<Rightarrow> confidence \<Rightarrow> bool" where
  "less_eq_confidence a b \<longleftrightarrow> confidence_rank a \<le> confidence_rank b"

definition less_confidence :: "confidence \<Rightarrow> confidence \<Rightarrow> bool" where
  "less_confidence a b \<longleftrightarrow> confidence_rank a < confidence_rank b"

instance
  by standard (auto simp: less_eq_confidence_def less_confidence_def intro: confidence_rank_inj)

end

lemma Reported_least [simp]: "Reported \<le> c"
  by (simp add: less_eq_confidence_def)

lemma min_Reported [simp]: "min c Reported = Reported"
  by (simp add: min_absorb2)

definition is_live_record :: "memory_record \<Rightarrow> nat \<Rightarrow> bool" where
  "is_live_record r now_ms \<longleftrightarrow>
     mr_status r = Active \<and> (case mr_expires_at_ms r of None \<Rightarrow> True | Some expiry \<Rightarrow> now_ms < expiry)"

record new_memory =
  nm_scope :: memory_scope
  nm_claim :: artifact_id
  nm_provenance :: "artifact_id list"
  nm_confidence :: confidence
  nm_origin :: policy_source
  nm_author :: principal
  nm_expires_at_ms :: "nat option"
  nm_supersedes :: "memory_id option"

datatype secret_like = Stored_Credential | Not_Sanitized secret_error | Key_Prefix string | High_Entropy

datatype memory_error =
  Unknown_Memory memory_id
| Not_Permitted policy_source string policy_source
| Secret_Like secret_like
| Scope_Mismatch
| Not_Active memory_id
| Storage store_error

section \<open>Vetting a claim\<close>

definition known_key_prefixes :: "string list" where
  "known_key_prefixes =
     [''sk-'', ''sk_'', ''pk_'', ''rk_'', ''ghp_'', ''gho_'', ''ghu_'', ''ghs_'', ''ghr_'', ''github_pat_'',
      ''xoxb-'', ''xoxp-'', ''AKIA'', ''ASIA'', ''AIza'', ''ya29.'']"

definition ascii_upper :: "char \<Rightarrow> bool" where
  "ascii_upper c \<longleftrightarrow> 65 \<le> (of_char c :: nat) \<and> (of_char c :: nat) \<le> 90"

definition ascii_lower :: "char \<Rightarrow> bool" where
  "ascii_lower c \<longleftrightarrow> 97 \<le> (of_char c :: nat) \<and> (of_char c :: nat) \<le> 122"

definition ascii_digit :: "char \<Rightarrow> bool" where
  "ascii_digit c \<longleftrightarrow> 48 \<le> (of_char c :: nat) \<and> (of_char c :: nat) \<le> 57"

definition ascii_alnum :: "char \<Rightarrow> bool" where
  "ascii_alnum c \<longleftrightarrow> ascii_upper c \<or> ascii_lower c \<or> ascii_digit c"

definition is_high_entropy :: "string \<Rightarrow> bool" where
  "is_high_entropy token \<longleftrightarrow>
     list_ex ascii_upper token \<and> list_ex ascii_lower token \<and> list_ex ascii_digit token \<and>
     list_all ascii_alnum token"

text \<open>A character that may stand in a token, given as its bytes.\<close>

definition token_char :: "(string \<Rightarrow> bool) \<Rightarrow> string \<Rightarrow> bool" where
  "token_char alnum c \<longleftrightarrow>
     (case c of
        [b] \<Rightarrow> (if (of_char b :: nat) < 128 then ascii_alnum b \<or> b = CHR ''_'' \<or> b = CHR ''-'' else alnum c)
      | _ \<Rightarrow> alnum c)"

fun vet_tokens :: "string list \<Rightarrow> memory_error + unit" where
  "vet_tokens [] = Inr ()"
| "vet_tokens (token # rest) =
     (case find (\<lambda>p. starts_with p token) known_key_prefixes of
        Some p \<Rightarrow> Inl (Secret_Like (Key_Prefix p))
      | None \<Rightarrow>
          if length token \<ge> 40 \<and> is_high_entropy token then Inl (Secret_Like High_Entropy)
          else vet_tokens rest)"

definition vet :: "(string \<Rightarrow> bool) \<Rightarrow> redactor \<Rightarrow> string \<Rightarrow> memory_error + unit" where
  "vet alnum redact claim =
     (case sanitize redact claim of
        Inl e \<Rightarrow> Inl (Secret_Like (Not_Sanitized e))
      | Inr sanitized \<Rightarrow>
          if sanitized \<noteq> claim then Inl (Secret_Like Stored_Credential)
          else vet_tokens (split_chars (\<lambda>c. \<not> token_char alnum c) claim))"

section \<open>The index\<close>

type_synonym memory_index = "(memory_id, memory_record) omap"

definition rebuild :: "memory_record list \<Rightarrow> memory_index" where
  "rebuild rs = fold (\<lambda>r. omap_insert (mr_id r) r) rs []"

definition check_authority :: "memory_record \<Rightarrow> policy_source \<Rightarrow> string \<Rightarrow> memory_error + unit" where
  "check_authority existing by_source verb =
     (if by_source \<le> mr_origin existing then Inr ()
      else Inl (Not_Permitted by_source verb (mr_origin existing)))"

definition capped_confidence :: "new_memory \<Rightarrow> confidence" where
  "capped_confidence new =
     (let c = (if may_grant (nm_origin new) then nm_confidence new else min (nm_confidence new) Reported)
      in if nm_provenance new = [] then min c Reported else c)"

text \<open>What the record named as replaced has to satisfy.\<close>

definition check_supersedes :: "memory_index \<Rightarrow> new_memory \<Rightarrow> memory_error + unit" where
  "check_supersedes idx new =
     (case nm_supersedes new of
        None \<Rightarrow> Inr ()
      | Some previous \<Rightarrow>
          and_then (ok_or (Unknown_Memory previous) (omap_get idx previous)) (\<lambda>existing.
            if mr_scope existing \<noteq> nm_scope new then Inl Scope_Mismatch
            else and_then (check_authority existing (nm_origin new) ''cannot supersede'') (\<lambda>_.
              if mr_status existing \<noteq> Active then Inl (Not_Active previous) else Inr ())))"

definition fresh_record :: "memory_id \<Rightarrow> new_memory \<Rightarrow> nat \<Rightarrow> memory_record" where
  "fresh_record i new now_ms =
     \<lparr>mr_id = i, mr_scope = nm_scope new, mr_claim = nm_claim new, mr_provenance = nm_provenance new,
      mr_confidence = capped_confidence new, mr_origin = nm_origin new, mr_author = nm_author new,
      mr_created_at_ms = now_ms, mr_updated_at_ms = now_ms, mr_expires_at_ms = nm_expires_at_ms new,
      mr_status = Active, mr_supersedes = nm_supersedes new, mr_superseded_by = None,
      mr_revocation = None\<rparr>"

definition superseded_record :: "memory_id \<Rightarrow> nat \<Rightarrow> memory_record \<Rightarrow> memory_record" where
  "superseded_record i now_ms r =
     r\<lparr>mr_status := Superseded_Memory, mr_superseded_by := Some i, mr_updated_at_ms := now_ms\<rparr>"

text \<open>\<open>remember\<close>, with the identifier drawn once every check has passed.\<close>

definition remember_checks ::
  "(string \<Rightarrow> bool) \<Rightarrow> redactor \<Rightarrow> string \<Rightarrow> new_memory \<Rightarrow> memory_index \<Rightarrow> memory_error + unit" where
  "remember_checks alnum redact claim_text new idx =
     and_then (vet alnum redact claim_text) (\<lambda>_. check_supersedes idx new)"

definition remember_insert :: "memory_id \<Rightarrow> new_memory \<Rightarrow> nat \<Rightarrow> memory_index \<Rightarrow> memory_index" where
  "remember_insert i new now_ms idx =
     omap_insert i (fresh_record i new now_ms)
       (case nm_supersedes new of
          None \<Rightarrow> idx
        | Some previous \<Rightarrow> omap_modify previous (superseded_record i now_ms) idx)"

definition revoked_record :: "string \<Rightarrow> nat \<Rightarrow> memory_record \<Rightarrow> memory_record" where
  "revoked_record reason now_ms r =
     r\<lparr>mr_status := Revoked, mr_revocation := Some reason, mr_updated_at_ms := now_ms\<rparr>"

definition revoke ::
  "memory_id \<Rightarrow> policy_source \<Rightarrow> string \<Rightarrow> nat \<Rightarrow> memory_index \<Rightarrow> memory_error + memory_index" where
  "revoke i by_source reason now_ms idx =
     and_then (ok_or (Unknown_Memory i) (omap_get idx i)) (\<lambda>existing.
       and_then (check_authority existing by_source ''cannot revoke'') (\<lambda>_.
         if mr_status existing = Revoked then Inl (Not_Active i)
         else Inr (omap_modify i (revoked_record reason now_ms) idx)))"

text \<open>Most confident first, then most recent, then by identifier.\<close>

definition recall_key :: "memory_record \<Rightarrow> int \<times> int \<times> memory_id" where
  "recall_key r =
     (- int (confidence_rank (mr_confidence r)), - int (mr_updated_at_ms r), mr_id r)"

definition recall :: "memory_index \<Rightarrow> memory_scope \<Rightarrow> nat \<Rightarrow> memory_record list" where
  "recall idx scope now_ms =
     sort_key recall_key
       (filter (\<lambda>r. mr_scope r = scope \<and> is_live_record r now_ms) (omap_values idx))"

definition expired_ids :: "memory_index \<Rightarrow> nat \<Rightarrow> memory_id list" where
  "expired_ids idx now_ms =
     map mr_id (filter (\<lambda>r. mr_status r = Active \<and>
         (case mr_expires_at_ms r of None \<Rightarrow> False | Some expiry \<Rightarrow> now_ms \<ge> expiry)) (omap_values idx))"

section \<open>The store\<close>

definition memory_stream :: session_id where
  "memory_stream = 0xA5C04E11000040008000000000000001"

definition max_memory_page :: nat where
  "max_memory_page = 256"

record memory_keeper =
  mk_index :: memory_index
  mk_version :: nat

type_synonym memory_sys = "memory_keeper \<times> session_event world"
type_synonym 'a memory_command = "(memory_sys, memory_error, 'a) effect"

definition replay_memory :: "session_event envelope \<Rightarrow> memory_index \<Rightarrow> memory_index" where
  "replay_memory e idx =
     (case ev_payload e of
        Inline (Ev_Memory (Some r)) \<Rightarrow> omap_insert (mr_id r) r idx
      | _ \<Rightarrow> idx)"

text \<open>
  The read loop of \<open>open\<close>. The next sequence saturates, so on a stream that reaches the last number
  it would read the same page for ever: the result is then undefined.
\<close>

partial_function (option) memory_read ::
  "session_event memory_store \<Rightarrow> nat \<Rightarrow> memory_index \<Rightarrow> (store_error + memory_index) option" where
  "memory_read s next idx =
     (case read_events s memory_stream next max_memory_page of
        Inl e \<Rightarrow> Some (Inl e)
      | Inr page \<Rightarrow>
          if page = [] then Some (Inr idx)
          else memory_read s (saturating_add (ev_sequence (last page)) 1) (fold replay_memory page idx))"

definition memory_open :: "session_event world \<Rightarrow> (store_error + memory_keeper) option" where
  "memory_open w =
     map_option (\<lambda>read. and_then read (\<lambda>records.
       and_then (current_version (w_store w) memory_stream) (\<lambda>v.
         Inr \<lparr>mk_index = rebuild (omap_values records), mk_version = v\<rparr>))) (memory_read (w_store w) 1 [])"

text \<open>One event for each record touched, in order, numbered from the version.\<close>

fun memory_events ::
  "memory_index \<Rightarrow> nat \<Rightarrow> memory_id list \<Rightarrow> session_event world
    \<Rightarrow> (store_error + session_event envelope list) \<times> session_event world" where
  "memory_events idx sequence [] w = (Inr [], w)"
| "memory_events idx sequence (i # touched) w =
     (case omap_get idx i of
        None \<Rightarrow> memory_events idx sequence touched w
      | Some r \<Rightarrow>
          (case checked_add sequence 1 of
             None \<Rightarrow> (Inl SequenceOverflow, w)
           | Some next \<Rightarrow>
               (let (correlation, w1) = draw_uuid w;
                    (event, w2) = envelope_new memory_stream next (mr_author r) None correlation 1
                                    ''memory.recorded'' (Inline (Ev_Memory (Some r))) w1
                in case memory_events idx next touched w2 of
                     (Inl e, w3) \<Rightarrow> (Inl e, w3)
                   | (Inr events, w3) \<Rightarrow> (Inr (event # events), w3))))"

definition memory_append :: "memory_id list \<Rightarrow> unit memory_command" where
  "memory_append touched = (\<lambda>(m, w).
     (case memory_events (mk_index m) (mk_version m) touched w of
        (Inl e, w1) \<Rightarrow> (Inl (Storage e), (m, w1))
      | (Inr events, w1) \<Rightarrow>
          if events = [] then (Inr (), (m, w1))
          else
            (case world_append memory_stream (mk_version m) events w1 of
               (Inl e, w2) \<Rightarrow> (Inl (Storage e), (m, w2))
             | (Inr v, w2) \<Rightarrow> (Inr (), (m\<lparr>mk_version := v\<rparr>, w2)))))"

definition memory_remember ::
  "(string \<Rightarrow> bool) \<Rightarrow> redactor \<Rightarrow> new_memory \<Rightarrow> string \<Rightarrow> nat \<Rightarrow> memory_id memory_command" where
  "memory_remember alnum redact new claim_text now_ms = (\<lambda>(m, w).
     (case remember_checks alnum redact claim_text new (mk_index m) of
        Inl e \<Rightarrow> (Inl e, (m, w))
      | Inr _ \<Rightarrow>
          (let (i, w1) = draw_uuid w
           in bindE (memory_append (i # (case nm_supersedes new of None \<Rightarrow> [] | Some p \<Rightarrow> [p])))
                (\<lambda>_. ret i) (m\<lparr>mk_index := remember_insert i new now_ms (mk_index m)\<rparr>, w1))))"

definition memory_revoke :: "memory_id \<Rightarrow> policy_source \<Rightarrow> string \<Rightarrow> nat \<Rightarrow> unit memory_command" where
  "memory_revoke i by_source reason now_ms = (\<lambda>(m, w).
     (case revoke i by_source reason now_ms (mk_index m) of
        Inl e \<Rightarrow> (Inl e, (m, w))
      | Inr idx \<Rightarrow> memory_append [i] (m\<lparr>mk_index := idx\<rparr>, w)))"

fun expire_all :: "memory_id list \<Rightarrow> nat \<Rightarrow> memory_index \<Rightarrow> (memory_error + unit) \<times> memory_index" where
  "expire_all [] now_ms idx = (Inr (), idx)"
| "expire_all (i # rest) now_ms idx =
     (case omap_get idx i of
        None \<Rightarrow> (Inl (Unknown_Memory i), idx)
      | Some r \<Rightarrow>
          (case revoke i (mr_origin r) ''expired'' now_ms idx of
             Inl e \<Rightarrow> (Inl e, idx)
           | Inr idx' \<Rightarrow> expire_all rest now_ms idx'))"

definition memory_expire :: "nat \<Rightarrow> memory_id list memory_command" where
  "memory_expire now_ms = (\<lambda>(m, w).
     (let expired = expired_ids (mk_index m) now_ms
      in case expire_all expired now_ms (mk_index m) of
           (Inl e, idx) \<Rightarrow> (Inl e, (m\<lparr>mk_index := idx\<rparr>, w))
         | (Inr _, idx) \<Rightarrow>
             bindE (memory_append expired) (\<lambda>_. ret expired) (m\<lparr>mk_index := idx\<rparr>, w)))"

end
