(* ===== verification/Memory_Laws.thy ===== *)
theory Memory_Laws
  imports Memory
begin

text \<open>
  The laws of memory: what every record satisfies, who may change which record, and that the index
  in memory is what replaying the stream gives.
\<close>

section \<open>Well-formed records\<close>

definition record_ok :: "memory_index \<Rightarrow> memory_id \<Rightarrow> memory_record \<Rightarrow> bool" where
  "record_ok idx i r \<longleftrightarrow>
     mr_id r = i \<and>
     (\<not> may_grant (mr_origin r) \<or> mr_provenance r = [] \<longrightarrow> mr_confidence r = Reported) \<and>
     (\<forall>p. mr_supersedes r = Some p \<longrightarrow>
        (\<exists>q. omap_get idx p = Some q \<and> mr_superseded_by q = Some i \<and> mr_scope q = mr_scope r \<and>
           mr_origin r \<le> mr_origin q \<and> mr_status q \<noteq> Active)) \<and>
     (\<forall>j. mr_superseded_by r = Some j \<longrightarrow>
        (\<exists>q. omap_get idx j = Some q \<and> mr_supersedes q = Some i)) \<and>
     (mr_status r = Active \<longrightarrow> mr_superseded_by r = None) \<and>
     (mr_status r = Revoked \<longleftrightarrow> mr_revocation r \<noteq> None)"

definition memory_ok :: "memory_index \<Rightarrow> bool" where
  "memory_ok idx \<longleftrightarrow> omap_ok idx \<and> (\<forall>i r. omap_get idx i = Some r \<longrightarrow> record_ok idx i r)"

lemma memory_okD: "memory_ok idx \<Longrightarrow> omap_get idx i = Some r \<Longrightarrow> record_ok idx i r"
  by (simp add: memory_ok_def)

lemma memory_ok_empty [simp]: "memory_ok []"
  by (simp add: memory_ok_def)

lemma capped:
  "\<not> may_grant (nm_origin new) \<or> nm_provenance new = [] \<Longrightarrow> capped_confidence new = Reported"
  by (auto simp: capped_confidence_def Let_def)

lemma check_supersedesD:
  "check_supersedes idx new = Inr () \<Longrightarrow> nm_supersedes new = Some p \<Longrightarrow>
   \<exists>q. omap_get idx p = Some q \<and> mr_scope q = nm_scope new \<and> nm_origin new \<le> mr_origin q \<and>
     mr_status q = Active"
  by (cases "omap_get idx p")
    (auto simp: check_supersedes_def check_authority_def split: if_splits)

lemma remember_insert_get:
  assumes "omap_get idx i = None"
  shows "omap_get (remember_insert i new now_ms idx) j =
    (if j = i then Some (fresh_record i new now_ms)
     else if nm_supersedes new = Some j then map_option (superseded_record i now_ms) (omap_get idx j)
     else omap_get idx j)"
  by (cases "nm_supersedes new") (auto simp: remember_insert_def)

lemma remember_insert_ok:
  assumes ok: "memory_ok idx" and fresh: "omap_get idx i = None"
    and check: "check_supersedes idx new = Inr ()"
  shows "memory_ok (remember_insert i new now_ms idx)"
proof -
  let ?idx = "remember_insert i new now_ms idx"
  note get = remember_insert_get [OF fresh, of new now_ms]
  have "record_ok ?idx j r" if r: "omap_get ?idx j = Some r" for j r
  proof (cases "j = i")
    case True
    with r get have new: "r = fresh_record i new now_ms" by simp
    have "\<exists>q. omap_get ?idx p = Some q \<and> mr_superseded_by q = Some i \<and> mr_scope q = mr_scope r \<and>
        mr_origin r \<le> mr_origin q \<and> mr_status q \<noteq> Active" if p: "mr_supersedes r = Some p" for p
    proof -
      from p new have "nm_supersedes new = Some p" by (simp add: fresh_record_def)
      with check_supersedesD [OF check this] fresh get [of p] new show ?thesis
        by (auto simp: superseded_record_def fresh_record_def)
    qed
    then show ?thesis
      using new True capped [of new] by (auto simp: record_ok_def fresh_record_def)
  next
    case old: False
    then obtain r0 where r0: "omap_get idx j = Some r0"
      and r_is: "r = (if nm_supersedes new = Some j then superseded_record i now_ms r0 else r0)"
      using r get [of j] by (auto split: if_splits)
    note was = memory_okD [OF ok r0]
    have same: "mr_supersedes r = mr_supersedes r0" "mr_origin r = mr_origin r0"
      "mr_provenance r = mr_provenance r0" "mr_confidence r = mr_confidence r0" "mr_id r = mr_id r0"
      "mr_scope r = mr_scope r0" "mr_revocation r = mr_revocation r0"
      by (simp_all add: r_is superseded_record_def)
    have before: "\<exists>q. omap_get ?idx p = Some q \<and> mr_superseded_by q = Some j \<and> mr_scope q = mr_scope r \<and>
        mr_origin r \<le> mr_origin q \<and> mr_status q \<noteq> Active" if p: "mr_supersedes r = Some p" for p
    proof -
      from p same was obtain q where q: "omap_get idx p = Some q" "mr_superseded_by q = Some j"
        "mr_scope q = mr_scope r0" "mr_origin r0 \<le> mr_origin q" "mr_status q \<noteq> Active"
        by (auto simp: record_ok_def)
      moreover have "nm_supersedes new \<noteq> Some p" using check_supersedesD [OF check, of p] q by auto
      moreover have "p \<noteq> i" using q fresh by auto
      ultimately show ?thesis using get [of p] same by auto
    qed
    have after: "\<exists>q. omap_get ?idx k = Some q \<and> mr_supersedes q = Some j" if k: "mr_superseded_by r = Some k" for k
    proof (cases "nm_supersedes new = Some j")
      case True
      with k r_is get [of i] show ?thesis
        by (auto simp: superseded_record_def fresh_record_def)
    next
      case False
      with k r_is was obtain q where q: "omap_get idx k = Some q" "mr_supersedes q = Some j"
        by (auto simp: record_ok_def)
      with fresh get [of k] show ?thesis by (auto simp: superseded_record_def)
    qed
    have active: "mr_status r0 = Active" if "nm_supersedes new = Some j"
      using check_supersedesD [OF check that] r0 by simp
    have "mr_status r = Revoked \<longleftrightarrow> mr_revocation r \<noteq> None" "mr_status r = Active \<longrightarrow> mr_superseded_by r = None"
      using was active by (auto simp: r_is record_ok_def superseded_record_def)
    with was before after same show ?thesis by (simp add: record_ok_def)
  qed
  moreover have "omap_ok ?idx"
    using ok by (simp add: memory_ok_def remember_insert_def split: option.split)
  ultimately show ?thesis by (simp add: memory_ok_def)
qed

lemma revoke_InrD:
  assumes "revoke i by_source reason now_ms idx = Inr idx'"
  shows "\<exists>r. omap_get idx i = Some r \<and> by_source \<le> mr_origin r \<and> mr_status r \<noteq> Revoked \<and>
    idx' = omap_modify i (revoked_record reason now_ms) idx"
  using assms
  by (cases "omap_get idx i") (auto simp: revoke_def check_authority_def split: if_splits)

lemma revoked_ok:
  assumes ok: "memory_ok idx" and i: "omap_get idx i = Some r0"
  shows "memory_ok (omap_modify i (revoked_record reason now_ms) idx)"
proof -
  let ?f = "revoked_record reason now_ms"
  have links: "mr_supersedes (?f r) = mr_supersedes r" "mr_superseded_by (?f r) = mr_superseded_by r"
    "mr_scope (?f r) = mr_scope r" "mr_origin (?f r) = mr_origin r" "mr_status (?f r) = Revoked"
    "mr_id (?f r) = mr_id r" "mr_confidence (?f r) = mr_confidence r"
    "mr_provenance (?f r) = mr_provenance r" "mr_revocation (?f r) = Some reason" for r
    by (simp_all add: revoked_record_def)
  have moved: "\<exists>q'. omap_get (omap_modify i ?f idx) k = Some q' \<and> mr_supersedes q' = mr_supersedes q \<and>
      mr_superseded_by q' = mr_superseded_by q \<and> mr_scope q' = mr_scope q \<and> mr_origin q' = mr_origin q \<and>
      (mr_status q \<noteq> Active \<longrightarrow> mr_status q' \<noteq> Active)" if "omap_get idx k = Some q" for k q
    using that links by (cases "k = i") simp_all
  have "record_ok (omap_modify i ?f idx) k r" if "omap_get (omap_modify i ?f idx) k = Some r" for k r
  proof -
    from that obtain q where q: "omap_get idx k = Some q" and r: "r = (if k = i then ?f q else q)"
      by (auto split: if_splits)
    note was = memory_okD [OF ok q]
    have before: "\<exists>q'. omap_get (omap_modify i ?f idx) p = Some q' \<and> mr_superseded_by q' = Some k \<and>
        mr_scope q' = mr_scope r \<and> mr_origin r \<le> mr_origin q' \<and> mr_status q' \<noteq> Active"
      if p: "mr_supersedes r = Some p" for p
    proof -
      from was p r links obtain s where s: "omap_get idx p = Some s" "mr_superseded_by s = Some k"
        "mr_scope s = mr_scope q" "mr_origin q \<le> mr_origin s" "mr_status s \<noteq> Active"
        by (auto simp: record_ok_def split: if_splits)
      with moved [OF s(1)] r links show ?thesis by (auto split: if_splits)
    qed
    have after: "\<exists>q'. omap_get (omap_modify i ?f idx) j = Some q' \<and> mr_supersedes q' = Some k"
      if j: "mr_superseded_by r = Some j" for j
    proof -
      from was j r links obtain s where s: "omap_get idx j = Some s" "mr_supersedes s = Some k"
        by (auto simp: record_ok_def split: if_splits)
      with moved [OF s(1)] show ?thesis by auto
    qed
    from was before after r links show ?thesis by (auto simp: record_ok_def split: if_splits)
  qed
  moreover have "omap_ok (omap_modify i ?f idx)" using ok by (simp add: memory_ok_def)
  ultimately show ?thesis by (simp only: memory_ok_def)  auto
qed

lemma revoke_ok: "memory_ok idx \<Longrightarrow> revoke i by_source reason now_ms idx = Inr idx' \<Longrightarrow> memory_ok idx'"
  using revoked_ok by (auto dest: revoke_InrD)

lemma expire_all_ok: "memory_ok idx \<Longrightarrow> memory_ok (snd (expire_all ids now_ms idx))"
  by (induction ids now_ms idx rule: expire_all.induct)
    (auto split: option.split sum.split intro: revoke_ok)

section \<open>Who may change what\<close>

lemma remember_keeps:
  assumes "omap_get idx i = None" and "check_supersedes idx new = Inr ()"
    and "omap_get idx j = Some r" and "mr_origin r < nm_origin new"
  shows "omap_get (remember_insert i new now_ms idx) j = Some r"
  using assms check_supersedesD [OF assms(2), of j] remember_insert_get [OF assms(1), of new now_ms j]
  by auto

lemma revoke_keeps:
  assumes "revoke i by_source reason now_ms idx = Inr idx'"
    and "omap_get idx j = Some r" and "mr_origin r < by_source"
  shows "omap_get idx' j = Some r"
  using assms(2,3) revoke_InrD [OF assms(1)] by auto

section \<open>Reading the stream\<close>

lemma memory_read_runs:
  assumes ok: "store_ok s" and short: "length (stream_of s memory_stream) < u64_max"
    and "v \<le> length (stream_of s memory_stream)"
  shows "memory_read s (Suc v) idx = Some (Inr (fold replay_memory (drop v (stream_of s memory_stream)) idx))"
  using assms(3)
proof (induction "length (stream_of s memory_stream) - v" arbitrary: v idx rule: less_induct)
  case less
  let ?es = "stream_of s memory_stream"
  show ?case
  proof (cases "v < length ?es")
    case False
    with less.prems memory.read_is [OF ok, of memory_stream v max_memory_page] show ?thesis
      by (subst memory_read.simps) simp
  next
    case True
    obtain page where page: "read_events s memory_stream (Suc v) max_memory_page = Inr page" "page \<noteq> []"
      "ev_sequence (last page) = v + length page" "drop v ?es = page @ drop (v + length page) ?es"
      "v + length page \<le> length ?es"
      by (rule read_page [OF ok True, of max_memory_page]) (simp_all add: max_memory_page_def)
    have "saturating_add (ev_sequence (last page)) 1 = Suc (v + length page)"
      using page(3,5) short by (simp add: saturating_add_exact)
    moreover have "length ?es - (v + length page) < length ?es - v"
      using True page(2) by (cases page) simp_all
    from less.hyps [OF this page(5)]
    have "memory_read s (Suc (v + length page)) (fold replay_memory page idx) =
        Some (Inr (fold replay_memory (drop (v + length page) ?es) (fold replay_memory page idx)))" .
    moreover have "fold replay_memory (drop v ?es) idx =
        fold replay_memory (drop (v + length page) ?es) (fold replay_memory page idx)"
      by (subst page(4)) simp
    ultimately show ?thesis using page(1,2) by (subst memory_read.simps) simp
  qed
qed

definition memory_project :: "session_event envelope list \<Rightarrow> memory_index" where
  "memory_project es = fold replay_memory es []"

text \<open>The index is what the stream says, and every record stands under its own identifier.\<close>

definition memory_in_step :: "memory_keeper \<Rightarrow> session_event world \<Rightarrow> bool" where
  "memory_in_step m w \<longleftrightarrow>
     store_ok (w_store w) \<and> memory_ok (mk_index m) \<and>
     mk_index m = memory_project (stream_of (w_store w) memory_stream) \<and>
     mk_version m = length (stream_of (w_store w) memory_stream)"

lemma fold_omap_insert_ok: "omap_ok idx \<Longrightarrow> omap_ok (fold (\<lambda>r. omap_insert (mr_id r) r) rs idx)"
  by (induction rs arbitrary: idx) simp_all

lemma fold_insert_get:
  assumes "distinct (map mr_id rs)"
  shows "omap_get (fold (\<lambda>r. omap_insert (mr_id r) r) rs idx) i =
    (case find (\<lambda>r. mr_id r = i) rs of None \<Rightarrow> omap_get idx i | Some r \<Rightarrow> Some r)"
  using assms
proof (induction rs arbitrary: idx)
  case (Cons r rs)
  have "find (\<lambda>s. mr_id s = i) rs = None" if "mr_id r = i"
    unfolding find_None_iff using Cons.prems that by (auto simp: image_iff)
  with Cons show ?case by (auto split: option.split)
qed simp

lemma keyed_values:
  assumes "omap_ok idx" and "\<And>i r. omap_get idx i = Some r \<Longrightarrow> mr_id r = i"
  shows "map mr_id (omap_values idx) = map fst idx"
proof -
  have "mr_id (snd p) = fst p" if "p \<in> set idx" for p
    using assms(2) [of "fst p" "snd p"] omap_get_iff [OF assms(1), of "fst p" "snd p"] that by simp
  then show ?thesis by (simp add: omap_values_def)
qed

lemma rebuild_values:
  assumes ok: "omap_ok idx" and keyed: "\<And>i r. omap_get idx i = Some r \<Longrightarrow> mr_id r = i"
  shows "rebuild (omap_values idx) = idx"
proof (rule omap_ext)
  show "omap_ok (rebuild (omap_values idx))" by (simp add: rebuild_def fold_omap_insert_ok)
  show "omap_ok idx" by (rule ok)
  have dist: "distinct (map mr_id (omap_values idx))"
    using keyed_values [OF ok keyed] omap_ok_distinct [OF ok] by simp
  show "omap_get (rebuild (omap_values idx)) = omap_get idx"
  proof
    fix i
    show "omap_get (rebuild (omap_values idx)) i = omap_get idx i"
    proof (cases "omap_get idx i")
      case None
      have "find (\<lambda>r. mr_id r = i) (omap_values idx) = None"
      proof (rule ccontr)
        assume "find (\<lambda>r. mr_id r = i) (omap_values idx) \<noteq> None"
        then obtain r where "r \<in> set (omap_values idx)" "mr_id r = i"
          by (auto simp: find_Some_iff in_set_conv_nth)
        then have "i \<in> set (map mr_id (omap_values idx))" by auto
        with keyed_values [OF ok keyed] None show False
          by (metis list.set_map map_of_eq_None_iff)
      qed
      with None show ?thesis by (simp add: rebuild_def fold_insert_get [OF dist])
    next
      case (Some r)
      then have mem: "r \<in> set (omap_values idx)" and id: "mr_id r = i"
        using keyed omap_get_iff [OF ok, of i r] by (force simp: omap_values_def, simp)
      then obtain s where s: "find (\<lambda>r. mr_id r = i) (omap_values idx) = Some s"
        by (cases "find (\<lambda>r. mr_id r = i) (omap_values idx)") (auto simp: find_None_iff)
      then have "s \<in> set (omap_values idx)" "mr_id s = i"
        by (auto simp: find_Some_iff)
      with mem id dist have "s = r" by (auto simp: distinct_map dest: inj_onD)
      with s Some show ?thesis by (simp add: rebuild_def fold_insert_get [OF dist])
    qed
  qed
qed

lemma memory_open_in_step:
  assumes step: "memory_in_step m w" and "length (stream_of (w_store w) memory_stream) < u64_max"
  shows "memory_open w = Some (Inr m)"
proof -
  from step have ok: "store_ok (w_store w)" and idx: "memory_ok (mk_index m)"
    and eq: "mk_index m = memory_project (stream_of (w_store w) memory_stream)"
    and v: "mk_version m = length (stream_of (w_store w) memory_stream)"
    unfolding memory_in_step_def by blast+
  have "memory_read (w_store w) 1 [] = Some (Inr (mk_index m))"
    using memory_read_runs [OF ok assms(2), of 0 "[]"] unfolding eq memory_project_def by simp
  moreover have "rebuild (omap_values (mk_index m)) = mk_index m"
    using idx by (intro rebuild_values) (auto simp: memory_ok_def record_ok_def)
  ultimately show ?thesis
    using memory.version_is [OF ok, of memory_stream] v by (simp add: memory_open_def)
qed

section \<open>Appending what changed\<close>

lemma memory_events_replay:
  assumes "memory_events idx seq touched w = (Inr events, w')"
    and "\<And>i r. omap_get idx i = Some r \<Longrightarrow> mr_id r = i"
  shows "w_store w' = w_store w \<and>
    (\<forall>i. omap_get (fold replay_memory events old) i =
       (if i \<in> set touched \<and> omap_get idx i \<noteq> None then omap_get idx i else omap_get old i)) \<and>
    (omap_ok old \<longrightarrow> omap_ok (fold replay_memory events old))"
  using assms
proof (induction idx seq touched w arbitrary: events old rule: memory_events.induct)
  case (1 idx seq w)
  then show ?case by simp
next
  case (2 idx seq i touched w)
  show ?case
  proof (cases "omap_get idx i")
    case None
    with 2(1) [OF None] 2(3,4) show ?thesis by auto
  next
    case (Some r)
    with 2(3) obtain nxt where n: "checked_add seq 1 = Some nxt"
      by (cases "checked_add seq 1") simp_all
    obtain c w1 where d: "draw_uuid w = (c, w1)" by fastforce
    obtain event w2 where e: "envelope_new memory_stream nxt (mr_author r) None c 1 ''memory.recorded''
        (Inline (Ev_Memory (Some r))) w1 = (event, w2)" by fastforce
    obtain rest w3 where more: "memory_events idx nxt touched w2 = (rest, w3)" by fastforce
    from 2(3) Some n d e more obtain es where es: "rest = Inr es" "events = event # es" "w' = w3"
      by (auto split: sum.splits)
    have pay: "ev_payload event = Inline (Ev_Memory (Some r))" and st: "w_store w2 = w_store w"
      using draw_uuid_store [OF d] envelope_new_store [OF e] by simp_all
    have id: "mr_id r = i" using 2(4) Some by blast
    have "replay_memory event old = omap_insert i r old" by (simp add: replay_memory_def pay id)
    with 2(2) [OF Some n d [symmetric] refl e [symmetric] refl, of es "omap_insert i r old"] more es 2(4) Some st
    show ?thesis by auto
  qed
qed

lemma memory_append_in_step:
  assumes idx: "memory_ok (mk_index m)" and old: "omap_ok old" and ok: "store_ok (w_store w)"
    and es: "old = memory_project (stream_of (w_store w) memory_stream)"
    and v: "mk_version m = length (stream_of (w_store w) memory_stream)"
    and changed: "\<And>i. i \<notin> set touched \<Longrightarrow> omap_get (mk_index m) i = omap_get old i"
    and kept: "\<And>i. omap_get (mk_index m) i = None \<Longrightarrow> omap_get old i = None"
    and run: "memory_append touched (m, w) = (Inr (), (m', w'))"
  shows "memory_in_step m' w' \<and> mk_index m' = mk_index m"
proof -
  obtain r w1 where ev: "memory_events (mk_index m) (mk_version m) touched w = (r, w1)" by fastforce
  with run obtain events where r: "r = Inr events" by (cases r) (auto simp: memory_append_def)
  from memory_events_replay [OF ev [unfolded r], of old] idx
  have st: "w_store w1 = w_store w" and ok': "omap_ok (fold replay_memory events old)"
    and get: "\<And>i. omap_get (fold replay_memory events old) i =
       (if i \<in> set touched \<and> omap_get (mk_index m) i \<noteq> None then omap_get (mk_index m) i else omap_get old i)"
    using old by (auto simp: memory_ok_def record_ok_def)
  have eq: "fold replay_memory events old = mk_index m"
  proof (rule omap_ext [OF ok'])
    show "omap_ok (mk_index m)" using idx by (simp add: memory_ok_def)
    show "omap_get (fold replay_memory events old) = omap_get (mk_index m)"
      using get changed kept by (auto simp: fun_eq_iff)
  qed
  show ?thesis
  proof (cases "events = []")
    case True
    with run ev r have "m' = m" "w' = w1" by (auto simp: memory_append_def)
    with True eq es st ok idx v show ?thesis by (simp add: memory_in_step_def)
  next
    case False
    with run ev r obtain n where app: "world_append memory_stream (mk_version m) events w1 = (Inr n, w')"
      and m': "m' = m\<lparr>mk_version := n\<rparr>"
      by (auto simp: memory_append_def split: sum.splits prod.splits)
    have "store_ok (w_store w1)" using ok st by simp
    from world_append_extends [OF this app] st v
    have "store_ok (w_store w')" "n = mk_version m + length events"
      "stream_of (w_store w') memory_stream = stream_of (w_store w) memory_stream @ events"
      by auto
    with eq es idx m' v show ?thesis
      by (simp add: memory_in_step_def memory_project_def)
  qed
qed

end
