(* ===== verification/Memory_Properties.thy ===== *)
theory Memory_Properties
  imports Memory_Laws Task_Properties "HOL-Library.Multiset"
begin

text \<open>The properties of the memory store: what its records satisfy, who may change them, what survives.\<close>

lemma memory_events_store: "memory_events idx seq touched w = (x, w') \<Longrightarrow> w_store w' = w_store w"
proof (induction idx seq touched w arbitrary: x rule: memory_events.induct)
  case (1 idx seq w)
  then show ?case by simp
next
  case (2 idx seq i touched w)
  show ?case
  proof (cases "omap_get idx i")
    case None
    with 2(1) [OF None] 2(3) show ?thesis by simp
  next
    case (Some r)
    show ?thesis
    proof (cases "checked_add seq 1")
      case None
      with 2(3) Some show ?thesis by simp
    next
      case next_seq: (Some nxt)
      obtain c w1 where d: "draw_uuid w = (c, w1)" by fastforce
      obtain event w2 where e: "envelope_new memory_stream nxt (mr_author r) None c 1 ''memory.recorded''
          (Inline (Ev_Memory (Some r))) w1 = (event, w2)" by fastforce
      obtain rest w3 where more: "memory_events idx nxt touched w2 = (rest, w3)" by fastforce
      have w3: "w3 = w'" using 2(3) Some next_seq d e more by (cases rest) simp_all
      with 2(2) [OF Some next_seq d [symmetric] refl e [symmetric] refl more [unfolded w3]]
        draw_uuid_store [OF d] envelope_new_store [OF e] show ?thesis by simp
    qed
  qed
qed

section \<open>One operation\<close>

datatype memory_op =
  Do_Remember redactor new_memory string nat
| Do_Revoke memory_id policy_source string nat
| Do_Expire nat

definition memory_do :: "(string \<Rightarrow> bool) \<Rightarrow> memory_op \<Rightarrow> unit memory_command" where
  "memory_do alnum act =
     (case act of
        Do_Remember redact new claim now_ms \<Rightarrow> bindE (memory_remember alnum redact new claim now_ms) (\<lambda>_. ret ())
      | Do_Revoke i by_source reason now_ms \<Rightarrow> memory_revoke i by_source reason now_ms
      | Do_Expire now_ms \<Rightarrow> bindE (memory_expire now_ms) (\<lambda>_. ret ()))"

text \<open>A drawn identifier is new; only \<open>remember\<close> draws one for a record.\<close>

definition draws_fresh :: "memory_op \<Rightarrow> memory_sys \<Rightarrow> bool" where
  "draws_fresh act s \<longleftrightarrow>
     (case act of
        Do_Remember _ _ _ _ \<Rightarrow> omap_get (mk_index (fst s)) (w_uuid (snd s) (w_drawn (snd s))) = None
      | _ \<Rightarrow> True)"

definition due :: "nat \<Rightarrow> memory_record \<Rightarrow> bool" where
  "due now_ms r \<longleftrightarrow> mr_status r = Active \<and> (\<exists>expiry. mr_expires_at_ms r = Some expiry \<and> expiry \<le> now_ms)"

definition acts_as :: "memory_op \<Rightarrow> policy_source option" where
  "acts_as act =
     (case act of Do_Remember _ new _ _ \<Rightarrow> Some (nm_origin new) | Do_Revoke _ by_source _ _ \<Rightarrow> Some by_source
      | Do_Expire _ \<Rightarrow> None)"

lemma memory_append_index: "memory_append touched (m, w) = (r, (m', w')) \<Longrightarrow> mk_index m' = mk_index m"
  by (auto simp: memory_append_def split: prod.splits sum.splits if_splits)

lemma in_values: "omap_ok idx \<Longrightarrow> r \<in> set (omap_values idx) \<longleftrightarrow> (\<exists>i. omap_get idx i = Some r)"
  by (force simp: omap_values_def omap_get_iff)

lemma expired_ids_due:
  assumes ok: "memory_ok idx"
  shows "i \<in> set (expired_ids idx now_ms) \<longleftrightarrow> (\<exists>r. omap_get idx i = Some r \<and> due now_ms r)"
proof -
  have *: "set (expired_ids idx now_ms) = {mr_id r | r. r \<in> set (omap_values idx) \<and> due now_ms r}"
    by (auto simp: expired_ids_def due_def split: option.splits)
  have "mr_id r = j" if "omap_get idx j = Some r" for j r
    using memory_okD [OF ok that] by (simp add: record_ok_def)
  then show ?thesis using ok by (auto simp: * in_values memory_ok_def)
qed

lemma vet_not_storage: "vet alnum redact claim = Inl e \<Longrightarrow> e \<noteq> Storage x"
proof -
  have "vet_tokens ts = Inl e \<Longrightarrow> e \<noteq> Storage x" for ts
    by (induction ts rule: vet_tokens.induct) (auto split: option.splits if_splits)
  then show "vet alnum redact claim = Inl e \<Longrightarrow> e \<noteq> Storage x"
    by (auto simp: vet_def split: sum.splits if_splits)
qed

lemma expired_ids_distinct:
  assumes ok: "memory_ok idx"
  shows "distinct (expired_ids idx now_ms)"
proof -
  have "map mr_id (omap_values idx) = map fst idx"
    using ok by (intro keyed_values) (auto simp: memory_ok_def record_ok_def)
  then have "distinct (map mr_id (omap_values idx))"
    using ok by (simp add: memory_ok_def omap_ok_def strict_sorted_iff)
  then show ?thesis by (simp add: expired_ids_def distinct_map_filter)
qed

lemma expire_all_runs:
  assumes "memory_ok idx" and "distinct ids"
    and "\<And>i. i \<in> set ids \<Longrightarrow> \<exists>r. omap_get idx i = Some r \<and> mr_status r = Active"
  shows "\<exists>idx'. expire_all ids now_ms idx = (Inr (), idx') \<and> memory_ok idx' \<and>
    (\<forall>i. omap_get idx' i =
       (if i \<in> set ids then map_option (revoked_record ''expired'' now_ms) (omap_get idx i) else omap_get idx i))"
  using assms
proof (induction ids arbitrary: idx)
  case Nil
  then show ?case by simp
next
  case (Cons i ids)
  then obtain r where r: "omap_get idx i = Some r" "mr_status r = Active" by (meson list.set_intros(1))
  let ?idx = "omap_modify i (revoked_record ''expired'' now_ms) idx"
  have rev: "revoke i (mr_origin r) ''expired'' now_ms idx = Inr ?idx"
    using r by (simp add: revoke_def check_authority_def ok_or_def)
  have "memory_ok ?idx" by (rule revoked_ok [OF Cons.prems(1) r(1)])
  from Cons.IH [OF this] Cons.prems obtain idx' where
    "expire_all ids now_ms ?idx = (Inr (), idx')" "memory_ok idx'"
    "\<forall>j. omap_get idx' j = (if j \<in> set ids then map_option (revoked_record ''expired'' now_ms) (omap_get ?idx j)
       else omap_get ?idx j)" by fastforce
  with Cons.prems(2) r rev show ?case by (auto split: if_splits)
qed

text \<open>
  An operation is refused and changes nothing, or changes the index as its authority allows and
  appends the records it touched.
\<close>

definition attempts ::
  "memory_op \<Rightarrow> memory_index \<Rightarrow> memory_index \<Rightarrow> memory_id list \<Rightarrow> bool" where
  "attempts act old idx touched \<longleftrightarrow>
     memory_ok idx \<and>
     (\<forall>i. i \<notin> set touched \<longrightarrow> omap_get idx i = omap_get old i) \<and>
     (\<forall>i. omap_get idx i = None \<longrightarrow> omap_get old i = None) \<and>
     (\<forall>j q. omap_get old j = Some q \<longrightarrow> (\<forall>by_source. acts_as act = Some by_source \<longrightarrow> mr_origin q < by_source) \<longrightarrow>
        (\<forall>now_ms. act = Do_Expire now_ms \<longrightarrow> \<not> due now_ms q) \<longrightarrow> omap_get idx j = Some q)"

lemma remember_attempts:
  assumes "memory_ok idx" and "omap_get idx i = None" and "check_supersedes idx new = Inr ()"
  shows "attempts (Do_Remember redact new claim now_ms) idx (remember_insert i new now_ms idx)
    (i # (case nm_supersedes new of None \<Rightarrow> [] | Some p \<Rightarrow> [p]))"
  unfolding attempts_def
  using remember_insert_ok [OF assms] remember_insert_get [OF assms(2)] remember_keeps [OF assms(2,3)]
  by (auto simp: acts_as_def split: option.splits if_splits)

lemma revoke_attempts:
  assumes "memory_ok idx" and "revoke i by_source reason now_ms idx = Inr idx'"
  shows "attempts (Do_Revoke i by_source reason now_ms) idx idx' [i]"
  unfolding attempts_def
  using revoke_ok [OF assms] revoke_InrD [OF assms(2)] revoke_keeps [OF assms(2)]
  by (auto simp: acts_as_def split: if_splits)

lemma expire_attempts:
  assumes "memory_ok idx"
  shows "\<exists>idx'. expire_all (expired_ids idx now_ms) now_ms idx = (Inr (), idx') \<and>
    attempts (Do_Expire now_ms) idx idx' (expired_ids idx now_ms)"
proof -
  have "\<exists>r. omap_get idx i = Some r \<and> mr_status r = Active" if "i \<in> set (expired_ids idx now_ms)" for i
    using that by (auto simp: expired_ids_due [OF assms] due_def)
  from expire_all_runs [OF assms expired_ids_distinct [OF assms] this, of now_ms now_ms] obtain idx' where
    idx': "expire_all (expired_ids idx now_ms) now_ms idx = (Inr (), idx')" "memory_ok idx'"
    "\<And>i. omap_get idx' i = (if i \<in> set (expired_ids idx now_ms)
       then map_option (revoked_record ''expired'' now_ms) (omap_get idx i) else omap_get idx i)" by blast
  have "attempts (Do_Expire now_ms) idx idx' (expired_ids idx now_ms)"
    using idx'(2) unfolding attempts_def
    by (auto simp: idx'(3) expired_ids_due [OF assms] split: if_splits)
  with idx'(1) show ?thesis by blast
qed

definition memory_attempted :: "memory_op \<Rightarrow> memory_sys \<Rightarrow> memory_error + unit \<Rightarrow> memory_sys \<Rightarrow> bool" where
  "memory_attempted act s r s' \<longleftrightarrow>
     (\<exists>idx touched w1. attempts act (mk_index (fst s)) idx touched \<and> w_store w1 = w_store (snd s) \<and>
        memory_append touched ((fst s)\<lparr>mk_index := idx\<rparr>, w1) = (r, s'))"

lemma memory_attemptedI:
  "attempts act (mk_index m) idx touched \<Longrightarrow> w_store w1 = w_store w \<Longrightarrow>
   memory_append touched (m\<lparr>mk_index := idx\<rparr>, w1) = (r, s') \<Longrightarrow> memory_attempted act (m, w) r s'"
  by (fastforce simp: memory_attempted_def)

lemma bind_unit: "bindE (bindE p (\<lambda>_. ret x)) (\<lambda>_. ret ()) = (p :: unit memory_command)"
  by (auto simp: bindE_def ret_def fun_eq_iff split: prod.splits sum.splits)

lemma memory_do_cases:
  assumes run: "memory_do alnum act (m, w) = (r, s')" and ok: "memory_ok (mk_index m)"
    and fresh: "draws_fresh act (m, w)"
  shows "(\<exists>e. r = Inl e \<and> s' = (m, w) \<and> (\<forall>x. e \<noteq> Storage x)) \<or> memory_attempted act (m, w) r s'"
proof (cases act)
  case (Do_Remember redact new claim now_ms)
  show ?thesis
  proof (cases "remember_checks alnum redact claim new (mk_index m)")
    case (Inl e)
    have "\<forall>x. e \<noteq> Storage x"
      using Inl by (auto simp: remember_checks_def check_supersedes_def check_authority_def and_then_def
          ok_or_def vet_not_storage split: sum.splits option.splits if_splits)
    moreover have "r = Inl e \<and> s' = (m, w)"
      using Inl run Do_Remember by (simp add: memory_do_def memory_remember_def bindE_def)
    ultimately show ?thesis by blast
  next
    case (Inr u)
    let ?i = "w_uuid w (w_drawn w)"
    have "check_supersedes (mk_index m) new = Inr ()"
      using Inr by (auto simp: remember_checks_def and_then_def split: sum.splits)
    with ok fresh Do_Remember
    have "attempts act (mk_index m) (remember_insert ?i new now_ms (mk_index m))
        (?i # (case nm_supersedes new of None \<Rightarrow> [] | Some p \<Rightarrow> [p]))"
      by (simp add: remember_attempts draws_fresh_def)
    moreover have "memory_do alnum act (m, w) = memory_append (?i # (case nm_supersedes new of None \<Rightarrow> [] | Some p \<Rightarrow> [p]))
        (m\<lparr>mk_index := remember_insert ?i new now_ms (mk_index m)\<rparr>, w\<lparr>w_drawn := Suc (w_drawn w)\<rparr>)"
      using Inr Do_Remember
      by (simp add: memory_do_def memory_remember_def draw_uuid_def bindE_def ret_def
          split: prod.splits sum.splits)
    ultimately have "memory_attempted act (m, w) r s'"
      using run by (intro memory_attemptedI) simp_all
    then show ?thesis ..
  qed
next
  case (Do_Revoke i by_source reason now_ms)
  show ?thesis
  proof (cases "revoke i by_source reason now_ms (mk_index m)")
    case (Inl e)
    then have "\<forall>x. e \<noteq> Storage x"
      by (auto simp: revoke_def check_authority_def and_then_def ok_or_def
          split: sum.splits option.splits if_splits)
    moreover have "r = Inl e \<and> s' = (m, w)"
      using Inl run Do_Revoke by (simp add: memory_do_def memory_revoke_def)
    ultimately show ?thesis by blast
  next
    case (Inr idx)
    with run ok Do_Revoke show ?thesis
      by (fastforce simp: memory_do_def memory_revoke_def memory_attempted_def intro: revoke_attempts)
  qed
next
  case (Do_Expire now_ms)
  from expire_attempts [OF ok, of now_ms] obtain idx where
    "expire_all (expired_ids (mk_index m) now_ms) now_ms (mk_index m) = (Inr (), idx)"
    "attempts act (mk_index m) idx (expired_ids (mk_index m) now_ms)" using Do_Expire by blast
  moreover from this have "memory_do alnum act (m, w) =
      memory_append (expired_ids (mk_index m) now_ms) (m\<lparr>mk_index := idx\<rparr>, w)"
    using Do_Expire by (simp add: memory_do_def memory_expire_def Let_def bindE_def ret_def split: prod.splits sum.splits)
  ultimately have "memory_attempted act (m, w) r s'"
    using run by (intro memory_attemptedI) simp_all
  then show ?thesis ..
qed

lemma memory_do_ok:
  assumes "memory_do alnum act (m, w) = (r, (m', w'))" and "memory_ok (mk_index m)"
    and "draws_fresh act (m, w)"
  shows "memory_ok (mk_index m')"
  using memory_do_cases [OF assms] assms(2)
  by (auto simp: memory_attempted_def attempts_def dest!: memory_append_index)

lemma memory_do_in_step:
  assumes run: "memory_do alnum act (m, w) = (r, (m', w'))" and step: "memory_in_step m w"
    and fresh: "draws_fresh act (m, w)" and stored: "\<forall>e. r \<noteq> Inl (Storage e)"
  shows "memory_in_step m' w'"
proof -
  have ok: "memory_ok (mk_index m)" using step unfolding memory_in_step_def by blast
  from memory_do_cases [OF run ok fresh] show ?thesis
  proof (elim disjE)
    assume "\<exists>e. r = Inl e \<and> (m', w') = (m, w) \<and> (\<forall>x. e \<noteq> Storage x)"
    with step show ?thesis by blast
  next
    assume "memory_attempted act (m, w) r (m', w')"
    then obtain idx touched w1 where idx: "attempts act (mk_index m) idx touched" "w_store w1 = w_store w"
      and app: "memory_append touched (m\<lparr>mk_index := idx\<rparr>, w1) = (r, (m', w'))"
      by (auto simp: memory_attempted_def)
    have r: "r = Inr ()"
      using app stored by (cases r) (auto simp: memory_append_def split: prod.splits sum.splits if_splits)
    from step have m: "store_ok (w_store w)" "memory_ok (mk_index m)"
        "mk_index m = memory_project (stream_of (w_store w) memory_stream)"
        "mk_version m = length (stream_of (w_store w) memory_stream)"
      unfolding memory_in_step_def by blast+
    have "memory_in_step m' w' \<and> mk_index m' = mk_index (m\<lparr>mk_index := idx\<rparr>)"
      by (rule memory_append_in_step [where old = "mk_index m", OF _ _ _ _ _ _ _ app [unfolded r]])
        (use idx m(1,2,4) m(3) [symmetric] in \<open>simp_all add: attempts_def memory_ok_def\<close>)
    then show ?thesis ..
  qed
qed

section \<open>A session of operations\<close>

text \<open>
  A store opened on an empty stream, then any operations whose appends are accepted or that are
  refused before one, while anything else may be written to other streams.
\<close>

inductive memory_session :: "(string \<Rightarrow> bool) \<Rightarrow> memory_keeper \<Rightarrow> session_event world \<Rightarrow> bool"
  for alnum where
  opened: "store_ok (w_store w) \<Longrightarrow> stream_of (w_store w) memory_stream = [] \<Longrightarrow>
    memory_session alnum \<lparr>mk_index = [], mk_version = 0\<rparr> w"
| acted: "memory_session alnum m w \<Longrightarrow> draws_fresh act (m, w) \<Longrightarrow>
    memory_do alnum act (m, w) = (r, (m', w')) \<Longrightarrow> \<forall>e. r \<noteq> Inl (Storage e) \<Longrightarrow> memory_session alnum m' w'"
| elsewhere: "memory_session alnum m w \<Longrightarrow> store_ok (w_store w') \<Longrightarrow>
    stream_of (w_store w') memory_stream = stream_of (w_store w) memory_stream \<Longrightarrow> memory_session alnum m w'"

lemma memory_session_in_step: "memory_session alnum m w \<Longrightarrow> memory_in_step m w"
proof (induction rule: memory_session.induct)
  case (opened w)
  then show ?case by (simp add: memory_in_step_def memory_project_def)
next
  case (acted m w act r m' w')
  then show ?case by (blast intro: memory_do_in_step)
next
  case (elsewhere m w w')
  then show ?case unfolding memory_in_step_def by metis
qed

definition sample_new :: "policy_source \<Rightarrow> memory_id option \<Rightarrow> new_memory" where
  "sample_new origin supersedes =
     \<lparr>nm_scope = Repository_Memory, nm_claim = 30, nm_provenance = [31], nm_confidence = Confirmed,
      nm_origin = origin, nm_author = System, nm_expires_at_ms = None, nm_supersedes = supersedes\<rparr>"


abbreviation sample_remember :: memory_op where
  "sample_remember \<equiv> Do_Remember [] (sample_new User_Source None) [] 3"

abbreviation sample_keeper :: memory_keeper where
  "sample_keeper \<equiv> \<lparr>mk_index = [], mk_version = 0\<rparr>"

lemma sample_checks: "remember_checks alnum [] [] (sample_new origin None) idx = Inr ()"
  by (simp add: remember_checks_def vet_def sanitize_def split_chars_def and_then_def check_supersedes_def
      known_key_prefixes_def starts_with_def sample_new_def)

lemma sample_supersedes [simp]: "nm_supersedes (sample_new origin previous) = previous"
  by (simp add: sample_new_def)

lemma sample_remembered:
  "fst (memory_do (\<lambda>_. False) sample_remember (sample_keeper, sample_world)) = Inr ()"
  "length (stream_of (w_store (snd (snd (memory_do (\<lambda>_. False) sample_remember
      (sample_keeper, sample_world))))) memory_stream) = 1"
  by (simp_all add: memory_do_def memory_remember_def sample_checks Let_def draw_uuid_def bindE_def ret_def
      memory_append_def remember_insert_def checked_add_def u64_max_def envelope_new_def
      world_append_def rival_turn_def append_events_def memory_store_new_def stream_of_def last_sequence_def
      validate_for_append_def max_inline_event_bytes_def sample_world_def trim_def trim_start_def trim_end_def)

lemma sample_session: "memory_session alnum sample_keeper sample_world"
  by (rule memory_session.opened) (simp_all add: sample_world_def memory_store_new_def stream_of_def store_ok_def)


text \<open>
  C20: Nobody overrules a more authoritative source. Whatever an operation on behalf of some origin
  does, and whether or not its append is accepted, a record from a more authoritative origin stays
  exactly as it was; the expiry pass touches only active records whose time has come.
\<close>

theorem memory_authority:
  assumes "memory_ok (mk_index m)" and "draws_fresh act (m, w)"
    and "memory_do alnum act (m, w) = (r, (m', w'))"
    and "omap_get (mk_index m) j = Some q"
    and "\<And>by_source. acts_as act = Some by_source \<Longrightarrow> mr_origin q < by_source"
    and "\<And>now_ms. act = Do_Expire now_ms \<Longrightarrow> \<not> due now_ms q"
  shows "omap_get (mk_index m') j = Some q \<and> memory_ok (mk_index m')"
  using memory_do_cases [OF assms(3,1,2)] memory_do_ok [OF assms(3,1,2)] assms(4-6)
  by (auto simp: memory_attempted_def attempts_def dest!: memory_append_index)

theorem memory_authority_witness:
  "omap_get (mk_index (fst (snd (memory_do (\<lambda>_. False) (Do_Revoke 7 Session [] 9)
     (\<lparr>mk_index = [(7, fresh_record 7 (sample_new User_Source None) 3)], mk_version = 1\<rparr>, sample_world))))) 7 =
   Some (fresh_record 7 (sample_new User_Source None) 3)"
proof -
  let ?m = "\<lparr>mk_index = [(7, fresh_record 7 (sample_new User_Source None) 3)], mk_version = 1\<rparr>"
  let ?run = "memory_do (\<lambda>_. False) (Do_Revoke 7 Session [] 9) (?m, sample_world)"
  have ok: "memory_ok (mk_index ?m)"
    by (simp add: memory_ok_def omap_ok_def record_ok_def fresh_record_def sample_new_def capped_confidence_def)
  have fresh: "draws_fresh (Do_Revoke 7 Session [] 9) (?m, sample_world)" by (simp add: draws_fresh_def)
  have "?run = (fst ?run, (fst (snd ?run), snd (snd ?run)))" by simp
  from memory_authority [OF ok fresh this, of 7 "fresh_record 7 (sample_new User_Source None) 3"]
  show ?thesis
    by (simp add: acts_as_def fresh_record_def sample_new_def less_policy_source_def less_eq_policy_source_def)
qed

section \<open>Recall\<close>

text \<open>
  Recall is exact. It returns the live records of the scope, each once, the most
  confident first, then the most recent, then by identifier; so a claim whose origin may not
  grant never stands before a claim somebody observed or confirmed.
\<close>

theorem recall_exact:
  assumes "memory_ok idx"
  shows "set (recall idx scope now_ms) =
      {r. (\<exists>i. omap_get idx i = Some r) \<and> mr_scope r = scope \<and> is_live_record r now_ms} \<and>
    distinct (map mr_id (recall idx scope now_ms)) \<and>
    sorted_wrt (\<lambda>a b. mr_confidence b < mr_confidence a \<or>
      mr_confidence a = mr_confidence b \<and> (mr_updated_at_ms b < mr_updated_at_ms a \<or>
        mr_updated_at_ms a = mr_updated_at_ms b \<and> mr_id a < mr_id b)) (recall idx scope now_ms) \<and>
    sorted_wrt (\<lambda>a b. may_grant (mr_origin a) \<or> mr_confidence b = Reported) (recall idx scope now_ms)"
proof -
  let ?rs = "recall idx scope now_ms"
  let ?hits = "filter (\<lambda>r. mr_scope r = scope \<and> is_live_record r now_ms) (omap_values idx)"
  have members: "set ?rs = {r. (\<exists>i. omap_get idx i = Some r) \<and> mr_scope r = scope \<and> is_live_record r now_ms}"
    using assms by (auto simp: recall_def in_values memory_ok_def)
  have "map mr_id (omap_values idx) = map fst idx"
    using assms by (intro keyed_values) (auto simp: memory_ok_def record_ok_def)
  then have ids: "distinct (map mr_id (omap_values idx))"
    using assms by (simp add: memory_ok_def omap_ok_def strict_sorted_iff)
  have "mset (map mr_id ?rs) = mset (map mr_id ?hits)" by (simp only: recall_def mset_map mset_sort)
  then have dist: "distinct (map mr_id ?rs)"
    using distinct_map_filter [OF ids] by (metis mset_eq_imp_distinct_iff)
  have le: "sorted_wrt (\<lambda>a b. recall_key a \<le> recall_key b) ?rs"
    using sorted_sort_key [of recall_key ?hits] by (simp add: recall_def sorted_map)
  have strict: "sorted_wrt (\<lambda>a b. recall_key a \<le> recall_key b \<and> mr_id a \<noteq> mr_id b) ?rs"
    using le dist unfolding sorted_wrt_iff_nth_less distinct_conv_nth by auto
  have rank: "mr_confidence a = mr_confidence b \<longleftrightarrow> confidence_rank (mr_confidence a) = confidence_rank (mr_confidence b)" for a b
    by (cases "mr_confidence a"; cases "mr_confidence b") simp_all
  have order: "sorted_wrt (\<lambda>a b. mr_confidence b < mr_confidence a \<or>
      mr_confidence a = mr_confidence b \<and> (mr_updated_at_ms b < mr_updated_at_ms a \<or>
        mr_updated_at_ms a = mr_updated_at_ms b \<and> mr_id a < mr_id b)) ?rs"
    by (rule sorted_wrt_mono_rel [OF _ strict])
      (auto simp: recall_key_def less_eq_prod_def rank less_confidence_def)
  have "mr_confidence r = Reported" if "r \<in> set ?rs" "\<not> may_grant (mr_origin r)" for r
    using that members memory_okD [OF assms] by (auto simp: record_ok_def)
  moreover have "c = Reported" if "c < Reported \<or> c = Reported" for c
    using that by (cases c) (simp_all add: less_confidence_def)
  ultimately have "sorted_wrt (\<lambda>a b. may_grant (mr_origin a) \<or> mr_confidence b = Reported) ?rs"
    by (intro sorted_wrt_mono_rel [OF _ order]) (metis)
  with members dist order show ?thesis by blast
qed

theorem recall_exact_witness:
  "fresh_record 8 (sample_new Session None) 4 \<in>
     set (recall [(7, fresh_record 7 (sample_new User_Source None) 3),
       (8, fresh_record 8 (sample_new Session None) 4)] Repository_Memory 9)"
proof -
  let ?idx = "[(7, fresh_record 7 (sample_new User_Source None) 3), (8, fresh_record 8 (sample_new Session None) 4)]"
  have idx: "memory_ok ?idx"
    by (simp add: memory_ok_def omap_ok_def record_ok_def fresh_record_def sample_new_def capped_confidence_def)
  show ?thesis
    unfolding recall_exact [OF idx, THEN conjunct1]
    by (intro CollectI conjI exI [of _ 8]) (simp_all add: fresh_record_def sample_new_def is_live_record_def)
qed

section \<open>Two holders of the memory\<close>



end
