(* ===== verification/Context.thy ===== *)
theory Context
  imports Task_Types Folds "HOL-Library.Word"
begin

text \<open>
  Context fragments, compaction summaries and the selection of a view under a token budget:
  \<^verbatim>\<open>crates/arsy-kernel/src/context.rs\<close>. Scores are 64-bit words, as \<open>i64\<close> is; token counts are
  naturals with the saturation of \<open>u32\<close> written out.
\<close>

section \<open>Fragments and summaries\<close>

definition max_context_fragments :: nat where
  "max_context_fragments = 4096"

datatype context_error =
  InvalidConfidence nat
| UntrustedSourceClaimedAuthority fragment_source_kind
| DuplicateFragmentId
| InvalidRankingSignal
| TooManyFragments nat nat
| InvalidSummary
| InvalidCitations
| MissingCitedEvent event_citation
| Context_Store store_error

text \<open>Confidence in basis points.\<close>

definition confidence_new :: "nat \<Rightarrow> context_error + nat" where
  "confidence_new basis_points =
     (if basis_points > 10000 then Inl (InvalidConfidence basis_points) else Inr basis_points)"

text \<open>The constructor gets a fragment with its fields filled in, and hands it back or refuses it.\<close>

definition fragment_new :: "context_fragment \<Rightarrow> context_error + context_fragment" where
  "fragment_new f =
     (if cf_authority f = Trusted \<and>
         (cf_kind f = Model_Output \<or> cf_source_kind f = From_Repository \<or> cf_source_kind f = From_Model)
      then Inl (UntrustedSourceClaimedAuthority
             (if cf_kind f = Model_Output then From_Model else cf_source_kind f))
      else Inr f)"

definition summary_new :: "context_fragment \<Rightarrow> event_citation list \<Rightarrow> context_error + compaction_summary" where
  "summary_new s citations =
     (if cf_kind s \<noteq> Summary \<or> cf_source_kind s \<noteq> Derived \<or> cf_authority s \<noteq> Untrusted
      then Inl InvalidSummary
      else if citations = [] \<or> length citations > max_context_fragments then Inl InvalidCitations
      else if card (set (map ec_id citations)) \<noteq> length citations \<or>
              card (set (map ec_sequence citations)) \<noteq> length citations \<or>
              list_ex (\<lambda>c. ec_sequence c = 0) citations
      then Inl InvalidCitations
      else Inr \<lparr>cs_summary = s, cs_citations = citations\<rparr>)"

fun originals_of ::
  "'d memory_store \<Rightarrow> session_id \<Rightarrow> event_citation list \<Rightarrow> context_error + 'd envelope list" where
  "originals_of s session [] = Inr []"
| "originals_of s session (c # cs) =
     (case read_events s session (ec_sequence c) 1 of
        Inl e \<Rightarrow> Inl (Context_Store e)
      | Inr page \<Rightarrow>
          (case page of
             [] \<Rightarrow> Inl (MissingCitedEvent c)
           | event # _ \<Rightarrow>
               if ev_id event = ec_id c
               then and_then (originals_of s session cs) (\<lambda>events. Inr (event # events))
               else Inl (MissingCitedEvent c)))"

definition originals ::
  "'d memory_store \<Rightarrow> session_id \<Rightarrow> compaction_summary \<Rightarrow> context_error + 'd envelope list" where
  "originals s session summary = originals_of s session (cs_citations summary)"

definition summary_append ::
  "compaction_summary \<Rightarrow> session_id \<Rightarrow> nat \<Rightarrow> principal \<Rightarrow> uuid \<Rightarrow> nat
    \<Rightarrow> session_event world \<Rightarrow> (context_error + nat) \<times> session_event world" where
  "summary_append summary session expected actor correlation schema w =
     (case originals (w_store w) session summary of
        Inl e \<Rightarrow> (Inl e, w)
      | Inr _ \<Rightarrow>
          (case checked_add expected 1 of
             None \<Rightarrow> (Inl (Context_Store SequenceOverflow), w)
           | Some sequence \<Rightarrow>
               (let causation = (if cs_citations summary = [] then None
                                 else Some (ec_id (last (cs_citations summary))));
                    (event, w1) = envelope_new session sequence actor causation correlation schema
                                    ''summary.created'' (Inline (Ev_Summary summary)) w
                in case world_append session expected [event] w1 of
                     (Inl e, w2) \<Rightarrow> (Inl (Context_Store e), w2)
                   | (Inr v, w2) \<Rightarrow> (Inr v, w2))))"

section \<open>Candidates, policy and scores\<close>

datatype omission_reason =
  TrustBoundary | Out_Of_Scope | Residency | TokenBudget
| MissingDependency fragment_id | OmittedDependency fragment_id | DependencyCycle

record omission =
  om_fragment :: fragment_id
  om_reason :: omission_reason

record context_candidate =
  cc_fragment :: context_fragment
  cc_residency :: string
  cc_relevance :: nat
  cc_recency :: nat
  cc_novelty :: nat

record selection_policy =
  sp_scope :: context_scope
  sp_require_trusted :: bool
  sp_allowed_residencies :: "string list"
  sp_budget :: nat

text \<open>The weights are \<open>i32\<close> values.\<close>

record ranking_weights =
  rw_dependency :: int
  rw_authority :: int
  rw_relevance :: int
  rw_recency :: int
  rw_confidence :: int
  rw_novelty :: int
  rw_token_cost :: int

record fragment_score =
  fs_fragment :: fragment_id
  fs_score :: "64 word"

record context_view =
  vw_id :: uuid
  vw_fragments :: "fragment_id list"
  vw_render_order :: "fragment_id list"
  vw_omissions :: "omission list"
  vw_scores :: "fragment_score list"
  vw_budget :: nat

definition i64_max :: int where
  "i64_max = 9223372036854775807"

definition i64_of :: "int \<Rightarrow> 64 word" where
  "i64_of i = word_of_int i"

definition score :: "context_candidate \<Rightarrow> ranking_weights \<Rightarrow> 64 word" where
  "score c w =
     (let f = cc_fragment c
      in i64_of (rw_dependency w) * i64_of (min (int (length (cf_dependencies f))) i64_max)
       + i64_of (rw_authority w) * i64_of (if cf_authority f = Trusted then 10000 else 0)
       + i64_of (rw_relevance w) * i64_of (int (cc_relevance c))
       + i64_of (rw_recency w) * i64_of (int (cc_recency c))
       + i64_of (rw_confidence w) * i64_of (int (cf_confidence f))
       + i64_of (rw_novelty w) * i64_of (int (cc_novelty c))
       - i64_of (rw_token_cost w) * i64_of (int (cf_tokens f)))"

section \<open>Selecting a view\<close>

definition u32_max :: nat where
  "u32_max = 4294967295"

definition saturating_add32 :: "nat \<Rightarrow> nat \<Rightarrow> nat" where
  "saturating_add32 a b = min (a + b) u32_max"

text \<open>The filters every candidate passes first.\<close>

definition policy_reason :: "selection_policy \<Rightarrow> context_candidate \<Rightarrow> omission_reason option" where
  "policy_reason p c =
     (let f = cc_fragment c
      in if sp_require_trusted p \<and> cf_authority f \<noteq> Trusted then Some TrustBoundary
         else if cf_scope f \<noteq> Global \<and> cf_scope f \<noteq> sp_scope p then Some Out_Of_Scope
         else if sp_allowed_residencies p \<noteq> [] \<and>
                 \<not> list_ex (\<lambda>allowed. allowed = cc_residency c) (sp_allowed_residencies p)
         then Some Residency
         else if cf_tokens f > sp_budget p then Some TokenBudget
         else None)"

record selection =
  sl_selected :: "fragment_id set"
  sl_omitted :: "fragment_id set"
  sl_render_order :: "fragment_id list"
  sl_omissions :: "omission list"
  sl_tokens :: nat

definition omit :: "fragment_id \<Rightarrow> omission_reason \<Rightarrow> selection \<Rightarrow> selection" where
  "omit f reason s =
     s\<lparr>sl_omitted := insert f (sl_omitted s),
       sl_omissions := sl_omissions s @ [\<lparr>om_fragment = f, om_reason = reason\<rparr>]\<rparr>"

definition decided :: "selection \<Rightarrow> fragment_id \<Rightarrow> bool" where
  "decided s f \<longleftrightarrow> f \<in> sl_selected s \<or> f \<in> sl_omitted s"

text \<open>The first loop: what the policy omits, and what is left to rank with its score.\<close>

fun filter_candidates ::
  "selection_policy \<Rightarrow> ranking_weights \<Rightarrow> context_candidate list \<Rightarrow> selection
    \<Rightarrow> (context_candidate \<times> 64 word) list \<times> selection" where
  "filter_candidates p w [] s = ([], s)"
| "filter_candidates p w (c # cs) s =
     (case policy_reason p c of
        Some reason \<Rightarrow> filter_candidates p w cs (omit (cf_id (cc_fragment c)) reason s)
      | None \<Rightarrow> (case filter_candidates p w cs s of (ranked, s') \<Rightarrow> ((c, score c w) # ranked, s')))"

text \<open>One fragment of one pass of the second loop; the flag is \<open>progress\<close>.\<close>

definition visit :: "fragment_id set \<Rightarrow> nat \<Rightarrow> context_fragment \<Rightarrow> bool \<times> selection \<Rightarrow> bool \<times> selection" where
  "visit all_ids budget f ps =
     (case ps of (progress, s) \<Rightarrow>
        if decided s (cf_id f) then (progress, s)
        else (case find (\<lambda>d. d \<notin> all_ids) (cf_dependencies f) of
                Some d \<Rightarrow> (True, omit (cf_id f) (MissingDependency d) s)
              | None \<Rightarrow>
                  (case find (\<lambda>d. d \<in> sl_omitted s) (cf_dependencies f) of
                     Some d \<Rightarrow> (True, omit (cf_id f) (OmittedDependency d) s)
                   | None \<Rightarrow>
                       if list_all (\<lambda>d. d \<in> sl_selected s) (cf_dependencies f)
                       then (True,
                             if saturating_add32 (sl_tokens s) (cf_tokens f) \<le> budget
                             then s\<lparr>sl_selected := insert (cf_id f) (sl_selected s),
                                    sl_render_order := sl_render_order s @ [cf_id f],
                                    sl_tokens := saturating_add32 (sl_tokens s) (cf_tokens f)\<rparr>
                             else omit (cf_id f) TokenBudget s)
                       else (progress, s))))"

definition visit_all :: "fragment_id set \<Rightarrow> nat \<Rightarrow> context_fragment list \<Rightarrow> selection \<Rightarrow> bool \<times> selection" where
  "visit_all all_ids budget fs s = fold (visit all_ids budget) fs (False, s)"

definition undecided :: "context_fragment list \<Rightarrow> selection \<Rightarrow> nat" where
  "undecided fs s = length (filter (\<lambda>f. \<not> decided s (cf_id f)) fs)"

lemma decided_omit [simp]: "decided (omit f reason s) g \<longleftrightarrow> g = f \<or> decided s g"
  by (auto simp: omit_def decided_def)

lemma visit_decided:
  assumes "visit all_ids budget f (progress, s) = (progress', s')"
  shows "decided s g \<longrightarrow> decided s' g"
    and "progress' \<longrightarrow> progress \<or> (decided s' (cf_id f) \<and> \<not> decided s (cf_id f))"
    and "progress \<longrightarrow> progress'"
  using assms by (auto simp: visit_def decided_def omit_def split: if_splits option.splits)

lemma fold_visit_decided:
  "fold (visit all_ids budget) fs (progress, s) = (progress', s') \<Longrightarrow>
   (\<forall>g. decided s g \<longrightarrow> decided s' g) \<and>
   (progress' \<longrightarrow> progress \<or> (\<exists>f\<in>set fs. decided s' (cf_id f) \<and> \<not> decided s (cf_id f)))"
proof (induction fs arbitrary: progress s)
  case Nil
  then show ?case by simp
next
  case (Cons f fs)
  obtain p1 s1 where v: "visit all_ids budget f (progress, s) = (p1, s1)" by fastforce
  with Cons.prems have run: "fold (visit all_ids budget) fs (p1, s1) = (progress', s')" by simp
  from Cons.IH [OF run] visit_decided [OF v] show ?case by auto
qed

lemma visit_all_progress:
  "visit_all all_ids budget fs s = (True, s') \<Longrightarrow> undecided fs s' < undecided fs s"
proof -
  assume "visit_all all_ids budget fs s = (True, s')"
  from fold_visit_decided [OF this [unfolded visit_all_def]] obtain f where
    mono: "\<And>g. decided s g \<Longrightarrow> decided s' g" and f: "f \<in> set fs" "decided s' (cf_id f)" "\<not> decided s (cf_id f)"
    by auto
  show "undecided fs s' < undecided fs s"
    unfolding undecided_def by (rule length_filter_lt [OF _ f(1)]) (use mono f in auto)
qed

function select_loop :: "fragment_id set \<Rightarrow> nat \<Rightarrow> context_fragment list \<Rightarrow> selection \<Rightarrow> selection" where
  "select_loop all_ids budget fs s =
     (case visit_all all_ids budget fs s of
        (True, s') \<Rightarrow> select_loop all_ids budget fs s'
      | (False, s') \<Rightarrow> s')"
  by pat_completeness auto
termination
  by (relation "measure (\<lambda>(all_ids, budget, fs, s). undecided fs s)") (auto dest!: visit_all_progress [OF sym])

declare select_loop.simps [simp del]

definition omit_cycles :: "context_fragment list \<Rightarrow> selection \<Rightarrow> selection" where
  "omit_cycles fs s = fold (\<lambda>f s. if decided s (cf_id f) then s else omit (cf_id f) DependencyCycle s) fs s"

definition selection_start :: selection where
  "selection_start =
     \<lparr>sl_selected = {}, sl_omitted = {}, sl_render_order = [], sl_omissions = [], sl_tokens = 0\<rparr>"

definition select_view ::
  "uuid \<Rightarrow> context_candidate list \<Rightarrow> selection_policy \<Rightarrow> ranking_weights \<Rightarrow> context_error + context_view" where
  "select_view i candidates p w =
     (if length candidates > max_context_fragments
      then Inl (TooManyFragments (length candidates) max_context_fragments)
      else if list_ex (\<lambda>c. cc_relevance c > 10000 \<or> cc_recency c > 10000 \<or> cc_novelty c > 10000) candidates
      then Inl InvalidRankingSignal
      else if card (set (map (cf_id \<circ> cc_fragment) candidates)) \<noteq> length candidates
      then Inl DuplicateFragmentId
      else
        (let all_ids = set (map (cf_id \<circ> cc_fragment) candidates);
             (kept, s0) = filter_candidates p w candidates selection_start;
             ranked = sort_key (\<lambda>(c, sc). (- sint sc, cf_id (cc_fragment c))) kept;
             s1 = s0\<lparr>sl_omissions := sort_key om_fragment (sl_omissions s0)\<rparr>;
             fs = map (cc_fragment \<circ> fst) ranked;
             s2 = omit_cycles fs (select_loop all_ids (sp_budget p) fs s1)
         in Inr \<lparr>vw_id = i, vw_fragments = sl_render_order s2, vw_render_order = sl_render_order s2,
                 vw_omissions = sl_omissions s2,
                 vw_scores = map (\<lambda>(c, sc). \<lparr>fs_fragment = cf_id (cc_fragment c), fs_score = sc\<rparr>) ranked,
                 vw_budget = sp_budget p\<rparr>))"

end
