(* ===== verification/Context_Laws.thy ===== *)
theory Context_Laws
  imports Context "HOL-Library.Sublist" "HOL-Library.Multiset"
begin

text \<open>What the selection of a view keeps true, pass by pass.\<close>

section \<open>The state of a selection\<close>

text \<open>\<open>cand\<close> gives the candidate of an identifier.\<close>

definition ordered_deps :: "(fragment_id \<Rightarrow> context_candidate) \<Rightarrow> fragment_id list \<Rightarrow> bool" where
  "ordered_deps cand ro \<longleftrightarrow>
     (\<forall>pre g post. ro = pre @ g # post \<longrightarrow> set (cf_dependencies (cc_fragment (cand g))) \<subseteq> set pre)"

definition tokens_of :: "(fragment_id \<Rightarrow> context_candidate) \<Rightarrow> fragment_id list \<Rightarrow> nat" where
  "tokens_of cand ro = sum_list (map (\<lambda>i. cf_tokens (cc_fragment (cand i))) ro)"

definition justified ::
  "(fragment_id \<Rightarrow> context_candidate) \<Rightarrow> fragment_id set \<Rightarrow> selection_policy \<Rightarrow> fragment_id list
    \<Rightarrow> omission list \<Rightarrow> omission \<Rightarrow> bool" where
  "justified cand all_ids p ro oms om \<longleftrightarrow>
     (let c = cand (om_fragment om); deps = set (cf_dependencies (cc_fragment c))
      in case om_reason om of
           MissingDependency d \<Rightarrow> d \<in> deps \<and> d \<notin> all_ids
         | OmittedDependency d \<Rightarrow> d \<in> deps \<and> d \<in> om_fragment ` set oms
         | DependencyCycle \<Rightarrow> \<exists>d\<in>deps. \<lparr>om_fragment = d, om_reason = DependencyCycle\<rparr> \<in> set oms
         | TokenBudget \<Rightarrow>
             policy_reason p c = Some TokenBudget \<or>
             sp_budget p = u32_max \<or>
             (\<exists>pre. prefix pre ro \<and> deps \<subseteq> set pre \<and>
                tokens_of cand pre + cf_tokens (cc_fragment c) > sp_budget p)
         | reason \<Rightarrow> policy_reason p c = Some reason)"

definition selection_ok ::
  "(fragment_id \<Rightarrow> context_candidate) \<Rightarrow> fragment_id set \<Rightarrow> selection_policy \<Rightarrow> selection \<Rightarrow> bool" where
  "selection_ok cand all_ids p s \<longleftrightarrow>
     sl_selected s = set (sl_render_order s) \<and> distinct (sl_render_order s) \<and>
     sl_omitted s = om_fragment ` set (sl_omissions s) \<and> distinct (map om_fragment (sl_omissions s)) \<and>
     sl_selected s \<inter> sl_omitted s = {} \<and>
     ordered_deps cand (sl_render_order s) \<and>
     (sp_budget p < u32_max \<longrightarrow>
        sl_tokens s = tokens_of cand (sl_render_order s) \<and> sl_tokens s \<le> sp_budget p) \<and>
     sp_budget p \<le> u32_max \<and>
     (\<forall>om\<in>set (sl_omissions s). justified cand all_ids p (sl_render_order s) (sl_omissions s) om)"

lemma selection_okD:
  assumes "selection_ok cand all_ids p s"
  shows "sl_selected s = set (sl_render_order s)" "distinct (sl_render_order s)"
    "sl_omitted s = om_fragment ` set (sl_omissions s)" "distinct (map om_fragment (sl_omissions s))"
    "sl_selected s \<inter> sl_omitted s = {}" "ordered_deps cand (sl_render_order s)"
    "sp_budget p < u32_max \<Longrightarrow> sl_tokens s = tokens_of cand (sl_render_order s)"
    "sp_budget p < u32_max \<Longrightarrow> sl_tokens s \<le> sp_budget p" "sp_budget p \<le> u32_max"
    "om \<in> set (sl_omissions s) \<Longrightarrow> justified cand all_ids p (sl_render_order s) (sl_omissions s) om"
  using assms unfolding selection_ok_def by blast+

lemma tokens_of_append [simp]: "tokens_of cand (xs @ ys) = tokens_of cand xs + tokens_of cand ys"
  by (simp add: tokens_of_def)

lemma ordered_deps_snoc:
  "ordered_deps cand ro \<Longrightarrow> set (cf_dependencies (cc_fragment (cand g))) \<subseteq> set ro \<Longrightarrow> ordered_deps cand (ro @ [g])"
  unfolding ordered_deps_def
proof (intro allI impI)
  fix pre h post
  assume old: "\<forall>pre g post. ro = pre @ g # post \<longrightarrow> set (cf_dependencies (cc_fragment (cand g))) \<subseteq> set pre"
    and g: "set (cf_dependencies (cc_fragment (cand g))) \<subseteq> set ro" and eq: "ro @ [g] = pre @ h # post"
  show "set (cf_dependencies (cc_fragment (cand h))) \<subseteq> set pre"
  proof (cases post rule: rev_cases)
    case Nil
    with eq g show ?thesis by simp
  next
    case (snoc ys y)
    with eq have "ro = pre @ h # ys" by simp
    with old show ?thesis by blast
  qed
qed

lemma justified_mono:
  "justified cand all_ids p ro oms om \<Longrightarrow> prefix ro ro' \<Longrightarrow> set oms \<subseteq> set oms' \<Longrightarrow>
   justified cand all_ids p ro' oms' om"
  unfolding justified_def Let_def
  by (cases "om_reason om") (auto intro: prefix_order.trans)

lemma selection_ok_omit:
  assumes ok: "selection_ok cand all_ids p s" and new: "\<not> decided s f"
    and just: "justified cand all_ids p (sl_render_order s) (sl_omissions s @ [\<lparr>om_fragment = f, om_reason = r\<rparr>])
      \<lparr>om_fragment = f, om_reason = r\<rparr>"
  shows "selection_ok cand all_ids p (omit f r s)"
proof -
  note old = selection_okD [OF ok]
  have "justified cand all_ids p (sl_render_order s) (sl_omissions s @ [\<lparr>om_fragment = f, om_reason = r\<rparr>]) om"
    if "om \<in> set (sl_omissions s)" for om
    by (rule justified_mono [OF old(10) [OF that]]) auto
  with just have "\<forall>om\<in>set (sl_omissions (omit f r s)).
      justified cand all_ids p (sl_render_order (omit f r s)) (sl_omissions (omit f r s)) om"
    by (simp add: omit_def)
  moreover have "f \<notin> sl_selected s" "f \<notin> sl_omitted s" using new by (simp_all add: decided_def)
  ultimately show ?thesis
    unfolding selection_ok_def
    by (intro conjI impI) (use old in \<open>simp_all add: omit_def\<close>)
qed

lemma selection_ok_select:
  assumes ok: "selection_ok cand all_ids p s" and new: "\<not> decided s f"
    and deps: "set (cf_dependencies (cc_fragment (cand f))) \<subseteq> sl_selected s"
    and fits: "saturating_add32 (sl_tokens s) (cf_tokens (cc_fragment (cand f))) \<le> sp_budget p"
  shows "selection_ok cand all_ids p
    (s\<lparr>sl_selected := insert f (sl_selected s), sl_render_order := sl_render_order s @ [f],
       sl_tokens := saturating_add32 (sl_tokens s) (cf_tokens (cc_fragment (cand f)))\<rparr>)"
proof -
  note old = selection_okD [OF ok]
  have just: "justified cand all_ids p (sl_render_order s @ [f]) (sl_omissions s) om"
    if "om \<in> set (sl_omissions s)" for om
    by (rule justified_mono [OF old(10) [OF that]]) simp_all
  have ord: "ordered_deps cand (sl_render_order s @ [f])"
    using deps old(1) by (intro ordered_deps_snoc [OF old(6)]) simp
  have sum: "saturating_add32 (tokens_of cand (sl_render_order s)) (cf_tokens (cc_fragment (cand f))) =
      tokens_of cand (sl_render_order s) + tokens_of cand [f]" if "sp_budget p < u32_max"
    using fits old(7) [OF that] that by (auto simp: saturating_add32_def tokens_of_def)
  have f: "f \<notin> sl_selected s" "f \<notin> sl_omitted s" using new by (simp_all add: decided_def)
  show ?thesis
    unfolding selection_ok_def
    by (intro conjI impI ballI) (use old f fits ord in \<open>simp_all add: sum just\<close>)
qed

section \<open>One pass\<close>

lemma omit_eq:
  "sl_selected (omit f r s) = sl_selected s" "sl_render_order (omit f r s) = sl_render_order s"
  "sl_omitted (omit f r s) = insert f (sl_omitted s)"
  "sl_omissions (omit f r s) = sl_omissions s @ [\<lparr>om_fragment = f, om_reason = r\<rparr>]"
  by (simp_all add: omit_def)

text \<open>The ways a visit can go.\<close>

lemma visit_cases:
  assumes "visit all_ids budget f (progress, s) = (progress', s')"
  obtains (settled) "decided s (cf_id f)" "s' = s" "progress' = progress"
  | (waits) d where "\<not> decided s (cf_id f)" "d \<in> set (cf_dependencies f)" "d \<in> all_ids" "\<not> decided s d"
      "s' = s" "progress' = progress"
  | (missing) d where "\<not> decided s (cf_id f)" "d \<in> set (cf_dependencies f)" "d \<notin> all_ids"
      "s' = omit (cf_id f) (MissingDependency d) s" "progress'"
  | (dropped) d where "\<not> decided s (cf_id f)" "d \<in> set (cf_dependencies f)" "d \<in> sl_omitted s"
      "s' = omit (cf_id f) (OmittedDependency d) s" "progress'"
  | (full) "\<not> decided s (cf_id f)" "set (cf_dependencies f) \<subseteq> sl_selected s"
      "\<not> saturating_add32 (sl_tokens s) (cf_tokens f) \<le> budget"
      "s' = omit (cf_id f) TokenBudget s" "progress'"
  | (chosen) "\<not> decided s (cf_id f)" "set (cf_dependencies f) \<subseteq> sl_selected s"
      "saturating_add32 (sl_tokens s) (cf_tokens f) \<le> budget"
      "s' = s\<lparr>sl_selected := insert (cf_id f) (sl_selected s), sl_render_order := sl_render_order s @ [cf_id f],
              sl_tokens := saturating_add32 (sl_tokens s) (cf_tokens f)\<rparr>" "progress'"
proof (cases "decided s (cf_id f)")
  case True
  moreover from this have "s' = s" "progress' = progress" using assms by (simp_all add: visit_def)
  ultimately show ?thesis using settled by blast
next
  case new: False
  show ?thesis
  proof (cases "find (\<lambda>d. d \<notin> all_ids) (cf_dependencies f)")
    case (Some d)
    have "s' = omit (cf_id f) (MissingDependency d) s" "progress'"
      using assms by (simp_all add: visit_def new Some)
    moreover from Some have "d \<in> set (cf_dependencies f)" "d \<notin> all_ids"
      by (auto dest!: find_Some_iff [THEN iffD1])
    ultimately show ?thesis using missing new by blast
  next
    case present: None
    show ?thesis
    proof (cases "find (\<lambda>d. d \<in> sl_omitted s) (cf_dependencies f)")
      case (Some d)
      have "s' = omit (cf_id f) (OmittedDependency d) s" "progress'"
        using assms by (simp_all add: visit_def new present Some)
      moreover from Some have "d \<in> set (cf_dependencies f)" "d \<in> sl_omitted s"
        by (auto dest!: find_Some_iff [THEN iffD1])
      ultimately show ?thesis using dropped new by blast
    next
      case None
      show ?thesis
      proof (cases "list_all (\<lambda>d. d \<in> sl_selected s) (cf_dependencies f)")
        case True
        then have "set (cf_dependencies f) \<subseteq> sl_selected s" by (auto simp: list_all_iff)
        moreover have "progress'" "s' = (if saturating_add32 (sl_tokens s) (cf_tokens f) \<le> budget
            then s\<lparr>sl_selected := insert (cf_id f) (sl_selected s),
                   sl_render_order := sl_render_order s @ [cf_id f],
                   sl_tokens := saturating_add32 (sl_tokens s) (cf_tokens f)\<rparr>
            else omit (cf_id f) TokenBudget s)"
          using assms by (simp_all add: visit_def new present None True)
        ultimately show ?thesis using full chosen new by (metis (no_types))
      next
        case False
        then obtain d where d: "d \<in> set (cf_dependencies f)" "d \<notin> sl_selected s" by (auto simp: list_all_iff)
        have "d \<notin> sl_omitted s" "d \<in> all_ids"
          using d(1) None present by (auto dest!: find_None_iff [THEN iffD1])
        moreover have "s' = s" "progress' = progress"
          using assms by (simp_all add: visit_def new present None False)
        moreover have "\<not> decided s d" using d(2) \<open>d \<notin> sl_omitted s\<close> by (simp add: decided_def)
        ultimately show ?thesis using d(1) new waits by blast
      qed
    qed
  qed
qed

lemma visit_ok:
  assumes run: "visit all_ids (sp_budget p) f (progress, s) = (progress', s')"
    and ok: "selection_ok cand all_ids p s" and f: "cc_fragment (cand (cf_id f)) = f"
  shows "selection_ok cand all_ids p s'"
  using run
proof (cases rule: visit_cases)
  case (missing d)
  then show ?thesis
    using f by (auto intro!: selection_ok_omit [OF ok] simp: justified_def)
next
  case (dropped d)
  then show ?thesis
    using f selection_okD(3) [OF ok]
    by (auto intro!: selection_ok_omit [OF ok] simp: justified_def)
next
  case full
  have "justified cand all_ids p (sl_render_order s) (sl_omissions s @ [\<lparr>om_fragment = cf_id f, om_reason = TokenBudget\<rparr>])
      \<lparr>om_fragment = cf_id f, om_reason = TokenBudget\<rparr>"
  proof (cases "sp_budget p = u32_max")
    case True
    then show ?thesis by (simp add: justified_def)
  next
    case False
    with selection_okD [OF ok] have "sp_budget p < u32_max" "set (cf_dependencies f) \<subseteq> set (sl_render_order s)"
        "sl_tokens s = tokens_of cand (sl_render_order s)"
      using full(2) by (simp_all add: order.order_iff_strict)
    with full(3) have "sp_budget p < tokens_of cand (sl_render_order s) + cf_tokens f"
      by (auto simp: saturating_add32_def)
    then show ?thesis
      using f \<open>set (cf_dependencies f) \<subseteq> set (sl_render_order s)\<close>
      by (auto simp: justified_def intro!: exI [of _ "sl_render_order s"])
  qed
  with full show ?thesis by (auto intro: selection_ok_omit [OF ok])
next
  case chosen
  then show ?thesis using selection_ok_select [OF ok, of "cf_id f"] f by simp
qed (use ok in simp_all)

section \<open>The loop\<close>

text \<open>What a pass keeps beside \<open>selection_ok\<close>: whom it decides, and that it names no cycle.\<close>

definition decides_within :: "context_fragment list \<Rightarrow> selection \<Rightarrow> selection \<Rightarrow> bool" where
  "decides_within fs s s' \<longleftrightarrow>
     (\<forall>g. decided s g \<longrightarrow> decided s' g) \<and> (\<forall>g. decided s' g \<longrightarrow> decided s g \<or> g \<in> cf_id ` set fs) \<and>
     sl_selected s' \<subseteq> sl_selected s \<union> cf_id ` set fs \<and>
     (\<forall>om\<in>set (sl_omissions s'). om \<in> set (sl_omissions s) \<or> om_reason om \<noteq> DependencyCycle)"

lemma decides_within_refl [simp]: "decides_within fs s s"
  by (simp add: decides_within_def)

lemma decides_within_trans:
  "decides_within fs s t \<Longrightarrow> decides_within fs t u \<Longrightarrow> decides_within fs s u"
  unfolding decides_within_def by (intro conjI; blast)

lemma visit_within:
  assumes "visit all_ids budget f (progress, s) = (progress', s')" and "f \<in> set fs"
  shows "decides_within fs s s'"
  using assms(1)
  by (cases rule: visit_cases) (use assms(2) in \<open>auto simp: decides_within_def decided_def omit_def\<close>)

lemma fold_visit_within:
  assumes "fold (visit all_ids budget) fs (progress, s) = (progress', s')" and "set fs \<subseteq> set gs"
  shows "decides_within gs s s'"
  using assms
proof (induction fs arbitrary: progress s)
  case Nil
  then show ?case by simp
next
  case (Cons f fs)
  obtain p1 s1 where v: "visit all_ids budget f (progress, s) = (p1, s1)" by fastforce
  with Cons.prems have run: "fold (visit all_ids budget) fs (p1, s1) = (progress', s')" by simp
  have "decides_within gs s s1" using visit_within [OF v] Cons.prems(2) by simp
  with Cons.IH [OF run] Cons.prems(2) show ?case by (auto intro: decides_within_trans)
qed

lemma fold_visit_ok:
  assumes "fold (visit all_ids (sp_budget p)) fs (progress, s) = (progress', s')"
    and "selection_ok cand all_ids p s" and "\<forall>f\<in>set fs. cc_fragment (cand (cf_id f)) = f"
  shows "selection_ok cand all_ids p s'"
  using assms
proof (induction fs arbitrary: progress s)
  case Nil
  then show ?case by simp
next
  case (Cons f fs)
  obtain p1 s1 where v: "visit all_ids (sp_budget p) f (progress, s) = (p1, s1)" by fastforce
  with Cons.prems have run: "fold (visit all_ids (sp_budget p)) fs (p1, s1) = (progress', s')" by simp
  from Cons.prems(3) have f: "cc_fragment (cand (cf_id f)) = f" by simp
  show ?case by (rule Cons.IH [OF run visit_ok [OF v Cons.prems(2) f]]) (use Cons.prems(3) in simp)
qed

text \<open>A pass without progress has left everything as it was and everybody waiting.\<close>

lemma fold_visit_idle:
  assumes "fold (visit all_ids budget) fs (False, s) = (False, s')"
  shows "s' = s \<and> (\<forall>f\<in>set fs. visit all_ids budget f (False, s) = (False, s))"
  using assms
proof (induction fs)
  case Nil
  then show ?case by simp
next
  case (Cons f fs)
  obtain p1 s1 where v: "visit all_ids budget f (False, s) = (p1, s1)" by fastforce
  with Cons.prems have run: "fold (visit all_ids budget) fs (p1, s1) = (False, s')" by simp
  have "\<not> p1"
  proof
    assume "p1"
    have keep: "fold (visit all_ids budget) gs (True, t) = (b, u) \<Longrightarrow> b" for gs t b u
    proof (induction gs arbitrary: t)
      case Nil
      then show ?case by simp
    next
      case (Cons g gs)
      obtain q v where "visit all_ids budget g (True, t) = (q, v)" by fastforce
      with visit_decided(3) [OF this] Cons show ?case by simp
    qed
    have "fold (visit all_ids budget) fs (True, s1) = (False, s')" using run \<open>p1\<close> by simp
    from keep [OF this] show False .
  qed
  from v have "s1 = s" by (cases rule: visit_cases) (use \<open>\<not> p1\<close> in simp_all)
  with v run \<open>\<not> p1\<close> Cons.IH show ?case by simp
qed

lemma select_loop_laws:
  assumes "selection_ok cand all_ids p s" and "\<forall>f\<in>set fs. cc_fragment (cand (cf_id f)) = f"
  shows "selection_ok cand all_ids p (select_loop all_ids (sp_budget p) fs s) \<and>
    decides_within fs s (select_loop all_ids (sp_budget p) fs s) \<and>
    (\<forall>f\<in>set fs. decided (select_loop all_ids (sp_budget p) fs s) (cf_id f) \<or>
       (\<exists>d\<in>set (cf_dependencies f). d \<in> all_ids \<and> \<not> decided (select_loop all_ids (sp_budget p) fs s) d))"
  using assms
proof (induction all_ids "sp_budget p" fs s rule: select_loop.induct)
  case (1 all_ids fs s)
  obtain progress s1 where v: "visit_all all_ids (sp_budget p) fs s = (progress, s1)" by fastforce
  from v have run: "fold (visit all_ids (sp_budget p)) fs (False, s) = (progress, s1)"
    by (simp add: visit_all_def)
  have ok: "selection_ok cand all_ids p s1" by (rule fold_visit_ok [OF run 1(2,3)])
  have within: "decides_within fs s s1" by (rule fold_visit_within [OF run order_refl])
  show ?case
  proof (cases progress)
    case True
    with v have "select_loop all_ids (sp_budget p) fs s = select_loop all_ids (sp_budget p) fs s1"
      by (simp add: select_loop.simps [of all_ids _ fs s])
    moreover from v True have "(True, s1) = visit_all all_ids (sp_budget p) fs s" by simp
    from 1(1) [OF this refl ok 1(3)] within calculation show ?thesis
      by (auto intro: decides_within_trans)
  next
    case False
    with v have fin: "select_loop all_ids (sp_budget p) fs s = s1"
      by (simp add: select_loop.simps [of all_ids _ fs s])
    from run False have "s1 = s" and idle: "\<forall>f\<in>set fs. visit all_ids (sp_budget p) f (False, s) = (False, s)"
      using fold_visit_idle by simp_all
    have "decided s (cf_id f) \<or> (\<exists>d\<in>set (cf_dependencies f). d \<in> all_ids \<and> \<not> decided s d)"
      if "f \<in> set fs" for f
    proof -
      from idle that have "visit all_ids (sp_budget p) f (False, s) = (False, s)" by simp
      then show ?thesis by (cases rule: visit_cases) auto
    qed
    with fin ok within \<open>s1 = s\<close> show ?thesis by simp
  qed
qed

section \<open>Cycles\<close>

lemma omit_cycles_eq:
  assumes "distinct (map cf_id fs)"
  shows "omit_cycles fs s =
    s\<lparr>sl_omitted := sl_omitted s \<union> cf_id ` set (filter (\<lambda>f. \<not> decided s (cf_id f)) fs),
      sl_omissions := sl_omissions s @
        map (\<lambda>f. \<lparr>om_fragment = cf_id f, om_reason = DependencyCycle\<rparr>)
          (filter (\<lambda>f. \<not> decided s (cf_id f)) fs)\<rparr>"
  using assms
proof (induction fs arbitrary: s)
  case Nil
  then show ?case by (simp add: omit_cycles_def)
next
  case (Cons f fs)
  have step: "omit_cycles (f # fs) s =
      omit_cycles fs (if decided s (cf_id f) then s else omit (cf_id f) DependencyCycle s)"
    by (simp add: omit_cycles_def)
  have other: "cf_id g \<noteq> cf_id f" if "g \<in> set fs" for g
    using Cons.prems that by (metis distinct.simps(2) image_eqI list.set_map list.simps(9))
  show ?case
  proof (cases "decided s (cf_id f)")
    case True
    with step Cons show ?thesis by simp
  next
    case False
    have *: "filter (\<lambda>g. cf_id g \<noteq> cf_id f \<and> \<not> decided s (cf_id g)) fs = filter (\<lambda>g. \<not> decided s (cf_id g)) fs"
      using other by (intro filter_cong) auto
    have **: "{g \<in> set fs. cf_id g \<noteq> cf_id f \<and> \<not> decided s (cf_id g)} = {g \<in> set fs. \<not> decided s (cf_id g)}"
      using other by auto
    show ?thesis
      unfolding step using False Cons by (simp add: * ** omit_eq) (simp add: omit_def)
  qed
qed

section \<open>The filters\<close>

abbreviation cid :: "context_candidate \<Rightarrow> fragment_id" where
  "cid c \<equiv> cf_id (cc_fragment c)"

lemma filter_candidates_eq:
  "filter_candidates p w cs s =
     (map (\<lambda>c. (c, score c w)) (filter (\<lambda>c. policy_reason p c = None) cs),
      s\<lparr>sl_omitted := sl_omitted s \<union> cid ` set (filter (\<lambda>c. policy_reason p c \<noteq> None) cs),
        sl_omissions := sl_omissions s @
          map (\<lambda>c. \<lparr>om_fragment = cid c, om_reason = the (policy_reason p c)\<rparr>)
            (filter (\<lambda>c. policy_reason p c \<noteq> None) cs)\<rparr>)"
proof (induction cs arbitrary: s)
  case Nil
  then show ?case by simp
next
  case (Cons c cs)
  show ?case
  proof (cases "policy_reason p c")
    case None
    then show ?thesis by (simp add: Cons)
  next
    case (Some reason)
    then show ?thesis by (simp add: Cons omit_eq) (simp add: omit_def)
  qed
qed

text \<open>The candidate of an identifier among distinct candidates.\<close>

definition candidate_of :: "context_candidate list \<Rightarrow> fragment_id \<Rightarrow> context_candidate" where
  "candidate_of cs i = the (map_of (map (\<lambda>c. (cid c, c)) cs) i)"

lemma candidate_of: "distinct (map cid cs) \<Longrightarrow> c \<in> set cs \<Longrightarrow> candidate_of cs (cid c) = c"
  unfolding candidate_of_def
  by (simp add: comp_def map_of_eq_Some_iff [THEN iffD2, of _ "cid c" c])

lemma distinct_card_ids: "card (f ` set xs) = length xs \<longleftrightarrow> distinct (map f xs)"
  by (metis card_distinct distinct_card length_map set_map)

lemma policy_reason_kinds:
  "policy_reason p c = Some r \<Longrightarrow> r \<noteq> DependencyCycle \<and> r \<noteq> MissingDependency d \<and> r \<noteq> OmittedDependency d"
  by (auto simp: policy_reason_def Let_def split: if_splits)

text \<open>What \<open>select_view\<close> starts its passes from.\<close>

definition ranked_of ::
  "selection_policy \<Rightarrow> ranking_weights \<Rightarrow> context_candidate list \<Rightarrow> (context_candidate \<times> 64 word) list" where
  "ranked_of p w cs =
     sort_key (\<lambda>(c, sc). (- sint sc, cid c))
       (map (\<lambda>c. (c, score c w)) (filter (\<lambda>c. policy_reason p c = None) cs))"

definition ranked_fragments ::
  "selection_policy \<Rightarrow> ranking_weights \<Rightarrow> context_candidate list \<Rightarrow> context_fragment list" where
  "ranked_fragments p w cs = map (cc_fragment \<circ> fst) (ranked_of p w cs)"

definition filtered :: "selection_policy \<Rightarrow> context_candidate list \<Rightarrow> selection" where
  "filtered p cs =
     selection_start\<lparr>sl_omitted := cid ` set (filter (\<lambda>c. policy_reason p c \<noteq> None) cs),
       sl_omissions := sort_key om_fragment
         (map (\<lambda>c. \<lparr>om_fragment = cid c, om_reason = the (policy_reason p c)\<rparr>)
           (filter (\<lambda>c. policy_reason p c \<noteq> None) cs))\<rparr>"

definition selected_by ::
  "selection_policy \<Rightarrow> ranking_weights \<Rightarrow> context_candidate list \<Rightarrow> selection" where
  "selected_by p w cs =
     omit_cycles (ranked_fragments p w cs)
       (select_loop (cid ` set cs) (sp_budget p) (ranked_fragments p w cs) (filtered p cs))"

lemma select_view_Inr:
  "select_view i cs p w = Inr v \<Longrightarrow>
   length cs \<le> max_context_fragments \<and> distinct (map cid cs) \<and>
   v = \<lparr>vw_id = i, vw_fragments = sl_render_order (selected_by p w cs),
        vw_render_order = sl_render_order (selected_by p w cs),
        vw_omissions = sl_omissions (selected_by p w cs),
        vw_scores = map (\<lambda>(c, sc). \<lparr>fs_fragment = cid c, fs_score = sc\<rparr>) (ranked_of p w cs),
        vw_budget = sp_budget p\<rparr>"
  by (auto simp: select_view_def distinct_card_ids comp_def filter_candidates_eq selected_by_def
      ranked_fragments_def ranked_of_def filtered_def selection_start_def image_image Let_def
      split: if_splits)

section \<open>The whole selection\<close>

lemma ranked_fragments_set:
  "set (ranked_fragments p w cs) = cc_fragment ` {c \<in> set cs. policy_reason p c = None}"
  by (simp add: ranked_fragments_def ranked_of_def image_image)

lemma ranked_fragments_distinct:
  assumes "distinct (map cid cs)"
  shows "distinct (map cf_id (ranked_fragments p w cs))"
proof -
  have "mset (map cf_id (ranked_fragments p w cs)) = mset (map cid (filter (\<lambda>c. policy_reason p c = None) cs))"
    by (simp add: ranked_fragments_def ranked_of_def flip: mset_map)
      (simp add: multiset.map_comp comp_def)
  then show ?thesis
    using distinct_map_filter [OF assms] by (metis mset_eq_imp_distinct_iff)
qed

lemma filtered_ok:
  assumes "distinct (map cid cs)" and "sp_budget p \<le> u32_max"
  shows "selection_ok (candidate_of cs) (cid ` set cs) p (filtered p cs)"
proof -
  let ?oms = "map (\<lambda>c. \<lparr>om_fragment = cid c, om_reason = the (policy_reason p c)\<rparr>)
    (filter (\<lambda>c. policy_reason p c \<noteq> None) cs)"
  have "mset (map om_fragment (sort_key om_fragment ?oms)) =
      mset (map cid (filter (\<lambda>c. policy_reason p c \<noteq> None) cs))"
    by (simp add: multiset.map_comp comp_def)
  from mset_eq_imp_distinct_iff [OF this] distinct_map_filter [OF assms(1)]
  have "distinct (map om_fragment (sort_key om_fragment ?oms))" by blast
  moreover have "justified (candidate_of cs) (cid ` set cs) p [] oms
      \<lparr>om_fragment = cid c, om_reason = the (policy_reason p c)\<rparr>"
    if "c \<in> set cs" "policy_reason p c \<noteq> None" for c oms
    using that candidate_of [OF assms(1) that(1)] policy_reason_kinds [of p c]
    by (cases "the (policy_reason p c)") (auto simp: justified_def)
  then have "\<forall>om\<in>set (sort_key om_fragment ?oms). justified (candidate_of cs) (cid ` set cs) p [] (sort_key om_fragment ?oms) om"
    by auto
  ultimately show ?thesis
    unfolding selection_ok_def filtered_def selection_start_def
    by (intro conjI impI) (use assms(2) in \<open>simp_all add: ordered_deps_def tokens_of_def image_image\<close>)
qed

lemma selected_by_laws:
  assumes dist: "distinct (map cid cs)" and budget: "sp_budget p \<le> u32_max"
  shows "selection_ok (candidate_of cs) (cid ` set cs) p (selected_by p w cs)"
    and "sl_selected (selected_by p w cs) \<union> sl_omitted (selected_by p w cs) = cid ` set cs"
    and "sl_selected (selected_by p w cs) \<subseteq> cid ` {c \<in> set cs. policy_reason p c = None}"
proof -
  let ?fs = "ranked_fragments p w cs" and ?all = "cid ` set cs" and ?cand = "candidate_of cs"
  define s1 where "s1 = select_loop ?all (sp_budget p) ?fs (filtered p cs)"
  let ?late = "filter (\<lambda>f. \<not> decided s1 (cf_id f)) ?fs"
  have cand: "\<forall>f\<in>set ?fs. cc_fragment (?cand (cf_id f)) = f"
    using candidate_of [OF dist] by (auto simp: ranked_fragments_set)
  from select_loop_laws [OF filtered_ok [OF assms] cand]
  have ok: "selection_ok ?cand ?all p s1" and within: "decides_within ?fs (filtered p cs) s1"
    and wait: "\<And>f. f \<in> set ?fs \<Longrightarrow> decided s1 (cf_id f) \<or>
        (\<exists>d\<in>set (cf_dependencies f). d \<in> ?all \<and> \<not> decided s1 d)"
    unfolding s1_def by blast+
  note old = selection_okD [OF ok]
  have eq: "selected_by p w cs = s1\<lparr>sl_omitted := sl_omitted s1 \<union> cf_id ` set ?late,
      sl_omissions := sl_omissions s1 @ map (\<lambda>f. \<lparr>om_fragment = cf_id f, om_reason = DependencyCycle\<rparr>) ?late\<rparr>"
    unfolding selected_by_def s1_def [symmetric] by (rule omit_cycles_eq [OF ranked_fragments_distinct [OF dist]])
  have first: "decided (filtered p cs) g \<longleftrightarrow> g \<in> cid ` {c \<in> set cs. policy_reason p c \<noteq> None}" for g
    by (auto simp: decided_def filtered_def selection_start_def)
  have late: "\<exists>f\<in>set ?late. cf_id f = d" if "d \<in> ?all" "\<not> decided s1 d" for d
  proof -
    from that(1) obtain c where c: "c \<in> set cs" "d = cid c" by auto
    have "policy_reason p c = None"
      using that(2) within c first [of d] by (auto simp: decides_within_def)
    with c that(2) show ?thesis by (auto simp: ranked_fragments_set intro!: bexI [of _ "cc_fragment c"])
  qed
  have "justified ?cand ?all p (sl_render_order s1)
      (sl_omissions s1 @ map (\<lambda>f. \<lparr>om_fragment = cf_id f, om_reason = DependencyCycle\<rparr>) ?late)
      \<lparr>om_fragment = cf_id f, om_reason = DependencyCycle\<rparr>" if f: "f \<in> set ?late" for f
  proof -
    from wait [of f] f obtain d where "d \<in> set (cf_dependencies f)" "d \<in> ?all" "\<not> decided s1 d" by auto
    with late [of d] cand f show ?thesis
      by (auto simp: justified_def image_iff intro!: bexI [of _ d])
  qed
  moreover have "justified ?cand ?all p (sl_render_order s1)
      (sl_omissions s1 @ map (\<lambda>f. \<lparr>om_fragment = cf_id f, om_reason = DependencyCycle\<rparr>) ?late) om"
    if "om \<in> set (sl_omissions s1)" for om
    by (rule justified_mono [OF old(10) [OF that]]) auto
  moreover have "distinct (map cf_id ?late)"
    by (rule distinct_map_filter [OF ranked_fragments_distinct [OF dist]])
  moreover have "g \<notin> sl_selected s1 \<and> g \<notin> sl_omitted s1" if "g \<in> cf_id ` set ?late" for g
    using that by (auto simp: decided_def)
  ultimately show "selection_ok ?cand ?all p (selected_by p w cs)"
    unfolding selection_ok_def eq
    by (intro conjI impI) (use old in \<open>auto simp: comp_def image_Un image_image\<close>)
  have all: "decided s1 g \<Longrightarrow> g \<in> ?all" for g
    using within first by (auto simp: decides_within_def ranked_fragments_set)
  have "cf_id ` set ?late = {d \<in> ?all. \<not> decided s1 d}"
  proof (intro equalityI subsetI)
    fix d assume "d \<in> cf_id ` set ?late"
    then show "d \<in> {d \<in> ?all. \<not> decided s1 d}" by (auto simp: ranked_fragments_set)
  next
    fix d assume "d \<in> {d \<in> ?all. \<not> decided s1 d}"
    then have "\<exists>f\<in>set ?late. cf_id f = d" by (intro late) simp_all
    then show "d \<in> cf_id ` set ?late" by blast
  qed
  then show "sl_selected (selected_by p w cs) \<union> sl_omitted (selected_by p w cs) = ?all"
    unfolding eq using all by (auto simp: decided_def)
  show "sl_selected (selected_by p w cs) \<subseteq> cid ` {c \<in> set cs. policy_reason p c = None}"
    unfolding eq using within
    by (auto simp: decides_within_def filtered_def selection_start_def ranked_fragments_set)
qed

section \<open>What a view holds\<close>

lemma view_selected:
  assumes "select_view i cs p w = Inr v"
  shows "distinct (map cid cs)" "vw_render_order v = sl_render_order (selected_by p w cs)"
    "vw_omissions v = sl_omissions (selected_by p w cs)"
  using select_view_Inr [OF assms] by simp_all

lemma view_partition:
  assumes "select_view i cs p w = Inr v" and "sp_budget p \<le> u32_max"
  shows "mset (vw_render_order v @ map om_fragment (vw_omissions v)) = mset (map cid cs)"
proof -
  note v = view_selected [OF assms(1)]
  note laws = selected_by_laws [OF v(1) assms(2), of w]
  note ok = selection_okD [OF laws(1)]
  have "distinct (vw_render_order v @ map om_fragment (vw_omissions v))"
    using ok(1-5) by (simp add: v)
  moreover have "set (vw_render_order v @ map om_fragment (vw_omissions v)) = set (map cid cs)"
    using laws(2) ok(1,3) by (simp add: v)
  ultimately show ?thesis
    using v(1) set_eq_iff_mset_eq_distinct by blast
qed

lemma view_ordered:
  assumes "select_view i cs p w = Inr v" and "sp_budget p \<le> u32_max"
  shows "ordered_deps (candidate_of cs) (vw_render_order v)"
  unfolding view_selected(2) [OF assms(1)]
  by (rule selection_okD(6) [OF selected_by_laws(1) [OF view_selected(1) [OF assms(1)] assms(2)]])

lemma view_allowed:
  assumes "select_view i cs p w = Inr v" and "sp_budget p \<le> u32_max"
  shows "set (vw_render_order v) \<subseteq> cid ` {c \<in> set cs. policy_reason p c = None}"
  using selected_by_laws(3) [OF view_selected(1) [OF assms(1)] assms(2), of w]
    selection_okD(1) [OF selected_by_laws(1) [OF view_selected(1) [OF assms(1)] assms(2), of w]]
  by (simp add: view_selected(2) [OF assms(1)])

lemma view_fits:
  assumes "select_view i cs p w = Inr v" and "sp_budget p < u32_max"
  shows "(\<Sum>g\<leftarrow>vw_render_order v. cf_tokens (cc_fragment (candidate_of cs g))) \<le> sp_budget p"
  using selection_okD(7,8) [OF selected_by_laws(1) [OF view_selected(1) [OF assms(1)] less_imp_le [OF assms(2)]]] assms(2)
  by (simp add: tokens_of_def view_selected(2) [OF assms(1)])

end
