(* ===== verification/Context_Properties.thy ===== *)
theory Context_Properties
  imports Context_Laws
begin

text \<open>The properties of context selection and of compaction summaries.\<close>

section \<open>Samples\<close>

definition sample_fragment :: "fragment_id \<Rightarrow> nat \<Rightarrow> fragment_id list \<Rightarrow> context_fragment" where
  "sample_fragment i tokens deps =
     \<lparr>cf_id = i, cf_kind = Evidence, cf_source = \<lparr>rr_scheme = ''f'', rr_value = ''x''\<rparr>, cf_source_kind = From_Tool,
      cf_scope = Global, cf_content = 9, cf_tokens = tokens, cf_authority = Trusted, cf_confidence = 5000,
      cf_freshness = Current, cf_dependencies = deps\<rparr>"

definition sample_candidate :: "fragment_id \<Rightarrow> nat \<Rightarrow> fragment_id list \<Rightarrow> context_candidate" where
  "sample_candidate i tokens deps =
     \<lparr>cc_fragment = sample_fragment i tokens deps, cc_residency = ''eu'', cc_relevance = 1, cc_recency = 1,
      cc_novelty = 1\<rparr>"

definition sample_policy :: "nat \<Rightarrow> selection_policy" where
  "sample_policy budget =
     \<lparr>sp_scope = Global, sp_require_trusted = True, sp_allowed_residencies = [], sp_budget = budget\<rparr>"

definition sample_weights :: ranking_weights where
  "sample_weights =
     \<lparr>rw_dependency = 0, rw_authority = 0, rw_relevance = 1, rw_recency = 0, rw_confidence = 0,
      rw_novelty = 0, rw_token_cost = 0\<rparr>"

definition sample_candidates :: "context_candidate list" where
  "sample_candidates = [sample_candidate 2 4 [1], sample_candidate 1 5 [], sample_candidate 3 3 []]"

lemmas view_samples =
  sample_candidates_def sample_candidate_def sample_fragment_def sample_policy_def sample_weights_def

lemma sample_view:
  "\<exists>v. select_view 7 sample_candidates (sample_policy 9) sample_weights = Inr v"
  by (simp add: select_view_def max_context_fragments_def view_samples filter_candidates_eq Let_def)

section \<open>What a view holds\<close>

text \<open>
  C23: A view keeps its promises. Every candidate is rendered or omitted, exactly once; what is
  rendered comes after everything it depends on, passes the policy's trust, scope and residency
  filters, and together fits the token budget, whenever the budget is below the largest \<open>u32\<close>.
\<close>

theorem view_keeps_promises:
  assumes "select_view i cs p w = Inr v" and "sp_budget p < u32_max"
  shows "mset (vw_render_order v @ map om_fragment (vw_omissions v)) = mset (map cid cs) \<and>
    (\<forall>pre g post. vw_render_order v = pre @ g # post \<longrightarrow>
       set (cf_dependencies (cc_fragment (candidate_of cs g))) \<subseteq> set pre) \<and>
    set (vw_render_order v) \<subseteq> cid ` {c \<in> set cs. policy_reason p c = None} \<and>
    (\<Sum>g\<leftarrow>vw_render_order v. cf_tokens (cc_fragment (candidate_of cs g))) \<le> sp_budget p"
  using view_partition [OF assms(1)] view_ordered [OF assms(1)] view_allowed [OF assms(1)] view_fits [OF assms]
    assms(2) unfolding ordered_deps_def by simp

lemma sample_fits: "sp_budget (sample_policy 9) < u32_max"
  by (simp add: sample_policy_def u32_max_def)

theorem view_keeps_promises_witness:
  "\<exists>v. select_view 7 sample_candidates (sample_policy 9) sample_weights = Inr v \<and>
     (\<Sum>g\<leftarrow>vw_render_order v. cf_tokens (cc_fragment (candidate_of sample_candidates g))) \<le> 9"
proof -
  obtain v where v: "select_view 7 sample_candidates (sample_policy 9) sample_weights = Inr v"
    using sample_view by blast
  from view_keeps_promises [OF this sample_fits] v show ?thesis by (simp add: sample_policy_def)
qed

text \<open>
  Every omission is true. A fragment said to miss a dependency names one that is no
  candidate; one dropped for an omitted dependency names an omitted one; one left out for the
  budget would exceed it after some prefix of the view that holds what it depends on; one said to
  be in a cycle depends on another such; and the rest fail the filter they name.
\<close>

theorem omissions_are_true:
  assumes "select_view i cs p w = Inr v" and "sp_budget p < u32_max"
  shows "\<forall>om\<in>set (vw_omissions v).
    justified (candidate_of cs) (cid ` set cs) p (vw_render_order v) (vw_omissions v) om"
proof -
  from select_view_Inr [OF assms(1)] have dist: "distinct (map cid cs)"
    and v: "vw_render_order v = sl_render_order (selected_by p w cs)"
      "vw_omissions v = sl_omissions (selected_by p w cs)" by simp_all
  from selection_okD(10) [OF selected_by_laws(1) [OF dist less_imp_le [OF assms(2)]]] show ?thesis by (simp add: v)
qed

theorem omissions_are_true_witness:
  "\<exists>v. select_view 7 sample_candidates (sample_policy 9) sample_weights = Inr v \<and>
     list_all (justified (candidate_of sample_candidates) (cid ` set sample_candidates) (sample_policy 9)
       (vw_render_order v) (vw_omissions v)) (vw_omissions v)"
proof -
  obtain v where v: "select_view 7 sample_candidates (sample_policy 9) sample_weights = Inr v"
    using sample_view by blast
  from omissions_are_true [OF this sample_fits] v show ?thesis by (simp add: list_all_iff)
qed



section \<open>Reproducible selection\<close>

text \<open>
  A selection depends on what the candidates are, not on the order they come in.
\<close>

theorem selection_is_reproducible:
  assumes "mset cs = mset cs'"
  shows "select_view i cs p w = select_view i cs' p w"
proof (cases "distinct (map cid cs)")
  case True
  have sets: "set cs = set cs'" and len: "length cs = length cs'"
    using assms by (metis set_mset_mset) (metis assms size_mset)
  have dist': "distinct (map cid cs')"
    using True assms by (metis mset_eq_imp_distinct_iff mset_map)
  have inj: "c = d" if "c \<in> set cs" "d \<in> set cs" "cid c = cid d" for c d
    using True that by (metis candidate_of)
  have kept: "mset (map (\<lambda>c. (c, score c w)) (filter P cs)) = mset (map (\<lambda>c. (c, score c w)) (filter P cs'))" for P
    using assms by simp
  have "sort_key (\<lambda>(c, sc). (- sint sc, cid c)) (map (\<lambda>c. (c, score c w)) (filter P cs)) =
      sort_key (\<lambda>(c, sc). (- sint sc, cid c)) (map (\<lambda>c. (c, score c w)) (filter P cs'))" for P
    by (rule sort_key_inj_key_eq) (use kept [of P] inj in \<open>auto simp: inj_on_def\<close>)
  moreover have "sort_key om_fragment (map (\<lambda>c. \<lparr>om_fragment = cid c, om_reason = r c\<rparr>) (filter P cs)) =
      sort_key om_fragment (map (\<lambda>c. \<lparr>om_fragment = cid c, om_reason = r c\<rparr>) (filter P cs'))" for P r
    by (rule sort_key_inj_key_eq) (use assms inj in \<open>auto simp: inj_on_def\<close>)
  ultimately show ?thesis
    using sets len by (simp add: select_view_def filter_candidates_eq Let_def list_ex_iff selection_start_def)
next
  case False
  have "set cs = set cs'" and "length cs = length cs'"
    using assms by (metis set_mset_mset) (metis assms size_mset)
  moreover from False have "card (cid ` set cs) \<noteq> length cs"
    using distinct_card_ids by blast
  ultimately show ?thesis by (simp add: select_view_def list_ex_iff comp_def)
qed

theorem selection_is_reproducible_witness:
  "select_view 7 (rev sample_candidates) (sample_policy 9) sample_weights =
   select_view 7 sample_candidates (sample_policy 9) sample_weights"
  by (rule selection_is_reproducible) simp

section \<open>The largest budget\<close>

text \<open>
  Token counts saturate, so a budget of the largest \<open>u32\<close> is no limit: once it is used up, every
  further fragment still fits.
\<close>

theorem largest_budget_is_exceeded:
  "map_sum id vw_render_order (select_view 7 [sample_candidate 1 4294967295 [], sample_candidate 2 5 []]
     (sample_policy 4294967295) sample_weights) = Inr [1, 2]"
  by (simp add: select_view_def max_context_fragments_def view_samples Let_def policy_reason_def
      selection_start_def select_loop.simps visit_all_def visit_def decided_def saturating_add32_def u32_max_def
      omit_cycles_def score_def i64_of_def)

section \<open>Scores\<close>

lemma sint_i64:
  assumes "\<bar>i\<bar> < 2 ^ 63"
  shows "sint (i64_of i) = i"
  using assms by (simp add: i64_of_def signed_of_int signed_take_bit_int_eq_self)

text \<open>
  Scores do not wrap. For weights that are \<open>i32\<close> values, signals and a confidence of at most
  10000 basis points, at most a million dependencies and four billion tokens, the 64-bit score is
  the weighted sum the weights describe.
\<close>

theorem score_does_not_wrap:
  assumes "\<bar>rw_dependency w\<bar> \<le> 2 ^ 31" "\<bar>rw_authority w\<bar> \<le> 2 ^ 31" "\<bar>rw_relevance w\<bar> \<le> 2 ^ 31"
    "\<bar>rw_recency w\<bar> \<le> 2 ^ 31" "\<bar>rw_confidence w\<bar> \<le> 2 ^ 31" "\<bar>rw_novelty w\<bar> \<le> 2 ^ 31" "\<bar>rw_token_cost w\<bar> \<le> 2 ^ 31"
    and "cc_relevance c \<le> 10000" "cc_recency c \<le> 10000" "cc_novelty c \<le> 10000"
      "cf_confidence (cc_fragment c) \<le> 10000" "length (cf_dependencies (cc_fragment c)) \<le> 1000000"
      "cf_tokens (cc_fragment c) \<le> 4000000000"
  shows "sint (score c w) =
      rw_dependency w * int (length (cf_dependencies (cc_fragment c)))
    + rw_authority w * (if cf_authority (cc_fragment c) = Trusted then 10000 else 0)
    + rw_relevance w * int (cc_relevance c) + rw_recency w * int (cc_recency c)
    + rw_confidence w * int (cf_confidence (cc_fragment c)) + rw_novelty w * int (cc_novelty c)
    - rw_token_cost w * int (cf_tokens (cc_fragment c))" (is "_ = ?sum")
proof -
  have deps: "min (int (length (cf_dependencies (cc_fragment c)))) i64_max = int (length (cf_dependencies (cc_fragment c)))"
    using assms(12) by (simp add: i64_max_def)
  have "score c w = i64_of ?sum"
    by (simp add: score_def Let_def deps i64_of_def)
  moreover have "\<bar>?sum\<bar> < 2 ^ 63"
  proof -
    have mult: "\<bar>a * int n\<bar> \<le> 2 ^ 31 * int m" if "\<bar>a\<bar> \<le> 2 ^ 31" "n \<le> m" for a n m
      unfolding abs_mult using that by (intro mult_mono) simp_all
    have "\<bar>rw_authority w * (if cf_authority (cc_fragment c) = Trusted then 10000 else 0)\<bar> \<le> 2 ^ 31 * int 10000"
      using assms(2) by (simp add: abs_mult)
    with mult [OF assms(1,12)] mult [OF assms(3,8)] mult [OF assms(4,9)] mult [OF assms(5,11)]
      mult [OF assms(6,10)] mult [OF assms(7,13)]
    show ?thesis by simp
  qed
  ultimately show ?thesis by (simp add: sint_i64)
qed

theorem score_does_not_wrap_witness:
  "sint (score (sample_candidate 3 3 []) sample_weights) = 1"
  by (subst score_does_not_wrap) (simp_all add: view_samples)

section \<open>Compaction summaries\<close>

lemma read_first_prefix:
  assumes "read_events s k n 1 = Inr (e # es)" and "prefix (stream_of s k) (stream_of t k)" and "\<not> ms_poisoned t"
  shows "read_events t k n 1 = Inr (e # es)"
proof -
  from assms(2) obtain more where t: "stream_of t k = stream_of s k @ more" by (auto simp: prefix_def)
  from assms(1) have "take 1 (filter (\<lambda>e. n \<le> ev_sequence e) (stream_of s k)) = e # es"
    by (simp add: read_events_def split: if_splits)
  moreover from this have "filter (\<lambda>e. n \<le> ev_sequence e) (stream_of s k) \<noteq> []" by auto
  ultimately show ?thesis
    using assms(3) by (cases "filter (\<lambda>e. n \<le> ev_sequence e) (stream_of s k)") (simp_all add: read_events_def t)
qed

lemma originals_of_cited:
  "originals_of s k cs = Inr events \<Longrightarrow>
   map ev_id events = map ec_id cs \<and> set events \<subseteq> set (stream_of s k) \<and>
   (\<forall>t. prefix (stream_of s k) (stream_of t k) \<longrightarrow> \<not> ms_poisoned t \<longrightarrow> originals_of t k cs = Inr events)"
proof (induction cs arbitrary: events)
  case Nil
  then show ?case by simp
next
  case (Cons c cs)
  from Cons.prems obtain page where page: "read_events s k (ec_sequence c) 1 = Inr page"
    by (cases "read_events s k (ec_sequence c) 1") simp_all
  with Cons.prems obtain e rest where e': "page = e # rest" "ev_id e = ec_id c"
    by (cases page) (simp_all split: if_splits)
  note e = page [unfolded e'(1)] e'(2)
  note first = e(1) [unfolded One_nat_def]
  from Cons.prems obtain events' where rest: "originals_of s k cs = Inr events'" "events = e # events'"
    by (cases "originals_of s k cs") (simp_all add: first e(2) and_then_def)
  from e(1) have "e \<in> set (take 1 (filter (\<lambda>x. ec_sequence c \<le> ev_sequence x) (stream_of s k)))"
    by (simp add: read_events_def split: if_splits)
  then have "e \<in> set (stream_of s k)" by (auto dest: in_set_takeD)
  moreover note IH = Cons.IH [OF rest(1)]
  have "originals_of t k (c # cs) = Inr events"
    if t: "prefix (stream_of s k) (stream_of t k)" "\<not> ms_poisoned t" for t
    using IH t by (simp add: read_first_prefix [OF e(1) t, unfolded One_nat_def] e(2) rest(2) and_then_def)
  ultimately show ?case using IH e(2) rest(2) by simp
qed

text \<open>
  A summary never stands in for what cannot be read back. When a summary is appended, every
  event it cites was in the stream, under the cited identifier and in the cited order; the summary
  follows them, caused by the last of them; and however the stream grows, its originals
  can be read back unchanged.
\<close>

theorem summaries_keep_originals:
  assumes ok: "store_ok (w_store w)"
    and run: "summary_append summary session expected actor correlation schema w = (Inr n, w')"
  shows "\<exists>events before e.
    originals (w_store w) session summary = Inr events \<and>
    map ev_id events = map ec_id (cs_citations summary) \<and>
    stream_of (w_store w') session = before @ [e] \<and> set events \<subseteq> set before \<and>
    ev_payload e = Inline (Ev_Summary summary) \<and>
    (cs_citations summary \<noteq> [] \<longrightarrow> ev_causation e = Some (ec_id (last (cs_citations summary)))) \<and>
    (\<forall>s. prefix (stream_of (w_store w') session) (stream_of s session) \<longrightarrow> \<not> ms_poisoned s \<longrightarrow>
       originals s session summary = Inr events)"
proof -
  from run obtain events sequence where ev: "originals (w_store w) session summary = Inr events"
    and seq: "checked_add expected 1 = Some sequence"
    by (auto simp: summary_append_def split: sum.splits option.splits)
  let ?cause = "if cs_citations summary = [] then None else Some (ec_id (last (cs_citations summary)))"
  obtain e w1 where e: "envelope_new session sequence actor ?cause correlation schema ''summary.created''
      (Inline (Ev_Summary summary)) w = (e, w1)" by fastforce
  from run ev seq e obtain m where app: "world_append session expected [e] w1 = (Inr m, w')"
    by (auto simp: summary_append_def Let_def split: prod.splits sum.splits)
  have w1: "w_store w1 = w_store w" using envelope_new_store [OF e] by simp
  have fields: "ev_payload e = Inline (Ev_Summary summary)" "ev_causation e = ?cause"
    using e by (auto simp: envelope_new_def draw_uuid_def)
  from world_append_extends [OF _ app] ok w1 obtain more where
    stream: "stream_of (w_store w') session = (stream_of (w_store w) session @ more) @ [e]" by auto
  note cited = originals_of_cited [OF ev [unfolded originals_def]]
  have "originals s session summary = Inr events"
    if "prefix (stream_of (w_store w') session) (stream_of s session)" "\<not> ms_poisoned s" for s
  proof -
    have "prefix (stream_of (w_store w) session) (stream_of s session)"
      using that(1) stream by (metis append.assoc prefix_def)
    with cited that(2) show ?thesis by (simp add: originals_def)
  qed
  with ev cited stream fields show ?thesis
    by (intro exI [of _ events] exI [of _ "stream_of (w_store w) session @ more"] exI [of _ e]) auto
qed

definition sample_original :: "session_event envelope" where
  "sample_original =
     \<lparr>ev_id = 5, ev_session = 1, ev_sequence = 1, ev_occurred_at_ms = 0, ev_actor = System, ev_causation = None,
      ev_correlation = 0, ev_schema = 1, ev_kind = ''note'', ev_payload = Inline (Ev_Memory None)\<rparr>"

definition sample_cited_world :: "session_event world" where
  "sample_cited_world =
     \<lparr>w_store = \<lparr>ms_poisoned = False, ms_streams = [(1, [sample_original])]\<rparr>, w_bytes_of = (\<lambda>_. Inr 100),
      w_uuid = (\<lambda>n. 1000 + n), w_drawn = 0, w_clock = 5, w_rivals = []\<rparr>"

definition sample_summary :: compaction_summary where
  "sample_summary =
     \<lparr>cs_summary = (sample_fragment 3 3 [])\<lparr>cf_kind := Summary, cf_source_kind := Derived, cf_authority := Untrusted\<rparr>,
      cs_citations = [\<lparr>ec_id = 5, ec_sequence = 1\<rparr>]\<rparr>"

theorem summaries_keep_originals_witness:
  "\<exists>events. originals (w_store (snd (summary_append sample_summary 1 1 System 0 1 sample_cited_world))) 1 sample_summary =
     Inr events \<and> map ev_id events = [5]"
proof -
  let ?run = "summary_append sample_summary 1 1 System 0 1 sample_cited_world"
  have "fst ?run = Inr 2" and poison: "\<not> ms_poisoned (w_store (snd ?run))"
    by (simp_all add: summary_append_def originals_def sample_summary_def sample_cited_world_def sample_original_def
        read_events_def stream_of_def and_then_def checked_add_def u64_max_def Let_def envelope_new_def
        draw_uuid_def world_append_def rival_turn_def append_events_def last_sequence_def
        validate_for_append_def max_inline_event_bytes_def trim_def trim_start_def trim_end_def)
  then have run: "?run = (Inr 2, snd ?run)" by (simp only: prod_eq_iff fst_conv snd_conv)
  have ok: "store_ok (w_store sample_cited_world)"
    by (auto simp: store_ok_def sample_cited_world_def stream_of_def stream_ok_def sample_original_def u64_max_def)
  from summaries_keep_originals [OF ok run] poison show ?thesis
    by (auto simp: sample_summary_def)
qed

end
