(* ===== verification/Effort.thy ===== *)
theory Effort
  imports Strings
begin

text \<open>
  Reasoning efforts (\<^verbatim>\<open>crates/arsy-kernel/src/effort.rs\<close>) and versioned model capabilities
  (\<^verbatim>\<open>crates/arsy-kernel/src/model_profile.rs\<close>). A probe is a parameter.
\<close>

section \<open>Efforts\<close>

datatype effort = Minimal | Low | Medium | High | XHigh | Max_Effort

fun effort_rank :: "effort \<Rightarrow> nat" where
  "effort_rank Minimal = 0"
| "effort_rank Low = 1"
| "effort_rank Medium = 2"
| "effort_rank High = 3"
| "effort_rank XHigh = 4"
| "effort_rank Max_Effort = 5"

lemma effort_rank_inj: "effort_rank a = effort_rank b \<Longrightarrow> a = b"
  by (cases a; cases b) simp_all

instantiation effort :: linorder
begin

definition less_eq_effort :: "effort \<Rightarrow> effort \<Rightarrow> bool" where
  "less_eq_effort a b \<longleftrightarrow> effort_rank a \<le> effort_rank b"

definition less_effort :: "effort \<Rightarrow> effort \<Rightarrow> bool" where
  "less_effort a b \<longleftrightarrow> effort_rank a < effort_rank b"

instance
  by standard (auto simp: less_eq_effort_def less_effort_def intro: effort_rank_inj)

end

definition all_efforts :: "effort list" where
  "all_efforts = [Minimal, Low, Medium, High, XHigh, Max_Effort]"

fun effort_str :: "effort \<Rightarrow> string" where
  "effort_str Minimal = ''minimal''"
| "effort_str Low = ''low''"
| "effort_str Medium = ''medium''"
| "effort_str High = ''high''"
| "effort_str XHigh = ''xhigh''"
| "effort_str Max_Effort = ''max''"

definition effort_parse :: "string \<Rightarrow> effort option" where
  "effort_parse raw = find (\<lambda>e. effort_str e = raw) all_efforts"

fun thinking_share :: "effort \<Rightarrow> nat \<times> nat" where
  "thinking_share Minimal = (1, 8)"
| "thinking_share Low = (1, 4)"
| "thinking_share Medium = (1, 2)"
| "thinking_share High = (4, 5)"
| "thinking_share XHigh = (9, 10)"
| "thinking_share Max_Effort = (9, 10)"

record effort_profile =
  ef_efforts :: "effort list"
  ef_requires :: bool

definition effort_none :: effort_profile where
  "effort_none = \<lparr>ef_efforts = [], ef_requires = False\<rparr>"

text \<open>\<open>sort_unstable\<close> and \<open>dedup\<close>.\<close>

definition effort_of :: "effort list \<Rightarrow> bool \<Rightarrow> effort_profile" where
  "effort_of es requires = \<lparr>ef_efforts = remdups_adj (sort es), ef_requires = requires\<rparr>"

definition effort_unrouted :: effort_profile where
  "effort_unrouted = effort_of [Low, Medium, High] False"

definition takes_effort :: "effort_profile \<Rightarrow> bool" where
  "takes_effort p \<longleftrightarrow> ef_efforts p \<noteq> []"

definition effort_choices :: "effort_profile \<Rightarrow> effort option list" where
  "effort_choices p =
     (let choices = map Some (ef_efforts p)
      in if \<not> ef_requires p \<or> choices = [] then choices @ [None] else choices)"

definition effort_clamp :: "effort_profile \<Rightarrow> effort option \<Rightarrow> effort option" where
  "effort_clamp p wanted =
     (case ef_efforts p of
        [] \<Rightarrow> None
      | lowest # _ \<Rightarrow>
          (case (case wanted of Some w \<Rightarrow> Some w | None \<Rightarrow> if ef_requires p then Some High else None) of
             None \<Rightarrow> None
           | Some w \<Rightarrow>
               (let below = filter (\<lambda>level. level \<le> w) (ef_efforts p)
                in Some (if below = [] then lowest else Max (set below)))))"

definition low_to_high :: "effort list" where "low_to_high = [Low, Medium, High]"
definition minimal_to_high :: "effort list" where "minimal_to_high = [Minimal, Low, Medium, High]"
definition minimal_to_xhigh :: "effort list" where "minimal_to_xhigh = [Minimal, Low, Medium, High, XHigh]"
definition low_to_max :: "effort list" where "low_to_max = [Low, Medium, High, XHigh, Max_Effort]"
definition low_high_max :: "effort list" where "low_high_max = [Low, High, Max_Effort]"

definition effort_families :: "(string \<times> effort list \<times> bool) list" where
  "effort_families =
     [(''claude-opus-4-6'', [Low, Medium, High, Max_Effort], False),
      (''claude-opus-4-7'', low_to_max, False),
      (''claude-opus-4-8'', low_to_max, False),
      (''claude-opus-5'', low_to_max, False),
      (''claude-sonnet-5'', low_to_max, False),
      (''claude-fable-5'', low_to_max, False),
      (''claude-opus-4'', low_to_high, False),
      (''claude-sonnet-4'', low_to_high, False),
      (''claude-haiku-4'', low_to_high, False),
      (''claude-3-7'', low_to_high, False),
      (''gpt-5-6'', low_to_max, False),
      (''gpt-6'', low_to_max, False),
      (''gpt-5'', minimal_to_high, False),
      (''gpt-4'', [], False),
      (''gpt-3'', [], False),
      (''o1'', low_to_high, True),
      (''o3'', low_to_high, True),
      (''o4'', low_to_high, True),
      (''deepseek-v4'', low_high_max, False),
      (''kimi-k3'', low_high_max, True),
      (''kimi-k2'', minimal_to_high, False),
      (''glm-5'', low_high_max, True),
      (''qwen3'', minimal_to_high, False),
      (''minimax-m3'', minimal_to_xhigh, False),
      (''gemini-2-5-pro'', minimal_to_high, True),
      (''gemini-2-5-flash'', minimal_to_high, False)]"

definition family_id :: "string \<Rightarrow> string" where
  "family_id model = replace_all ''.'' ''-'' (to_ascii_lowercase (after_last (CHR ''/'') model))"

definition effort_builtin :: "string \<Rightarrow> effort_profile option" where
  "effort_builtin model =
     (let i = family_id model
      in if starts_with ''gemini-3'' i
         then Some (effort_of (if contains_str ''-pro'' i then [Low, High] else minimal_to_high) True)
         else map_option (\<lambda>(_, levels, requires). effort_of levels requires)
                (find (\<lambda>(family, _, _). starts_with family i) effort_families))"

section \<open>Model capabilities\<close>

record model_key =
  mk_provider :: string
  mk_model :: string

datatype capability_state = Supported | Unsupported | Unknown_Support

datatype capability_source = Declared | Probed | Override

record capability_constraints =
  cn_max_input_tokens :: "nat option"
  cn_max_output_tokens :: "nat option"
  cn_max_schema_bytes :: "nat option"

record model_capability =
  mc_state :: capability_state
  mc_source :: capability_source
  mc_observed_at :: nat
  mc_constraints :: capability_constraints

type_synonym capability_map = "(string, model_capability) omap"

record model_profile =
  mp_schema_version :: nat
  mp_key :: model_key
  mp_capabilities :: capability_map

definition profile_is_stale :: "model_profile \<Rightarrow> nat \<Rightarrow> nat \<Rightarrow> bool" where
  "profile_is_stale p now max_age \<longleftrightarrow>
     list_ex (\<lambda>c. now - mc_observed_at c > max_age) (omap_values (mp_capabilities p))"

definition declared_capabilities :: "string list" where
  "declared_capabilities = [''streaming'', ''tool_calls'', ''reasoning_effort'']"

definition capability_extend :: "capability_map \<Rightarrow> capability_map \<Rightarrow> capability_map" where
  "capability_extend extra m = fold (\<lambda>(name, c). omap_insert name c) extra m"

definition declared_profile :: "nat option \<Rightarrow> capability_map" where
  "declared_profile dialect_max_output_tokens =
     fold (\<lambda>name. omap_insert name
         \<lparr>mc_state = Supported, mc_source = Declared, mc_observed_at = 0,
          mc_constraints = \<lparr>cn_max_input_tokens = None, cn_max_output_tokens = dialect_max_output_tokens,
                            cn_max_schema_bytes = None\<rparr>\<rparr>)
       declared_capabilities []"

record cached_probe =
  cp_observed_at :: nat
  cp_capabilities :: capability_map

record profile_resolver =
  pr_probes :: "model_key \<Rightarrow> cached_probe option"
  pr_last_attempts :: "model_key \<Rightarrow> nat option"

definition profile_resolver_new :: profile_resolver where
  "profile_resolver_new = \<lparr>pr_probes = Map.empty, pr_last_attempts = Map.empty\<rparr>"

definition mark_source :: "capability_source \<Rightarrow> capability_map \<Rightarrow> capability_map" where
  "mark_source source m = map (\<lambda>(name, c). (name, c\<lparr>mc_source := source\<rparr>)) m"

definition mark_observed :: "nat \<Rightarrow> capability_map \<Rightarrow> capability_map" where
  "mark_observed now m = map (\<lambda>(name, c). (name, c\<lparr>mc_source := Probed, mc_observed_at := now\<rparr>)) m"

text \<open>Whether a call to \<open>resolve\<close> asks the probe.\<close>

definition must_probe :: "profile_resolver \<Rightarrow> model_profile \<Rightarrow> nat \<Rightarrow> nat \<Rightarrow> nat \<Rightarrow> bool" where
  "must_probe r declared now stale_after min_interval \<longleftrightarrow>
     \<not> (case pr_probes r (mp_key declared) of
          None \<Rightarrow> False
        | Some cached \<Rightarrow> now - cp_observed_at cached \<le> stale_after) \<and>
     profile_is_stale declared now stale_after \<and>
     (case pr_last_attempts r (mp_key declared) of None \<Rightarrow> True | Some previous \<Rightarrow> now - previous \<ge> min_interval)"

definition resolve_with :: "model_profile \<Rightarrow> capability_map \<Rightarrow> profile_resolver \<Rightarrow> model_profile" where
  "resolve_with declared overrides r =
     declared\<lparr>mp_capabilities :=
       capability_extend (mark_source Override overrides)
         (case pr_probes r (mp_key declared) of
            None \<Rightarrow> mp_capabilities declared
          | Some cached \<Rightarrow> capability_extend (cp_capabilities cached) (mp_capabilities declared))\<rparr>"

definition resolve_profile ::
  "model_profile \<Rightarrow> capability_map \<Rightarrow> (model_key \<Rightarrow> nat \<Rightarrow> 'e + capability_map) option
    \<Rightarrow> nat \<Rightarrow> nat \<Rightarrow> nat \<Rightarrow> profile_resolver \<Rightarrow> ('e + model_profile) \<times> profile_resolver" where
  "resolve_profile declared overrides probe now stale_after min_interval r =
     (case (if must_probe r declared now stale_after min_interval then probe else None) of
        None \<Rightarrow> (Inr (resolve_with declared overrides r), r)
      | Some ask \<Rightarrow>
          (let k = mp_key declared;
               r1 = r\<lparr>pr_last_attempts := (pr_last_attempts r)(k \<mapsto> now)\<rparr>
           in case ask k now of
                Inl e \<Rightarrow> (Inl e, r1)
              | Inr capabilities \<Rightarrow>
                  (let r2 = r1\<lparr>pr_probes := (pr_probes r1)(k \<mapsto>
                         \<lparr>cp_observed_at = now, cp_capabilities = mark_observed now capabilities\<rparr>)\<rparr>
                   in (Inr (resolve_with declared overrides r2), r2))))"

end
