(* ===== verification/Safety.thy ===== *)
theory Safety
  imports Policy Task_Types Strings
begin

text \<open>
  The deterministic safety review, its cache and the contracts of agent roles:
  \<^verbatim>\<open>crates/arsy-kernel/src/safety.rs\<close>. SHA-256 over the serialized envelope is the parameter \<open>digest\<close>.
\<close>

section \<open>Envelopes and results\<close>

definition review_schema_version :: nat where
  "review_schema_version = 1"

definition role_schema_version :: nat where
  "role_schema_version = 1"

datatype trust_state = Trusted_Intent | Untrusted_Intent | Unknown_Trust

datatype risk_flag =
  CapabilityExpansion | ScopeEscape | ForbiddenNetwork | Credential_Use | SystemModification
| Destructive | Irreversible | DirtyWorkspace | UnknownSandbox | PolicyUncertainty

record safety_envelope =
  se_schema :: nat
  se_intent_digest :: state_version
  se_operation :: operation_kind
  se_operation_digest :: state_version
  se_capabilities :: "capability_action list"
  se_targets :: "resource_ref list"
  se_reversible :: bool
  se_workspace :: workspace_cleanliness
  se_sandbox :: sandbox_assurance
  se_trust :: trust_state
  se_flags :: "risk_flag list"
  se_policy_revision :: state_version
  se_reviewer_version :: string
  se_expires_at_ms :: nat

datatype safety_decision = Review_Allow | Review_RequireApproval | Review_Deny

record safety_result =
  sr_schema :: nat
  sr_decision :: safety_decision
  sr_reasons :: "string list"
  sr_reviewer :: string
  sr_latency_ms :: nat
  sr_cost_micros :: nat

section \<open>The review\<close>

text \<open>The derived \<open>Debug\<close> of a flag.\<close>

fun flag_debug :: "risk_flag \<Rightarrow> string" where
  "flag_debug CapabilityExpansion = ''CapabilityExpansion''"
| "flag_debug ScopeEscape = ''ScopeEscape''"
| "flag_debug ForbiddenNetwork = ''ForbiddenNetwork''"
| "flag_debug Credential_Use = ''CredentialUse''"
| "flag_debug SystemModification = ''SystemModification''"
| "flag_debug Destructive = ''Destructive''"
| "flag_debug Irreversible = ''Irreversible''"
| "flag_debug DirtyWorkspace = ''DirtyWorkspace''"
| "flag_debug UnknownSandbox = ''UnknownSandbox''"
| "flag_debug PolicyUncertainty = ''PolicyUncertainty''"

definition hard_risk :: "risk_flag \<Rightarrow> bool" where
  "hard_risk f \<longleftrightarrow> f \<in> {CapabilityExpansion, ScopeEscape, ForbiddenNetwork, PolicyUncertainty}"

definition attended_risk :: "risk_flag \<Rightarrow> bool" where
  "attended_risk f \<longleftrightarrow> f \<in> {Credential_Use, SystemModification, Destructive}"

definition unattended_risk :: "risk_flag \<Rightarrow> bool" where
  "unattended_risk f \<longleftrightarrow>
     f \<in> {Credential_Use, SystemModification, Destructive, Irreversible, DirtyWorkspace, UnknownSandbox}"

definition safety_result_of :: "safety_decision \<Rightarrow> string \<Rightarrow> safety_result" where
  "safety_result_of d reason =
     \<lparr>sr_schema = review_schema_version, sr_decision = d, sr_reasons = [reason],
      sr_reviewer = ''deterministic-v1'', sr_latency_ms = 0, sr_cost_micros = 0\<rparr>"

definition review_attended :: "safety_envelope \<Rightarrow> safety_result" where
  "review_attended e =
     (if se_trust e \<noteq> Trusted_Intent
      then safety_result_of Review_Deny ''blocked: the intent behind this call is not trusted''
      else
        (let risky = filter attended_risk (se_flags e)
         in if risky \<noteq> []
            then safety_result_of Review_Deny
                   (''blocked: risky action (['' @ join_with '', '' (map flag_debug risky) @ ''])'')
            else safety_result_of Review_Allow ''deterministic per-action review passed''))"

definition review :: "safety_envelope \<Rightarrow> bool \<Rightarrow> safety_result" where
  "review e unattended =
     (case find hard_risk (se_flags e) of
        Some flag \<Rightarrow> safety_result_of Review_Deny (''hard risk: '' @ flag_debug flag)
      | None \<Rightarrow>
          if \<not> unattended then review_attended e
          else if \<not> se_reversible e \<or> se_workspace e \<noteq> Clean \<or> se_sandbox e = NoAssurance \<or>
                  se_trust e \<noteq> Trusted_Intent \<or> list_ex unattended_risk (se_flags e)
          then safety_result_of Review_Deny ''risk needs human approval, but this run is unattended''
          else safety_result_of Review_Allow ''deterministic low-risk review passed'')"

section \<open>The cache\<close>

record review_cache =
  rc_capacity :: nat
  rc_entries :: "(state_version \<times> nat \<times> safety_result) list"

definition review_cache_new :: "nat \<Rightarrow> review_cache" where
  "review_cache_new capacity = \<lparr>rc_capacity = capacity, rc_entries = []\<rparr>"

definition review_key :: "(safety_envelope \<times> bool \<Rightarrow> state_version) \<Rightarrow> safety_envelope \<Rightarrow> bool \<Rightarrow> state_version" where
  "review_key digest e unattended = digest (e\<lparr>se_expires_at_ms := 0\<rparr>, unattended)"

definition review_cached ::
  "(safety_envelope \<times> bool \<Rightarrow> state_version) \<Rightarrow> safety_envelope \<Rightarrow> bool \<Rightarrow> nat
    \<Rightarrow> review_cache \<Rightarrow> safety_result \<times> review_cache" where
  "review_cached digest e unattended now_ms c =
     (let key = review_key digest e unattended;
          live = filter (\<lambda>(_, expiry, _). expiry > now_ms) (rc_entries c)
      in case find (\<lambda>(cached, _, _). cached = key) live of
           Some (_, _, r) \<Rightarrow> (r, c\<lparr>rc_entries := live\<rparr>)
         | None \<Rightarrow>
             (let r = review e unattended
              in if rc_capacity c > 0 \<and> se_expires_at_ms e > now_ms
                 then (let room = (if length live = rc_capacity c then tl live else live)
                       in (r, c\<lparr>rc_entries := room @ [(key, se_expires_at_ms e, r)]\<rparr>))
                 else (r, c\<lparr>rc_entries := live\<rparr>)))"

section \<open>Roles\<close>

datatype agent_role =
  Explorer | Planner | Implementer | Debugger | TestRunner | Reviewer | Integrator | SafetyReviewer

record role_contract =
  ro_schema :: nat
  ro_role :: agent_role
  ro_capabilities :: "capability_action list"
  ro_workspace :: workspace_requirement
  ro_budget :: budget
  ro_result_schema :: string
  ro_delegation_depth :: nat
  ro_may_write :: bool
  ro_may_execute :: bool

definition role_contract_of :: "agent_role \<Rightarrow> role_contract" where
  "role_contract_of r =
     (case (case r of
              Explorer \<Rightarrow> ([FsRead, GitRead], ReadOnlySnapshot, False, False)
            | Planner \<Rightarrow> ([FsRead, GitRead], ReadOnlySnapshot, False, False)
            | Reviewer \<Rightarrow> ([FsRead, GitRead], ReadOnlySnapshot, False, False)
            | Implementer \<Rightarrow> ([FsRead, FsWrite, GitRead, ProcessExec], IsolatedWriter, True, True)
            | Debugger \<Rightarrow> ([FsRead, ProcessExec, DebugLaunch, DebugAttach], ReadOnlySnapshot, False, True)
            | TestRunner \<Rightarrow> ([FsRead, ProcessExec], ReadOnlySnapshot, False, True)
            | Integrator \<Rightarrow> ([FsRead, FsWrite, GitRead, GitWrite], IsolatedWriter, True, False)
            | SafetyReviewer \<Rightarrow> ([], ReadOnlySnapshot, False, False)) of
        (capabilities, workspace, may_write, may_execute) \<Rightarrow>
          \<lparr>ro_schema = role_schema_version, ro_role = r, ro_capabilities = capabilities,
           ro_workspace = workspace, ro_budget = budget_default, ro_result_schema = ''application/json'',
           ro_delegation_depth = 0, ro_may_write = may_write, ro_may_execute = may_execute\<rparr>)"

section \<open>Laws\<close>

lemma sr_decision_of [simp]: "sr_decision (safety_result_of d reason) = d"
  by (simp add: safety_result_of_def)

lemma find_none_iff: "find P xs = None \<longleftrightarrow> (\<forall>x\<in>set xs. \<not> P x)"
  by (auto simp: find_None_iff)

lemma review_allows:
  "sr_decision (review e unattended) = Review_Allow \<longleftrightarrow>
   (\<forall>f\<in>set (se_flags e). \<not> hard_risk f) \<and> se_trust e = Trusted_Intent \<and>
   (if unattended
    then se_reversible e \<and> se_workspace e = Clean \<and> se_sandbox e \<noteq> NoAssurance \<and>
         (\<forall>f\<in>set (se_flags e). \<not> unattended_risk f)
    else \<forall>f\<in>set (se_flags e). \<not> attended_risk f)"
proof (cases "find hard_risk (se_flags e)")
  case None
  then have "\<forall>f\<in>set (se_flags e). \<not> hard_risk f" by (simp add: find_none_iff)
  with None show ?thesis
    by (auto simp: review_def review_attended_def Let_def list_ex_iff filter_empty_conv)
next
  case (Some f)
  then have "\<exists>f\<in>set (se_flags e). hard_risk f" by (auto dest!: find_Some_iff [THEN iffD1])
  with Some show ?thesis by (auto simp: review_def)
qed

lemma review_never_asks: "sr_decision (review e unattended) \<noteq> Review_RequireApproval"
  by (auto simp: review_def review_attended_def Let_def split: option.split)

text \<open>The expiry of an envelope does not enter its review.\<close>

lemma review_attended_expiry [simp]: "review_attended (e\<lparr>se_expires_at_ms := n\<rparr>) = review_attended e"
  by (simp add: review_attended_def)

lemma review_expiry: "review (e\<lparr>se_expires_at_ms := n\<rparr>) unattended = review e unattended"
  by (cases "find hard_risk (se_flags e)") (simp_all add: review_def)

text \<open>What the digest is taken of.\<close>

definition review_input :: "safety_envelope \<Rightarrow> bool \<Rightarrow> safety_envelope \<times> bool" where
  "review_input e unattended = (e\<lparr>se_expires_at_ms := 0\<rparr>, unattended)"

lemma review_key_input: "review_key digest e unattended = digest (review_input e unattended)"
  by (simp add: review_key_def review_input_def)

text \<open>What every entry of a cache says, and how many there are, for calls whose inputs are in \<open>K\<close>.\<close>

definition entry_sound ::
  "(safety_envelope \<times> bool \<Rightarrow> state_version) \<Rightarrow> (safety_envelope \<times> bool) set
    \<Rightarrow> state_version \<times> nat \<times> safety_result \<Rightarrow> bool" where
  "entry_sound digest K entry \<longleftrightarrow>
     (\<exists>e unattended. review_input e unattended \<in> K \<and> fst entry = review_key digest e unattended \<and>
        snd (snd entry) = review e unattended)"

definition cache_sound ::
  "(safety_envelope \<times> bool \<Rightarrow> state_version) \<Rightarrow> (safety_envelope \<times> bool) set \<Rightarrow> review_cache \<Rightarrow> bool" where
  "cache_sound digest K c \<longleftrightarrow>
     length (rc_entries c) \<le> rc_capacity c \<and> (\<forall>entry\<in>set (rc_entries c). entry_sound digest K entry)"

lemma cache_sound_new: "cache_sound digest K (review_cache_new capacity)"
  by (simp add: cache_sound_def review_cache_new_def)

lemma review_cached_sound:
  assumes inj: "inj_on digest K" and member: "review_input e unattended \<in> K" and sound: "cache_sound digest K c"
    and run: "review_cached digest e unattended now_ms c = (r, c')"
  shows "r = review e unattended \<and> cache_sound digest K c'"
proof -
  let ?live = "filter (\<lambda>(_, expiry, _). expiry > now_ms) (rc_entries c)"
  let ?key = "review_key digest e unattended"
  have key: "review e1 u1 = review e2 u2"
    if "review_key digest e1 u1 = review_key digest e2 u2" "review_input e1 u1 \<in> K" "review_input e2 u2 \<in> K"
    for e1 u1 e2 u2
  proof -
    from inj_onD [OF inj that(1) [unfolded review_key_input] that(2,3)]
    have "(e1\<lparr>se_expires_at_ms := 0\<rparr>, u1) = (e2\<lparr>se_expires_at_ms := 0\<rparr>, u2)" by (simp only: review_input_def)
    then show ?thesis by (metis Pair_inject review_expiry)
  qed
  have live: "length ?live \<le> rc_capacity c"
    using sound unfolding cache_sound_def by (meson le_trans length_filter_le)
  have entries: "entry_sound digest K entry" if "entry \<in> set ?live" for entry
    using sound that by (simp add: cache_sound_def)
  have new: "entry_sound digest K (?key, n, review e unattended)" for n
    using member by (auto simp: entry_sound_def)
  show ?thesis
  proof (cases "find (\<lambda>(cached, _, _). cached = ?key) ?live")
    case None
    let ?room = "if length ?live = rc_capacity c then tl ?live else ?live"
    have room: "set ?room \<subseteq> set ?live" by (cases ?live) auto
    have size: "length ?room < rc_capacity c" if "rc_capacity c > 0" using live that by auto
    have "r = review e unattended \<and>
        c' = c\<lparr>rc_entries := if rc_capacity c > 0 \<and> se_expires_at_ms e > now_ms
               then ?room @ [(?key, se_expires_at_ms e, review e unattended)] else ?live\<rparr>"
      using run None by (auto simp: review_cached_def Let_def split: if_splits)
    moreover have "entry_sound digest K entry" if "entry \<in> set ?room" for entry
      using that room entries by blast
    ultimately show ?thesis
      using live size entries new by (simp add: cache_sound_def Suc_le_eq)
  next
    case (Some entry)
    then obtain k n where entry: "entry = (k, n, r)" and c': "c' = c\<lparr>rc_entries := ?live\<rparr>"
      using run by (auto simp: review_cached_def Let_def split: prod.splits)
    from find_SomeD [OF Some] entry have "k = ?key" "(k, n, r) \<in> set ?live" by auto
    with entries [of "(k, n, r)"] obtain e1 u1 where
      e1: "review_key digest e1 u1 = ?key" "r = review e1 u1" "review_input e1 u1 \<in> K" by (metis entry_sound_def fst_conv snd_conv)
    from key [OF e1(1,3) member] e1(2) have "r = review e unattended" by simp
    with live entries c' show ?thesis by (simp add: cache_sound_def)
  qed
qed

end
