(* ===== verification/Routing.thy ===== *)
theory Routing
  imports Effort Safety Decimal
begin

text \<open>
  Choosing a model under policy: \<^verbatim>\<open>crates/arsy-kernel/src/routing.rs\<close>.
\<close>

section \<open>Candidates and observations\<close>

datatype task_class = Interactive | Batch

record model_candidate =
  ca_key :: model_key
  ca_capabilities :: capability_map
  ca_residency :: "string option"
  ca_cost_micros_per_1k :: "nat option"
  ca_context_window :: "nat option"
  ca_modalities :: "string oset"
  ca_provider_features :: "string oset"

definition candidate_supports :: "model_candidate \<Rightarrow> string \<Rightarrow> bool" where
  "candidate_supports c capability \<longleftrightarrow>
     (case omap_get (ca_capabilities c) capability of None \<Rightarrow> False | Some v \<Rightarrow> mc_state v = Supported)"

record model_sample =
  sa_turns :: nat
  sa_failures :: nat
  sa_latency_total_ms :: nat
  sa_cost_total_micros :: nat

definition sample_zero :: model_sample where
  "sample_zero = \<lparr>sa_turns = 0, sa_failures = 0, sa_latency_total_ms = 0, sa_cost_total_micros = 0\<rparr>"

record observation =
  ob_key :: model_key
  ob_observed_at_ms :: nat
  ob_endpoint_version :: string
  ob_sample_size :: nat
  ob_eval_suite :: string
  ob_role :: "agent_role option"
  ob_task_class :: task_class
  ob_latency_ms :: nat
  ob_cost_micros :: nat
  ob_verified_success :: bool

text \<open>\<open>samples\<close> is a map whose order plays no part.\<close>

record observations =
  os_samples :: "model_key \<Rightarrow> model_sample option"
  os_records :: "observation list"

definition observations_new :: observations where
  "observations_new = \<lparr>os_samples = Map.empty, os_records = []\<rparr>"

definition add_observation :: "observation \<Rightarrow> model_sample \<Rightarrow> model_sample" where
  "add_observation o1 s =
     (let count = max (ob_sample_size o1) 1
      in \<lparr>sa_turns = saturating_add (sa_turns s) count,
          sa_failures = (if ob_verified_success o1 then sa_failures s else saturating_add (sa_failures s) count),
          sa_latency_total_ms =
            saturating_add (sa_latency_total_ms s) (saturating_mul (ob_latency_ms o1) count),
          sa_cost_total_micros =
            saturating_add (sa_cost_total_micros s) (saturating_mul (ob_cost_micros o1) count)\<rparr>)"

definition record_observation :: "observation \<Rightarrow> observations \<Rightarrow> observations" where
  "record_observation o1 obs =
     (let k = ob_key o1; s = (case os_samples obs k of None \<Rightarrow> sample_zero | Some s \<Rightarrow> s)
      in \<lparr>os_samples = (os_samples obs)(k \<mapsto> add_observation o1 s), os_records = os_records obs @ [o1]\<rparr>)"

definition record_turn :: "model_key \<Rightarrow> nat \<Rightarrow> nat \<Rightarrow> bool \<Rightarrow> observations \<Rightarrow> observations" where
  "record_turn k latency_ms cost_micros succeeded =
     record_observation
       \<lparr>ob_key = k, ob_observed_at_ms = 0, ob_endpoint_version = [], ob_sample_size = 1,
        ob_eval_suite = ''runtime'', ob_role = None, ob_task_class = Interactive, ob_latency_ms = latency_ms,
        ob_cost_micros = cost_micros, ob_verified_success = succeeded\<rparr>"

definition scoped :: "observations \<Rightarrow> model_key \<Rightarrow> agent_role option \<Rightarrow> task_class \<Rightarrow> model_sample option" where
  "scoped obs k role task =
     (let s = fold add_observation
                (filter (\<lambda>o1. ob_key o1 = k \<and> ob_role o1 = role \<and> ob_task_class o1 = task) (os_records obs))
                sample_zero
      in if sa_turns s > 0 then Some s else None)"

definition turns_of :: "observations \<Rightarrow> model_key \<Rightarrow> nat" where
  "turns_of obs k = (case os_samples obs k of None \<Rightarrow> 0 | Some s \<Rightarrow> sa_turns s)"

definition mean_latency_ms :: "observations \<Rightarrow> model_key \<Rightarrow> nat option" where
  "mean_latency_ms obs k =
     Option.bind (os_samples obs k) (\<lambda>s. if sa_turns s > 0 then Some (sa_latency_total_ms s div sa_turns s) else None)"

definition mean_cost_micros :: "observations \<Rightarrow> model_key \<Rightarrow> nat option" where
  "mean_cost_micros obs k =
     Option.bind (os_samples obs k) (\<lambda>s. if sa_turns s > 0 then Some (sa_cost_total_micros s div sa_turns s) else None)"

definition failure_rate :: "observations \<Rightarrow> model_key \<Rightarrow> nat option" where
  "failure_rate obs k =
     Option.bind (os_samples obs k)
       (\<lambda>s. if sa_turns s > 0 then Some (saturating_mul (sa_failures s) 1000 div sa_turns s) else None)"

section \<open>Constraints\<close>

record route_constraints =
  co_allowed_providers :: "string oset option"
  co_allowed_models :: "string oset option"
  co_residency :: "string oset option"
  co_required_capabilities :: "string oset"
  co_max_cost_micros :: "nat option"
  co_min_context_tokens :: "nat option"
  co_required_modalities :: "string oset"
  co_required_provider_features :: "string oset"

definition outside :: "string \<Rightarrow> string oset option \<Rightarrow> bool" where
  "outside x allowed \<longleftrightarrow> (case allowed of None \<Rightarrow> False | Some s \<Rightarrow> x \<notin> set s)"

text \<open>The region check: no ceiling, or a stated region inside it.\<close>

definition residency_reason :: "string oset option \<Rightarrow> string option \<Rightarrow> string option" where
  "residency_reason ceiling region =
     (case ceiling of
        None \<Rightarrow> None
      | Some regions \<Rightarrow>
          (case region of
             None \<Rightarrow> Some ''its residency is unstated''
           | Some r \<Rightarrow> if r \<notin> set regions then Some (''its region `'' @ r @ ''` is not allowed'') else None))"

definition rejects :: "route_constraints \<Rightarrow> model_candidate \<Rightarrow> string option" where
  "rejects co c =
     (if outside (mk_provider (ca_key c)) (co_allowed_providers co)
      then Some ''provider.allowed does not include it''
      else if outside (mk_model (ca_key c)) (co_allowed_models co)
      then Some ''model.allowed does not include it''
      else
        (case residency_reason (co_residency co) (ca_residency c) of
           Some reason \<Rightarrow> Some reason
         | None \<Rightarrow>
        (case find (\<lambda>capability. \<not> candidate_supports c capability) (co_required_capabilities co) of
           Some capability \<Rightarrow> Some (''it does not support `'' @ capability @ ''`'')
         | None \<Rightarrow>
        if (case co_min_context_tokens co of
              None \<Rightarrow> False
            | Some minimum \<Rightarrow> (case ca_context_window c of None \<Rightarrow> True | Some window \<Rightarrow> window < minimum))
        then Some ''its context window is missing or too small''
        else
        (case find (\<lambda>m. m \<notin> set (ca_modalities c)) (co_required_modalities co) of
           Some m \<Rightarrow> Some (''it does not support `'' @ m @ ''` input'')
         | None \<Rightarrow>
        (case find (\<lambda>f. f \<notin> set (ca_provider_features c)) (co_required_provider_features co) of
           Some f \<Rightarrow> Some (''its provider does not support `'' @ f @ ''`'')
         | None \<Rightarrow>
        (case (co_max_cost_micros co, ca_cost_micros_per_1k c) of
           (Some cap, Some cost) \<Rightarrow>
             if cost > cap
             then Some (''its cost '' @ print_nat cost @ '' exceeds the '' @ print_nat cap @ '' cap'')
             else None
         | _ \<Rightarrow> None))))))"

record excluded_candidate =
  ex_key :: model_key
  ex_reason :: string

datatype route_decision =
  Routed model_key "string list" "excluded_candidate list"
| Chosen model_key string "excluded_candidate list"
| Refused string "excluded_candidate list"

fun decision_key :: "route_decision \<Rightarrow> model_key option" where
  "decision_key (Routed k _ _) = Some k"
| "decision_key (Chosen k _ _) = Some k"
| "decision_key (Refused _ _) = None"

fun decision_excluded :: "route_decision \<Rightarrow> excluded_candidate list" where
  "decision_excluded (Routed _ _ ex) = ex"
| "decision_excluded (Chosen _ _ ex) = ex"
| "decision_excluded (Refused _ ex) = ex"

record route_preference =
  pf_pinned :: "model_key option"
  pf_default :: "model_key option"
  pf_route :: bool
  pf_task_class :: "task_class option"
  pf_role :: "agent_role option"

section \<open>Ranking\<close>

definition u64_top :: nat where
  "u64_top = u64_max"

definition route_rank ::
  "model_candidate \<Rightarrow> observations \<Rightarrow> agent_role option \<Rightarrow> task_class \<Rightarrow> nat \<times> nat \<times> nat \<times> nat" where
  "route_rank c obs role task =
     (let sample = scoped obs (ca_key c) role task;
          failures = (case sample of None \<Rightarrow> 0 | Some s \<Rightarrow> saturating_mul (sa_failures s) 1000 div sa_turns s);
          latency = (case sample of None \<Rightarrow> u64_top | Some s \<Rightarrow> sa_latency_total_ms s div sa_turns s);
          cost = (case sample of
                    Some s \<Rightarrow> sa_cost_total_micros s div sa_turns s
                  | None \<Rightarrow> (case ca_cost_micros_per_1k c of Some cost \<Rightarrow> cost | None \<Rightarrow> u64_top));
          (first, second) = (case task of Interactive \<Rightarrow> (latency, cost) | Batch \<Rightarrow> (cost, latency))
      in (failures, first, second, if sample = None then 1 else 0))"

text \<open>The derived \<open>Debug\<close> of a role.\<close>

fun role_debug :: "agent_role \<Rightarrow> string" where
  "role_debug Explorer = ''Explorer''"
| "role_debug Planner = ''Planner''"
| "role_debug Implementer = ''Implementer''"
| "role_debug Debugger = ''Debugger''"
| "role_debug TestRunner = ''TestRunner''"
| "role_debug Reviewer = ''Reviewer''"
| "role_debug Integrator = ''Integrator''"
| "role_debug SafetyReviewer = ''SafetyReviewer''"

definition explain :: "model_candidate \<Rightarrow> observations \<Rightarrow> agent_role option \<Rightarrow> task_class \<Rightarrow> string list" where
  "explain c obs role task =
     (''ranked for a '' @ (case task of Interactive \<Rightarrow> ''latency-sensitive'' | Batch \<Rightarrow> ''cost-sensitive'') @
      '' turn'' @ (case role of None \<Rightarrow> [] | Some r \<Rightarrow> '' as '' @ role_debug r)) #
     (case scoped obs (ca_key c) role task of
        None \<Rightarrow> [''nothing has been measured for this role and task class yet'']
      | Some s \<Rightarrow>
          [''measured over '' @ print_nat (sa_turns s) @ '' turn(s)'',
           ''mean latency '' @ print_nat (sa_latency_total_ms s div sa_turns s) @ '' ms'',
           ''mean cost '' @ print_nat (sa_cost_total_micros s div sa_turns s) @ '' micro-units'',
           print_nat (saturating_mul (sa_failures s) 1000 div sa_turns s) @ '' failures per thousand turns''])"

section \<open>The decision\<close>

definition key_str :: "model_key \<Rightarrow> string" where
  "key_str k = mk_provider k @ ''/'' @ mk_model k"

definition eligible :: "route_constraints \<Rightarrow> model_candidate list \<Rightarrow> model_candidate list" where
  "eligible co cs = filter (\<lambda>c. rejects co c = None) cs"

definition excluded_of :: "route_constraints \<Rightarrow> model_candidate list \<Rightarrow> excluded_candidate list" where
  "excluded_of co cs =
     concat (map (\<lambda>c. case rejects co c of None \<Rightarrow> [] | Some reason \<Rightarrow> [\<lparr>ex_key = ca_key c, ex_reason = reason\<rparr>]) cs)"

definition route_key ::
  "observations \<Rightarrow> agent_role option \<Rightarrow> task_class \<Rightarrow> model_candidate \<Rightarrow> (nat \<times> nat \<times> nat \<times> nat) \<times> string \<times> string" where
  "route_key obs role task c = (route_rank c obs role task, mk_provider (ca_key c), mk_model (ca_key c))"

definition route_decide ::
  "model_candidate list \<Rightarrow> route_constraints \<Rightarrow> observations \<Rightarrow> route_preference \<Rightarrow> route_decision" where
  "route_decide cs co obs p =
     (let ok = eligible co cs; ex = excluded_of co cs
      in case pf_pinned p of
           Some pinned \<Rightarrow>
             (case find (\<lambda>c. ca_key c = pinned) ok of
                Some c \<Rightarrow> Chosen (ca_key c) ''pinned by the operator'' ex
              | None \<Rightarrow>
                  Refused (case find (\<lambda>e. ex_key e = pinned) ex of
                             None \<Rightarrow> ''`'' @ key_str pinned @ ''` is not configured''
                           | Some e \<Rightarrow> ''`'' @ key_str pinned @ ''` is pinned but '' @ ex_reason e) ex)
         | None \<Rightarrow>
             if \<not> pf_route p
             then (case pf_default p of
                     None \<Rightarrow> Refused ''routing is disabled and no default model is configured'' ex
                   | Some dflt \<Rightarrow>
                       (case find (\<lambda>c. ca_key c = dflt) ok of
                          Some c \<Rightarrow> Chosen (ca_key c) ''the configured default, with routing disabled'' ex
                        | None \<Rightarrow>
                            Refused (''routing is disabled and the default `'' @ key_str dflt @ ''` is not allowed'') ex))
             else if ok = [] then Refused ''no configured model satisfies the resolved policy'' ex
             else
               (let task = (case pf_task_class p of Some t \<Rightarrow> t | None \<Rightarrow> Interactive);
                    winner = hd (sort_key (route_key obs (pf_role p) task) ok)
                in Routed (ca_key winner) (explain winner obs (pf_role p) task) ex))"

end
