(* ===== verification/Choice_Properties.thy ===== *)
theory Choice_Properties
  imports Routing "HOL-Library.Multiset"
begin

text \<open>The properties of the safety review, of reasoning efforts, of model profiles and of routing.\<close>

section \<open>Safety review\<close>

definition sample_envelope :: safety_envelope where
  "sample_envelope =
     \<lparr>se_schema = 1, se_intent_digest = [1], se_operation = ''fs.read'', se_operation_digest = [2],
      se_capabilities = [FsRead], se_targets = [], se_reversible = True, se_workspace = Clean,
      se_sandbox = Filesystem, se_trust = Trusted_Intent, se_flags = [], se_policy_revision = [3],
      se_reviewer_version = ''v'', se_expires_at_ms = 50\<rparr>"

text \<open>
  The review lets a call through exactly when nothing speaks against it. Attended: no hard
  risk, a trusted intent, no credential, system or destructive risk. Unattended also: reversible,
  a clean workspace, some sandbox, and no risk that would need a person; so what is
  allowed unattended is allowed attended. It never answers by asking, and nothing that is denied
  becomes allowed when a flag is added.
\<close>

theorem review_exact:
  "(sr_decision (review e unattended) = Review_Allow \<longleftrightarrow>
     se_trust e = Trusted_Intent \<and>
     set (se_flags e) \<inter> {CapabilityExpansion, ScopeEscape, ForbiddenNetwork, PolicyUncertainty} = {} \<and>
     set (se_flags e) \<inter> {Credential_Use, SystemModification, Destructive} = {} \<and>
     (unattended \<longrightarrow> se_reversible e \<and> se_workspace e = Clean \<and> se_sandbox e \<noteq> NoAssurance \<and>
        set (se_flags e) = {})) \<and>
   sr_decision (review e unattended) \<in> {Review_Allow, Review_Deny} \<and>
   (sr_decision (review e unattended) = Review_Deny \<longrightarrow>
      sr_decision (review (e\<lparr>se_flags := flag # se_flags e\<rparr>) unattended) = Review_Deny)"
proof -
  have "hard_risk f \<or> unattended_risk f" for f
    by (cases f) (simp_all add: unattended_risk_def hard_risk_def)
  then have none: "(\<forall>f\<in>S. \<not> hard_risk f) \<and> (\<forall>f\<in>S. \<not> unattended_risk f) \<longleftrightarrow> S = {}" for S
    by blast
  have allow: "sr_decision (review e unattended) = Review_Allow \<longleftrightarrow>
     se_trust e = Trusted_Intent \<and>
     set (se_flags e) \<inter> {CapabilityExpansion, ScopeEscape, ForbiddenNetwork, PolicyUncertainty} = {} \<and>
     set (se_flags e) \<inter> {Credential_Use, SystemModification, Destructive} = {} \<and>
     (unattended \<longrightarrow> se_reversible e \<and> se_workspace e = Clean \<and> se_sandbox e \<noteq> NoAssurance \<and> set (se_flags e) = {})"
    for e
  proof (cases unattended)
    case True
    then show ?thesis
      unfolding review_allows using none [of "set (se_flags e)"] by (cases "set (se_flags e) = {}") auto
  next
    case False
    then show ?thesis
      unfolding review_allows hard_risk_def attended_risk_def by (simp add: disjoint_iff) blast
  qed
  have either: "sr_decision (review e unattended) \<in> {Review_Allow, Review_Deny}" for e
    using review_never_asks [of e unattended] by (cases "sr_decision (review e unattended)") simp_all
  have "sr_decision (review (e\<lparr>se_flags := flag # se_flags e\<rparr>) unattended) = Review_Deny"
    if "sr_decision (review e unattended) = Review_Deny"
  proof -
    have "\<not> sr_decision (review e unattended) = Review_Allow" using that by simp
    then have "\<not> sr_decision (review (e\<lparr>se_flags := flag # se_flags e\<rparr>) unattended) = Review_Allow"
      unfolding allow by auto
    with either [of "e\<lparr>se_flags := flag # se_flags e\<rparr>"] show ?thesis by simp
  qed
  with allow [of e] either [of e] show ?thesis by blast
qed

theorem review_exact_witness:
  "sr_decision (review (sample_envelope\<lparr>se_flags := [Destructive]\<rparr>) False) = Review_Deny \<and>
   sr_decision (review (sample_envelope\<lparr>se_flags := [Irreversible, Destructive]\<rparr>) False) = Review_Deny"
proof -
  let ?e = "sample_envelope\<lparr>se_flags := [Destructive]\<rparr>"
  note exact = review_exact [of ?e False Irreversible]
  have "sr_decision (review ?e False) \<noteq> Review_Allow"
    unfolding exact [THEN conjunct1] by simp
  with exact have deny: "sr_decision (review ?e False) = Review_Deny" by simp
  from exact deny have "sr_decision (review (?e\<lparr>se_flags := Irreversible # se_flags ?e\<rparr>) False) = Review_Deny" by blast
  with deny show ?thesis by simp
qed

text \<open>A run of reviews through one cache.\<close>

fun review_run ::
  "(safety_envelope \<times> bool \<Rightarrow> state_version) \<Rightarrow> (safety_envelope \<times> bool \<times> nat) list \<Rightarrow> review_cache
    \<Rightarrow> safety_result list \<times> review_cache" where
  "review_run digest [] c = ([], c)"
| "review_run digest ((e, unattended, now_ms) # calls) c =
     (case review_cached digest e unattended now_ms c of
        (r, c1) \<Rightarrow> (case review_run digest calls c1 of (rs, c2) \<Rightarrow> (r # rs, c2)))"

text \<open>
  The review cache is transparent and bounded. As long as the digests of the calls' inputs do
  not collide, whatever sequence of calls goes through a cache that starts empty, each gets the
  answer a fresh review would give, and the cache never holds more entries than its capacity.
\<close>

theorem review_cache_transparent:
  assumes "inj_on digest {review_input e unattended | e unattended now_ms. (e, unattended, now_ms) \<in> set calls}"
    and "review_run digest calls (review_cache_new capacity) = (rs, c)"
  shows "rs = map (\<lambda>(e, unattended, _). review e unattended) calls \<and> length (rc_entries c) \<le> capacity"
proof -
  let ?K = "{review_input e unattended | e unattended now_ms. (e, unattended, now_ms) \<in> set calls}"
  have run: "cache_sound digest ?K c0 \<Longrightarrow> review_run digest more c0 = (rs, c) \<Longrightarrow> set more \<subseteq> set calls \<Longrightarrow>
      rs = map (\<lambda>(e, unattended, _). review e unattended) more \<and> cache_sound digest ?K c \<and>
      rc_capacity c = rc_capacity c0" for c0 more rs c
  proof (induction more arbitrary: c0 rs)
    case Nil
    then show ?case by simp
  next
    case (Cons call more)
    obtain e u t where call: "call = (e, u, t)" by (cases call)
    obtain r c1 where one: "review_cached digest e u t c0 = (r, c1)" by fastforce
    obtain rs1 c2 where rest: "review_run digest more c1 = (rs1, c2)" by fastforce
    have cap: "rc_capacity c1 = rc_capacity c0"
      using one by (auto simp: review_cached_def Let_def split: option.splits if_splits)
    have "review_input e u \<in> ?K" using Cons.prems(3) call by auto
    note sound = review_cached_sound [OF assms(1) this Cons.prems(1) one]
    with Cons.IH [of c1 rs1] Cons.prems rest call one have "rs = review e u # rs1" "c = c2"
        "rs1 = map (\<lambda>(e, unattended, _). review e unattended) more \<and> cache_sound digest ?K c2 \<and>
         rc_capacity c2 = rc_capacity c1" by auto
    with cap call show ?case by simp
  qed
  from run [OF cache_sound_new assms(2)] show ?thesis
    by (simp add: cache_sound_def review_cache_new_def)
qed

theorem review_cache_transparent_witness:
  "fst (review_run (\<lambda>(e, _). se_policy_revision e)
      [(sample_envelope, False, 1), (sample_envelope, False, 2)] (review_cache_new 1)) =
   [review sample_envelope False, review sample_envelope False]"
proof -
  let ?calls = "[(sample_envelope, False, 1), (sample_envelope, False, 2)]"
  let ?run = "review_run (\<lambda>(e, _). se_policy_revision e) ?calls (review_cache_new 1)"
  have inj: "inj_on (\<lambda>(e, _). se_policy_revision e)
      {review_input e unattended | e unattended now_ms. (e, unattended, now_ms) \<in> set ?calls}"
    by (rule inj_on_subset [of _ "{review_input sample_envelope False}"]) auto
  have "?run = (fst ?run, snd ?run)" by simp
  from review_cache_transparent [OF inj this] show ?thesis by simp
qed



section \<open>Efforts\<close>

lemma effort_of_sorted [simp]: "sorted (ef_efforts (effort_of es requires))"
  by (simp add: effort_of_def sorted_remdups_adj)

text \<open>
  A requested effort is clamped to what the model offers: the offered level that was asked
  for or, failing that, the highest offered one below it, and only when none is below it the lowest
  there is. A model without the knob gets none, and one that always reasons is never switched off.
\<close>

theorem effort_clamp_exact:
  assumes "p = effort_of es requires"
  shows "(effort_clamp p (Some w) = Some e \<longleftrightarrow>
      e \<in> set es \<and> (if \<exists>l\<in>set es. l \<le> w then e \<le> w \<and> (\<forall>l\<in>set es. l \<le> w \<longrightarrow> l \<le> e) else \<forall>l\<in>set es. e \<le> l)) \<and>
    effort_clamp p None = (if requires then effort_clamp p (Some High) else None)"
proof -
  have set: "set (ef_efforts p) = set es" and sorted: "sorted (ef_efforts p)"
    by (simp_all add: assms effort_of_def sorted_remdups_adj)
  let ?below = "{l \<in> set es. l \<le> w}"
  have some: "effort_clamp p (Some w) = Some e \<longleftrightarrow>
      e \<in> set es \<and> (if \<exists>l\<in>set es. l \<le> w then e \<le> w \<and> (\<forall>l\<in>set es. l \<le> w \<longrightarrow> l \<le> e) else \<forall>l\<in>set es. e \<le> l)"
  proof (cases "ef_efforts p")
    case Nil
    with set show ?thesis by (simp add: effort_clamp_def)
  next
    case (Cons lowest rest)
    have low: "lowest \<in> set es" "\<forall>l\<in>set es. lowest \<le> l" using set sorted Cons by auto
    have clamp: "effort_clamp p (Some w) = Some (if ?below = {} then lowest else Max ?below)"
    proof -
      have below: "set (filter (\<lambda>l. l \<le> w) (ef_efforts p)) = ?below" by (simp only: set_filter set)
      have "effort_clamp p (Some w) = Some (if filter (\<lambda>l. l \<le> w) (ef_efforts p) = [] then lowest
          else Max (set (filter (\<lambda>l. l \<le> w) (ef_efforts p))))"
        by (simp add: effort_clamp_def Cons)
      then show ?thesis unfolding below set_empty [symmetric] .
    qed
    show ?thesis
    proof (cases "?below = {}")
      case True
      with clamp low show ?thesis by (auto intro: antisym)
    next
      case False
      then have "Max ?below = e \<longleftrightarrow> e \<in> ?below \<and> (\<forall>l\<in>?below. l \<le> e)" by (intro Max_eq_iff) simp_all
      with clamp False show ?thesis by auto
    qed
  qed
  moreover have "effort_clamp p None = (if requires then effort_clamp p (Some High) else None)"
    by (simp add: effort_clamp_def assms effort_of_def split: list.split)
  ultimately show ?thesis by blast
qed

theorem effort_clamp_exact_witness:
  "effort_clamp (effort_of [High, Low, Max_Effort] False) (Some Medium) = Some Low"
  unfolding effort_clamp_exact [OF refl, THEN conjunct1] by (auto simp: less_eq_effort_def)

section \<open>Model profiles\<close>

lemma capability_extend_get:
  assumes "distinct (map fst extra)"
  shows "omap_get (capability_extend extra m) name = (case omap_get extra name of Some c \<Rightarrow> Some c | None \<Rightarrow> omap_get m name)"
  using assms
proof (induction extra arbitrary: m)
  case Nil
  then show ?case by (simp add: capability_extend_def)
next
  case (Cons entry extra)
  obtain n c where entry: "entry = (n, c)" by (cases entry)
  have "capability_extend (entry # extra) m = capability_extend extra (omap_insert n c m)"
    by (simp add: capability_extend_def entry)
  moreover have "omap_get extra n = None" using Cons.prems entry by (simp add: map_of_eq_None_iff)
  ultimately show ?case
    using Cons.IH [of "omap_insert n c m"] Cons.prems entry by (auto split: option.splits)
qed

lemma mark_source_get [simp]:
  "omap_get (mark_source source m) name = map_option (\<lambda>c. c\<lparr>mc_source := source\<rparr>) (omap_get m name)"
  by (induction m) (auto simp: mark_source_def)

lemma mark_source_keys [simp]: "map fst (mark_source source m) = map fst m"
  by (induction m) (auto simp: mark_source_def)

text \<open>
  An operator's override wins over what a probe observed, and that over what is
  declared; and a resolved profile never grants a capability none of the three mentions. A probe is
  not asked again before its interval has passed, whether it answered or failed.
\<close>

theorem resolve_precedence:
  assumes run: "resolve_profile declared overrides probe now stale_after min_interval r = (Inr p, r')"
    and "distinct (map fst overrides)"
    and "\<And>cached. pr_probes r' (mp_key declared) = Some cached \<Longrightarrow> distinct (map fst (cp_capabilities cached))"
  shows "omap_get (mp_capabilities p) name =
      (case omap_get overrides name of
         Some c \<Rightarrow> Some (c\<lparr>mc_source := Override\<rparr>)
       | None \<Rightarrow>
           (case Option.bind (pr_probes r' (mp_key declared)) (\<lambda>cached. omap_get (cp_capabilities cached) name) of
              Some c \<Rightarrow> Some c
            | None \<Rightarrow> omap_get (mp_capabilities declared) name)) \<and>
    mp_key p = mp_key declared \<and>
    (pr_last_attempts r' (mp_key declared) \<noteq> pr_last_attempts r (mp_key declared) \<longrightarrow>
       (\<forall>later. later - now < min_interval \<longrightarrow> \<not> must_probe r' declared later stale_after min_interval))"
proof -
  have p: "p = resolve_with declared overrides r'"
    using run by (auto simp: resolve_profile_def Let_def split: option.splits sum.splits if_splits)
  have "pr_last_attempts r' (mp_key declared) = pr_last_attempts r (mp_key declared) \<or>
      pr_last_attempts r' (mp_key declared) = Some now"
    using run by (auto simp: resolve_profile_def Let_def split: option.splits sum.splits if_splits)
  then have "\<forall>later. later - now < min_interval \<longrightarrow> \<not> must_probe r' declared later stale_after min_interval"
    if "pr_last_attempts r' (mp_key declared) \<noteq> pr_last_attempts r (mp_key declared)"
    using that by (auto simp: must_probe_def)
  with assms(2,3) show ?thesis
    by (auto simp: p resolve_with_def capability_extend_get split: option.splits)
qed

section \<open>Routing\<close>

text \<open>What policy demands of a model.\<close>

definition within_policy :: "route_constraints \<Rightarrow> model_candidate \<Rightarrow> bool" where
  "within_policy co c \<longleftrightarrow>
     (\<forall>s. co_allowed_providers co = Some s \<longrightarrow> mk_provider (ca_key c) \<in> set s) \<and>
     (\<forall>s. co_allowed_models co = Some s \<longrightarrow> mk_model (ca_key c) \<in> set s) \<and>
     (\<forall>s. co_residency co = Some s \<longrightarrow> (\<exists>region\<in>set s. ca_residency c = Some region)) \<and>
     (\<forall>capability\<in>set (co_required_capabilities co). candidate_supports c capability) \<and>
     (\<forall>minimum. co_min_context_tokens co = Some minimum \<longrightarrow>
        (\<exists>window. ca_context_window c = Some window \<and> minimum \<le> window)) \<and>
     set (co_required_modalities co) \<subseteq> set (ca_modalities c) \<and>
     set (co_required_provider_features co) \<subseteq> set (ca_provider_features c) \<and>
     (\<forall>cap cost. co_max_cost_micros co = Some cap \<longrightarrow> ca_cost_micros_per_1k c = Some cost \<longrightarrow> cost \<le> cap)"

lemma residency_reason_none:
  "residency_reason ceiling region = None \<longleftrightarrow> (\<forall>s. ceiling = Some s \<longrightarrow> (\<exists>r\<in>set s. region = Some r))"
  by (auto simp: residency_reason_def split: option.splits)

lemma outside_iff: "outside x allowed \<longleftrightarrow> (\<exists>s. allowed = Some s \<and> x \<notin> set s)"
  by (simp add: outside_def split: option.split)

lemma rejects_none: "rejects co c = None \<longleftrightarrow> within_policy co c"
proof -
  have cost: "(case (cap, cost) of (Some x, Some y) \<Rightarrow> if y > x then Some (f x y) else None | _ \<Rightarrow> None) = None \<longleftrightarrow>
      (\<forall>x y. cap = Some x \<longrightarrow> cost = Some y \<longrightarrow> y \<le> x)" for cap cost :: "nat option" and f :: "nat \<Rightarrow> nat \<Rightarrow> string"
    by (auto split: option.splits)
  have window: "(case m of None \<Rightarrow> False | Some minimum \<Rightarrow> (case w of None \<Rightarrow> True | Some window \<Rightarrow> window < minimum)) \<longleftrightarrow>
      \<not> (\<forall>minimum. m = Some minimum \<longrightarrow> (\<exists>window. w = Some window \<and> minimum \<le> window))" for m w :: "nat option"
    by (auto split: option.splits)
  have found: "(case find P xs of Some x \<Rightarrow> Some (f x) | None \<Rightarrow> z) = None \<longleftrightarrow> (\<forall>x\<in>set xs. \<not> P x) \<and> z = None"
    for P :: "string \<Rightarrow> bool" and xs f and z :: "string option"
  proof (cases "find P xs")
    case None
    with find_NoneD [OF None] show ?thesis by simp
  next
    case (Some x)
    with find_SomeD [OF Some] show ?thesis by auto
  qed
  have region: "(case residency_reason a b of Some reason \<Rightarrow> Some reason | None \<Rightarrow> z) = None \<longleftrightarrow>
      (\<forall>s. a = Some s \<longrightarrow> (\<exists>r\<in>set s. b = Some r)) \<and> z = None" for a b and z :: "string option"
    using residency_reason_none [of a b] by (cases "residency_reason a b") auto
  have cond: "(if P then Some x else z) = None \<longleftrightarrow> \<not> P \<and> z = None" for P and x :: string and z
    by simp
  show ?thesis
    unfolding rejects_def within_policy_def cond region found window cost outside_iff by blast
qed

text \<open>
  C25: No preference reaches past policy. Whether a model is pinned, the configured default or
  routed to, it is one of the candidates and meets every ceiling and requirement; every candidate
  that does not is reported as excluded.
\<close>

theorem choice_stays_within_policy:
  "(decision_key (route_decide cs co obs p) = Some k \<longrightarrow> (\<exists>c\<in>set cs. ca_key c = k \<and> within_policy co c)) \<and>
   ex_key ` set (decision_excluded (route_decide cs co obs p)) = ca_key ` {c \<in> set cs. \<not> within_policy co c}"
proof -
  have ok: "set (eligible co cs) = {c \<in> set cs. within_policy co c}"
    by (simp add: eligible_def rejects_none)
  have "ex_key ` set (excluded_of co cs) = ca_key ` {c \<in> set cs. rejects co c \<noteq> None}"
  proof (induction cs)
    case Nil
    then show ?case by (simp add: excluded_of_def)
  next
    case (Cons c cs)
    have step: "excluded_of co (c # cs) =
        (case rejects co c of None \<Rightarrow> [] | Some reason \<Rightarrow> [\<lparr>ex_key = ca_key c, ex_reason = reason\<rparr>]) @ excluded_of co cs"
      by (simp add: excluded_of_def)
    show ?case
    proof (cases "rejects co c")
      case None
      then have "{d \<in> set (c # cs). rejects co d \<noteq> None} = {d \<in> set cs. rejects co d \<noteq> None}" by auto
      with None Cons show ?thesis unfolding step by simp
    next
      case (Some reason)
      then have "{d \<in> set (c # cs). rejects co d \<noteq> None} = insert c {d \<in> set cs. rejects co d \<noteq> None}" by auto
      with Some Cons show ?thesis unfolding step by simp
    qed
  qed
  then have ex: "ex_key ` set (excluded_of co cs) = ca_key ` {c \<in> set cs. \<not> within_policy co c}"
    by (simp only: rejects_none)
  have first: "hd (sort_key f xs) \<in> set xs" if "xs \<noteq> []" for f :: "model_candidate \<Rightarrow> (nat \<times> nat \<times> nat \<times> nat) \<times> string \<times> string" and xs
    using that hd_in_set [of "sort_key f xs"] by (metis set_empty set_sort)
  have exc: "decision_excluded (route_decide cs co obs p) = excluded_of co cs"
    by (auto simp: route_decide_def Let_def split: option.split)
  have "\<exists>c\<in>set cs. ca_key c = k \<and> within_policy co c" if "decision_key (route_decide cs co obs p) = Some k"
    using that ok first [of "eligible co cs"]
    by (auto simp: route_decide_def Let_def split: option.splits if_splits dest!: find_SomeD)
  with ex exc show ?thesis by simp
qed

text \<open>What a routed turn chooses by.\<close>

definition route_order ::
  "observations \<Rightarrow> route_preference \<Rightarrow> model_candidate \<Rightarrow> (nat \<times> nat \<times> nat \<times> nat) \<times> string \<times> string" where
  "route_order obs p = route_key obs (pf_role p) (case pf_task_class p of Some t \<Rightarrow> t | None \<Rightarrow> Interactive)"

text \<open>
  C26: Routing takes the best model policy allows, and which one that is does not depend on the
  order of the candidates: no allowed candidate ranks before the chosen one, and any rearrangement
  of the candidates gives the same model.
\<close>

theorem routing_is_optimal:
  assumes "pf_pinned p = None" and "pf_route p" and "\<exists>c\<in>set cs. within_policy co c"
  shows "(\<exists>c\<in>set cs. within_policy co c \<and> decision_key (route_decide cs co obs p) = Some (ca_key c) \<and>
      (\<forall>d\<in>set cs. within_policy co d \<longrightarrow> route_order obs p c \<le> route_order obs p d)) \<and>
    (\<forall>cs'. mset cs = mset cs' \<longrightarrow>
       decision_key (route_decide cs' co obs p) = decision_key (route_decide cs co obs p))"
proof -
  let ?task = "case pf_task_class p of Some t \<Rightarrow> t | None \<Rightarrow> Interactive"
  have best: "\<exists>c\<in>set cs. within_policy co c \<and> decision_key (route_decide cs co obs p) = Some (ca_key c) \<and>
      (\<forall>d\<in>set cs. within_policy co d \<longrightarrow> route_order obs p c \<le> route_order obs p d)"
    if some: "\<exists>c\<in>set cs. within_policy co c" for cs
  proof -
    let ?ranked = "sort_key (route_order obs p) (eligible co cs)"
    have ok: "set ?ranked = {c \<in> set cs. within_policy co c}" by (simp add: eligible_def rejects_none)
    with some have ne: "?ranked \<noteq> []" by (metis (mono_tags, lifting) empty_iff empty_set mem_Collect_eq)
    then obtain c rest where ranked: "?ranked = c # rest" by (cases ?ranked) auto
    have "sorted (map (route_order obs p) (c # rest))"
      using sorted_sort_key [of "route_order obs p" "eligible co cs"] ranked by simp
    then have "\<forall>d\<in>set ?ranked. route_order obs p c \<le> route_order obs p d" unfolding ranked by auto
    moreover have "eligible co cs \<noteq> []" using ne by auto
    with assms(1,2) ranked have "decision_key (route_decide cs co obs p) = Some (ca_key c)"
      by (simp add: route_decide_def Let_def route_order_def)
    moreover have "c \<in> set ?ranked" unfolding ranked by simp
    ultimately show ?thesis unfolding ok by blast
  qed
  have "decision_key (route_decide cs' co obs p) = decision_key (route_decide cs co obs p)"
    if same: "mset cs = mset cs'" for cs'
  proof -
    have sets: "set cs' = set cs" using same by (metis set_mset_mset)
    from best [OF assms(3)] obtain c where c: "c \<in> set cs" "within_policy co c"
      "decision_key (route_decide cs co obs p) = Some (ca_key c)"
      "\<forall>d\<in>set cs. within_policy co d \<longrightarrow> route_order obs p c \<le> route_order obs p d" by blast
    from best [of cs'] assms(3) sets obtain d where d: "d \<in> set cs" "within_policy co d"
      "decision_key (route_decide cs' co obs p) = Some (ca_key d)"
      "\<forall>e\<in>set cs. within_policy co e \<longrightarrow> route_order obs p d \<le> route_order obs p e" by auto
    from c d have "route_order obs p c = route_order obs p d" by (meson antisym)
    then have "ca_key c = ca_key d" by (simp add: route_order_def route_key_def)
    with c(3) d(3) show ?thesis by simp
  qed
  with best [OF assms(3)] show ?thesis by blast
qed

section \<open>Samples of the choices\<close>

definition sample_key :: "string \<Rightarrow> model_key" where
  "sample_key model = \<lparr>mk_provider = ''p'', mk_model = model\<rparr>"

definition sample_model :: "string \<Rightarrow> nat option \<Rightarrow> model_candidate" where
  "sample_model model cost =
     \<lparr>ca_key = sample_key model, ca_capabilities = [], ca_residency = None, ca_cost_micros_per_1k = cost,
      ca_context_window = None, ca_modalities = [], ca_provider_features = []\<rparr>"

definition sample_constraints :: route_constraints where
  "sample_constraints =
     \<lparr>co_allowed_providers = Some [''p''], co_allowed_models = None, co_residency = None,
      co_required_capabilities = [], co_max_cost_micros = Some 9, co_min_context_tokens = None,
      co_required_modalities = [], co_required_provider_features = []\<rparr>"

definition sample_preference :: "model_key option \<Rightarrow> route_preference" where
  "sample_preference pinned =
     \<lparr>pf_pinned = pinned, pf_default = None, pf_route = True, pf_task_class = None, pf_role = None\<rparr>"

lemmas choice_samples =
  sample_key_def sample_model_def sample_constraints_def sample_preference_def observations_new_def
  eligible_def excluded_of_def rejects_def outside_def residency_reason_def Let_def

theorem choice_stays_within_policy_witness:
  "decision_key (route_decide [sample_model ''a'' (Some 3)] sample_constraints observations_new
     (sample_preference (Some (sample_key ''a'')))) = Some (sample_key ''a'') \<and>
   within_policy sample_constraints (sample_model ''a'' (Some 3))"
proof -
  have key: "decision_key (route_decide [sample_model ''a'' (Some 3)] sample_constraints observations_new
     (sample_preference (Some (sample_key ''a'')))) = Some (sample_key ''a'')"
    by (simp add: route_decide_def choice_samples)
  with choice_stays_within_policy [of "[sample_model ''a'' (Some 3)]" sample_constraints observations_new
      "sample_preference (Some (sample_key ''a''))" "sample_key ''a''"]
  show ?thesis by simp
qed

theorem routing_is_optimal_witness:
  "decision_key (route_decide [sample_model ''b'' (Some 3), sample_model ''a'' None] sample_constraints
     observations_new (sample_preference None)) =
   decision_key (route_decide [sample_model ''a'' None, sample_model ''b'' (Some 3)] sample_constraints
     observations_new (sample_preference None))"
proof -
  have some: "\<exists>c\<in>set [sample_model ''a'' None, sample_model ''b'' (Some 3)]. within_policy sample_constraints c"
    by (simp add: within_policy_def choice_samples)
  have pref: "pf_pinned (sample_preference None) = None" "pf_route (sample_preference None)"
    by (simp_all add: sample_preference_def)
  have "mset [sample_model ''a'' None, sample_model ''b'' (Some 3)] =
      mset [sample_model ''b'' (Some 3), sample_model ''a'' None]" by simp
  with routing_is_optimal [OF pref some] show ?thesis by blast
qed

text \<open>
  A model nothing was measured of goes ahead of one that was measured and failed once in two
  turns, although the ranking means it to sort behind any that was measured.
\<close>

theorem unmeasured_model_wins:
  "decision_key (route_decide [sample_model ''a'' None, sample_model ''b'' None] sample_constraints
     (record_turn (sample_key ''a'') 1 1 True (record_turn (sample_key ''a'') 1 1 False observations_new))
     (sample_preference None)) = Some (sample_key ''b'')"
  by (simp add: route_decide_def choice_samples route_key_def route_rank_def scoped_def record_turn_def
      record_observation_def add_observation_def sample_zero_def saturating_add_def saturating_mul_def u64_max_def
      u64_top_def less_eq_prod_def) (simp flip: numeral_2_eq_2)

definition sample_profile :: model_profile where
  "sample_profile = \<lparr>mp_schema_version = 1, mp_key = sample_key ''a'', mp_capabilities = declared_profile None\<rparr>"

definition sample_override :: model_capability where
  "sample_override =
     \<lparr>mc_state = Unsupported, mc_source = Declared, mc_observed_at = 0,
      mc_constraints = \<lparr>cn_max_input_tokens = None, cn_max_output_tokens = None, cn_max_schema_bytes = None\<rparr>\<rparr>"

theorem resolve_precedence_witness:
  "omap_get (mp_capabilities (resolve_with sample_profile [(''streaming'', sample_override)] profile_resolver_new))
     ''streaming'' = Some (sample_override\<lparr>mc_source := Override\<rparr>)"
proof -
  have run: "resolve_profile sample_profile [(''streaming'', sample_override)]
      (None :: (model_key \<Rightarrow> nat \<Rightarrow> unit + capability_map) option) 9 9 9 profile_resolver_new =
      (Inr (resolve_with sample_profile [(''streaming'', sample_override)] profile_resolver_new), profile_resolver_new)"
    by (simp add: resolve_profile_def)
  from resolve_precedence [OF run, of "''streaming''"] show ?thesis
    by (simp add: profile_resolver_new_def)
qed

section \<open>Observations\<close>

text \<open>
  The running totals kept for each model are what its recorded observations add up to, so the
  means and rates read from them are those of the records.
\<close>

theorem totals_are_of_records:
  "os_samples (fold record_observation obs observations_new) k =
     (let mine = filter (\<lambda>o1. ob_key o1 = k) obs
      in if mine = [] then None else Some (fold add_observation mine sample_zero)) \<and>
   os_records (fold record_observation obs observations_new) = obs"
proof (induction obs rule: rev_induct)
  case Nil
  then show ?case by (simp add: observations_new_def)
next
  case (snoc o1 obs)
  then show ?case by (auto simp: record_observation_def Let_def split: if_splits)
qed

end
