(* ===== verification/Edit.thy ===== *)
theory Edit
  imports Domain
begin

text \<open>
  The edit engine: \<^verbatim>\<open>crates/arsy-code/src/edit.rs\<close>. A workspace is a map from canonical paths
  (relative to its root) to bytes. Every call to the file system may fail: \<open>dk_faults\<close> says
  which of the calls still to come do. The resolution of symbolic links (\<open>canonicalize\<close>), SHA-256 and
  the semantic resolver are parameters.
\<close>

section \<open>Transactions and errors\<close>

type_synonym bytes = "u8 list"
type_synonym rel_path = "string list"

definition max_file_bytes :: nat where
  "max_file_bytes = 16777216"

definition max_operations :: nat where
  "max_operations = 256"

definition max_transaction_bytes :: nat where
  "max_transaction_bytes = 67108864"

datatype path_component = Path_Prefix string | Root_Dir | Cur_Dir | Parent_Dir | Normal string

record range_replacement =
  rr_start :: nat
  rr_end :: nat
  rr_replacement :: bytes

type_synonym symbol_id = string

datatype edit_address =
  ContentAnchor state_version state_version
| TextAnchor bytes "nat option"
| Symbol state_version symbol_id state_version
| WorkspaceEdit string state_version "range_replacement list"

record resolved_symbol =
  rs_index :: state_version
  rs_identity :: state_version
  rs_start :: nat
  rs_end :: nat

record edit_operation =
  eo_path :: "path_component list"
  eo_address :: edit_address
  eo_replacement :: bytes

record edit_transaction =
  et_base :: state_version
  et_operations :: "edit_operation list"

record file_edit =
  fe_path :: rel_path
  fe_before :: state_version
  fe_after :: state_version
  fe_undeclared_changes :: "(nat \<times> nat) list"

datatype edit_error =
  StaleBase state_version state_version
| InvalidPath "path_component list"
| DuplicatePath rel_path
| TransactionTooLarge
| FileTooLarge rel_path
| StaleContent rel_path
| ReplacementDigest rel_path
| AnchorNotFound rel_path
| SemanticUnavailable
| SemanticIdentityChanged rel_path
| StaleServerRevision string
| InvalidRange rel_path
| OverlappingRanges rel_path
| Ambiguous rel_path "nat list"
| Edit_Io

record semantic_resolver =
  se_symbol :: "rel_path \<Rightarrow> symbol_id \<Rightarrow> edit_error + resolved_symbol"
  se_revision :: "string \<Rightarrow> edit_error + state_version"

definition no_semantic_resolver :: semantic_resolver where
  "no_semantic_resolver = \<lparr>se_symbol = (\<lambda>_ _. Inl SemanticUnavailable), se_revision = (\<lambda>_. Inl SemanticUnavailable)\<rparr>"

section \<open>What one operation makes of a file\<close>

definition splice :: "nat \<Rightarrow> nat \<Rightarrow> bytes \<Rightarrow> bytes \<Rightarrow> bytes" where
  "splice a b new xs = take a xs @ new @ drop b xs"

definition replace_ranges :: "bytes \<Rightarrow> rel_path \<Rightarrow> range_replacement list \<Rightarrow> edit_error + bytes" where
  "replace_ranges input path edits =
     (if edits = [] then Inl (InvalidRange path)
      else
        (let sorted_edits = sort_key rr_start edits
         in if list_ex (\<lambda>e. rr_start e > rr_end e \<or> rr_end e > length input) sorted_edits
            then Inl (InvalidRange path)
            else if list_ex (\<lambda>(a, b). rr_end a > rr_start b) (zip sorted_edits (tl sorted_edits))
            then Inl (OverlappingRanges path)
            else Inr (fold (\<lambda>e. splice (rr_start e) (rr_end e) (rr_replacement e)) (rev sorted_edits) input)))"

text \<open>The offsets at which a needle that is not empty occurs.\<close>

definition occurrences :: "bytes \<Rightarrow> bytes \<Rightarrow> nat list" where
  "occurrences needle input =
     filter (\<lambda>i. take (length needle) (drop i input) = needle) [0 ..< Suc (length input) - length needle]"

definition resolve_text ::
  "rel_path \<Rightarrow> bytes \<Rightarrow> nat option \<Rightarrow> bytes \<Rightarrow> bytes \<Rightarrow> edit_error + bytes" where
  "resolve_text path needle occurrence replacement input =
     (if needle = [] then Inl (AnchorNotFound path)
      else
        (let candidates = occurrences needle input;
             replace = (\<lambda>i. Inr (take i input @ replacement @ drop (i + length needle) input))
         in case occurrence of
              Some n \<Rightarrow> if n - 1 < length candidates then replace (candidates ! (n - 1)) else Inl (AnchorNotFound path)
            | None \<Rightarrow>
                (case candidates of
                   [] \<Rightarrow> Inl (AnchorNotFound path)
                 | [i] \<Rightarrow> replace i
                 | _ \<Rightarrow> Inl (Ambiguous path candidates))))"

definition resolve_edit ::
  "(bytes \<Rightarrow> state_version) \<Rightarrow> semantic_resolver \<Rightarrow> edit_operation \<Rightarrow> rel_path \<Rightarrow> bytes \<Rightarrow> state_version
    \<Rightarrow> edit_error + bytes" where
  "resolve_edit sha resolver operation path input before =
     (case eo_address operation of
        ContentAnchor expected after \<Rightarrow>
          if before \<noteq> expected then Inl (StaleContent path)
          else if sha (eo_replacement operation) \<noteq> after then Inl (ReplacementDigest path)
          else Inr (eo_replacement operation)
      | TextAnchor needle occurrence \<Rightarrow> resolve_text path needle occurrence (eo_replacement operation) input
      | Symbol index symbol identity \<Rightarrow>
          and_then (se_symbol resolver path symbol) (\<lambda>r.
            if rs_identity r \<noteq> identity then Inl (SemanticIdentityChanged path)
            else replace_ranges input path
                   [\<lparr>rr_start = rs_start r, rr_end = rs_end r, rr_replacement = eo_replacement operation\<rparr>])
      | WorkspaceEdit server revision edits \<Rightarrow>
          and_then (se_revision resolver server) (\<lambda>actual.
            if actual \<noteq> revision then Inl (StaleServerRevision server) else replace_ranges input path edits))"

section \<open>The disk\<close>

record disk =
  dk_files :: "(rel_path, bytes) omap"
  dk_stage :: "(rel_path, bytes) omap"
  dk_backup :: "(rel_path, bytes) omap"
  dk_faults :: "bool list"

type_synonym 'a disk_call = "(disk, edit_error, 'a) effect"

definition io_call :: "unit disk_call" where
  "io_call d =
     (case dk_faults d of
        [] \<Rightarrow> (Inr (), d)
      | fault # later \<Rightarrow> (if fault then Inl Edit_Io else Inr (), d\<lparr>dk_faults := later\<rparr>))"

definition read_bounded :: "rel_path \<Rightarrow> bytes disk_call" where
  "read_bounded path =
     bindE io_call (\<lambda>_ d.
       (case omap_get (dk_files d) path of
          None \<Rightarrow> (Inl Edit_Io, d)
        | Some content \<Rightarrow>
            if length content > max_file_bytes then (Inl (FileTooLarge path), d)
            else bindE io_call (\<lambda>_. ret content) d))"

text \<open>\<open>rename(path, saved)\<close>, \<open>rename(staged, path)\<close>, \<open>rename(saved, path)\<close> and \<open>remove_file(path)\<close>.\<close>

definition rename_to_backup :: "rel_path \<Rightarrow> unit disk_call" where
  "rename_to_backup path =
     bindE io_call (\<lambda>_ d.
       (case omap_get (dk_files d) path of
          None \<Rightarrow> (Inl Edit_Io, d)
        | Some content \<Rightarrow>
            (Inr (), d\<lparr>dk_files := omap_remove path (dk_files d), dk_backup := omap_insert path content (dk_backup d)\<rparr>)))"

definition rename_from_stage :: "rel_path \<Rightarrow> unit disk_call" where
  "rename_from_stage path =
     bindE io_call (\<lambda>_ d.
       (case omap_get (dk_stage d) path of
          None \<Rightarrow> (Inl Edit_Io, d)
        | Some content \<Rightarrow>
            (Inr (), d\<lparr>dk_files := omap_insert path content (dk_files d), dk_stage := omap_remove path (dk_stage d)\<rparr>)))"

definition rename_from_backup :: "rel_path \<Rightarrow> unit disk_call" where
  "rename_from_backup path =
     bindE io_call (\<lambda>_ d.
       (case omap_get (dk_backup d) path of
          None \<Rightarrow> (Inl Edit_Io, d)
        | Some content \<Rightarrow>
            (Inr (), d\<lparr>dk_files := omap_insert path content (dk_files d), dk_backup := omap_remove path (dk_backup d)\<rparr>)))"

definition remove_file :: "rel_path \<Rightarrow> unit disk_call" where
  "remove_file path =
     bindE io_call (\<lambda>_ d.
       (case omap_get (dk_files d) path of
          None \<Rightarrow> (Inl Edit_Io, d)
        | Some _ \<Rightarrow> (Inr (), d\<lparr>dk_files := omap_remove path (dk_files d)\<rparr>)))"

text \<open>\<open>let _ = ...\<close>: the error of a call is dropped.\<close>

definition ignoring :: "unit disk_call \<Rightarrow> disk \<Rightarrow> disk" where
  "ignoring m d = snd (m d)"

section \<open>Preparing\<close>

record prepared =
  pe_path :: rel_path
  pe_output :: bytes
  pe_before :: state_version
  pe_after :: state_version

text \<open>Where a path leads when links are followed: below the root, or outside it.\<close>

datatype canonical = Below rel_path | Elsewhere

definition confined :: "path_component list \<Rightarrow> edit_error + path_component list" where
  "confined path =
     (if path = [] \<or> list_ex (\<lambda>part. case part of Normal _ \<Rightarrow> False | _ \<Rightarrow> True) path
      then Inl (InvalidPath path) else Inr path)"

fun prepare_edits ::
  "(bytes \<Rightarrow> state_version) \<Rightarrow> semantic_resolver \<Rightarrow> (path_component list \<Rightarrow> edit_error + canonical)
    \<Rightarrow> edit_operation list \<Rightarrow> rel_path list \<Rightarrow> nat \<Rightarrow> prepared list disk_call" where
  "prepare_edits sha resolver canon [] seen staged = ret []"
| "prepare_edits sha resolver canon (operation # rest) seen staged =
     need (confined (eo_path operation)) (\<lambda>requested.
     need (canon requested) (\<lambda>target.
       case target of
         Elsewhere \<Rightarrow> raise (InvalidPath requested)
       | Below relative \<Rightarrow>
           if relative \<in> set seen then raise (DuplicatePath relative)
           else bindE (read_bounded relative) (\<lambda>input.
             let before = sha input
             in need (resolve_edit sha resolver operation relative input before) (\<lambda>output.
                  if staged + length output > max_transaction_bytes then raise TransactionTooLarge
                  else bindE (prepare_edits sha resolver canon rest (relative # seen) (staged + length output)) (\<lambda>others.
                    ret (\<lparr>pe_path = relative, pe_output = output, pe_before = before, pe_after = sha output\<rparr> # others))))))"

section \<open>Staging and committing\<close>

text \<open>\<open>create_dir_all\<close>, \<open>write\<close>, \<open>metadata\<close>, \<open>set_permissions\<close>.\<close>

definition write_staged :: "prepared \<Rightarrow> unit disk_call" where
  "write_staged p =
     bindE io_call (\<lambda>_ d. (Inr (), d\<lparr>dk_stage := omap_insert (pe_path p) (pe_output p) (dk_stage d)\<rparr>))"

fun stage_edits :: "prepared list \<Rightarrow> unit disk_call" where
  "stage_edits [] = ret ()"
| "stage_edits (p # ps) =
     bindE io_call (\<lambda>_.
     bindE (write_staged p) (\<lambda>_.
     bindE io_call (\<lambda>_.
     bindE io_call (\<lambda>_. stage_edits ps))))"

definition in_backup :: "rel_path \<Rightarrow> bool" where
  "in_backup path = (case path of [] \<Rightarrow> False | part # _ \<Rightarrow> part = ''backup'')"

text \<open>The directory \<open>backup\<close> is made among the staged files: a staged path that begins with that name is in its way.\<close>

definition create_backup :: "prepared list \<Rightarrow> unit disk_call" where
  "create_backup ps =
     bindE io_call (\<lambda>_.
       if list_ex (\<lambda>p. in_backup (pe_path p)) ps then raise Edit_Io else ret ())"

definition restore_saved :: "rel_path \<Rightarrow> disk \<Rightarrow> disk" where
  "restore_saved path d =
     (if omap_get (dk_backup d) path \<noteq> None then ignoring (rename_from_backup path) d else d)"

text \<open>The committed files, the latest first.\<close>

fun roll_back :: "rel_path list \<Rightarrow> disk \<Rightarrow> disk" where
  "roll_back [] d = d"
| "roll_back (path # done_paths) d =
     roll_back done_paths (ignoring (rename_from_backup path) (ignoring (remove_file path) d))"

fun commit_edits :: "prepared list \<Rightarrow> rel_path list \<Rightarrow> unit disk_call" where
  "commit_edits [] done_paths = ret ()"
| "commit_edits (p # ps) done_paths =
     bindE io_call (\<lambda>_ d.
       (case bindE (rename_to_backup (pe_path p)) (\<lambda>_. rename_from_stage (pe_path p)) d of
          (Inl e, d') \<Rightarrow> (Inl e, roll_back done_paths (restore_saved (pe_path p) d'))
        | (Inr _, d') \<Rightarrow> commit_edits ps (pe_path p # done_paths) d'))"

text \<open>The temporary directory goes when the function returns, whatever it returns.\<close>

definition drop_stage :: "disk \<Rightarrow> disk" where
  "drop_stage d = d\<lparr>dk_stage := [], dk_backup := []\<rparr>"

text \<open>\<open>tempdir_in(root)\<close>.\<close>

definition new_stage :: "unit disk_call" where
  "new_stage = bindE io_call (\<lambda>_ d. (Inr (), drop_stage d))"

definition file_edit_of :: "prepared \<Rightarrow> file_edit" where
  "file_edit_of p =
     \<lparr>fe_path = pe_path p, fe_before = pe_before p, fe_after = pe_after p, fe_undeclared_changes = []\<rparr>"

definition stage_and_commit ::
  "(bytes \<Rightarrow> state_version) \<Rightarrow> semantic_resolver \<Rightarrow> (path_component list \<Rightarrow> edit_error + canonical)
    \<Rightarrow> edit_operation list \<Rightarrow> file_edit list disk_call" where
  "stage_and_commit sha resolver canon operations =
     (if length operations > max_operations then raise TransactionTooLarge
      else bindE (prepare_edits sha resolver canon operations [] 0) (\<lambda>ps.
        bindE new_stage (\<lambda>_ d.
          (case bindE (stage_edits ps) (\<lambda>_. bindE (create_backup ps) (\<lambda>_. commit_edits ps [])) d of
             (Inl e, d') \<Rightarrow> (Inl e, drop_stage d')
           | (Inr _, d') \<Rightarrow>
               (Inr (map file_edit_of ps), drop_stage d')))))"

definition apply_unversioned ::
  "(bytes \<Rightarrow> state_version) \<Rightarrow> (path_component list \<Rightarrow> edit_error + canonical)
    \<Rightarrow> edit_operation list \<Rightarrow> file_edit list disk_call" where
  "apply_unversioned sha canon operations =
     bindE io_call (\<lambda>_. stage_and_commit sha no_semantic_resolver canon operations)"

section \<open>The version of a workspace\<close>

definition path_bytes :: "rel_path \<Rightarrow> bytes" where
  "path_bytes path = map of_char (concat (map (\<lambda>(i, part). if i = 0 then part else CHR ''/'' # part) (enumerate 0 path)))"

fun read_all :: "rel_path list \<Rightarrow> (rel_path \<times> bytes) list disk_call" where
  "read_all [] = ret []"
| "read_all (path # rest) =
     bindE (read_bounded path) (\<lambda>content. bindE (read_all rest) (\<lambda>others. ret ((path, content) # others)))"

definition workspace_digest :: "(bytes \<Rightarrow> state_version) \<Rightarrow> (rel_path \<times> bytes) list \<Rightarrow> state_version" where
  "workspace_digest sha files = sha (concat (map (\<lambda>(path, content). path_bytes path @ [0] @ sha content) files))"

text \<open>\<open>canonicalize\<close>, the walk over the tree, then every file in order.\<close>

definition workspace_version_of :: "(bytes \<Rightarrow> state_version) \<Rightarrow> state_version disk_call" where
  "workspace_version_of sha =
     bindE io_call (\<lambda>_.
     bindE io_call (\<lambda>_ d.
       bindE (read_all (map fst (dk_files d))) (\<lambda>files. ret (workspace_digest sha files)) d))"

definition apply_with_resolver ::
  "(bytes \<Rightarrow> state_version) \<Rightarrow> semantic_resolver \<Rightarrow> (path_component list \<Rightarrow> edit_error + canonical)
    \<Rightarrow> edit_transaction \<Rightarrow> file_edit list disk_call" where
  "apply_with_resolver sha resolver canon transaction =
     (if length (et_operations transaction) > max_operations then raise TransactionTooLarge
      else bindE io_call (\<lambda>_.
        bindE (workspace_version_of sha) (\<lambda>actual.
          if actual \<noteq> et_base transaction then raise (StaleBase (et_base transaction) actual)
          else stage_and_commit sha resolver canon (et_operations transaction))))"

definition apply_edits ::
  "(bytes \<Rightarrow> state_version) \<Rightarrow> (path_component list \<Rightarrow> edit_error + canonical)
    \<Rightarrow> edit_transaction \<Rightarrow> file_edit list disk_call" where
  "apply_edits sha = apply_with_resolver sha no_semantic_resolver"

end
