(* ===== verification/Edit_Laws.thy ===== *)
theory Edit_Laws
  imports Edit
begin

text \<open>
  Lemmas on the edit engine: which calls touch which part of the disk, what a prepared file is,
  what a commit leaves behind when a call fails, and how replacing ranges from the last to the first
  compares with one pass from left to right.
\<close>

section \<open>Calls that leave the disk alone\<close>

definition faults :: "disk \<Rightarrow> nat" where
  "faults d = length (filter (\<lambda>x. x) (dk_faults d))"

lemma disk_same_faults [simp]: "d\<lparr>dk_faults := dk_faults d\<rparr> = d"
  by (cases d) simp

lemma io_call_eq:
  "io_call d =
     (if dk_faults d \<noteq> [] \<and> hd (dk_faults d) then Inl Edit_Io else Inr (), d\<lparr>dk_faults := tl (dk_faults d)\<rparr>)"
  by (cases "dk_faults d") (auto simp: io_call_def)

lemma faults_tl: "faults (d\<lparr>dk_faults := tl (dk_faults d)\<rparr>) =
    faults d - (if dk_faults d \<noteq> [] \<and> hd (dk_faults d) then 1 else 0)"
  by (cases "dk_faults d") (auto simp: faults_def)

lemma faults_positive: "dk_faults d \<noteq> [] \<Longrightarrow> hd (dk_faults d) \<Longrightarrow> 0 < faults d"
  by (cases "dk_faults d") (auto simp: faults_def)

lemma faults_simps [simp]:
  "faults (dk_files_update f d) = faults d"
  "faults (dk_stage_update f d) = faults d"
  "faults (dk_backup_update f d) = faults d"
  by (simp_all add: faults_def)

text \<open>What a computation keeps of the disk, whatever it returns.\<close>

definition keeps :: "(disk \<Rightarrow> disk \<Rightarrow> bool) \<Rightarrow> 'a disk_call \<Rightarrow> bool" where
  "keeps kept m \<longleftrightarrow> (\<forall>d. kept d (snd (m d)))"

locale disk_frame =
  fixes kept :: "disk \<Rightarrow> disk \<Rightarrow> bool"
  assumes kept_refl: "kept d d"
    and kept_trans: "kept d d1 \<Longrightarrow> kept d1 d2 \<Longrightarrow> kept d d2"
    and kept_call: "kept d (d\<lparr>dk_faults := tl (dk_faults d)\<rparr>)"
begin

lemma keeps_ret: "keeps kept (ret x)"
  by (simp add: keeps_def ret_def kept_refl)

lemma keeps_raise: "keeps kept (raise e)"
  by (simp add: keeps_def raise_def kept_refl)

lemma keeps_io: "keeps kept io_call"
  by (simp add: keeps_def io_call_eq kept_call)

lemma keeps_bindE:
  assumes m: "keeps kept m" and f: "\<And>x. keeps kept (f x)"
  shows "keeps kept (bindE m f)"
  unfolding keeps_def
proof
  fix d
  obtain r d1 where 1: "m d = (r, d1)" by (cases "m d")
  then have k: "kept d d1" using m unfolding keeps_def by (metis snd_conv)
  show "kept d (snd (bindE m f d))"
  proof (cases r)
    case Inl
    then show ?thesis using k 1 by (simp add: bindE_def)
  next
    case (Inr x)
    have "kept d1 (snd (f x d1))" using f unfolding keeps_def by blast
    with k show ?thesis using 1 Inr by (simp add: bindE_def kept_trans)
  qed
qed

lemma keeps_dep: "(\<And>s. keeps kept (m s)) \<Longrightarrow> keeps kept (\<lambda>d. m d d)"
  by (simp add: keeps_def)

lemma keeps_need: "(\<And>x. r = Inr x \<Longrightarrow> keeps kept (f x)) \<Longrightarrow> keeps kept (need r f)"
  by (cases r) (auto simp: keeps_def need_def kept_refl)

lemmas keeps_rules = keeps_ret keeps_raise keeps_io keeps_bindE keeps_need

lemma keeps_read_bounded: "keeps kept (read_bounded path)"
proof -
  have "keeps kept (\<lambda>d. (case omap_get (dk_files s) path of
          None \<Rightarrow> raise Edit_Io
        | Some content \<Rightarrow>
            if length content > max_file_bytes then raise (FileTooLarge path)
            else bindE io_call (\<lambda>_. ret content)) d)" for s
    by (cases "omap_get (dk_files s) path") (auto intro!: keeps_rules)
  from keeps_dep [OF this] have "keeps kept (\<lambda>d. (case omap_get (dk_files d) path of
          None \<Rightarrow> (Inl Edit_Io, d)
        | Some content \<Rightarrow>
            if length content > max_file_bytes then (Inl (FileTooLarge path), d)
            else bindE io_call (\<lambda>_. ret content) d))"
    by (rule back_subst [of "keeps kept"]) (auto simp: fun_eq_iff raise_def split: option.splits)
  then show ?thesis
    unfolding read_bounded_def by (intro keeps_bindE keeps_io)
qed

lemma keeps_prepare: "keeps kept (prepare_edits sha resolver canon ops seen staged)"
proof (induction ops arbitrary: seen staged)
  case (Cons operation ops)
  show ?case
    by (auto intro!: keeps_rules keeps_read_bounded Cons.IH split: canonical.splits simp: Let_def)
qed (simp add: keeps_ret)

lemma keeps_read_all: "keeps kept (read_all paths)"
  by (induction paths) (auto intro!: keeps_rules keeps_read_bounded)

lemma keeps_workspace_version: "keeps kept (workspace_version_of sha)"
  unfolding workspace_version_of_def
  by (rule keeps_bindE [OF keeps_io], rule keeps_bindE [OF keeps_io], rule keeps_dep)
     (rule keeps_bindE [OF keeps_read_all keeps_ret])

lemma keeps_create_backup: "keeps kept (create_backup ps)"
  unfolding create_backup_def by (auto intro!: keeps_rules)

end

text \<open>Reading leaves everything but the calls still to come; staging leaves the files and the backup too.\<close>

definition same_disk :: "disk \<Rightarrow> disk \<Rightarrow> bool" where
  "same_disk d d' \<longleftrightarrow> dk_files d' = dk_files d \<and> dk_stage d' = dk_stage d \<and> dk_backup d' = dk_backup d \<and>
     faults d' \<le> faults d"

definition same_files :: "disk \<Rightarrow> disk \<Rightarrow> bool" where
  "same_files d d' \<longleftrightarrow> dk_files d' = dk_files d \<and> dk_backup d' = dk_backup d \<and> faults d' \<le> faults d"

lemma faults_tl_le: "faults (d\<lparr>dk_faults := tl (dk_faults d)\<rparr>) \<le> faults d"
  by (simp add: faults_tl)

interpretation reading: disk_frame same_disk
  by unfold_locales (auto simp: same_disk_def faults_tl_le)

interpretation staging: disk_frame same_files
  by unfold_locales (auto simp: same_files_def faults_tl_le)

lemma keepsD: "keeps kept m \<Longrightarrow> m d = (r, d') \<Longrightarrow> kept d d'"
  unfolding keeps_def by (metis snd_conv)

lemma keeps_write_staged: "keeps same_files (write_staged p)"
  unfolding write_staged_def
  by (rule staging.keeps_bindE [OF staging.keeps_io]) (simp add: keeps_def same_files_def)

lemma keeps_stage: "keeps same_files (stage_edits ps)"
  by (induction ps)
     (simp_all add: staging.keeps_ret staging.keeps_bindE staging.keeps_io keeps_write_staged)

section \<open>What a prepared file is\<close>

text \<open>The edit one operation makes of the files as they were.\<close>

definition edit_of ::
  "(bytes \<Rightarrow> state_version) \<Rightarrow> semantic_resolver \<Rightarrow> (path_component list \<Rightarrow> edit_error + canonical)
    \<Rightarrow> (rel_path \<Rightarrow> bytes option) \<Rightarrow> edit_operation \<Rightarrow> prepared \<Rightarrow> bool" where
  "edit_of sha resolver canon files operation p \<longleftrightarrow>
     confined (eo_path operation) = Inr (eo_path operation) \<and>
     canon (eo_path operation) = Inr (Below (pe_path p)) \<and>
     (case files (pe_path p) of
        None \<Rightarrow> False
      | Some content \<Rightarrow>
          length content \<le> max_file_bytes \<and> pe_before p = sha content \<and> pe_after p = sha (pe_output p) \<and>
          resolve_edit sha resolver operation (pe_path p) content (sha content) = Inr (pe_output p))"

definition new_files :: "prepared list \<Rightarrow> rel_path \<Rightarrow> bytes option" where
  "new_files ps = map_of (map (\<lambda>p. (pe_path p, pe_output p)) ps)"

definition output_size :: "prepared list \<Rightarrow> nat" where
  "output_size ps = sum_list (map (\<lambda>p. length (pe_output p)) ps)"

lemma new_files_simps [simp]:
  "new_files [] = Map.empty"
  "new_files (p # ps) = (new_files ps)(pe_path p \<mapsto> pe_output p)"
  by (simp_all add: new_files_def)

lemma dom_new_files: "dom (new_files ps) = pe_path ` set ps"
  by (simp add: new_files_def dom_map_of_conv_image_fst image_image)

lemma confined_Inr: "confined path = Inr path' \<Longrightarrow> path' = path"
  by (simp add: confined_def split: if_splits)

lemma read_bounded_Inr:
  assumes "read_bounded path d = (Inr content, d')"
  shows "omap_get (dk_files d) path = Some content \<and> length content \<le> max_file_bytes"
  using assms unfolding read_bounded_def
  by (auto simp: bindE_def io_call_eq ret_def not_less split: option.splits if_splits)

lemma prepare_step:
  assumes "prepare_edits sha resolver canon (operation # ops) seen staged d = (Inr ps, d')"
  obtains p qs d1 where "ps = p # qs"
    and "edit_of sha resolver canon (omap_get (dk_files d)) operation p"
    and "pe_path p \<notin> set seen" and "staged + length (pe_output p) \<le> max_transaction_bytes"
    and "dk_files d1 = dk_files d"
    and "prepare_edits sha resolver canon ops (pe_path p # seen) (staged + length (pe_output p)) d1 = (Inr qs, d')"
proof -
  from assms obtain requested target where 1: "confined (eo_path operation) = Inr requested"
    "canon requested = Inr target"
    by (auto simp: need_eq_Inr)
  then have 2: "requested = eo_path operation" by (simp add: confined_Inr)
  from assms 1 obtain relative where 3: "target = Below relative" "relative \<notin> set seen"
    by (cases target) (auto simp: raise_def split: if_splits)
  from assms 1 3 obtain input d1 out qs where 4: "read_bounded relative d = (Inr input, d1)"
    "resolve_edit sha resolver operation relative input (sha input) = Inr out"
    "staged + length out \<le> max_transaction_bytes"
    "prepare_edits sha resolver canon ops (relative # seen) (staged + length out) d1 = (Inr qs, d')"
    "ps = \<lparr>pe_path = relative, pe_output = out, pe_before = sha input, pe_after = sha out\<rparr> # qs"
    by (auto simp: bindE_eq_Inr need_eq_Inr Let_def ret_def raise_def split: if_splits)
  show ?thesis
  proof (rule that [OF 4(5)])
    show "edit_of sha resolver canon (omap_get (dk_files d)) operation
        \<lparr>pe_path = relative, pe_output = out, pe_before = sha input, pe_after = sha out\<rparr>"
      using 1 2 3 4(2) read_bounded_Inr [OF 4(1)] by (simp add: edit_of_def)
    show "dk_files d1 = dk_files d"
      using keepsD [OF reading.keeps_read_bounded 4(1)] by (simp add: same_disk_def)
  qed (use 3 4 in auto)
qed

lemma prepare_exact:
  "prepare_edits sha resolver canon ops seen staged d = (Inr ps, d') \<Longrightarrow>
    list_all2 (edit_of sha resolver canon (omap_get (dk_files d))) ops ps \<and>
    distinct (map pe_path ps) \<and> set (map pe_path ps) \<inter> set seen = {} \<and>
    (staged \<le> max_transaction_bytes \<longrightarrow> staged + output_size ps \<le> max_transaction_bytes)"
proof (induction ops arbitrary: seen staged d ps)
  case Nil
  then show ?case by (simp add: ret_def output_size_def)
next
  case (Cons operation ops)
  from Cons.prems obtain p qs d1 where p: "ps = p # qs"
    "edit_of sha resolver canon (omap_get (dk_files d)) operation p"
    "pe_path p \<notin> set seen" "staged + length (pe_output p) \<le> max_transaction_bytes"
    "dk_files d1 = dk_files d"
    "prepare_edits sha resolver canon ops (pe_path p # seen) (staged + length (pe_output p)) d1 = (Inr qs, d')"
    by (rule prepare_step)
  from Cons.IH [OF p(6)] show ?case
    using p(1-5) by (auto simp: output_size_def)
qed

section \<open>Errors of the disk\<close>

text \<open>A computation that fails only because a call did.\<close>

definition only_io :: "'a disk_call \<Rightarrow> bool" where
  "only_io m \<longleftrightarrow> (\<forall>d e. fst (m d) = Inl e \<longrightarrow> e = Edit_Io)"

lemma only_io_ret: "only_io (ret x)"
  by (simp add: only_io_def ret_def)

lemma only_io_raise: "only_io (raise Edit_Io)"
  by (simp add: only_io_def raise_def)

lemma only_io_call: "only_io io_call"
  by (simp add: only_io_def io_call_eq)

lemma only_io_bindE:
  assumes m: "only_io m" and f: "\<And>x. only_io (f x)"
  shows "only_io (bindE m f)"
  unfolding only_io_def
proof (intro allI impI)
  fix d e assume e: "fst (bindE m f d) = Inl e"
  obtain r d1 where 1: "m d = (r, d1)" by (cases "m d")
  show "e = Edit_Io"
    using e m f 1 unfolding only_io_def by (cases r) (auto simp: bindE_def dest: spec [of _ d])
qed

lemmas only_io_rules = only_io_ret only_io_raise only_io_call only_io_bindE

lemma only_io_stage: "only_io (stage_edits ps)"
proof (induction ps)
  case (Cons p ps)
  have "only_io (write_staged p)"
    unfolding write_staged_def by (rule only_io_bindE [OF only_io_call]) (simp add: only_io_def)
  with Cons.IH show ?case by (simp add: only_io_bindE only_io_call)
qed (simp add: only_io_ret)

lemma only_io_create_backup: "only_io (create_backup ps)"
  unfolding create_backup_def by (auto intro!: only_io_rules)

lemma only_io_rename_to_backup: "only_io (rename_to_backup path)"
  unfolding rename_to_backup_def by (rule only_io_bindE) (auto simp: only_io_def io_call_eq split: option.splits)

lemma only_io_rename_from_stage: "only_io (rename_from_stage path)"
  unfolding rename_from_stage_def by (rule only_io_bindE) (auto simp: only_io_def io_call_eq split: option.splits)

lemma only_io_commit: "only_io (commit_edits ps done_paths)"
proof (induction ps arbitrary: done_paths)
  case (Cons p ps)
  let ?swap = "bindE (rename_to_backup (pe_path p)) (\<lambda>_. rename_from_stage (pe_path p))"
  have swap: "only_io ?swap"
    by (intro only_io_bindE only_io_rename_to_backup only_io_rename_from_stage)
  have "only_io (\<lambda>d. case ?swap d of
          (Inl e, d') \<Rightarrow> (Inl e, roll_back done_paths (restore_saved (pe_path p) d'))
        | (Inr _, d') \<Rightarrow> commit_edits ps (pe_path p # done_paths) d')"
    unfolding only_io_def
  proof (intro allI impI)
    fix d e
    assume e: "fst (case ?swap d of
          (Inl e, d') \<Rightarrow> (Inl e, roll_back done_paths (restore_saved (pe_path p) d'))
        | (Inr _, d') \<Rightarrow> commit_edits ps (pe_path p # done_paths) d') = Inl e"
    obtain r d1 where 1: "?swap d = (r, d1)" by (cases "?swap d")
    show "e = Edit_Io"
    proof (cases r)
      case (Inl e')
      then have "fst (?swap d) = Inl e'" using 1 by simp
      then have "e' = Edit_Io" using swap unfolding only_io_def by blast
      then show ?thesis using e 1 Inl by simp
    next
      case Inr
      then show ?thesis using e 1 Cons.IH [of "pe_path p # done_paths"] by (simp add: only_io_def)
    qed
  qed
  then show ?case
    by (simp add: only_io_bindE only_io_call)
qed (simp add: only_io_ret)

section \<open>Committing\<close>

lemma staged_outputs:
  "stage_edits ps d = (Inr (), d') \<Longrightarrow> distinct (map pe_path ps) \<Longrightarrow>
    omap_get (dk_stage d') = omap_get (dk_stage d) ++ new_files ps"
proof (induction ps arbitrary: d)
  case Nil
  then show ?case by (simp add: ret_def)
next
  case (Cons p ps)
  from Cons.prems(1) obtain d4 where d4: "stage_edits ps d4 = (Inr (), d')"
    "omap_get (dk_stage d4) = (omap_get (dk_stage d))(pe_path p \<mapsto> pe_output p)"
    by (auto simp: bindE_eq_Inr write_staged_def io_call_eq split: if_splits)
  have "pe_path p \<notin> dom (new_files ps)"
    using Cons.prems(2) by (simp add: dom_new_files)
  with Cons.IH [OF d4(1)] d4(2) Cons.prems(2) show ?case
    by (auto simp: map_add_def fun_eq_iff domIff split: option.splits)
qed

text \<open>The files as they were, the edits already made and those still to make.\<close>

definition committing :: "(rel_path \<Rightarrow> bytes option) \<Rightarrow> prepared list \<Rightarrow> prepared list \<Rightarrow> disk \<Rightarrow> bool" where
  "committing files qs ps d \<longleftrightarrow>
     distinct (map pe_path (qs @ ps)) \<and>
     pe_path ` set (qs @ ps) \<subseteq> dom files \<and>
     omap_get (dk_files d) = files ++ new_files qs \<and>
     omap_get (dk_backup d) = files |` (pe_path ` set qs) \<and>
     (\<forall>p\<in>set ps. omap_get (dk_stage d) (pe_path p) = Some (pe_output p))"

lemma committing_call:
  "committing files qs ps d \<Longrightarrow> committing files qs ps (d\<lparr>dk_faults := fs\<rparr>)"
  by (simp add: committing_def)

lemma new_files_snoc:
  "pe_path p \<notin> pe_path ` set qs \<Longrightarrow> new_files (qs @ [p]) = (new_files qs)(pe_path p \<mapsto> pe_output p)"
  by (induction qs) (simp_all add: fun_upd_twist)

lemma restrict_insert_Some: "f x = Some y \<Longrightarrow> (f |` A)(x \<mapsto> y) = f |` insert x A"
  by (auto simp: restrict_map_def fun_eq_iff)

lemma committing_step:
  assumes c: "committing files qs (p # ps) d"
    and content: "omap_get (dk_files d) (pe_path p) = Some content"
  shows "committing files (qs @ [p]) ps
           (d\<lparr>dk_files := omap_insert (pe_path p) (pe_output p) (omap_remove (pe_path p) (dk_files d)),
              dk_stage := omap_remove (pe_path p) (dk_stage d),
              dk_backup := omap_insert (pe_path p) content (dk_backup d), dk_faults := fs\<rparr>)"
proof -
  from c have p: "pe_path p \<notin> pe_path ` set qs" and "pe_path p \<notin> pe_path ` set ps"
    by (simp_all add: committing_def)
  then have ps: "\<forall>q\<in>set ps. pe_path q \<noteq> pe_path p"
    by (metis imageI)
  from p have "new_files qs (pe_path p) = None"
    using dom_new_files [of qs] by (auto simp: domIff)
  with c content have "files (pe_path p) = Some content"
    by (simp add: committing_def map_add_def)
  then show ?thesis
    using c ps new_files_snoc [OF p]
    by (auto simp: committing_def restrict_insert_Some simp del: restrict_map_insert)
qed

text \<open>With no call failing any more, rolling back brings every file back.\<close>

lemma no_fault_call: "faults d = 0 \<Longrightarrow> io_call d = (Inr (), d\<lparr>dk_faults := tl (dk_faults d)\<rparr>)"
  using faults_positive [of d] by (auto simp: io_call_eq)

lemma no_fault_tl: "faults d = 0 \<Longrightarrow> faults (d\<lparr>dk_faults := tl (dk_faults d)\<rparr>) = 0"
  using faults_tl_le [of d] by simp

lemma restore_one:
  assumes "faults d = 0" and "omap_get (dk_backup d) path = Some content"
  shows "omap_get (dk_files (ignoring (rename_from_backup path) d)) = (omap_get (dk_files d))(path \<mapsto> content)"
    and "omap_get (dk_backup (ignoring (rename_from_backup path) d)) = (omap_get (dk_backup d))(path := None)"
    and "faults (ignoring (rename_from_backup path) d) = 0"
  using assms no_fault_tl [OF assms(1)]
  by (simp_all add: ignoring_def rename_from_backup_def bindE_def no_fault_call faults_def)

lemma remove_one:
  assumes "faults d = 0"
  shows "dk_backup (ignoring (remove_file path) d) = dk_backup d"
    and "omap_get (dk_files (ignoring (remove_file path) d)) = (omap_get (dk_files d))(path := None)"
    and "faults (ignoring (remove_file path) d) = 0"
  using assms no_fault_tl [OF assms(1)]
  by (cases "omap_get (dk_files d) path";
      auto simp: ignoring_def remove_file_def bindE_def no_fault_call faults_def fun_eq_iff)+

lemma roll_back_restores:
  "faults d = 0 \<Longrightarrow> distinct paths \<Longrightarrow>
    (\<forall>p\<in>set paths. omap_get (dk_backup d) p = files p \<and> files p \<noteq> None) \<Longrightarrow>
    (\<forall>p. p \<notin> set paths \<longrightarrow> omap_get (dk_files d) p = files p) \<Longrightarrow>
    omap_get (dk_files (roll_back paths d)) = files"
proof (induction paths arbitrary: d)
  case Nil
  then show ?case by (auto simp: fun_eq_iff)
next
  case (Cons path paths)
  obtain content where content: "files path = Some content" "omap_get (dk_backup d) path = Some content"
    using Cons.prems(3) by auto
  define d1 where "d1 = ignoring (remove_file path) d"
  note d1 = remove_one [OF Cons.prems(1), of path, folded d1_def]
  define d2 where "d2 = ignoring (rename_from_backup path) d1"
  have "omap_get (dk_backup d1) path = Some content" using content d1 by simp
  note d2 = restore_one [OF d1(3) this, folded d2_def]
  have "omap_get (dk_files (roll_back paths d2)) = files"
    by (rule Cons.IH [OF d2(3)]) (use Cons.prems content d1 d2(1,2) in auto)
  then show ?case by (simp add: d1_def d2_def)
qed

lemma io_call_cases:
  assumes "io_call d = (r, d')"
  shows "(r = Inr () \<and> faults d' = faults d \<or> r = Inl Edit_Io \<and> Suc (faults d') = faults d) \<and>
    d' = d\<lparr>dk_faults := dk_faults d'\<rparr>"
  using assms by (cases "dk_faults d") (auto simp: io_call_eq faults_def)

text \<open>One file is swapped, or a call failed with the file still there or in the backup.\<close>

lemma swap_cases:
  assumes c: "committing files qs (p # ps) d"
    and swap: "bindE (rename_to_backup (pe_path p)) (\<lambda>_. rename_from_stage (pe_path p)) d = (r, d')"
  shows "(r = Inr () \<and> committing files (qs @ [p]) ps d' \<and> faults d' = faults d) \<or>
    (r = Inl Edit_Io \<and> Suc (faults d') = faults d \<and>
      (committing files qs (p # ps) d' \<or>
       omap_get (dk_files d') = (files ++ new_files qs)(pe_path p := None) \<and>
       omap_get (dk_backup d') = files |` (insert (pe_path p) (pe_path ` set qs))))"
proof -
  have path: "pe_path p \<notin> pe_path ` set qs" and old: "files (pe_path p) \<noteq> None"
    using c by (auto simp: committing_def)
  have "new_files qs (pe_path p) = None"
    using path dom_new_files [of qs] by (auto simp: domIff)
  with c old obtain content where content: "omap_get (dk_files d) (pe_path p) = Some content"
    "files (pe_path p) = Some content"
    by (auto simp: committing_def map_add_def)
  obtain r1 d1 where 1: "io_call d = (r1, d1)" by (cases "io_call d")
  define d1' where "d1' = d1\<lparr>dk_files := omap_remove (pe_path p) (dk_files d1),
      dk_backup := omap_insert (pe_path p) content (dk_backup d1)\<rparr>"
  obtain r2 d2 where 2: "io_call d1' = (r2, d2)" by (cases "io_call d1'")
  note e1 = io_call_cases [OF 1] and e2 = io_call_cases [OF 2]
  have f1: "faults d1' = faults d1" by (simp add: d1'_def)
  have g1: "dk_files d1 = dk_files d" "dk_stage d1 = dk_stage d" "dk_backup d1 = dk_backup d"
    using e1 by (metis disk.select_convs disk.surjective disk.update_convs(4))+
  have g2: "dk_files d2 = dk_files d1'" "dk_stage d2 = dk_stage d1'" "dk_backup d2 = dk_backup d1'"
    using e2 by (metis disk.select_convs disk.surjective disk.update_convs(4))+
  have staged: "omap_get (dk_stage d2) (pe_path p) = Some (pe_output p)"
    using c g1 g2 by (simp add: committing_def d1'_def)
  consider (first) "r1 = Inl Edit_Io" | (second) "r1 = Inr ()" "r2 = Inl Edit_Io" | (both) "r1 = Inr ()" "r2 = Inr ()"
    using e1 e2 by blast
  then show ?thesis
  proof cases
    case first
    then have "r = Inl Edit_Io \<and> d' = d1" using swap 1 by (simp add: bindE_def rename_to_backup_def)
    then show ?thesis
      using first e1 committing_call [OF c, of "dk_faults d1"] by auto
  next
    case second
    then have "r = Inl Edit_Io \<and> d' = d2"
      using swap 1 2 content g1 by (simp add: bindE_def rename_to_backup_def rename_from_stage_def d1'_def)
    then show ?thesis
      using second e1 e2 f1 g1 g2 c content by (simp add: d1'_def committing_def restrict_insert_Some)
  next
    case both
    then have r: "r = Inr ()" "d' = d2\<lparr>dk_files := omap_insert (pe_path p) (pe_output p) (dk_files d2),
        dk_stage := omap_remove (pe_path p) (dk_stage d2)\<rparr>"
      using swap 1 2 content g1 staged
      by (simp_all add: bindE_def rename_to_backup_def rename_from_stage_def d1'_def)
    have "d' = d\<lparr>dk_files := omap_insert (pe_path p) (pe_output p) (omap_remove (pe_path p) (dk_files d)),
              dk_stage := omap_remove (pe_path p) (dk_stage d),
              dk_backup := omap_insert (pe_path p) content (dk_backup d), dk_faults := dk_faults d2\<rparr>"
      unfolding r(2) by (rule disk.equality) (simp_all add: g1 g2 d1'_def)
    then have "committing files (qs @ [p]) ps d'"
      using committing_step [OF c content(1), of "dk_faults d2"] by (simp only:)
    moreover have "faults d' = faults d"
      using both e1 e2 f1 unfolding r(2) by simp
    ultimately show ?thesis using r(1) by blast
  qed
qed

text \<open>
  A commit that succeeds puts every output in place. One that fails with no other failing call
  leaves the files as they were, or stops before a directory it cannot create with the earlier files
  already replaced.
\<close>

lemma committing_done:
  "committing files qs [] d \<Longrightarrow> omap_get (dk_files d) = files ++ new_files qs"
  by (simp add: committing_def)

lemma commit_puts_outputs:
  "commit_edits ps (map pe_path (rev qs)) d = (Inr x, d') \<Longrightarrow> committing files qs ps d \<Longrightarrow>
    omap_get (dk_files d') = files ++ new_files (qs @ ps)"
proof (induction ps arbitrary: qs d)
  case Nil
  then show ?case by (simp add: ret_def committing_done)
next
  case (Cons p ps)
  obtain r1 d1 where 1: "io_call d = (r1, d1)" by (cases "io_call d")
  with Cons.prems(1) have r1: "r1 = Inr ()" by (cases r1) (auto simp: bindE_def)
  have c: "committing files qs (p # ps) d1"
    using io_call_cases [OF 1] committing_call [OF Cons.prems(2), of "dk_faults d1"] by simp
  obtain r2 d2 where 2: "bindE (rename_to_backup (pe_path p)) (\<lambda>_. rename_from_stage (pe_path p)) d1 = (r2, d2)"
    by (cases "bindE (rename_to_backup (pe_path p)) (\<lambda>_. rename_from_stage (pe_path p)) d1")
  have r2: "r2 = Inr ()" and c2: "committing files (qs @ [p]) ps d2"
    using swap_cases [OF c 2] Cons.prems(1) 1 2 r1 by (auto simp: bindE_def)
  have "commit_edits ps (map pe_path (rev (qs @ [p]))) d2 = (Inr x, d')"
    using Cons.prems(1) 1 2 r1 r2 by (simp add: bindE_Inr)
  from Cons.IH [OF this c2] show ?case by simp
qed

lemma rolled_back:
  assumes f: "faults d = 0" and dist: "distinct (map pe_path qs)" and dom: "pe_path ` set qs \<subseteq> dom files"
    and saved: "omap_get (dk_backup d) = files |` (pe_path ` set qs)"
    and now: "omap_get (dk_files d) = files ++ new_files qs"
  shows "omap_get (dk_files (roll_back (map pe_path (rev qs)) d)) = files"
proof (rule roll_back_restores [OF f])
  show "distinct (map pe_path (rev qs))" using dist by (simp add: rev_map [symmetric])
  show "\<forall>p\<in>set (map pe_path (rev qs)). omap_get (dk_backup d) p = files p \<and> files p \<noteq> None"
    using saved dom by auto
  show "\<forall>p. p \<notin> set (map pe_path (rev qs)) \<longrightarrow> omap_get (dk_files d) p = files p"
  proof (intro allI impI)
    fix p assume "p \<notin> set (map pe_path (rev qs))"
    then have "new_files qs p = None" using dom_new_files [of qs] by (auto simp: domIff)
    then show "omap_get (dk_files d) p = files p" by (simp add: now map_add_def)
  qed
qed

lemma swap_failure_rolled_back:
  assumes c: "committing files qs (p # ps) d" and f: "faults d \<le> 1"
    and swap: "bindE (rename_to_backup (pe_path p)) (\<lambda>_. rename_from_stage (pe_path p)) d = (Inl e, d')"
  shows "omap_get (dk_files (roll_back (map pe_path (rev qs)) (restore_saved (pe_path p) d'))) = files"
proof -
  have dist: "distinct (map pe_path qs)" and dom: "pe_path ` set qs \<subseteq> dom files"
    and path: "pe_path p \<notin> pe_path ` set qs" and old: "files (pe_path p) \<noteq> None"
    using c by (auto simp: committing_def)
  from swap_cases [OF c swap] f have 0: "faults d' = 0" by auto
  from swap_cases [OF c swap] consider (kept) "committing files qs (p # ps) d'"
    | (moved) "omap_get (dk_files d') = (files ++ new_files qs)(pe_path p := None)"
        "omap_get (dk_backup d') = files |` (insert (pe_path p) (pe_path ` set qs))"
    by auto
  then show ?thesis
  proof cases
    case kept
    then have "omap_get (dk_backup d') (pe_path p) = None"
      using path by (simp add: committing_def)
    then have "restore_saved (pe_path p) d' = d'" by (simp add: restore_saved_def)
    moreover have "omap_get (dk_backup d') = files |` (pe_path ` set qs)"
      "omap_get (dk_files d') = files ++ new_files qs"
      using kept by (simp_all add: committing_def)
    ultimately show ?thesis using rolled_back [OF 0 dist dom] by simp
  next
    case moved
    from old obtain content where content: "files (pe_path p) = Some content" by auto
    then have "omap_get (dk_backup d') (pe_path p) = Some content" by (simp add: moved)
    note restored = restore_one [OF 0 this]
    have "restore_saved (pe_path p) d' = ignoring (rename_from_backup (pe_path p)) d'"
      using \<open>omap_get (dk_backup d') (pe_path p) = Some content\<close> by (simp add: restore_saved_def)
    moreover have "omap_get (dk_backup (ignoring (rename_from_backup (pe_path p)) d')) = files |` (pe_path ` set qs)"
      using path by (auto simp: restored moved fun_eq_iff restrict_map_def)
    moreover have "new_files qs (pe_path p) = None"
      using path dom_new_files [of qs] by (auto simp: domIff)
    then have "omap_get (dk_files (ignoring (rename_from_backup (pe_path p)) d')) = files ++ new_files qs"
      by (auto simp: restored moved fun_eq_iff map_add_def content split: option.splits)
    ultimately show ?thesis using rolled_back [OF restored(3) dist dom] by simp
  qed
qed

lemma commit_failure:
  "commit_edits ps (map pe_path (rev qs)) d = (Inl e, d') \<Longrightarrow> committing files qs ps d \<Longrightarrow> faults d \<le> 1 \<Longrightarrow>
    \<exists>k<length (qs @ ps). omap_get (dk_files d') = files ++ new_files (take k (qs @ ps))"
proof (induction ps arbitrary: qs d)
  case Nil
  then show ?case by (simp add: ret_def)
next
  case (Cons p ps)
  obtain r1 d1 where 1: "io_call d = (r1, d1)" by (cases "io_call d")
  have c: "committing files qs (p # ps) d1" and f1: "faults d1 \<le> 1"
    using io_call_cases [OF 1] committing_call [OF Cons.prems(2), of "dk_faults d1"] Cons.prems(3) by auto
  show ?case
  proof (cases r1)
    case Inl
    then have "d' = d1" using Cons.prems(1) 1 by (simp add: bindE_def)
    then have "omap_get (dk_files d') = files ++ new_files (take (length qs) (qs @ p # ps))"
      using c by (simp add: committing_def)
    then show ?thesis by (intro exI [of _ "length qs"]) simp
  next
    case r1: (Inr u)
    obtain r2 d2 where 2: "bindE (rename_to_backup (pe_path p)) (\<lambda>_. rename_from_stage (pe_path p)) d1 = (r2, d2)"
      by (cases "bindE (rename_to_backup (pe_path p)) (\<lambda>_. rename_from_stage (pe_path p)) d1")
    show ?thesis
    proof (cases r2)
      case (Inl e')
      then have "d' = roll_back (map pe_path (rev qs)) (restore_saved (pe_path p) d2)"
        using Cons.prems(1) 1 2 r1 by (simp add: bindE_Inr)
      then have "omap_get (dk_files d') = files"
        using swap_failure_rolled_back [OF c f1 2 [unfolded Inl]] by simp
      then show ?thesis by (intro exI [of _ 0]) simp
    next
      case (Inr v)
      then have "commit_edits ps (map pe_path (rev (qs @ [p]))) d2 = (Inl e, d')"
        using Cons.prems(1) 1 2 r1 by (simp add: bindE_Inr)
      moreover have "committing files (qs @ [p]) ps d2" "faults d2 \<le> 1"
        using swap_cases [OF c 2] Inr f1 by auto
      ultimately show ?thesis using Cons.IH by fastforce
    qed
  qed
qed

section \<open>A whole transaction\<close>

definition edits_of ::
  "(bytes \<Rightarrow> state_version) \<Rightarrow> semantic_resolver \<Rightarrow> (path_component list \<Rightarrow> edit_error + canonical)
    \<Rightarrow> (rel_path \<Rightarrow> bytes option) \<Rightarrow> edit_operation list \<Rightarrow> prepared list \<Rightarrow> bool" where
  "edits_of sha resolver canon files ops ps \<longleftrightarrow>
     list_all2 (edit_of sha resolver canon files) ops ps \<and> distinct (map pe_path ps) \<and>
     length ps \<le> max_operations \<and> output_size ps \<le> max_transaction_bytes"

lemma new_stage_cases:
  assumes "new_stage d = (r, d')"
  shows "(r = Inr () \<and> dk_files d' = dk_files d \<and> dk_stage d' = [] \<and> dk_backup d' = [] \<or>
          r = Inl Edit_Io \<and> dk_files d' = dk_files d) \<and> faults d' \<le> faults d"
proof -
  obtain r1 d1 where 1: "io_call d = (r1, d1)" by (cases "io_call d")
  then have "dk_files d1 = dk_files d" "faults d1 \<le> faults d"
    using keepsD [OF reading.keeps_io 1] by (simp_all add: same_disk_def)
  then show ?thesis
    using assms 1 io_call_cases [OF 1] by (cases r1) (auto simp: new_stage_def bindE_def drop_stage_def)
qed

definition perform :: "prepared list \<Rightarrow> unit disk_call" where
  "perform ps = bindE (stage_edits ps) (\<lambda>_. bindE (create_backup ps) (\<lambda>_. commit_edits ps []))"

lemma only_io_perform: "only_io (perform ps)"
  unfolding perform_def by (intro only_io_bindE only_io_stage only_io_create_backup only_io_commit)

lemma create_backup_Inr:
  "create_backup ps d = (Inr x, d') \<Longrightarrow> \<forall>p\<in>set ps. \<not> in_backup (pe_path p)"
  by (auto simp: create_backup_def bindE_def raise_def list_ex_iff split: prod.splits sum.splits if_splits)

text \<open>Either the files are still as they were, or the commit has begun.\<close>

lemma perform_cases:
  assumes p: "perform ps d = (r, d')"
    and e: "list_all2 (edit_of sha resolver canon (omap_get (dk_files d))) ops ps" "distinct (map pe_path ps)"
    and fresh: "dk_stage d = []" "dk_backup d = []"
  shows "(\<exists>e. r = Inl e \<and> dk_files d' = dk_files d) \<or>
    (\<exists>d2. committing (omap_get (dk_files d)) [] ps d2 \<and> commit_edits ps [] d2 = (r, d') \<and>
       faults d2 \<le> faults d \<and> (\<forall>p\<in>set ps. \<not> in_backup (pe_path p)))"
proof -
  obtain r1 d1 where 1: "stage_edits ps d = (r1, d1)" by (cases "stage_edits ps d")
  have k1: "same_files d d1" by (rule keepsD [OF keeps_stage 1])
  show ?thesis
  proof (cases r1)
    case Inl
    then show ?thesis using p 1 k1 by (auto simp: perform_def bindE_def same_files_def)
  next
    case r1: (Inr u)
    obtain r2 d2 where 2: "create_backup ps d1 = (r2, d2)" by (cases "create_backup ps d1")
    have k2: "same_disk d1 d2" by (rule keepsD [OF reading.keeps_create_backup 2])
    show ?thesis
    proof (cases r2)
      case Inl
      then show ?thesis
        using p 1 2 r1 k1 k2 by (auto simp: perform_def bindE_def same_files_def same_disk_def)
    next
      case r2: (Inr v)
      have "omap_get (dk_stage d1) = new_files ps"
        using staged_outputs [of ps d d1] 1 r1 e(2) fresh by simp
      moreover have "new_files ps (pe_path q) = Some (pe_output q)" if "q \<in> set ps" for q
        using that e(2) by (simp add: new_files_def map_of_eq_Some_iff comp_def image_iff)
          (metis (no_types, lifting))
      moreover have "pe_path ` set ps \<subseteq> dom (omap_get (dk_files d))"
        using e(1) by (auto simp: list_all2_conv_all_nth in_set_conv_nth edit_of_def domIff split: option.splits)
          (metis option.distinct(1))
      ultimately have "committing (omap_get (dk_files d)) [] ps d2"
        using k1 k2 e(2) fresh by (simp add: committing_def same_files_def same_disk_def)
      moreover have "commit_edits ps [] d2 = (r, d')"
        using p 1 2 r1 r2 by (simp add: perform_def bindE_def)
      ultimately show ?thesis
        using k1 k2 create_backup_Inr [OF 2 [unfolded r2]] by (auto simp: same_files_def same_disk_def)
    qed
  qed
qed

definition commit_of ::
  "(bytes \<Rightarrow> state_version) \<Rightarrow> semantic_resolver \<Rightarrow> (path_component list \<Rightarrow> edit_error + canonical)
    \<Rightarrow> edit_operation list \<Rightarrow> disk \<Rightarrow> prepared list \<Rightarrow> disk \<Rightarrow> (edit_error + unit) \<Rightarrow> disk \<Rightarrow> bool" where
  "commit_of sha resolver canon ops d ps d2 r d3 \<longleftrightarrow>
     edits_of sha resolver canon (omap_get (dk_files d)) ops ps \<and>
     committing (omap_get (dk_files d)) [] ps d2 \<and> commit_edits ps [] d2 = (r, d3) \<and>
     faults d2 \<le> faults d \<and> (\<forall>p\<in>set ps. \<not> in_backup (pe_path p))"

lemma stage_and_commit_cases:
  assumes "stage_and_commit sha resolver canon ops d = (r, d')"
  shows "(\<exists>e. r = Inl e \<and> dk_files d' = dk_files d) \<or>
    (\<exists>ps d2 d3. commit_of sha resolver canon ops d ps d2 (Inr ()) d3 \<and> r = Inr (map file_edit_of ps) \<and> d' = drop_stage d3) \<or>
    (\<exists>ps d2 d3. commit_of sha resolver canon ops d ps d2 (Inl Edit_Io) d3 \<and> r = Inl Edit_Io \<and> d' = drop_stage d3)"
proof (cases "length ops > max_operations")
  case True
  then show ?thesis using assms by (auto simp: stage_and_commit_def raise_def)
next
  case False
  obtain r1 d1 where 1: "prepare_edits sha resolver canon ops [] 0 d = (r1, d1)"
    by (cases "prepare_edits sha resolver canon ops [] 0 d")
  have k1: "same_disk d d1" by (rule keepsD [OF reading.keeps_prepare 1])
  show ?thesis
  proof (cases r1)
    case Inl
    then show ?thesis using assms False 1 k1 by (auto simp: stage_and_commit_def bindE_def same_disk_def)
  next
    case r1: (Inr ps)
    have e: "list_all2 (edit_of sha resolver canon (omap_get (dk_files d))) ops ps" "distinct (map pe_path ps)"
      "output_size ps \<le> max_transaction_bytes"
      using prepare_exact [OF 1 [unfolded r1]] by (simp_all add: max_transaction_bytes_def)
    then have edits: "edits_of sha resolver canon (omap_get (dk_files d)) ops ps"
      using False by (auto simp: edits_of_def dest: list_all2_lengthD)
    obtain r2 d2 where 2: "new_stage d1 = (r2, d2)" by (cases "new_stage d1")
    note n = new_stage_cases [OF 2]
    show ?thesis
    proof (cases r2)
      case Inl
      then show ?thesis
        using assms False 1 2 r1 n k1 by (auto simp: stage_and_commit_def bindE_def same_disk_def)
    next
      case r2: (Inr u)
      then have f2: "dk_files d2 = dk_files d" "dk_stage d2 = []" "dk_backup d2 = []" "faults d2 \<le> faults d"
        using n k1 by (auto simp: same_disk_def)
      obtain r3 d3 where 3: "perform ps d2 = (r3, d3)" by (cases "perform ps d2")
      have r: "(r, d') = (case r3 of Inl e \<Rightarrow> (Inl e, drop_stage d3) | Inr _ \<Rightarrow> (Inr (map file_edit_of ps), drop_stage d3))"
        using assms False 1 2 3 r1 r2 by (simp add: stage_and_commit_def bindE_def [of _ _ d] bindE_def [of _ _ d1] perform_def)
      have io: "r3 = Inl e' \<Longrightarrow> e' = Edit_Io" for e'
        using only_io_perform [of ps] 3 unfolding only_io_def by (metis fst_conv)
      from perform_cases [OF 3 e(1) [folded f2(1)] e(2) f2(2,3)] consider
        (unchanged) e' where "r3 = Inl e'" "dk_files d3 = dk_files d2"
        | (begun) d4 where "committing (omap_get (dk_files d2)) [] ps d4" "commit_edits ps [] d4 = (r3, d3)"
            "faults d4 \<le> faults d2" "\<forall>p\<in>set ps. \<not> in_backup (pe_path p)"
        by blast
      then show ?thesis
      proof cases
        case unchanged
        then show ?thesis using r f2 by (simp add: drop_stage_def)
      next
        case begun
        then have "commit_of sha resolver canon ops d ps d4 r3 d3"
          using edits f2 by (simp add: commit_of_def)
        then show ?thesis using r io by (cases r3) auto
      qed
    qed
  qed
qed

text \<open>Both ways into the engine.\<close>

lemma apply_cases:
  assumes "apply_with_resolver sha resolver canon t d = (r, d')"
  shows "(\<exists>e. r = Inl e \<and> dk_files d' = dk_files d) \<or>
    (\<exists>d1. dk_files d1 = dk_files d \<and> faults d1 \<le> faults d \<and>
       stage_and_commit sha resolver canon (et_operations t) d1 = (r, d'))"
proof (cases "length (et_operations t) > max_operations")
  case True
  then show ?thesis using assms by (auto simp: apply_with_resolver_def raise_def)
next
  case False
  obtain r1 d1 where 1: "bindE io_call (\<lambda>_. workspace_version_of sha) d = (r1, d1)"
    by (cases "bindE io_call (\<lambda>_. workspace_version_of sha) d")
  have k: "same_disk d d1"
    by (rule keepsD [where m = "bindE io_call (\<lambda>_. workspace_version_of sha)" and d = d, OF _ 1])
       (intro reading.keeps_bindE reading.keeps_io reading.keeps_workspace_version)
  have "apply_with_resolver sha resolver canon t d =
     bindE (bindE io_call (\<lambda>_. workspace_version_of sha)) (\<lambda>actual.
       if actual \<noteq> et_base t then raise (StaleBase (et_base t) actual)
       else stage_and_commit sha resolver canon (et_operations t)) d"
    using False by (auto simp: apply_with_resolver_def bindE_def split: prod.splits sum.splits)
  then show ?thesis
    using assms 1 k by (cases r1) (auto simp: bindE_def raise_def same_disk_def split: if_splits)
qed

lemma apply_unversioned_cases:
  assumes "apply_unversioned sha canon ops d = (r, d')"
  shows "(\<exists>e. r = Inl e \<and> dk_files d' = dk_files d) \<or>
    (\<exists>d1. dk_files d1 = dk_files d \<and> faults d1 \<le> faults d \<and>
       stage_and_commit sha no_semantic_resolver canon ops d1 = (r, d'))"
proof -
  obtain r1 d1 where 1: "io_call d = (r1, d1)" by (cases "io_call d")
  have "same_disk d d1" by (rule keepsD [OF reading.keeps_io 1])
  then show ?thesis
    using assms 1 by (cases r1) (auto simp: apply_unversioned_def bindE_def same_disk_def)
qed

section \<open>Replacing ranges\<close>

text \<open>The ranges in order, in one pass from left to right.\<close>

fun patch :: "nat \<Rightarrow> range_replacement list \<Rightarrow> bytes \<Rightarrow> bytes" where
  "patch pos [] input = drop pos input"
| "patch pos (e # es) input =
     drop pos (take (rr_start e) input) @ rr_replacement e @ patch (rr_end e) es input"

definition in_order :: "nat \<Rightarrow> range_replacement list \<Rightarrow> bool" where
  "in_order pos es \<longleftrightarrow>
     sorted_wrt (\<lambda>a b. rr_end a \<le> rr_start b) es \<and> (\<forall>e\<in>set es. pos \<le> rr_start e \<and> rr_start e \<le> rr_end e)"

lemma in_order_Cons:
  "in_order pos (e # es) \<longleftrightarrow> pos \<le> rr_start e \<and> rr_start e \<le> rr_end e \<and> in_order (rr_end e) es"
  unfolding in_order_def by (auto intro: order_trans)

lemma length_patch:
  assumes "in_order pos es" and "\<forall>e\<in>set es. rr_end e \<le> length input" and "pos \<le> n"
    and "\<forall>e\<in>set es. n \<le> rr_start e" and "n \<le> length input"
  shows "patch pos es input = drop pos (take n input) @ patch n es input"
proof (cases es)
  case Nil
  have "drop pos input = drop pos (take n input @ drop n input)" by simp
  also have "\<dots> = drop pos (take n input) @ drop n input"
    using assms(3,5) by (simp only: drop_append) simp
  finally show ?thesis using Nil by simp
next
  case (Cons e rest)
  then have "n \<le> rr_start e" using assms by simp
  then have "take (rr_start e) input = take n input @ drop n (take (rr_start e) input)"
    by (metis append_take_drop_id min.absorb1 take_take)
  then have "drop pos (take (rr_start e) input) = drop pos (take n input) @ drop n (take (rr_start e) input)"
    using assms(3,5) by (metis drop_append diff_is_0_eq drop0 length_take min.absorb2)
  then show ?thesis using Cons by simp
qed

text \<open>Replacing the last range first does not move the ranges before it.\<close>

lemma splices_are_patch:
  "in_order pos es \<Longrightarrow> \<forall>e\<in>set es. rr_end e \<le> length input \<Longrightarrow> pos \<le> length input \<Longrightarrow>
    foldr (\<lambda>e. splice (rr_start e) (rr_end e) (rr_replacement e)) es input = take pos input @ patch pos es input"
proof (induction es arbitrary: pos)
  case (Cons e es)
  then have o: "pos \<le> rr_start e" "rr_start e \<le> rr_end e" "in_order (rr_end e) es" "rr_end e \<le> length input"
    by (simp_all add: in_order_Cons)
  have "foldr (\<lambda>e. splice (rr_start e) (rr_end e) (rr_replacement e)) (e # es) input =
      splice (rr_start e) (rr_end e) (rr_replacement e) (take (rr_end e) input @ patch (rr_end e) es input)"
    using Cons.IH [OF o(3)] Cons.prems o(4) by simp
  also have "\<dots> = take (rr_start e) input @ rr_replacement e @ patch (rr_end e) es input"
    using o by (simp add: splice_def min.absorb1)
  also have "take (rr_start e) input = take pos input @ drop pos (take (rr_start e) input)"
    using o(1) by (metis append_take_drop_id min.absorb1 take_take)
  finally show ?case by simp
qed simp

lemma adjacent_in_order:
  assumes "sorted_wrt (\<lambda>a b. rr_start a \<le> rr_start b) es" and "\<forall>e\<in>set es. rr_start e \<le> rr_end e"
  shows "\<not> list_ex (\<lambda>(a, b). rr_end a > rr_start b) (zip es (tl es)) \<longleftrightarrow>
    sorted_wrt (\<lambda>a b. rr_end a \<le> rr_start b) es"
  using assms
proof (induction es rule: induct_list012)
  case (3 a b es)
  then show ?case by (auto simp: not_less intro: order_trans)
qed simp_all

section \<open>Anchors\<close>

text \<open>The texts before each place where a needle stands.\<close>

definition places :: "bytes \<Rightarrow> bytes \<Rightarrow> bytes set" where
  "places needle input = {before. \<exists>after. input = before @ needle @ after}"

lemma in_places_iff: "before \<in> places needle input \<longleftrightarrow>
    before = take (length before) input \<and> take (length needle) (drop (length before) input) = needle"
proof
  assume "before = take (length before) input \<and> take (length needle) (drop (length before) input) = needle"
  then have "input = before @ needle @ drop (length needle) (drop (length before) input)"
    by (metis append_take_drop_id)
  then show "before \<in> places needle input" by (auto simp: places_def)
qed (auto simp: places_def)

lemma occurrences_places:
  assumes "needle \<noteq> []"
  shows "set (occurrences needle input) = length ` places needle input"
proof (intro set_eqI iffI)
  fix i assume "i \<in> set (occurrences needle input)"
  then have i: "i \<le> length input" "take (length needle) (drop i input) = needle"
    using assms by (auto simp: occurrences_def)
  then have "take i input \<in> places needle input" by (simp add: in_places_iff min.absorb2)
  then show "i \<in> length ` places needle input" using i(1) by (force intro: rev_image_eqI)
next
  fix i assume "i \<in> length ` places needle input"
  then show "i \<in> set (occurrences needle input)" by (auto simp: occurrences_def places_def)
qed

lemma distinct_occurrences [simp]: "distinct (occurrences needle input)"
  by (simp add: occurrences_def)

lemma sorted_occurrences [simp]: "sorted (occurrences needle input)"
  unfolding occurrences_def by (simp add: sorted_wrt_filter)

lemma inj_on_places: "inj_on length (places needle input)"
  by (rule inj_onI) (metis in_places_iff)

lemma one_occurrence:
  assumes "needle \<noteq> []"
  shows "occurrences needle input = [i] \<longleftrightarrow> i \<le> length input \<and> places needle input = {take i input}"
proof
  assume "occurrences needle input = [i]"
  then have "length ` places needle input = {i}"
    using occurrences_places [OF assms, of input] by simp
  then have len: "length before = i" if "before \<in> places needle input" for before
    using that by auto
  then have "places needle input \<subseteq> {take i input}"
    using in_places_iff by fastforce
  moreover have "places needle input \<noteq> {}"
    using \<open>length ` places needle input = {i}\<close> by auto
  ultimately have "places needle input = {take i input}" by blast
  moreover from this have "i \<le> length input" using len [of "take i input"] by simp
  ultimately show "i \<le> length input \<and> places needle input = {take i input}" by simp
next
  assume p: "i \<le> length input \<and> places needle input = {take i input}"
  then have "set (occurrences needle input) = {i}"
    using occurrences_places [OF assms, of input] by (simp add: min.absorb2)
  then show "occurrences needle input = [i]"
    using distinct_occurrences [of needle input]
    by (cases "occurrences needle input" rule: remdups_adj.cases) auto
qed

end
