(* ===== verification/Edit_Properties.thy ===== *)
theory Edit_Properties
  imports Edit_Laws
begin

text \<open>
  The properties of the edit engine: what a transaction that is applied changes, that one that is
  refused changes nothing, what a failing call leaves behind, and what the anchors and ranges of one
  operation mean.
\<close>

section \<open>Helpers\<close>

lemma drop_stage_files [simp]: "dk_files (drop_stage d) = dk_files d"
  by (simp add: drop_stage_def)

lemma committed_outputs:
  assumes "commit_of sha resolver canon ops d ps d2 (Inr ()) d3"
  shows "omap_get (dk_files d3) = omap_get (dk_files d) ++ new_files ps"
  using assms commit_puts_outputs [of ps "[]" d2 "()" d3] by (simp add: commit_of_def)

lemma committed_prefix:
  assumes "commit_of sha resolver canon ops d ps d2 (Inl Edit_Io) d3" and "faults d \<le> 1"
  shows "\<exists>k<length ps. omap_get (dk_files d3) = omap_get (dk_files d) ++ new_files (take k ps)"
  using assms commit_failure [of ps "[]" d2 Edit_Io d3] by (simp add: commit_of_def)

text \<open>The two entries of the engine, \<open>apply_with_resolver\<close> and \<open>apply_unversioned\<close>.\<close>

definition applied_by ::
  "(bytes \<Rightarrow> state_version) \<Rightarrow> semantic_resolver \<Rightarrow> (path_component list \<Rightarrow> edit_error + canonical)
    \<Rightarrow> edit_transaction \<Rightarrow> disk \<Rightarrow> (edit_error + file_edit list) \<Rightarrow> disk \<Rightarrow> bool" where
  "applied_by sha resolver canon t d r d' \<longleftrightarrow>
     apply_with_resolver sha resolver canon t d = (r, d') \<or>
     resolver = no_semantic_resolver \<and> apply_unversioned sha canon (et_operations t) d = (r, d')"

lemma applied_cases:
  assumes "applied_by sha resolver canon t d r d'"
  shows "(\<exists>e. r = Inl e \<and> dk_files d' = dk_files d) \<or>
    (\<exists>d1. dk_files d1 = dk_files d \<and> faults d1 \<le> faults d \<and>
       stage_and_commit sha resolver canon (et_operations t) d1 = (r, d'))"
  using assms unfolding applied_by_def
  by (elim disjE conjE) (blast dest: apply_cases apply_unversioned_cases)+

lemma read_all_Inr:
  "read_all paths d = (Inr files, d') \<Longrightarrow>
    map fst files = paths \<and> (\<forall>(path, content)\<in>set files. omap_get (dk_files d) path = Some content)"
proof (induction paths arbitrary: d files)
  case Nil
  then show ?case by (simp add: ret_def)
next
  case (Cons path paths)
  then obtain content d1 others where 1: "read_bounded path d = (Inr content, d1)"
    "read_all paths d1 = (Inr others, d')" "files = (path, content) # others"
    by (auto simp: bindE_eq_Inr ret_def)
  have "dk_files d1 = dk_files d"
    using keepsD [OF reading.keeps_read_bounded 1(1)] by (simp add: same_disk_def)
  then show ?case
    using Cons.IH [OF 1(2)] 1(3) read_bounded_Inr [OF 1(1)] by auto
qed

lemma same_entries:
  assumes "distinct (map fst xs)" and "map fst ys = map fst xs" and "\<forall>(k, v)\<in>set ys. map_of xs k = Some v"
  shows "ys = xs"
proof (rule nth_equalityI)
  show len: "length ys = length xs" using assms(2) by (metis length_map)
  fix i assume i: "i < length ys"
  obtain k v where kv: "ys ! i = (k, v)" by (cases "ys ! i")
  have "(k, v) \<in> set ys" using i kv by (metis nth_mem)
  then have "map_of xs k = Some v" using assms(3) by auto
  moreover have "fst (xs ! i) = k"
    using assms(2) i len kv by (metis fst_conv nth_map)
  then have "map_of xs k = Some (snd (xs ! i))"
    using assms(1) i len by (metis map_of_eq_Some_iff nth_mem prod.collapse)
  ultimately show "ys ! i = xs ! i"
    using kv \<open>fst (xs ! i) = k\<close> by (metis option.inject prod.collapse)
qed

lemma applied_base:
  assumes "apply_with_resolver sha resolver canon t d = (Inr edits, d')" and "omap_ok (dk_files d)"
  shows "workspace_digest sha (dk_files d) = et_base t"
proof -
  from assms(1) obtain d1 d2 where d: "io_call d = (Inr (), d1)" "workspace_version_of sha d1 = (Inr (et_base t), d2)"
    by (auto simp: apply_with_resolver_def bindE_eq_Inr raise_def split: if_splits)
  then obtain d3 d4 files where r: "read_all (map fst (dk_files d3)) d3 = (Inr files, d4)"
    "dk_files d3 = dk_files d1" "et_base t = workspace_digest sha files"
    by (auto simp: workspace_version_of_def bindE_eq_Inr ret_def io_call_eq split: if_splits)
  have "dk_files d3 = dk_files d" using d(1) r(2) by (auto simp: io_call_eq split: if_splits)
  then have "files = dk_files d"
    using same_entries [OF omap_ok_distinct [OF assms(2)], of files] read_all_Inr [OF r(1)] by simp
  then show ?thesis using r(3) by simp
qed

section \<open>Whole transactions\<close>

text \<open>
  C28: A transaction that is applied changes exactly what its operations say: the workspace had the
  version the transaction was made for, there is one edit per operation, each operation's path leads
  to a file of its own, that file held what the operation's address asks for and now holds what the
  operation makes of it, the digests reported are those of the two contents, the bounds on operations and bytes
  hold, every other file is as it was and nothing is left of the temporary directory. No path below
  \<open>backup\<close> is ever edited.
\<close>
theorem applied_edits_are_exact:
  assumes "apply_with_resolver sha resolver canon t d = (Inr edits, d')"
  shows "\<exists>ps. edits_of sha resolver canon (omap_get (dk_files d)) (et_operations t) ps \<and>
      edits = map file_edit_of ps \<and>
      omap_get (dk_files d') = omap_get (dk_files d) ++ new_files ps \<and>
      dk_stage d' = [] \<and> dk_backup d' = [] \<and> (\<forall>p\<in>set ps. \<not> in_backup (pe_path p)) \<and>
      (omap_ok (dk_files d) \<longrightarrow> workspace_digest sha (dk_files d) = et_base t)"
proof -
  from apply_cases [OF assms] obtain d1 where d1: "dk_files d1 = dk_files d"
    "stage_and_commit sha resolver canon (et_operations t) d1 = (Inr edits, d')"
    by auto
  from stage_and_commit_cases [OF d1(2)] obtain ps d2 d3 where
    c: "commit_of sha resolver canon (et_operations t) d1 ps d2 (Inr ()) d3"
      "edits = map file_edit_of ps" "d' = drop_stage d3"
    by auto
  show ?thesis
    using committed_outputs [OF c(1)] c d1(1) applied_base [OF assms]
    by (intro exI [of _ ps]) (simp add: commit_of_def drop_stage_def)
qed

text \<open>
  C29: A transaction that is refused for any reason but a failing call to the file system changes no
  file.
\<close>
theorem refused_edits_change_nothing:
  assumes "applied_by sha resolver canon t d (Inl e) d'" and "e \<noteq> Edit_Io"
  shows "dk_files d' = dk_files d"
  using applied_cases [OF assms(1)]
proof (elim disjE exE conjE)
  fix d1 assume "dk_files d1 = dk_files d"
    and "stage_and_commit sha resolver canon (et_operations t) d1 = (Inl e, d')"
  then show ?thesis using stage_and_commit_cases [of sha resolver canon _ d1 "Inl e" d'] assms(2) by auto
qed

text \<open>
  C30: When one call to the file system fails at most, a transaction that returns an error has
  left every file as it was, or has replaced the first few of its files and no other; a transaction of one
  operation leaves every file as it was. (A call that fails while a file is moved is always
  rolled back, \<open>swap_failure_rolled_back\<close>: the prefix comes from the one call of the commit that
  creates a directory.)
\<close>
theorem one_failed_call_leaves_a_prefix:
  assumes "applied_by sha resolver canon t d (Inl e) d'" and "faults d \<le> 1"
  shows "(dk_files d' = dk_files d \<or>
      (\<exists>ps k. edits_of sha resolver canon (omap_get (dk_files d)) (et_operations t) ps \<and> k < length ps \<and>
         omap_get (dk_files d') = omap_get (dk_files d) ++ new_files (take k ps))) \<and>
    (length (et_operations t) \<le> 1 \<longrightarrow> omap_get (dk_files d') = omap_get (dk_files d))"
  using applied_cases [OF assms(1)]
proof (elim disjE exE conjE)
  fix d1 assume d1: "dk_files d1 = dk_files d" "faults d1 \<le> faults d"
    and "stage_and_commit sha resolver canon (et_operations t) d1 = (Inl e, d')"
  from stage_and_commit_cases [OF this(3)] consider "dk_files d' = dk_files d1"
    | ps d2 d3 where "commit_of sha resolver canon (et_operations t) d1 ps d2 (Inl Edit_Io) d3" "d' = drop_stage d3"
    by auto
  then show ?thesis
  proof cases
    case 1
    then show ?thesis using d1 by simp
  next
    case 2
    then have len: "length (et_operations t) = length ps"
      by (auto simp: commit_of_def edits_of_def dest: list_all2_lengthD)
    from committed_prefix [OF 2(1)] d1(2) assms(2) obtain k where k: "k < length ps"
      "omap_get (dk_files d') = omap_get (dk_files d) ++ new_files (take k ps)"
      using 2(2) d1(1) by auto
    moreover have "omap_get (dk_files d') = omap_get (dk_files d)" if "length ps \<le> 1"
    proof -
      from k(1) that have "k = 0" by linarith
      then show ?thesis using k(2) by simp
    qed
    ultimately show ?thesis using 2(1) d1(1) len by (auto simp: commit_of_def)
  qed
qed simp

section \<open>A witness for the failing call\<close>

definition sample_canon :: "path_component list \<Rightarrow> edit_error + canonical" where
  "sample_canon path = Inr (Below (map (\<lambda>part. case part of Normal s \<Rightarrow> s | _ \<Rightarrow> []) path))"

definition sample_ops :: "edit_operation list" where
  "sample_ops =
     [\<lparr>eo_path = [Normal ''a''], eo_address = TextAnchor [1] None, eo_replacement = [2]\<rparr>,
      \<lparr>eo_path = [Normal ''b''], eo_address = TextAnchor [1] None, eo_replacement = [3]\<rparr>]"

definition sample_disk :: "bool list \<Rightarrow> disk" where
  "sample_disk fs =
     \<lparr>dk_files = [([''a''], [1]), ([''b''], [1])], dk_stage = [], dk_backup = [], dk_faults = fs\<rparr>"

lemma sample_prepared:
  "prepare_edits (\<lambda>b. b) no_semantic_resolver sample_canon sample_ops [] 0
     (sample_disk (False # False # False # False # fs)) =
   (Inr [\<lparr>pe_path = [''a''], pe_output = [2], pe_before = [1], pe_after = [2]\<rparr>,
         \<lparr>pe_path = [''b''], pe_output = [3], pe_before = [1], pe_after = [3]\<rparr>], sample_disk fs)"
  by (simp add: sample_ops_def sample_disk_def sample_canon_def confined_def read_bounded_def bindE_def need_def
      io_call_def max_file_bytes_def ret_def resolve_edit_def resolve_text_def occurrences_def max_transaction_bytes_def)

text \<open>The call that fails is the 19th, which creates the directory of the second file's backup.\<close>

definition sample_faults :: "bool list" where
  "sample_faults = [False, False, False, False, False, False, False, False, False, False, False, False, False,
     False, False, False, False, False, True]"

lemma sample_run:
  "apply_unversioned (\<lambda>b. b) sample_canon sample_ops (sample_disk sample_faults) =
     (Inl Edit_Io, \<lparr>dk_files = [([''a''], [2]), ([''b''], [1])], dk_stage = [], dk_backup = [], dk_faults = []\<rparr>)"
proof -
  have "io_call (sample_disk (False # fs)) = (Inr (), sample_disk fs)" for fs
    by (simp add: sample_disk_def io_call_def)
  moreover have "length sample_ops \<le> max_operations"
    by (simp add: sample_ops_def max_operations_def)
  ultimately show ?thesis
    by (simp add: apply_unversioned_def stage_and_commit_def bindE_def sample_prepared sample_faults_def)
       (simp add: sample_disk_def new_stage_def drop_stage_def write_staged_def create_backup_def in_backup_def
         bindE_def io_call_def ret_def rename_to_backup_def rename_from_stage_def omap_remove_def)
qed

text \<open>
  One failing call can leave half a transaction behind: a run over two files whose only failing
  call is the one that creates the directory for the second file's backup returns an error with the first
  file replaced and its backup gone with the temporary directory.
\<close>
theorem one_failed_call_can_leave_half:
  "\<exists>sha canon ops d d'. faults d = 1 \<and> apply_unversioned sha canon ops d = (Inl Edit_Io, d') \<and>
     omap_get (dk_files d') [''a''] \<noteq> omap_get (dk_files d) [''a''] \<and>
     omap_get (dk_files d') [''b''] = omap_get (dk_files d) [''b''] \<and> dk_backup d' = []"
proof -
  have "faults (sample_disk sample_faults) = 1"
    by (simp add: sample_disk_def sample_faults_def faults_def)
  moreover have "omap_get [([''a''], [2]), ([''b''], [1])] [''a''] \<noteq> omap_get (dk_files (sample_disk sample_faults)) [''a'']"
    "omap_get [([''a''], [2]), ([''b''], [1])] [''b''] = omap_get (dk_files (sample_disk sample_faults)) [''b'']"
    by (simp_all add: sample_disk_def)
  ultimately show ?thesis
    using sample_run by (metis disk.select_convs(1,3))
qed

lemma sample_refused:
  "apply_unversioned (\<lambda>b. b) sample_canon [\<lparr>eo_path = [Parent_Dir], eo_address = TextAnchor [1] None, eo_replacement = []\<rparr>]
     (sample_disk []) = (Inl (InvalidPath [Parent_Dir]), sample_disk [])"
  by (simp add: apply_unversioned_def stage_and_commit_def bindE_def io_call_def sample_disk_def confined_def
      max_operations_def)

theorem refused_edits_change_nothing_witness:
  "dk_files (sample_disk []) = dk_files (sample_disk [])
    \<and> applied_by (\<lambda>b. b) no_semantic_resolver sample_canon
        \<lparr>et_base = [], et_operations = [\<lparr>eo_path = [Parent_Dir], eo_address = TextAnchor [1] None, eo_replacement = []\<rparr>]\<rparr>
        (sample_disk []) (Inl (InvalidPath [Parent_Dir])) (sample_disk [])"
proof -
  have "applied_by (\<lambda>b. b) no_semantic_resolver sample_canon
        \<lparr>et_base = [], et_operations = [\<lparr>eo_path = [Parent_Dir], eo_address = TextAnchor [1] None, eo_replacement = []\<rparr>]\<rparr>
        (sample_disk []) (Inl (InvalidPath [Parent_Dir])) (sample_disk [])"
    using sample_refused by (simp add: applied_by_def)
  with refused_edits_change_nothing [OF this] show ?thesis by simp
qed

theorem one_failed_call_leaves_a_prefix_witness:
  "\<exists>ps k. edits_of (\<lambda>b. b) no_semantic_resolver sample_canon (omap_get (dk_files (sample_disk sample_faults)))
      sample_ops ps \<and> k < length ps \<and>
    omap_get [([''a''], [2]), ([''b''], [1])] = omap_get (dk_files (sample_disk sample_faults)) ++ new_files (take k ps)"
proof -
  have "applied_by (\<lambda>b. b) no_semantic_resolver sample_canon \<lparr>et_base = [], et_operations = sample_ops\<rparr>
      (sample_disk sample_faults) (Inl Edit_Io)
      \<lparr>dk_files = [([''a''], [2]), ([''b''], [1])], dk_stage = [], dk_backup = [], dk_faults = []\<rparr>"
    using sample_run by (simp add: applied_by_def)
  moreover have "faults (sample_disk sample_faults) \<le> 1"
    by (simp add: sample_disk_def sample_faults_def faults_def)
  moreover have "[([''a''], [2]), ([''b''], [1])] \<noteq> dk_files (sample_disk sample_faults)"
    by (simp add: sample_disk_def)
  ultimately show ?thesis
    using one_failed_call_leaves_a_prefix [of "\<lambda>b. b" no_semantic_resolver sample_canon
        "\<lparr>et_base = [], et_operations = sample_ops\<rparr>" "sample_disk sample_faults" Edit_Io
        "\<lparr>dk_files = [([''a''], [2]), ([''b''], [1])], dk_stage = [], dk_backup = [], dk_faults = []\<rparr>"]
    by simp
qed

text \<open>The same operations with no call failing.\<close>

lemma sample_applied:
  "apply_with_resolver (\<lambda>b. b) no_semantic_resolver sample_canon
     \<lparr>et_base = [97, 0, 1, 98, 0, 1], et_operations = sample_ops\<rparr> (sample_disk []) =
     (Inr [\<lparr>fe_path = [''a''], fe_before = [1], fe_after = [2], fe_undeclared_changes = []\<rparr>,
           \<lparr>fe_path = [''b''], fe_before = [1], fe_after = [3], fe_undeclared_changes = []\<rparr>],
      \<lparr>dk_files = [([''a''], [2]), ([''b''], [3])], dk_stage = [], dk_backup = [], dk_faults = []\<rparr>)"
proof -
  have io: "io_call (sample_disk []) = (Inr (), sample_disk [])"
    by (simp add: sample_disk_def io_call_def)
  have version: "workspace_version_of (\<lambda>b. b) (sample_disk []) = (Inr [97, 0, 1, 98, 0, 1], sample_disk [])"
    by (simp add: workspace_version_of_def bindE_def io_call_def sample_disk_def read_bounded_def max_file_bytes_def
        ret_def workspace_digest_def path_bytes_def of_char_def)
  have "io_call (sample_disk fs) = (Inr (), sample_disk fs)" if "fs = []" for fs
    using that io by simp
  have prep: "prepare_edits (\<lambda>b. b) no_semantic_resolver sample_canon sample_ops [] 0 (sample_disk []) =
   (Inr [\<lparr>pe_path = [''a''], pe_output = [2], pe_before = [1], pe_after = [2]\<rparr>,
         \<lparr>pe_path = [''b''], pe_output = [3], pe_before = [1], pe_after = [3]\<rparr>], sample_disk [])"
    by (simp add: sample_ops_def sample_disk_def sample_canon_def confined_def read_bounded_def bindE_def need_def
      io_call_def max_file_bytes_def ret_def resolve_edit_def resolve_text_def occurrences_def max_transaction_bytes_def)
  have "length sample_ops \<le> max_operations"
    by (simp add: sample_ops_def max_operations_def)
  then show ?thesis
    by (simp add: apply_with_resolver_def stage_and_commit_def bindE_def io version prep)
       (simp add: sample_disk_def new_stage_def drop_stage_def write_staged_def create_backup_def in_backup_def
         bindE_def io_call_def ret_def rename_to_backup_def rename_from_stage_def omap_remove_def file_edit_of_def)
qed

theorem applied_edits_are_exact_witness:
  "\<exists>ps. edits_of (\<lambda>b. b) no_semantic_resolver sample_canon (omap_get (dk_files (sample_disk []))) sample_ops ps \<and>
     omap_get [([''a''], [2]), ([''b''], [3])] = omap_get (dk_files (sample_disk [])) ++ new_files ps"
  using applied_edits_are_exact [OF sample_applied] by auto

section \<open>One operation\<close>

text \<open>
  C31: The ranges of one operation, replaced from the last to the first, give what one pass from left to
  right gives: the text between the ranges is kept and each range becomes its replacement. A
  range that is reversed or ends past the file is refused, and so are two that overlap, wherever they stand in
  the list.
\<close>
theorem ranges_patch_left_to_right:
  "replace_ranges input path edits =
     (let es = sort_key rr_start edits in
      if edits = [] \<or> list_ex (\<lambda>e. rr_start e > rr_end e \<or> rr_end e > length input) edits then Inl (InvalidRange path)
      else if \<not> sorted_wrt (\<lambda>a b. rr_end a \<le> rr_start b) es then Inl (OverlappingRanges path)
      else Inr (patch 0 es input))"
proof -
  let ?es = "sort_key rr_start edits"
  consider (bad) "edits = [] \<or> (\<exists>e\<in>set edits. rr_start e > rr_end e \<or> rr_end e > length input)"
    | (good) "edits \<noteq> []" "\<forall>e\<in>set edits. rr_start e \<le> rr_end e \<and> rr_end e \<le> length input"
    by (meson not_less)
  then show ?thesis
  proof cases
    case bad
    then show ?thesis by (auto simp: replace_ranges_def list_ex_iff Let_def)
  next
    case good
    have "sorted_wrt (\<lambda>a b. rr_start a \<le> rr_start b) ?es"
      using sorted_sort_key [of rr_start edits] by (simp add: sorted_wrt_map)
    moreover have "\<forall>e\<in>set ?es. rr_start e \<le> rr_end e" using good by simp
    ultimately have adj: "\<not> list_ex (\<lambda>(a, b). rr_end a > rr_start b) (zip ?es (tl ?es)) \<longleftrightarrow>
        sorted_wrt (\<lambda>a b. rr_end a \<le> rr_start b) ?es"
      by (rule adjacent_in_order)
    have "in_order 0 ?es" if "sorted_wrt (\<lambda>a b. rr_end a \<le> rr_start b) ?es"
      using that good by (simp add: in_order_def)
    then have "fold (\<lambda>e. splice (rr_start e) (rr_end e) (rr_replacement e)) (rev ?es) input = patch 0 ?es input"
      if "sorted_wrt (\<lambda>a b. rr_end a \<le> rr_start b) ?es"
      using splices_are_patch [of 0 ?es input] that good by (simp add: foldr_conv_fold)
    moreover have "\<not> list_ex (\<lambda>e. rr_start e > rr_end e \<or> rr_end e > length input) ?es"
      "\<not> list_ex (\<lambda>e. rr_start e > rr_end e \<or> rr_end e > length input) edits"
      using good by (auto simp: list_ex_iff)
    ultimately show ?thesis
      using good adj by (auto simp: replace_ranges_def Let_def)
  qed
qed

text \<open>
  A text anchor without an occurrence replaces the needle where it stands once: the edit succeeds
  exactly when the needle is not empty and there is one place in the file where it stands, and
  then gives the text before it, the replacement and the text after it. It is reported as ambiguous exactly when there
  are several places, with the offset of each in ascending order.
\<close>
theorem anchors_name_one_place:
  "(resolve_text path needle None new input = Inr out \<longleftrightarrow>
      needle \<noteq> [] \<and> (\<exists>before after. places needle input = {before} \<and>
         input = before @ needle @ after \<and> out = before @ new @ after)) \<and>
   (resolve_text path needle None new input = Inl (Ambiguous path offsets) \<longleftrightarrow>
      needle \<noteq> [] \<and> card (places needle input) > 1 \<and>
      offsets = sorted_list_of_set (length ` places needle input))"
proof (cases "needle = []")
  case True
  then show ?thesis by (simp add: resolve_text_def)
next
  case False
  note one = one_occurrence [OF False, of input]
  have sorted: "occurrences needle input = sorted_list_of_set (length ` places needle input)"
    using occurrences_places [OF False, of input]
    by (metis distinct_occurrences sorted_occurrences sorted_list_of_set.idem_if_sorted_distinct)
  have card: "length (occurrences needle input) = card (places needle input)"
    using occurrences_places [OF False, of input]
    by (metis card_image distinct_card distinct_occurrences inj_on_places)
  consider (none) "occurrences needle input = []" | (single) i where "occurrences needle input = [i]"
    | (many) i j rest where "occurrences needle input = i # j # rest"
    by (cases "occurrences needle input" rule: remdups_adj.cases) auto
  then show ?thesis
  proof cases
    case none
    then have "places needle input = {}"
      using occurrences_places [OF False, of input] by simp
    then show ?thesis using none by (simp add: resolve_text_def)
  next
    case single
    then have p: "i \<le> length input" "places needle input = {take i input}" using one by simp_all
    then have "take i input \<in> places needle input" by simp
    then obtain tail where tail: "input = take i input @ needle @ tail" by (auto simp: places_def)
    then have "tail = drop (i + length needle) input"
      using p(1) by (metis append_assoc append_eq_conv_conj length_append length_take min.absorb2)
    with tail have at: "input = take i input @ needle @ drop (i + length needle) input" by simp
    have unique: "after = drop (i + length needle) input" if "input = take i input @ needle @ after" for after
      using that at by (metis same_append_eq)
    have e: "(\<exists>before after. places needle input = {before} \<and> input = before @ needle @ after \<and>
        out = before @ new @ after) \<longleftrightarrow> out = take i input @ new @ drop (i + length needle) input"
    proof
      assume "\<exists>before after. places needle input = {before} \<and> input = before @ needle @ after \<and> out = before @ new @ after"
      then obtain before after where b: "places needle input = {before}" "input = before @ needle @ after"
        "out = before @ new @ after"
        by blast
      then have "before = take i input" using p(2) by simp
      then show "out = take i input @ new @ drop (i + length needle) input"
        using b(2,3) unique [of after] by simp
    qed (use p(2) at in blast)
    have r: "resolve_text path needle None new input = Inr (take i input @ new @ drop (i + length needle) input)"
      using False single by (simp add: resolve_text_def)
    have c: "card (places needle input) = 1" using p(2) by simp
    define result where "result = take i input @ new @ drop (i + length needle) input"
    show ?thesis
      unfolding e r c result_def [symmetric] using False by auto
  next
    case many
    then have many': "card (places needle input) > 1" using card by simp
    then have one: "(\<exists>before after. places needle input = {before} \<and> input = before @ needle @ after \<and>
        out = before @ new @ after) \<longleftrightarrow> False"
      by (metis card_1_singleton_iff less_irrefl One_nat_def)
    have r: "resolve_text path needle None new input = Inl (Ambiguous path (occurrences needle input))"
      using False many by (simp add: resolve_text_def)
    show ?thesis
      unfolding one r using False many' sorted by auto
  qed
qed

end
