(* ===== verification/Patch.thy ===== *)
theory Patch
  imports Operation Utf8 Strings Decimal
begin

text \<open>
  The patch dialect: \<^verbatim>\<open>crates/arsy-code/src/agent/patch.rs\<close>, with the errors of the workspace it writes
  to (\<^verbatim>\<open>crates/arsy-code/src/resource.rs\<close>). Texts are UTF-8 bytes. The operations of the workspace, which
  confine every path through the cap-std crate, are a parameter over a state of their own.
\<close>

section \<open>Lines of a text\<close>

abbreviation line_feed :: char where
  "line_feed \<equiv> CHR 0x0A"

definition drop_return :: "string \<Rightarrow> string" where
  "drop_return line = (if line \<noteq> [] \<and> List.last line = CHR 0x0D then butlast line else line)"

lemma rest_of_dropWhile: "dropWhile P s = c # rest \<Longrightarrow> length rest < length s"
  using length_dropWhile_le [of P s] by simp

text \<open>\<open>str::lines\<close>: a line ends with a line feed, which goes with a carriage return before it.\<close>

function text_lines :: "string \<Rightarrow> string list" where
  "text_lines s =
     (if s = [] then []
      else case dropWhile (\<lambda>c. c \<noteq> line_feed) s of
             [] \<Rightarrow> [s]
           | _ # rest \<Rightarrow> drop_return (takeWhile (\<lambda>c. c \<noteq> line_feed) s) # text_lines rest)"
  by pat_completeness auto
termination
  by (relation "measure length") (auto dest: rest_of_dropWhile)

declare text_lines.simps [simp del]

text \<open>\<open>String::from_utf8\<close> accepts what the Unicode standard calls well formed.\<close>

definition trail_byte :: "nat \<Rightarrow> bool" where
  "trail_byte b \<longleftrightarrow> 128 \<le> b \<and> b \<le> 191"

fun utf8_valid :: "nat list \<Rightarrow> bool" where
  "utf8_valid [] \<longleftrightarrow> True"
| "utf8_valid (b # bs) \<longleftrightarrow>
     (if b < 128 then utf8_valid bs
      else if 194 \<le> b \<and> b \<le> 223 then (case bs of c # r \<Rightarrow> trail_byte c \<and> utf8_valid r | _ \<Rightarrow> False)
      else if 224 \<le> b \<and> b \<le> 239 then
        (case bs of
           c # d # r \<Rightarrow>
             trail_byte c \<and> trail_byte d \<and> (b = 224 \<longrightarrow> 160 \<le> c) \<and> (b = 237 \<longrightarrow> c \<le> 159) \<and> utf8_valid r
         | _ \<Rightarrow> False)
      else if 240 \<le> b \<and> b \<le> 244 then
        (case bs of
           c # d # e # r \<Rightarrow>
             trail_byte c \<and> trail_byte d \<and> trail_byte e \<and> (b = 240 \<longrightarrow> 144 \<le> c) \<and> (b = 244 \<longrightarrow> c \<le> 143) \<and> utf8_valid r
         | _ \<Rightarrow> False)
      else False)"

section \<open>Patches\<close>

definition max_patched_file_bytes :: nat where
  "max_patched_file_bytes = 8388608"

record hunk =
  hk_pattern :: "string list"
  hk_replacement :: "string list"
  hk_at_end :: bool

datatype patch_change =
  Add_File string string
| Delete_File string
| Update_File string "string option" "hunk list"

definition change_path :: "patch_change \<Rightarrow> string" where
  "change_path c = (case c of Add_File path _ \<Rightarrow> path | Delete_File path \<Rightarrow> path | Update_File path _ _ \<Rightarrow> path)"

record patch_result =
  pr_changed :: "string list"
  pr_summary :: "string list"

section \<open>Parsing\<close>

definition strip_prefix :: "string \<Rightarrow> string \<Rightarrow> string option" where
  "strip_prefix p s = (if starts_with p s then Some (drop (length p) s) else None)"

fun take_body :: "string list \<Rightarrow> string \<times> string list" where
  "take_body [] = ([], [])"
| "take_body (line # rest) =
     (if starts_with ''+'' line
      then (let (body, remaining) = take_body rest in (drop 1 line @ [line_feed] @ body, remaining))
      else ([], line # rest))"

definition empty_hunk :: hunk where
  "empty_hunk = \<lparr>hk_pattern = [], hk_replacement = [], hk_at_end = False\<rparr>"

definition on_last :: "('a \<Rightarrow> 'a) \<Rightarrow> 'a list \<Rightarrow> 'a list" where
  "on_last f xs = (if xs = [] then [] else butlast xs @ [f (List.last xs)])"

definition hunk_line :: "string \<Rightarrow> hunk \<Rightarrow> hunk option" where
  "hunk_line line h =
     (case line of
        [] \<Rightarrow> Some (h\<lparr>hk_pattern := hk_pattern h @ [[]], hk_replacement := hk_replacement h @ [[]]\<rparr>)
      | c # txt \<Rightarrow>
          if c = CHR ''+'' then Some (h\<lparr>hk_replacement := hk_replacement h @ [txt]\<rparr>)
          else if c = CHR ''-'' then Some (h\<lparr>hk_pattern := hk_pattern h @ [txt]\<rparr>)
          else if c = CHR '' ''
          then Some (h\<lparr>hk_pattern := hk_pattern h @ [txt], hk_replacement := hk_replacement h @ [txt]\<rparr>)
          else None)"

fun parse_hunks :: "hunk list \<Rightarrow> string list \<Rightarrow> string + (hunk list \<times> string list)" where
  "parse_hunks hunks [] = Inr (hunks, [])"
| "parse_hunks hunks (line # rest) =
     (if starts_with ''*** '' line \<and> trim line \<noteq> ''*** End of File'' then Inr (hunks, line # rest)
      else if trim line = ''*** End of File''
      then parse_hunks (on_last (\<lambda>h. h\<lparr>hk_at_end := True\<rparr>) hunks) rest
      else if starts_with ''@@'' line then parse_hunks (hunks @ [empty_hunk]) rest
      else
        (let opened = (if hunks = [] then [empty_hunk] else hunks)
         in case hunk_line line (List.last opened) of
              None \<Rightarrow> Inl (''`'' @ line @ ''` is not a patch line'')
            | Some h \<Rightarrow> parse_hunks (butlast opened @ [h]) rest))"

lemma length_take_body: "take_body lines = (body, rest) \<Longrightarrow> length rest \<le> length lines"
  by (induction lines arbitrary: body) (auto split: if_splits prod.splits)

lemma length_parse_hunks: "parse_hunks hunks lines = Inr (hs, rest) \<Longrightarrow> length rest \<le> length lines"
proof (induction lines arbitrary: hunks)
  case (Cons line lines)
  then show ?case
    by (auto split: if_splits option.splits simp: Let_def intro: le_SucI)
qed simp

text \<open>A line \<open>*** Move to: \<close> right after the header of an update.\<close>

definition take_move :: "string list \<Rightarrow> string option \<times> string list" where
  "take_move rest =
     (case rest of
        [] \<Rightarrow> (None, rest)
      | following # remaining \<Rightarrow>
          (case strip_prefix ''*** Move to: '' following of
             Some destination \<Rightarrow> (Some (trim destination), remaining)
           | None \<Rightarrow> (None, rest)))"

lemma length_take_move: "take_move lines = (moved, rest) \<Longrightarrow> length rest \<le> length lines"
  by (auto simp: take_move_def split: list.splits option.splits)

function parse_changes :: "patch_change list \<Rightarrow> string list \<Rightarrow> string + patch_change list" where
  "parse_changes changes [] = Inl ''the patch is missing `*** End Patch`''"
| "parse_changes changes (line # rest) =
     (if trim line = ''*** End Patch'' then Inr changes
      else case strip_prefix ''*** Add File: '' line of
        Some path \<Rightarrow>
          (case take_body rest of (body, remaining) \<Rightarrow> parse_changes (changes @ [Add_File (trim path) body]) remaining)
      | None \<Rightarrow>
          (case strip_prefix ''*** Delete File: '' line of
             Some path \<Rightarrow> parse_changes (changes @ [Delete_File (trim path)]) rest
           | None \<Rightarrow>
               (case strip_prefix ''*** Update File: '' line of
                  Some path \<Rightarrow>
                    (case take_move rest of
                       (moved, body) \<Rightarrow>
                         (case parse_hunks [] body of
                            Inl e \<Rightarrow> Inl e
                          | Inr (hunks, remaining) \<Rightarrow>
                              if list_all (\<lambda>h. hk_pattern h = [] \<and> hk_replacement h = []) hunks
                              then Inl (''the update of '' @ trim path @ '' has no changes'')
                              else parse_changes (changes @ [Update_File (trim path) moved hunks]) remaining))
                | None \<Rightarrow>
                    if trim line \<noteq> [] then Inl (''`'' @ line @ ''` is not a patch header'')
                    else parse_changes changes rest)))"
  by pat_completeness auto
termination
  by (relation "measure (\<lambda>(changes, lines). length lines)")
     (fastforce dest: length_take_body [OF sym] length_take_body length_take_move [OF sym] length_take_move
        length_parse_hunks simp: less_Suc_eq_le)+

declare parse_changes.simps [simp del]

definition parse_patch :: "string \<Rightarrow> string + patch_change list" where
  "parse_patch patch =
     (case text_lines patch of
        [] \<Rightarrow> Inl ''a patch starts with `*** Begin Patch`''
      | line # rest \<Rightarrow>
          if trim line = ''*** Begin Patch'' then parse_changes [] rest
          else Inl ''a patch starts with `*** Begin Patch`'')"

section \<open>Matching and rewriting\<close>

definition comparisons :: "(string \<Rightarrow> string \<Rightarrow> bool) list" where
  "comparisons = [\<lambda>a b. a = b, \<lambda>a b. trim_end a = trim_end b, \<lambda>a b. trim a = trim b]"

definition matches_at :: "(string \<Rightarrow> string \<Rightarrow> bool) \<Rightarrow> string list \<Rightarrow> string list \<Rightarrow> nat \<Rightarrow> bool" where
  "matches_at same lines pattern at \<longleftrightarrow> list_all2 same (take (length pattern) (drop at lines)) pattern"

fun seek_with ::
  "(string \<Rightarrow> string \<Rightarrow> bool) list \<Rightarrow> nat list \<Rightarrow> string list \<Rightarrow> string list \<Rightarrow> nat option" where
  "seek_with [] candidates lines pattern = None"
| "seek_with (same # sames) candidates lines pattern =
     (case find (matches_at same lines pattern) candidates of
        Some at \<Rightarrow> Some at
      | None \<Rightarrow> seek_with sames candidates lines pattern)"

definition seek :: "string list \<Rightarrow> string list \<Rightarrow> nat \<Rightarrow> bool \<Rightarrow> nat option" where
  "seek lines pattern start at_end =
     (if pattern = [] then Some (if at_end then length lines else start)
      else if length pattern > length lines then None
      else
        (let tail = length lines - length pattern
         in seek_with comparisons ((if at_end then [tail] else []) @ [start..<Suc tail]) lines pattern))"

text \<open>The line that shares the longest trimmed prefix, the last of several.\<close>

definition shared_chars :: "string \<Rightarrow> string \<Rightarrow> nat" where
  "shared_chars a b = length (takeWhile (\<lambda>(x, y). x = y) (zip (utf8_chars a) (utf8_chars b)))"

definition nearest :: "string list \<Rightarrow> string \<Rightarrow> (nat \<times> string) option" where
  "nearest lines wanted =
     (if trim wanted = [] then None
      else
        (case filter (\<lambda>(shared, _). shared > 0)
                (map (\<lambda>(i, line). (shared_chars (trim line) (trim wanted), i, line)) (enumerate 0 lines)) of
           [] \<Rightarrow> None
         | first # others \<Rightarrow>
             (case fold (\<lambda>x best. if fst best \<le> fst x then x else best) others first of
                (_, i, line) \<Rightarrow> Some (i + 1, line))))"

definition no_match :: "string list \<Rightarrow> string list \<Rightarrow> string" where
  "no_match lines pattern =
     (let wanted = (case pattern of [] \<Rightarrow> [] | line # _ \<Rightarrow> line)
      in case nearest lines wanted of
           Some (n, txt) \<Rightarrow>
             ''no line matched the context near `'' @ wanted @ ''`; the closest is line '' @ print_nat n @
             '': `'' @ txt @ ''`''
         | None \<Rightarrow> ''no line matched the context near `'' @ wanted @ ''`'')"

fun apply_hunks :: "string list \<Rightarrow> nat \<Rightarrow> hunk list \<Rightarrow> string + string list" where
  "apply_hunks lines cursor [] = Inr lines"
| "apply_hunks lines cursor (h # hunks) =
     (case seek lines (hk_pattern h) cursor (hk_at_end h) of
        None \<Rightarrow> Inl (no_match lines (hk_pattern h))
      | Some at \<Rightarrow>
          apply_hunks (take at lines @ hk_replacement h @ drop (at + length (hk_pattern h)) lines)
            (at + length (hk_replacement h)) hunks)"

definition update :: "string \<Rightarrow> hunk list \<Rightarrow> string + string" where
  "update current hunks =
     (let trailing = (current \<noteq> [] \<and> List.last current = line_feed)
      in case apply_hunks (text_lines current) 0 hunks of
           Inl e \<Rightarrow> Inl e
         | Inr lines \<Rightarrow>
             (let out = join_with [line_feed] lines
              in Inr (if trailing \<and> out \<noteq> [] then out @ [line_feed] else out)))"

section \<open>Applying a patch to a workspace\<close>

datatype resolve_error =
  Outside_Workspace
| Empty_Path
| Non_Utf8
| Git_Metadata
| Already_Exists
| Symlinked string
| Resolve_Io string
| Resolve_Resource string

definition resolve_error_text :: "resolve_error \<Rightarrow> string" where
  "resolve_error_text e =
     (case e of
        Outside_Workspace \<Rightarrow> ''path escapes the workspace''
      | Empty_Path \<Rightarrow> ''path must name a workspace file''
      | Git_Metadata \<Rightarrow> ''Git administration is not editable through file tools''
      | Non_Utf8 \<Rightarrow> ''canonical workspace path is not UTF-8''
      | Already_Exists \<Rightarrow> ''a file already exists at that path''
      | Symlinked real \<Rightarrow> ''that path resolves through a symlink to '' @ real @ ''; name that path instead''
      | Resolve_Io message \<Rightarrow> message
      | Resolve_Resource message \<Rightarrow> message)"

text \<open>The workspace operations a patch uses, over a state of the workspace's own.\<close>

record 'w workspace =
  ws_read :: "string \<Rightarrow> nat \<Rightarrow> ('w, resolve_error, string) effect"
  ws_write :: "string \<Rightarrow> string \<Rightarrow> ('w, resolve_error, unit) effect"
  ws_create_new :: "string \<Rightarrow> string \<Rightarrow> ('w, resolve_error, unit) effect"
  ws_remove :: "string \<Rightarrow> ('w, resolve_error, unit) effect"

definition file_error :: "string \<Rightarrow> resolve_error \<Rightarrow> operation_error" where
  "file_error path error =
     (case error of
        Outside_Workspace \<Rightarrow> Schema (path @ '' is outside the workspace'')
      | Empty_Path \<Rightarrow> Schema (path @ '' is outside the workspace'')
      | Already_Exists \<Rightarrow> Schema (path @ '' already exists; use *** Update File'')
      | other \<Rightarrow> Execution (path @ '': '' @ resolve_error_text other))"

definition map_err :: "('e \<Rightarrow> 'f) \<Rightarrow> ('s, 'e, 'a) effect \<Rightarrow> ('s, 'f, 'a) effect" where
  "map_err f m s = (case m s of (Inl e, s') \<Rightarrow> (Inl (f e), s') | (Inr x, s') \<Rightarrow> (Inr x, s'))"

text \<open>What a change adds to the paths reported as changed besides its own, and its description.\<close>

definition apply_change :: "'w workspace \<Rightarrow> patch_change \<Rightarrow> ('w, operation_error, string list \<times> string) effect" where
  "apply_change ws change =
     (case change of
        Add_File path body \<Rightarrow>
          bindE (map_err (file_error path) (ws_create_new ws path body)) (\<lambda>_. ret ([], ''added '' @ path))
      | Delete_File path \<Rightarrow>
          bindE (map_err (file_error path) (ws_remove ws path)) (\<lambda>_. ret ([], ''deleted '' @ path))
      | Update_File path moved hunks \<Rightarrow>
          bindE (map_err (file_error path) (ws_read ws path max_patched_file_bytes)) (\<lambda>current.
          if \<not> utf8_valid (map of_char current) then raise (Schema (path @ '' is not UTF-8 text''))
          else
            (case update current hunks of
               Inl e \<Rightarrow> raise (Schema (path @ '': '' @ e))
             | Inr updated \<Rightarrow>
                 (case moved of
                    Some destination \<Rightarrow>
                      bindE (map_err (file_error destination) (ws_write ws destination updated)) (\<lambda>_.
                      bindE (map_err (file_error path) (ws_remove ws path)) (\<lambda>_.
                      ret ([destination], ''updated '' @ path @ '' and moved it to '' @ destination)))
                  | None \<Rightarrow>
                      bindE (map_err (file_error path) (ws_write ws path updated)) (\<lambda>_.
                      ret ([], ''updated '' @ path))))))"

text \<open>\<open>Display for OperationError\<close>; the requirement of the case a patch never meets is a parameter.\<close>

definition operation_error_text :: "(capability_requirement \<Rightarrow> string) \<Rightarrow> operation_error \<Rightarrow> string" where
  "operation_error_text requirement_text e =
     (case e of
        Unregistered kind \<Rightarrow> ''no executor for operation '' @ kind
      | Schema message \<Rightarrow> ''invalid operation input: '' @ message
      | Ungranted requirement \<Rightarrow> requirement_text requirement
      | Execution message \<Rightarrow> message)"

definition partial_error ::
  "(capability_requirement \<Rightarrow> string) \<Rightarrow> operation_error \<Rightarrow> patch_result \<Rightarrow> operation_error" where
  "partial_error requirement_text error result =
     (if pr_summary result = [] then error
      else
        (let applied = join_with ''; '' (pr_summary result);
             message = operation_error_text requirement_text error @ [line_feed, line_feed] @
               ''The rest of the patch was not applied, but these changes '' @
               ''were already made and are on disk: '' @ applied @ ''. Re-read those files '' @
               ''before sending another patch.''
         in case error of Schema _ \<Rightarrow> Schema message | _ \<Rightarrow> Execution message))"

fun apply_changes ::
  "(capability_requirement \<Rightarrow> string) \<Rightarrow> 'w workspace \<Rightarrow> patch_change list \<Rightarrow> patch_result
    \<Rightarrow> ('w, operation_error, patch_result) effect" where
  "apply_changes requirement_text ws [] result = ret result"
| "apply_changes requirement_text ws (change # changes) result =
     (\<lambda>w. case apply_change ws change w of
        (Inl error, w') \<Rightarrow> (Inl (partial_error requirement_text error result), w')
      | (Inr (extra, described), w') \<Rightarrow>
          apply_changes requirement_text ws changes
            \<lparr>pr_changed = pr_changed result @ extra @ [change_path change],
             pr_summary = pr_summary result @ [described]\<rparr> w')"

definition apply_patch ::
  "(capability_requirement \<Rightarrow> string) \<Rightarrow> 'w workspace \<Rightarrow> string \<Rightarrow> ('w, operation_error, patch_result) effect" where
  "apply_patch requirement_text ws patch =
     (case parse_patch patch of
        Inl e \<Rightarrow> raise (Schema e)
      | Inr changes \<Rightarrow> apply_changes requirement_text ws changes \<lparr>pr_changed = [], pr_summary = []\<rparr>)"

end
