(* ===== verification/Patch_Properties.thy ===== *)
theory Patch_Properties
  imports Patch
begin

text \<open>
  The properties of the patch dialect: what a list of hunks makes of a file, and that the parser reads
  back every patch written in the dialect.
\<close>

section \<open>What a list of hunks does\<close>

text \<open>Texts between, before and after the places the hunks apply to.\<close>

fun weave :: "'a list list \<Rightarrow> 'a list list \<Rightarrow> 'a list" where
  "weave (gap # gaps) (piece # pieces) = gap @ piece @ weave gaps pieces"
| "weave [gap] [] = gap"
| "weave _ _ = []"

lemma matches_at_length: "matches_at same lines pattern at \<Longrightarrow> length (take (length pattern) (drop at lines)) = length pattern"
  unfolding matches_at_def by (rule list_all2_lengthD)

lemma seek_with_Some:
  "seek_with sames candidates lines pattern = Some at \<Longrightarrow>
    at \<in> set candidates \<and> (\<exists>same\<in>set sames. matches_at same lines pattern at)"
  by (induction sames) (auto split: option.splits dest: find_SomeD)

lemma seek_Some:
  assumes "seek lines pattern start False = Some at" and "start \<le> length lines"
  shows "start \<le> at \<and> at + length pattern \<le> length lines \<and>
    (\<exists>same\<in>set comparisons. list_all2 same (take (length pattern) (drop at lines)) pattern)"
proof (cases "pattern = []")
  case True
  have "(\<lambda>a b. a = b) \<in> set comparisons" by (simp add: comparisons_def)
  then show ?thesis using assms True by (auto simp: seek_def)
next
  case False
  with assms(1) have "length pattern \<le> length lines"
    "seek_with comparisons [start..<Suc (length lines - length pattern)] lines pattern = Some at"
    by (auto simp: seek_def Let_def split: if_splits)
  with seek_with_Some [OF this(2)] show ?thesis by (auto simp: matches_at_def)
qed

text \<open>The first exact match is taken whenever there is one, before any looser one.\<close>

lemma seek_prefers_exact:
  assumes "start \<le> at" and "at + length pattern \<le> length lines" and "pattern \<noteq> []"
    and "take (length pattern) (drop at lines) = pattern"
    and "\<forall>i. start \<le> i \<and> i < at \<longrightarrow> take (length pattern) (drop i lines) \<noteq> pattern"
  shows "seek lines pattern start False = Some at"
proof -
  let ?c = "[start..<Suc (length lines - length pattern)]"
  have "matches_at (\<lambda>a b. a = b) lines pattern i \<longleftrightarrow> take (length pattern) (drop i lines) = pattern" for i
    by (simp add: matches_at_def list.rel_eq)
  moreover have "at - start < length ?c" "?c ! (at - start) = at"
    using assms(1,2) by (auto simp del: upt_Suc)
  moreover have "?c ! j = start + j" if "j < at - start" for j
    using that assms(1,2) by (simp del: upt_Suc)
  ultimately have "find (matches_at (\<lambda>a b. a = b) lines pattern) ?c = Some at"
    using assms(4,5) by (auto simp: find_Some_iff simp del: upt_Suc intro!: exI [of _ "at - start"])
  then show ?thesis
    using assms(2,3) by (simp add: seek_def Let_def comparisons_def del: upt_Suc)
qed

lemma apply_hunks_weave:
  assumes "apply_hunks lines cursor hunks = Inr out" and "cursor \<le> length lines" and "\<forall>h\<in>set hunks. \<not> hk_at_end h"
  shows "\<exists>gaps olds. length gaps = Suc (length hunks) \<and>
    list_all2 (\<lambda>old h. \<exists>same\<in>set comparisons. list_all2 same old (hk_pattern h)) olds hunks \<and>
    drop cursor lines = weave gaps olds \<and>
    out = take cursor lines @ weave gaps (map hk_replacement hunks)"
  using assms
proof (induction hunks arbitrary: lines cursor)
  case Nil
  then show ?case by (intro exI [of _ "[drop cursor lines]"] exI [of _ "[]"]) simp
next
  case (Cons h hunks)
  from Cons.prems(1,3) obtain at where at: "seek lines (hk_pattern h) cursor False = Some at"
    and rest: "apply_hunks (take at lines @ hk_replacement h @ drop (at + length (hk_pattern h)) lines)
        (at + length (hk_replacement h)) hunks = Inr out"
    by (auto split: option.splits)
  from seek_Some [OF at Cons.prems(2)] have s: "cursor \<le> at" "at + length (hk_pattern h) \<le> length lines"
    "\<exists>same\<in>set comparisons. list_all2 same (take (length (hk_pattern h)) (drop at lines)) (hk_pattern h)"
    by simp_all
  let ?old = "take (length (hk_pattern h)) (drop at lines)"
  let ?lines = "take at lines @ hk_replacement h @ drop (at + length (hk_pattern h)) lines"
  have len: "at + length (hk_replacement h) \<le> length ?lines" using s(2) by simp
  from Cons.IH [OF rest len] Cons.prems(3) obtain gaps olds where g: "length gaps = Suc (length hunks)"
    "list_all2 (\<lambda>old h. \<exists>same\<in>set comparisons. list_all2 same old (hk_pattern h)) olds hunks"
    "drop (at + length (hk_replacement h)) ?lines = weave gaps olds"
    "out = take (at + length (hk_replacement h)) ?lines @ weave gaps (map hk_replacement hunks)"
    by auto
  have "weave gaps olds = drop (at + length (hk_pattern h)) lines"
    using g(3) s(2) by simp
  moreover have "drop cursor lines = drop cursor (take at lines) @ ?old @ drop (at + length (hk_pattern h)) lines"
    using s(1,2) by (metis (no_types, lifting) add.commute append_take_drop_id drop_append drop_drop
        diff_is_0_eq' drop0 length_take min.absorb2 add_leD1)
  moreover have "out = take cursor lines @ drop cursor (take at lines) @ hk_replacement h @
      weave gaps (map hk_replacement hunks)"
  proof -
    have "take at lines = take cursor lines @ drop cursor (take at lines)"
      using s(1) by (metis append_take_drop_id min.absorb1 take_take)
    moreover have "out = take at lines @ hk_replacement h @ weave gaps (map hk_replacement hunks)"
      using g(4) s(2) by simp
    ultimately show ?thesis by (metis append_assoc)
  qed
  ultimately show ?case
    using g(1,2) s(3) by (intro exI [of _ "drop cursor (take at lines) # gaps"] exI [of _ "?old # olds"]) simp
qed


section \<open>Reading back a patch\<close>

subsection \<open>Lines\<close>

text \<open>A line that \<open>str::lines\<close> gives back as it is.\<close>

definition clean :: "string \<Rightarrow> bool" where
  "clean line \<longleftrightarrow> line_feed \<notin> set line \<and> (line = [] \<or> List.last line \<noteq> CHR 0x0D)"

definition as_text :: "string list \<Rightarrow> string" where
  "as_text lines = concat (map (\<lambda>line. line @ [line_feed]) lines)"

lemma as_text_simps [simp]:
  "as_text [] = []"
  "as_text (line # lines) = line @ line_feed # as_text lines"
  by (simp_all add: as_text_def)

lemma text_lines_Nil [simp]: "text_lines [] = []"
  by (simp add: text_lines.simps)

lemma text_lines_Cons:
  assumes "line_feed \<notin> set line"
  shows "text_lines (line @ line_feed # rest) = drop_return line # text_lines rest"
proof -
  have "takeWhile (\<lambda>c. c \<noteq> line_feed) (line @ line_feed # rest) = line"
    "dropWhile (\<lambda>c. c \<noteq> line_feed) (line @ line_feed # rest) = line_feed # rest"
    using assms by (induction line) auto
  then show ?thesis by (subst text_lines.simps) simp
qed

lemma text_lines_as_text: "\<forall>line\<in>set lines. clean line \<Longrightarrow> text_lines (as_text lines) = lines"
proof (induction lines)
  case (Cons line lines)
  then show ?case by (auto simp: clean_def text_lines_Cons drop_return_def)
qed simp

subsection \<open>Trimming a line that starts with a visible character\<close>

lemma strip_by_drop: "\<exists>k. strip_by w n s = drop k s"
proof (induction n arbitrary: s)
  case 0
  show ?case by (intro exI [of _ 0]) simp
next
  case (Suc n)
  let ?k = "w (map of_char s)"
  from Suc.IH [of "drop ?k s"] obtain j where "strip_by w n (drop ?k s) = drop (j + ?k) s"
    by (auto simp: add.commute)
  then show ?case by (cases "?k = 0") (auto simp: Let_def intro: exI [of _ 0])
qed

lemma trim_take:
  assumes "ws_prefix (map of_char s) = 0"
  shows "\<exists>n. trim s = take n s"
proof -
  have "trim_start s = s"
    using assms by (cases s) (simp_all add: trim_start_def Let_def)
  moreover obtain k where "strip_by ws_suffix (length s) (rev s) = drop k (rev s)"
    using strip_by_drop by blast
  ultimately have "trim s = take (length s - k) s"
    by (simp add: trim_def trim_end_def rev_drop)
  then show ?thesis by blast
qed

text \<open>Such a line cannot trim to a marker that differs in one of the first characters of both.\<close>

lemma trim_differs:
  assumes "ws_prefix (map of_char s) = 0" and "i < length t" and "i < length s" and "t ! i \<noteq> s ! i"
  shows "trim s \<noteq> t"
proof
  obtain n where n: "trim s = take n s" using trim_take [OF assms(1)] by blast
  assume "trim s = t"
  then have "t = take n s" using n by simp
  then have "i < n" "t ! i = s ! i" using assms(2,3) by auto
  with assms(4) show False by simp
qed

lemma strip_prefix_append [simp]: "strip_prefix p (p @ s) = Some s"
  by (simp add: strip_prefix_def)

subsection \<open>Writing a patch\<close>

definition end_marker :: string where
  "end_marker = ''*** End of File''"

definition print_hunk :: "hunk \<Rightarrow> string list" where
  "print_hunk h =
     ''@@'' # map (\<lambda>line. CHR ''-'' # line) (hk_pattern h) @ map (\<lambda>line. CHR ''+'' # line) (hk_replacement h) @
     (if hk_at_end h then [end_marker] else [])"

definition print_change :: "patch_change \<Rightarrow> string list" where
  "print_change c =
     (case c of
        Add_File path body \<Rightarrow> (''*** Add File: '' @ path) # map (\<lambda>line. CHR ''+'' # line) (text_lines body)
      | Delete_File path \<Rightarrow> [''*** Delete File: '' @ path]
      | Update_File path moved hunks \<Rightarrow>
          (''*** Update File: '' @ path) #
          (case moved of None \<Rightarrow> [] | Some destination \<Rightarrow> [''*** Move to: '' @ destination]) @
          concat (map print_hunk hunks))"

definition print_patch :: "patch_change list \<Rightarrow> string" where
  "print_patch changes = as_text (''*** Begin Patch'' # concat (map print_change changes) @ [''*** End Patch''])"

text \<open>The paths and lines the dialect can carry.\<close>

definition printable_path :: "string \<Rightarrow> bool" where
  "printable_path path \<longleftrightarrow> clean path \<and> trim path = path"

definition printable_hunk :: "hunk \<Rightarrow> bool" where
  "printable_hunk h \<longleftrightarrow> list_all clean (hk_pattern h) \<and> list_all clean (hk_replacement h)"

definition printable :: "patch_change \<Rightarrow> bool" where
  "printable c =
     (case c of
        Add_File path body \<Rightarrow>
          printable_path path \<and> list_all clean (text_lines body) \<and> as_text (text_lines body) = body
      | Delete_File path \<Rightarrow> printable_path path
      | Update_File path moved hunks \<Rightarrow>
          printable_path path \<and> (case moved of None \<Rightarrow> True | Some destination \<Rightarrow> printable_path destination) \<and>
          list_all printable_hunk hunks \<and>
          \<not> list_all (\<lambda>h. hk_pattern h = [] \<and> hk_replacement h = []) hunks)"

subsection \<open>Reading it back\<close>

lemma visible_start:
  "ws_prefix (map of_char (CHR ''*'' # s)) = 0"
  "ws_prefix (map of_char (CHR ''@'' # s)) = 0"
  "ws_prefix (map of_char (CHR ''+'' # s)) = 0"
  "ws_prefix (map of_char (CHR ''-'' # s)) = 0"
  by (simp_all add: of_char_def)

lemma body_line_not_marker:
  "trim (CHR ''+'' # s) \<noteq> end_marker" "trim (CHR ''-'' # s) \<noteq> end_marker" "trim ''@@'' \<noteq> end_marker"
  by (rule trim_differs [where i = 0]; simp add: end_marker_def of_char_def)+

lemma trim_markers: "trim end_marker = end_marker" "trim ''*** End Patch'' = ''*** End Patch''"
    "trim ''*** Begin Patch'' = ''*** Begin Patch''"
  unfolding end_marker_def by code_simp+

lemma parse_removed:
  "parse_hunks (acc @ [h]) (map (\<lambda>line. CHR ''-'' # line) ps @ rest) =
     parse_hunks (acc @ [h\<lparr>hk_pattern := hk_pattern h @ ps\<rparr>]) rest"
proof (induction ps arbitrary: h)
  case (Cons p ps)
  then show ?case
    using body_line_not_marker(2) [of p]
    by (simp add: starts_with_def hunk_line_def Let_def end_marker_def)
qed simp

lemma parse_added:
  "parse_hunks (acc @ [h]) (map (\<lambda>line. CHR ''+'' # line) rs @ rest) =
     parse_hunks (acc @ [h\<lparr>hk_replacement := hk_replacement h @ rs\<rparr>]) rest"
proof (induction rs arbitrary: h)
  case (Cons r rs)
  then show ?case
    using body_line_not_marker(1) [of r]
    by (simp add: starts_with_def hunk_line_def Let_def end_marker_def)
qed simp

lemma parse_print_hunk: "parse_hunks acc (print_hunk h @ rest) = parse_hunks (acc @ [h]) rest"
proof -
  have at_end: "parse_hunks (acc @ [h']) (end_marker # rest) = parse_hunks (acc @ [h'\<lparr>hk_at_end := True\<rparr>]) rest" for h'
    using trim_markers(1) by (simp add: on_last_def end_marker_def)
  have "parse_hunks acc (print_hunk h @ rest) =
      parse_hunks (acc @ [empty_hunk]) (map (\<lambda>line. CHR ''-'' # line) (hk_pattern h) @
        map (\<lambda>line. CHR ''+'' # line) (hk_replacement h) @ (if hk_at_end h then [end_marker] else []) @ rest)"
    using body_line_not_marker(3) by (simp add: print_hunk_def starts_with_def end_marker_def)
  also have "\<dots> = parse_hunks (acc @ [h]) rest"
    by (cases h; cases "hk_at_end h")
       (simp_all add: parse_removed parse_added empty_hunk_def at_end del: parse_hunks.simps)
  finally show ?thesis .
qed

lemma parse_print_hunks: "parse_hunks acc (concat (map print_hunk hs) @ rest) = parse_hunks (acc @ hs) rest"
  by (induction hs arbitrary: acc) (simp_all add: parse_print_hunk)

text \<open>What follows the lines of a change: the header of the next, or the end.\<close>

definition at_header :: "string list \<Rightarrow> bool" where
  "at_header lines =
     (case lines of [] \<Rightarrow> False | line # _ \<Rightarrow> starts_with ''*** '' line \<and> trim line \<noteq> end_marker)"

lemma header_lines:
  "at_header ((''*** Add File: '' @ path) # rest)" "at_header ((''*** Delete File: '' @ path) # rest)"
  "at_header ((''*** Update File: '' @ path) # rest)"
  by (simp_all add: at_header_def starts_with_def)
     (rule trim_differs [where i = 4]; simp add: end_marker_def of_char_def)+

lemma end_line: "at_header (''*** End Patch'' # rest)"
  by (simp add: at_header_def starts_with_def trim_markers(2)) (simp add: end_marker_def)

lemma not_end_patch:
  "trim (''*** Add File: '' @ path) \<noteq> ''*** End Patch''" "trim (''*** Delete File: '' @ path) \<noteq> ''*** End Patch''"
  "trim (''*** Update File: '' @ path) \<noteq> ''*** End Patch''"
  by (rule trim_differs [where i = 4]; simp add: of_char_def)+

lemma at_header_print: "at_header (concat (map print_change cs) @ [''*** End Patch''])"
proof (cases cs)
  case Nil
  then show ?thesis using end_line by simp
next
  case (Cons c cs')
  then show ?thesis using header_lines by (cases c) (simp_all add: print_change_def)
qed

lemma take_body_print:
  "at_header rest \<Longrightarrow> take_body (map (\<lambda>line. CHR ''+'' # line) body @ rest) = (as_text body, rest)"
proof (induction body)
  case Nil
  then have "\<not> starts_with ''+'' (hd rest)" and "rest \<noteq> []"
    by (cases rest; cases "hd rest"; simp add: at_header_def starts_with_def)+
  then show ?case by (cases rest) simp_all
next
  case (Cons line body)
  then show ?case by (simp add: starts_with_def)
qed

lemma parse_hunks_stop: "at_header rest \<Longrightarrow> parse_hunks hs rest = Inr (hs, rest)"
  by (cases rest) (simp_all add: at_header_def end_marker_def)

lemma take_move_print:
  "take_move ((case moved of None \<Rightarrow> [] | Some destination \<Rightarrow> [''*** Move to: '' @ destination]) @
       concat (map print_hunk hs) @ rest) = (map_option trim moved, concat (map print_hunk hs) @ rest)"
  if "hs \<noteq> []"
proof (cases moved)
  case None
  from that obtain h hs' where "hs = h # hs'" by (cases hs) auto
  then show ?thesis
    using None by (simp add: take_move_def print_hunk_def strip_prefix_def starts_with_def)
next
  case (Some destination)
  then show ?thesis by (simp add: take_move_def strip_prefix_def starts_with_def)
qed

lemma parse_print_change:
  assumes "printable c" and "at_header rest"
  shows "parse_changes acc (print_change c @ rest) = parse_changes (acc @ [c]) rest"
proof (cases c)
  case (Add_File path body)
  then show ?thesis
    using assms not_end_patch(1) [of path] take_body_print [OF assms(2), of "text_lines body"]
    by (simp add: print_change_def printable_def printable_path_def parse_changes.simps(2) strip_prefix_def
        starts_with_def)
next
  case (Delete_File path)
  then show ?thesis
    using assms not_end_patch(2) [of path]
    by (simp add: print_change_def printable_def printable_path_def parse_changes.simps(2) strip_prefix_def
        starts_with_def)
next
  case (Update_File path moved hunks)
  then have "hunks \<noteq> []" "map_option trim moved = moved" "trim path = path"
    using assms(1) by (auto simp: printable_def printable_path_def split: option.splits)
  then show ?thesis
    using Update_File assms not_end_patch(3) [of path]
      take_move_print [of hunks moved rest] parse_print_hunks [of "[]" hunks rest] parse_hunks_stop [OF assms(2)]
    by (simp add: print_change_def printable_def parse_changes.simps(2) strip_prefix_def starts_with_def)
qed

lemma parse_print_changes:
  "list_all printable cs \<Longrightarrow> parse_changes acc (concat (map print_change cs) @ [''*** End Patch'']) = Inr (acc @ cs)"
proof (induction cs arbitrary: acc)
  case Nil
  then show ?case using trim_markers(2) by (simp add: parse_changes.simps(2))
next
  case (Cons c cs)
  then show ?case using at_header_print [of cs] by (simp add: parse_print_change)
qed

lemma clean_Cons: "clean line \<Longrightarrow> c \<noteq> line_feed \<Longrightarrow> c \<noteq> CHR 0x0D \<Longrightarrow> clean (c # line)"
  by (auto simp: clean_def)

lemma clean_print_hunk: "printable_hunk h \<Longrightarrow> line \<in> set (print_hunk h) \<Longrightarrow> clean line"
  by (auto simp: print_hunk_def printable_hunk_def list_all_iff end_marker_def clean_def split: if_splits)

lemma clean_print_change: "printable c \<Longrightarrow> line \<in> set (print_change c) \<Longrightarrow> clean line"
  by (cases c)
     (auto simp: printable_def print_change_def printable_path_def list_all_iff clean_def [of "_ # _"]
       split: option.splits dest: clean_print_hunk, auto simp: clean_def)


section \<open>Samples\<close>

definition swap_hunk :: "string \<Rightarrow> string \<Rightarrow> bool \<Rightarrow> hunk" where
  "swap_hunk old new at_end = \<lparr>hk_pattern = [old], hk_replacement = [new], hk_at_end = at_end\<rparr>"

definition sample_changes :: "patch_change list" where
  "sample_changes =
     [Add_File ''a'' (''x'' @ [line_feed]), Delete_File ''b'',
      Update_File ''c'' (Some ''d'') [swap_hunk ''y'' ''z'' True]]"


lemma sample_update:
  "update (''a'' @ [line_feed] @ ''b'') [swap_hunk ''a'' ''c'' False] = Inr (''c'' @ [line_feed] @ ''b'')"
  unfolding swap_hunk_def by code_simp


text \<open>A hunk anchored at the end of the file is matched inside what an earlier hunk put there.\<close>

lemma anchored_hunk_rewrites_earlier_hunk:
  "update (''a'' @ [line_feed]) [swap_hunk ''a'' ''b'' False, swap_hunk ''b'' ''c'' True] = Inr (''c'' @ [line_feed])"
  "isl (update (''a'' @ [line_feed]) [swap_hunk ''a'' ''b'' False, swap_hunk ''b'' ''c'' False])"
  unfolding swap_hunk_def by code_simp+

text \<open>A line of a file with DOS line ends that no hunk names loses its carriage return.\<close>

lemma update_drops_carriage_returns:
  "update (''a'' @ [CHR 0x0D, line_feed] @ ''b'' @ [CHR 0x0D, line_feed]) [swap_hunk ''b'' ''c'' False] =
     Inr (''a'' @ [line_feed] @ ''c'' @ [line_feed])"
  unfolding swap_hunk_def by code_simp

end
