(* ===== verification/Command_Risk.thy ===== *)
theory Command_Risk
  imports Safety Utf8
begin

text \<open>
  What a shell command does, as far as Auto mode needs to know:
  \<^verbatim>\<open>crates/arsy-code/src/agent/command_risk.rs\<close>. A command is the list of its characters, each as its
  UTF-8 bytes; paths are those of Unix.
\<close>

section \<open>Reading a command line\<close>

datatype risk_token = Risk_Word string | Risk_Op string | Risk_Redirect

record lexer =
  lx_tokens :: "risk_token list"
  lx_word :: string
  lx_in_word :: bool

definition new_lexer :: lexer where
  "new_lexer = \<lparr>lx_tokens = [], lx_word = [], lx_in_word = False\<rparr>"

definition substitution :: string where
  "substitution = ''command substitution cannot be reviewed''"

definition unterminated :: string where
  "unterminated = ''an unterminated quote cannot be reviewed''"

definition lexer_push :: "string \<Rightarrow> lexer \<Rightarrow> lexer" where
  "lexer_push c lx = lx\<lparr>lx_word := lx_word lx @ c, lx_in_word := True\<rparr>"

definition lexer_end :: "lexer \<Rightarrow> lexer" where
  "lexer_end lx =
     (if lx_in_word lx
      then \<lparr>lx_tokens = lx_tokens lx @ [Risk_Word (lx_word lx)], lx_word = [], lx_in_word = False\<rparr>
      else lx)"

definition lexer_op :: "string \<Rightarrow> lexer \<Rightarrow> lexer" where
  "lexer_op operator lx = (let lx' = lexer_end lx in lx'\<lparr>lx_tokens := lx_tokens lx' @ [Risk_Op operator]\<rparr>)"

text \<open>\<open>next_if_eq\<close>.\<close>

definition next_if_eq :: "string \<Rightarrow> string list \<Rightarrow> string list option" where
  "next_if_eq c chars = (case chars of [] \<Rightarrow> None | d # rest \<Rightarrow> if d = c then Some rest else None)"

fun quoted :: "string \<Rightarrow> string list \<Rightarrow> string \<Rightarrow> string + (string list \<times> string)" where
  "quoted q [] word = Inl unterminated"
| "quoted q (c # chars) word =
     (if c = q then Inr (chars, word)
      else if q = ''\"'' \<and> c = ''`'' then Inl substitution
      else if q = ''\"'' \<and> c = ''$'' \<and> next_if_eq ''('' chars \<noteq> None then Inl substitution
      else if q = ''\"'' \<and> c = [CHR 0x5C]
      then (case chars of [] \<Rightarrow> Inl unterminated | d # rest \<Rightarrow> quoted q rest (word @ d))
      else quoted q chars (word @ c))"

definition ampersand :: "string list \<Rightarrow> lexer \<Rightarrow> string list \<times> lexer" where
  "ampersand chars lx =
     (case next_if_eq ''&'' chars of
        Some rest \<Rightarrow> (rest, lexer_op ''&&'' lx)
      | None \<Rightarrow>
          (case next_if_eq ''>'' chars of
             Some rest \<Rightarrow> (rest, (lexer_end lx)\<lparr>lx_tokens := lx_tokens (lexer_end lx) @ [Risk_Redirect]\<rparr>)
           | None \<Rightarrow> (chars, lexer_op ''&'' lx)))"

definition pipe :: "string list \<Rightarrow> lexer \<Rightarrow> string list \<times> lexer" where
  "pipe chars lx =
     (case next_if_eq ''|'' chars of
        Some rest \<Rightarrow> (rest, lexer_op ''||'' lx)
      | None \<Rightarrow> (chars, lexer_op ''|'' lx))"

definition is_digit :: "char \<Rightarrow> bool" where
  "is_digit c \<longleftrightarrow> 48 \<le> (of_char c :: nat) \<and> (of_char c :: nat) \<le> 57"

definition redirect :: "string list \<Rightarrow> lexer \<Rightarrow> string list \<times> lexer" where
  "redirect chars lx0 =
     (let lx = (if lx_in_word lx0 \<and> list_all is_digit (lx_word lx0)
                then lx0\<lparr>lx_word := [], lx_in_word := False\<rparr> else lx0)
      in case next_if_eq ''&'' chars of
           Some rest \<Rightarrow> (rest, lx)
         | None \<Rightarrow>
             (let rest = (case next_if_eq ''>'' chars of Some rest \<Rightarrow> rest | None \<Rightarrow> chars)
              in (rest, (lexer_end lx)\<lparr>lx_tokens := lx_tokens (lexer_end lx) @ [Risk_Redirect]\<rparr>)))"

definition is_whitespace :: "string \<Rightarrow> bool" where
  "is_whitespace c \<longleftrightarrow> c \<noteq> [] \<and> ws_prefix (map of_char c) = length c"

lemma quoted_length: "quoted q chars word = Inr (rest, word') \<Longrightarrow> length rest < length chars"
  by (induction q chars word rule: quoted.induct) (auto split: if_splits list.splits)

lemma next_if_eq_Some: "next_if_eq c chars = Some rest \<longleftrightarrow> chars = c # rest"
  by (auto simp: next_if_eq_def split: list.splits)

lemma ampersand_length: "length (fst (ampersand chars lx)) \<le> length chars"
  by (auto simp: ampersand_def next_if_eq_Some split: option.splits)

lemma pipe_length: "length (fst (pipe chars lx)) \<le> length chars"
  by (auto simp: pipe_def next_if_eq_Some split: option.splits)

lemma redirect_length: "length (fst (redirect chars lx)) \<le> length chars"
  by (auto simp: redirect_def next_if_eq_Some Let_def split: option.splits)

text \<open>One turn of the loop: a character, and what the lexer and the remaining characters become.\<close>

definition lex_step :: "string \<Rightarrow> string list \<Rightarrow> lexer \<Rightarrow> string + (string list \<times> lexer)" where
  "lex_step c chars lx =
     (if c = [CHR 0x27] \<or> c = ''\"''
      then (case quoted c chars (lx_word lx) of
              Inl e \<Rightarrow> Inl e
            | Inr (rest, word) \<Rightarrow> Inr (rest, lx\<lparr>lx_word := word, lx_in_word := True\<rparr>))
      else if c = ''`'' then Inl substitution
      else if c = ''$'' \<and> next_if_eq ''('' chars \<noteq> None then Inl substitution
      else if c = [CHR 0x5C]
      then (case chars of [] \<Rightarrow> Inr ([], lx) | d # rest \<Rightarrow> Inr (rest, lexer_push d lx))
      else if c = [CHR 0x0A] \<or> c = '';'' then Inr (chars, lexer_op '';'' lx)
      else if c = ''&'' then Inr (ampersand chars lx)
      else if c = ''|'' then Inr (pipe chars lx)
      else if c = ''>'' then Inr (redirect chars lx)
      else if c = ''<'' \<or> is_whitespace c then Inr (chars, lexer_end lx)
      else Inr (chars, lexer_push c lx))"

lemma lex_step_length:
  assumes "lex_step c chars lx = Inr (rest, lx')"
  shows "length rest \<le> length chars"
  using assms ampersand_length [of chars lx] pipe_length [of chars lx] redirect_length [of chars lx]
  by (auto simp: lex_step_def split: if_splits list.splits sum.splits dest: quoted_length)

function lex_loop :: "string list \<Rightarrow> lexer \<Rightarrow> string + risk_token list" where
  "lex_loop [] lx = Inr (lx_tokens (lexer_end lx))"
| "lex_loop (c # chars) lx =
     (case lex_step c chars lx of Inl e \<Rightarrow> Inl e | Inr (rest, lx') \<Rightarrow> lex_loop rest lx')"
  by pat_completeness auto
termination
  by (relation "measure (\<lambda>(chars, lx). length chars)") (auto simp: less_Suc_eq_le dest: lex_step_length)

definition lex_command :: "string \<Rightarrow> string + risk_token list" where
  "lex_command command = lex_loop (utf8_chars command) new_lexer"

section \<open>Names, wrappers and paths\<close>

text \<open>\<open>word.rsplit('/').next()\<close>, and \<open>split_once('=')\<close>.\<close>

definition base_name :: "string \<Rightarrow> string" where
  "base_name word = rev (takeWhile (\<lambda>c. c \<noteq> CHR ''/'') (rev word))"

definition is_ascii_alphanumeric :: "char \<Rightarrow> bool" where
  "is_ascii_alphanumeric c \<longleftrightarrow>
     (let n = (of_char c :: nat) in (48 \<le> n \<and> n \<le> 57) \<or> (65 \<le> n \<and> n \<le> 90) \<or> (97 \<le> n \<and> n \<le> 122))"

definition is_assignment :: "string \<Rightarrow> bool" where
  "is_assignment word \<longleftrightarrow>
     CHR ''='' \<in> set word \<and>
     (let name = takeWhile (\<lambda>c. c \<noteq> CHR ''='') word
      in name \<noteq> [] \<and> list_all (\<lambda>c. is_ascii_alphanumeric c \<or> c = CHR ''_'') name)"

text \<open>\<open>str::parse::<f64>().is_ok()\<close>: a sign, then infinity, not a number, or digits with a point and an exponent.\<close>

definition drop_sign :: "string \<Rightarrow> string" where
  "drop_sign s = (case s of c # rest \<Rightarrow> if c = CHR ''+'' \<or> c = CHR ''-'' then rest else s | [] \<Rightarrow> [])"

definition is_exponent :: "string \<Rightarrow> bool" where
  "is_exponent s =
     (case s of
        [] \<Rightarrow> True
      | c # rest \<Rightarrow>
          (c = CHR ''e'' \<or> c = CHR ''E'') \<and> drop_sign rest \<noteq> [] \<and> list_all is_digit (drop_sign rest))"

definition parses_f64 :: "string \<Rightarrow> bool" where
  "parses_f64 s \<longleftrightarrow>
     (let body = drop_sign s;
          whole = takeWhile is_digit body;
          after = dropWhile is_digit body
      in to_ascii_lowercase body \<in> {''inf'', ''infinity'', ''nan''} \<or>
         (case after of
            c # rest \<Rightarrow>
              if c = CHR ''.''
              then (whole \<noteq> [] \<or> takeWhile is_digit rest \<noteq> []) \<and> is_exponent (dropWhile is_digit rest)
              else whole \<noteq> [] \<and> is_exponent after
          | [] \<Rightarrow> whole \<noteq> []))"

definition ends_with :: "string \<Rightarrow> string \<Rightarrow> bool" where
  "ends_with p s \<longleftrightarrow> starts_with (rev p) (rev s)"

definition skip_leading :: "(string \<Rightarrow> bool) \<Rightarrow> string list \<Rightarrow> string list" where
  "skip_leading leading words = dropWhile leading words"

lemma length_skip_leading: "length (skip_leading leading words) \<le> length words"
  by (simp add: skip_leading_def length_dropWhile_le)

definition is_option :: "string \<Rightarrow> bool" where
  "is_option word \<longleftrightarrow> starts_with ''-'' word"

function unwrap_words :: "string list \<Rightarrow> string list" where
  "unwrap_words [] = []"
| "unwrap_words (first # rest) =
     (let word = base_name first
      in if is_assignment word then unwrap_words rest
         else if word = ''env'' then unwrap_words (skip_leading (\<lambda>w. is_option w \<or> is_assignment w) rest)
         else if word \<in> {''nohup'', ''time'', ''command'', ''builtin'', ''exec'', ''stdbuf''}
         then unwrap_words (skip_leading is_option rest)
         else if word \<in> {''nice'', ''timeout''}
         then unwrap_words (skip_leading (\<lambda>w. is_option w \<or> parses_f64 w \<or> ends_with ''s'' w) rest)
         else first # rest)"
  by pat_completeness auto
termination
  by (relation "measure length") (auto simp: less_Suc_eq_le length_skip_leading)

declare unwrap_words.simps [simp del]

definition is_interpreter :: "string \<Rightarrow> bool" where
  "is_interpreter program \<longleftrightarrow>
     program \<in> {''sh'', ''bash'', ''zsh'', ''dash'', ''ksh'', ''fish'', ''python'', ''python3'', ''perl'', ''ruby'',
       ''node'', ''deno'', ''bun'', ''php'', ''osascript''}"

text \<open>The components of an absolute path, and \<open>Path::starts_with\<close>.\<close>

definition path_parts :: "string \<Rightarrow> string list" where
  "path_parts path = filter (\<lambda>part. part \<noteq> [] \<and> part \<noteq> ''.'') (split_on (\<lambda>c. c = CHR ''/'') path)"

definition is_absolute :: "string \<Rightarrow> bool" where
  "is_absolute path \<longleftrightarrow> starts_with ''/'' path"

definition path_starts_with :: "string \<Rightarrow> string \<Rightarrow> bool" where
  "path_starts_with path root \<longleftrightarrow>
     is_absolute path \<and> is_absolute root \<and> take (length (path_parts root)) (path_parts path) = path_parts root"

definition escapes_workspace :: "string \<Rightarrow> string \<Rightarrow> bool" where
  "escapes_workspace target workspace \<longleftrightarrow>
     starts_with ''~'' target \<or> starts_with ''$HOME'' target \<or>
     (is_absolute target \<and> \<not> path_starts_with target workspace \<and>
      target \<notin> {''/dev/null'', ''/dev/stdout'', ''/dev/stderr''} \<and> \<not> starts_with ''/tmp/'' target)"

section \<open>What a program risks\<close>

type_synonym risk = "risk_flag \<times> string"

definition named_programs :: "(string list \<times> risk_flag \<times> string) list" where
  "named_programs =
     [([''sudo'', ''doas'', ''su''], SystemModification, ''runs as another user''),
      ([''rm'', ''rmdir'', ''shred'', ''unlink'', ''srm''], Destructive, ''deletes files''),
      ([''chmod'', ''chown'', ''chgrp'', ''chattr'', ''chflags''], SystemModification, ''changes permissions''),
      ([''dd'', ''fdisk'', ''diskutil'', ''mount'', ''umount'', ''parted''], SystemModification, ''touches disks''),
      ([''kill'', ''pkill'', ''killall''], SystemModification, ''stops processes''),
      ([''shutdown'', ''reboot'', ''halt'', ''poweroff'', ''launchctl'', ''systemctl'', ''service''],
       SystemModification, ''changes the system''),
      ([''brew'', ''apt'', ''apt-get'', ''yum'', ''dnf'', ''pacman'', ''port'', ''snap''],
       SystemModification, ''manages system packages''),
      ([''eval''], PolicyUncertainty, ''runs text as a command'')]"

definition has_arg :: "string list \<Rightarrow> string list \<Rightarrow> bool" where
  "has_arg args wanted \<longleftrightarrow> list_ex (\<lambda>arg. arg \<in> set wanted) args"

definition js_package_risk :: "string \<Rightarrow> string list \<Rightarrow> risk option" where
  "js_package_risk program args =
     (if has_arg args [''publish'', ''unpublish'', ''deprecate'']
      then Some (ForbiddenNetwork, ''publishes a package: '' @ program)
      else if has_arg args [''-g'', ''--global'']
      then Some (SystemModification, ''installs globally: '' @ program)
      else None)"

definition cargo_risk :: "string list \<Rightarrow> risk option" where
  "cargo_risk args =
     (case args of
        [] \<Rightarrow> None
      | subcommand # _ \<Rightarrow>
          if subcommand \<in> {''publish'', ''yank'', ''owner''} then Some (ForbiddenNetwork, ''publishes a crate: cargo'')
          else if subcommand \<in> {''install'', ''uninstall''} then Some (SystemModification, ''installs a binary: cargo'')
          else None)"

definition gh_risk :: "string list \<Rightarrow> risk option" where
  "gh_risk args =
     (if args \<noteq> [] \<and> hd args = ''auth'' then Some (Credential_Use, ''manages credentials: gh auth'')
      else if length args > 1 \<and> args ! 1 \<in> {''view'', ''list'', ''status'', ''diff'', ''checks''} then None
      else Some (ForbiddenNetwork, ''changes GitHub state: gh''))"

definition upload_risk :: "string \<Rightarrow> string list \<Rightarrow> risk option" where
  "upload_risk program args =
     (if has_arg args [''-d'', ''--data'', ''--data-binary'', ''--data-raw'', ''-F'', ''--form'', ''-T''] \<or>
         list_ex (\<lambda>(a, b). a \<in> {''-X'', ''--request''} \<and> b \<noteq> ''GET'') (zip args (tl args))
      then Some (ForbiddenNetwork, ''sends data: '' @ program) else None)"

text \<open>The subcommand after the global options, with its arguments.\<close>

fun git_subcommand :: "string list \<Rightarrow> (string \<times> string list) option" where
  "git_subcommand [] = None"
| "git_subcommand (arg # rest) =
     (if arg \<in> {''-C'', ''-c'', ''--git-dir'', ''--work-tree'', ''--namespace''}
      then (case rest of [] \<Rightarrow> None | _ # rest' \<Rightarrow> git_subcommand rest')
      else if is_option arg then git_subcommand rest
      else Some (arg, rest))"

definition git_risk :: "string list \<Rightarrow> risk option" where
  "git_risk words =
     (case git_subcommand words of
        None \<Rightarrow> None
      | Some (subcommand, args) \<Rightarrow>
          (let destructive = (\<lambda>what. Some (Destructive, what @ '': git '' @ subcommand))
           in if subcommand = ''push'' then Some (ForbiddenNetwork, ''pushes to a remote: git push'')
              else if subcommand = ''reset'' \<and> has_arg args [''--hard'', ''--merge'', ''--keep'']
              then destructive ''discards changes''
              else if subcommand = ''clean'' then destructive ''deletes untracked files''
              else if subcommand \<in> {''checkout'', ''restore''} \<and>
                      has_arg args [''--'', ''.'', ''--staged'', ''-f'', ''--force'']
              then destructive ''discards changes''
              else if subcommand = ''branch'' \<and> has_arg args [''-D'', ''-d'', ''--delete'', ''-M'', ''--force'', ''-f'']
              then destructive ''deletes or moves a branch''
              else if subcommand = ''stash'' \<and> has_arg args [''drop'', ''clear''] then destructive ''drops stashed work''
              else if subcommand = ''tag'' \<and> has_arg args [''-d'', ''--delete'', ''-f'', ''--force'']
              then destructive ''deletes a tag''
              else if subcommand \<in> {''rebase'', ''filter-branch'', ''filter-repo'', ''update-ref'', ''gc'', ''prune''}
              then destructive ''rewrites history''
              else if subcommand = ''commit'' \<and> has_arg args [''--amend''] then destructive ''rewrites history''
              else if subcommand = ''rm'' then destructive ''deletes files''
              else None))"

section \<open>Commands, and what they run\<close>

text \<open>
  What \<open>assess\<close> looks at, in order: where a redirection writes, and each simple command with the one
  before it and whether that one is piped into it. What follows a redirection is taken with it, whatever it is.
\<close>

datatype risk_check = Check_Target string | Check_Command "string list" "string list option" bool

fun checks_of :: "risk_token list \<Rightarrow> string list \<Rightarrow> string list option \<Rightarrow> bool \<Rightarrow> risk_check list" where
  "checks_of [] segment previous piped = [Check_Command segment previous piped]"
| "checks_of (Risk_Word word # tokens) segment previous piped = checks_of tokens (segment @ [word]) previous piped"
| "checks_of (Risk_Redirect # Risk_Word target # tokens) segment previous piped =
     Check_Target target # checks_of tokens segment previous piped"
| "checks_of (Risk_Redirect # _ # tokens) segment previous piped = checks_of tokens segment previous piped"
| "checks_of [Risk_Redirect] segment previous piped = [Check_Command segment previous piped]"
| "checks_of (Risk_Op operator # tokens) segment previous piped =
     Check_Command segment previous piped # checks_of tokens [] (Some segment) (operator = ''|'')"

fun first_some :: "'a option list \<Rightarrow> 'a option" where
  "first_some [] = None"
| "first_some (x # xs) = (case x of Some v \<Rightarrow> Some v | None \<Rightarrow> first_some xs)"

text \<open>The measure of a command: its characters, and one for each word.\<close>

definition words_size :: "string list \<Rightarrow> nat" where
  "words_size words = sum_list (map (\<lambda>w. Suc (length w)) words)"

lemma words_size_simps [simp]:
  "words_size [] = 0"
  "words_size (w # ws) = Suc (length w) + words_size ws"
  "words_size (xs @ ys) = words_size xs + words_size ys"
  by (simp_all add: words_size_def)

lemma words_size_drop: "words_size (drop n ws) \<le> words_size ws"
proof -
  have "words_size ws = words_size (take n ws) + words_size (drop n ws)"
    by (metis append_take_drop_id words_size_simps(3))
  then show ?thesis by simp
qed

lemma words_size_take: "words_size (take n ws) \<le> words_size ws"
proof -
  have "words_size ws = words_size (take n ws) + words_size (drop n ws)"
    by (metis append_take_drop_id words_size_simps(3))
  then show ?thesis by simp
qed

lemma words_size_tl: "ws \<noteq> [] \<Longrightarrow> words_size (tl ws) < words_size ws"
  by (cases ws) simp_all

lemma words_size_skip: "words_size (skip_leading leading ws) \<le> words_size ws"
  by (simp add: skip_leading_def dropWhile_eq_drop words_size_drop)

lemma words_size_unwrap: "words_size (unwrap_words ws) \<le> words_size ws"
proof (induction ws rule: unwrap_words.induct)
  case 1
  then show ?case by (simp add: unwrap_words.simps)
next
  case (2 first rest)
  have s: "words_size (skip_leading leading rest) \<le> words_size rest" for leading
    by (rule words_size_skip)
  show ?case
    using 2 s [of "\<lambda>w. is_option w \<or> is_assignment w"] s [of is_option]
      s [of "\<lambda>w. is_option w \<or> parses_f64 w \<or> ends_with ''s'' w"]
    by (subst unwrap_words.simps) (auto simp: Let_def intro: le_trans [OF _ le_SucI [OF trans_le_add2]])
qed

fun token_size :: "risk_token \<Rightarrow> nat" where
  "token_size (Risk_Word word) = Suc (length word)"
| "token_size _ = 0"

definition tokens_size :: "risk_token list \<Rightarrow> nat" where
  "tokens_size tokens = sum_list (map token_size tokens)"

lemma tokens_size_simps [simp]:
  "tokens_size [] = 0"
  "tokens_size (t # ts) = token_size t + tokens_size ts"
  "tokens_size (xs @ ys) = tokens_size xs + tokens_size ys"
  by (simp_all add: tokens_size_def)

lemma checks_size:
  "Check_Command words prev p \<in> set (checks_of tokens segment previous piped) \<Longrightarrow>
    words_size words \<le> words_size segment + tokens_size tokens"
  by (induction tokens segment previous piped rule: checks_of.induct) fastforce+

text \<open>The words of a line are no longer than the line.\<close>

definition chars_size :: "string list \<Rightarrow> nat" where
  "chars_size chars = sum_list (map length chars)"

lemma chars_size_simps [simp]:
  "chars_size [] = 0"
  "chars_size (c # cs) = length c + chars_size cs"
  by (simp_all add: chars_size_def)

lemma chars_size_utf8: "chars_size (utf8_chars s) = length s"
  by (metis chars_size_def concat_utf8_chars length_concat)

definition lexer_size :: "lexer \<Rightarrow> nat" where
  "lexer_size lx = tokens_size (lx_tokens lx) + length (lx_word lx)"

lemma lexer_size_push: "lexer_size (lexer_push c lx) = lexer_size lx + length c"
  by (simp add: lexer_size_def lexer_push_def)

lemma lexer_size_end: "lexer_size (lexer_end lx) \<le> Suc (lexer_size lx)"
  by (simp add: lexer_size_def lexer_end_def)

lemma lexer_size_op: "lexer_size (lexer_op operator lx) \<le> Suc (lexer_size lx)"
  using lexer_size_end [of lx] by (simp add: lexer_size_def lexer_op_def Let_def)

lemma quoted_size:
  "quoted q chars word = Inr (rest, word') \<Longrightarrow> length word' + chars_size rest \<le> length word + chars_size chars"
  by (induction q chars word rule: quoted.induct) (force split: if_splits list.splits)+

lemma ampersand_size:
  "lexer_size (snd (ampersand chars lx)) + chars_size (fst (ampersand chars lx)) \<le> Suc (lexer_size lx) + chars_size chars"
  using lexer_size_end [of lx] lexer_size_op [of "''&&''" lx] lexer_size_op [of "''&''" lx]
  by (auto simp: ampersand_def next_if_eq_Some lexer_size_def split: option.splits)

lemma pipe_size:
  "lexer_size (snd (pipe chars lx)) + chars_size (fst (pipe chars lx)) \<le> Suc (lexer_size lx) + chars_size chars"
  using lexer_size_op [of "''||''" lx] lexer_size_op [of "''|''" lx]
  by (auto simp: pipe_def next_if_eq_Some lexer_size_def split: option.splits)

lemma redirect_size:
  "lexer_size (snd (redirect chars lx)) + chars_size (fst (redirect chars lx)) \<le> Suc (lexer_size lx) + chars_size chars"
  using lexer_size_end [of lx] lexer_size_end [of "lx\<lparr>lx_word := [], lx_in_word := False\<rparr>"]
  by (auto simp: redirect_def next_if_eq_Some lexer_size_def Let_def split: option.splits)

lemma is_whitespace_length: "is_whitespace c \<Longrightarrow> 1 \<le> length c"
  by (cases c) (auto simp: is_whitespace_def)

lemma lex_step_size:
  assumes "lex_step c chars lx = Inr (rest, lx')"
  shows "lexer_size lx' + chars_size rest \<le> lexer_size lx + length c + chars_size chars"
proof -
  have amp: "(rest, lx') = ampersand chars lx \<Longrightarrow> c = ''&'' \<Longrightarrow> ?thesis"
    using ampersand_size [of chars lx] by (cases "ampersand chars lx") simp
  have pipe: "(rest, lx') = pipe chars lx \<Longrightarrow> c = ''|'' \<Longrightarrow> ?thesis"
    using pipe_size [of chars lx] by (cases "pipe chars lx") simp
  have redirect: "(rest, lx') = redirect chars lx \<Longrightarrow> c = ''>'' \<Longrightarrow> ?thesis"
    using redirect_size [of chars lx] by (cases "redirect chars lx") simp
  show ?thesis
  proof (cases "c = [CHR 0x27] \<or> c = ''\"''")
    case True
    with assms obtain word where "quoted c chars (lx_word lx) = Inr (rest, word)"
      "lx' = lx\<lparr>lx_word := word, lx_in_word := True\<rparr>"
      by (auto simp: lex_step_def split: sum.splits)
    then show ?thesis using quoted_size [of c chars "lx_word lx" rest word] by (simp add: lexer_size_def)
  next
    case quote: False
    show ?thesis
    proof (cases "c = [CHR 0x5C]")
      case True
      then show ?thesis
        using assms by (cases chars) (auto simp: lex_step_def lexer_size_push)
    next
      case escape: False
      then have *: "Inr (rest, lx') =
         (if c = [CHR 0x0A] \<or> c = '';'' then Inr (chars, lexer_op '';'' lx)
          else if c = ''&'' then Inr (ampersand chars lx) else if c = ''|'' then Inr (pipe chars lx)
          else if c = ''>'' then Inr (redirect chars lx)
          else if c = ''<'' \<or> is_whitespace c then Inr (chars, lexer_end lx)
          else Inr (chars, lexer_push c lx) :: string + (string list \<times> lexer))"
        using assms quote unfolding lex_step_def by (auto split: if_split_asm)
      show ?thesis
      proof (cases "c = [CHR 0x0A] \<or> c = '';'' \<or> c = ''<'' \<or> is_whitespace c")
        case True
        then have "1 \<le> length c" using is_whitespace_length by auto
        then show ?thesis
          using * amp pipe redirect lexer_size_op [of "'';''" lx] lexer_size_end [of lx]
          by (auto simp: lexer_size_push split: if_split_asm)
      next
        case False
        then show ?thesis
          using * amp pipe redirect by (auto simp: lexer_size_push split: if_split_asm)
      qed
    qed
  qed
qed

lemma lex_loop_size:
  "lex_loop chars lx = Inr tokens \<Longrightarrow> tokens_size tokens \<le> Suc (lexer_size lx + chars_size chars)"
proof (induction chars lx rule: lex_loop.induct)
  case (1 lx)
  then show ?case using lexer_size_end [of lx] by (auto simp: lexer_size_def)
next
  case (2 c chars lx)
  from 2(2) obtain rest lx' where step: "lex_step c chars lx = Inr (rest, lx')" "lex_loop rest lx' = Inr tokens"
    by (auto split: sum.splits)
  with 2(1) [OF step(1) refl] lex_step_size [OF step(1)] show ?case by simp
qed

lemma lex_command_size:
  assumes "lex_command command = Inr tokens"
  shows "tokens_size tokens \<le> Suc (length command)"
  using lex_loop_size [OF assms [unfolded lex_command_def]]
  by (simp add: chars_size_utf8 lexer_size_def new_lexer_def)

lemma words_size_member: "i < length ws \<Longrightarrow> j < length ws \<Longrightarrow> i < j \<Longrightarrow> Suc (length (ws ! i)) + Suc (length (ws ! j)) \<le> words_size ws"
proof -
  assume a: "i < length ws" "j < length ws" "i < j"
  have "ws = take i ws @ ws ! i # drop (Suc i) ws" using a by (simp add: id_take_nth_drop)
  moreover have "ws ! j = drop (Suc i) ws ! (j - Suc i)" "j - Suc i < length (drop (Suc i) ws)" using a by auto
  then have "ws ! j \<in> set (drop (Suc i) ws)" by (metis nth_mem)
  then have "Suc (length (ws ! j)) \<le> words_size (drop (Suc i) ws)"
    unfolding words_size_def by (intro member_le_sum_list) auto
  ultimately show ?thesis by (metis words_size_simps(2,3) add_left_mono le_add2 le_trans)
qed

text \<open>The measure goes down at each call of \<open>assess\<close> and what it calls.\<close>

lemma check_shorter:
  "lex_command command = Inr tokens \<Longrightarrow> c \<in> set (checks_of tokens [] None False) \<Longrightarrow>
    (case c of Check_Target _ \<Rightarrow> 0 | Check_Command words _ _ \<Rightarrow> 4 * words_size words + 1) < 6 + 4 * length command"
  using lex_command_size [of command tokens] by (cases c) (auto dest: checks_size)

lemma unwrapped_shorter:
  "unwrap_words words = first # args \<Longrightarrow> 4 * words_size args + 3 < 4 * words_size words"
  using words_size_unwrap [of words] by simp

lemma shell_argument_shorter:
  "index_of (\<lambda>arg. arg = ''-c'') args = Some i \<Longrightarrow> Suc i < length args \<Longrightarrow>
    4 + 4 * length (args ! Suc i) < 4 * words_size args"
  using words_size_member [of i args "Suc i"] by (auto dest: index_of_SomeD)

lemma dropped_no_longer: "4 * words_size (dropWhile P args) < 4 * words_size args + 3"
  using words_size_drop [of "length (takeWhile P args)" args] by (simp add: dropWhile_eq_drop)

lemma taken_no_longer: "4 * words_size (takeWhile P (drop n args)) < Suc (Suc (4 * words_size args))"
proof -
  have "words_size (takeWhile P (drop n args)) \<le> words_size args"
    by (metis le_trans takeWhile_eq_take words_size_drop words_size_take)
  then show ?thesis by simp
qed

text \<open>
  \<open>assess\<close> and what it calls. Every call is on fewer characters than its caller's: \<open>assess\<close> again only on an
  argument of a shell.
\<close>

function assess :: "string \<Rightarrow> string \<Rightarrow> risk option"
  and check_risk :: "risk_check \<Rightarrow> string \<Rightarrow> risk option"
  and finish_command :: "string list \<Rightarrow> string list option \<Rightarrow> bool \<Rightarrow> string \<Rightarrow> risk option"
  and program_risk :: "string \<Rightarrow> string list \<Rightarrow> string \<Rightarrow> risk option"
  and command_risk :: "string list \<Rightarrow> string \<Rightarrow> risk option"
  and shell_risk :: "string list \<Rightarrow> string \<Rightarrow> risk option"
  and find_risk :: "string list \<Rightarrow> string \<Rightarrow> risk option" where
  "assess command workspace =
     (case lex_command command of
        Inl reason \<Rightarrow> Some (PolicyUncertainty, reason)
      | Inr tokens \<Rightarrow> first_some (map (\<lambda>c. check_risk c workspace) (checks_of tokens [] None False)))"
| "check_risk (Check_Target target) workspace =
     (if escapes_workspace target workspace
      then Some (ScopeEscape, ''writes outside the workspace: '' @ target) else None)"
| "check_risk (Check_Command words previous piped) workspace = finish_command words previous piped workspace"
| "finish_command words previous piped workspace =
     (case unwrap_words words of
        [] \<Rightarrow> None
      | first # args \<Rightarrow>
          if piped \<and> is_interpreter (base_name first)
          then (case (case previous of
                        None \<Rightarrow> None
                      | Some before \<Rightarrow> (case unwrap_words before of [] \<Rightarrow> None | w # _ \<Rightarrow> Some (base_name w))) of
                  Some source \<Rightarrow>
                    if source = ''curl'' \<or> source = ''wget''
                    then Some (ForbiddenNetwork, ''runs downloaded code: '' @ source @ '' | '' @ base_name first)
                    else Some (PolicyUncertainty, ''pipes into an interpreter: '' @ base_name first)
                | None \<Rightarrow> Some (PolicyUncertainty, ''pipes into an interpreter: '' @ base_name first))
          else program_risk (base_name first) args workspace)"
| "program_risk program args workspace =
     (case find (\<lambda>(names, _). program \<in> set names) named_programs of
        Some (_, flag, what) \<Rightarrow> Some (flag, what @ '': '' @ program)
      | None \<Rightarrow>
          if starts_with ''mkfs'' program then Some (SystemModification, ''formats a disk: '' @ program)
          else if program \<in> {''sh'', ''bash'', ''zsh'', ''dash'', ''ksh'', ''fish''} then shell_risk args workspace
          else if program = ''xargs'' then command_risk (dropWhile is_option args) workspace
          else if program = ''find'' then find_risk args workspace
          else if program = ''git'' then git_risk args
          else if program \<in> {''npm'', ''pnpm'', ''yarn'', ''bun''} then js_package_risk program args
          else if program = ''cargo'' then cargo_risk args
          else if program \<in> {''twine'', ''gem'', ''poetry''} \<and> has_arg args [''publish'', ''upload'', ''push'']
          then Some (ForbiddenNetwork, ''publishes a package: '' @ program)
          else if program = ''gh'' then gh_risk args
          else if program \<in> {''curl'', ''wget''} then upload_risk program args
          else if program \<in> {''mv'', ''cp'', ''tee'', ''touch'', ''mkdir'', ''ln'', ''install'', ''rsync''}
          then map_option (\<lambda>arg. (ScopeEscape, ''writes outside the workspace: '' @ arg))
                 (find (\<lambda>arg. escapes_workspace arg workspace) args)
          else None)"
| "command_risk words workspace =
     (case words of [] \<Rightarrow> None | first # args \<Rightarrow> program_risk (base_name first) args workspace)"
| "shell_risk args workspace =
     (case index_of (\<lambda>arg. arg = ''-c'') args of
        None \<Rightarrow> None
      | Some i \<Rightarrow> if i + 1 < length args then assess (args ! (i + 1)) workspace else None)"
| "find_risk args workspace =
     (if has_arg args [''-delete''] then Some (Destructive, ''deletes files: find -delete'')
      else case index_of (\<lambda>arg. arg \<in> {''-exec'', ''-execdir'', ''-ok''}) args of
             None \<Rightarrow> None
           | Some i \<Rightarrow>
               command_risk (takeWhile (\<lambda>arg. arg \<notin> {'';'', [CHR 0x5C, CHR '';''], ''+''}) (drop (i + 1) args)) workspace)"
  by pat_completeness auto
termination
  by (relation "measure (\<lambda>call. case call of
      Inl (Inl (command, _)) \<Rightarrow> 4 * Suc (length command) + 2
    | Inl (Inr (Inl (check, _))) \<Rightarrow>
        (case check of Check_Command words _ _ \<Rightarrow> 4 * words_size words + 1 | Check_Target _ \<Rightarrow> 0)
    | Inl (Inr (Inr (words, _))) \<Rightarrow> 4 * words_size words
    | Inr (Inl (Inl (_, args, _))) \<Rightarrow> 4 * words_size args + 3
    | Inr (Inl (Inr (words, _))) \<Rightarrow> 4 * words_size words
    | Inr (Inr (Inl (args, _))) \<Rightarrow> 4 * words_size args + 2
    | Inr (Inr (Inr (args, _))) \<Rightarrow> 4 * words_size args + 2)")
     (simp_all add: check_shorter unwrapped_shorter shell_argument_shorter dropped_no_longer taken_no_longer)

declare assess.simps [simp del] finish_command.simps [simp del] program_risk.simps [simp del]
  command_risk.simps [simp del] shell_risk.simps [simp del] find_risk.simps [simp del]

end
