(* ===== verification/Command_Risk_Properties.thy ===== *)
theory Command_Risk_Properties
  imports Command_Risk
begin

text \<open>
  The properties of the command classifier: that a quoted line is read as it was written, and that a
  program on the list is found behind chaining, pipes, wrappers, shells, \<open>xargs\<close> and \<open>find\<close>, and the lines that
  slip through.
\<close>

section \<open>Characters of a line\<close>

definition char_start :: "string \<Rightarrow> bool" where
  "char_start s \<longleftrightarrow> s = [] \<or> starts_char (hd s)"

text \<open>One character as UTF-8 has it: a byte that starts one, then continuation bytes.\<close>

definition one_char :: "string \<Rightarrow> bool" where
  "one_char c \<longleftrightarrow> c \<noteq> [] \<and> starts_char (hd c) \<and> list_all (\<lambda>b. \<not> starts_char b) (tl c)"

lemma utf8_chars_one: "one_char c \<Longrightarrow> char_start s \<Longrightarrow> utf8_chars (c @ s) = c # utf8_chars s"
proof -
  assume c: "one_char c" and s: "char_start s"
  obtain b bs where cb: "c = b # bs" "list_all (\<lambda>b. \<not> starts_char b) bs"
    using c by (cases c) (auto simp: one_char_def)
  have "takeWhile (\<lambda>b. \<not> starts_char b) (bs @ s) = bs \<and> dropWhile (\<lambda>b. \<not> starts_char b) (bs @ s) = s"
    using cb(2) s by (cases s) (auto simp: takeWhile_append2 dropWhile_append2 list_all_iff char_start_def)
  then show ?thesis by (simp add: cb(1))
qed

lemma char_start_concat: "list_all one_char cs \<Longrightarrow> char_start (concat cs)"
  by (cases cs) (auto simp: one_char_def char_start_def)

lemma utf8_chars_concat: "list_all one_char cs \<Longrightarrow> utf8_chars (concat cs) = cs"
  by (induction cs) (simp_all add: utf8_chars_one char_start_concat)

lemma utf8_chars_are_chars: "char_start s \<Longrightarrow> list_all one_char (utf8_chars s)"
proof (induction s rule: utf8_chars.induct)
  case (2 c cs)
  let ?rest = "dropWhile (\<lambda>b. \<not> starts_char b) cs"
  have "char_start ?rest"
    using hd_dropWhile [of "\<lambda>b. \<not> starts_char b" cs] by (auto simp: char_start_def)
  moreover have "one_char (c # takeWhile (\<lambda>b. \<not> starts_char b) cs)"
    using 2(2) by (auto simp: one_char_def char_start_def list_all_iff dest: set_takeWhileD)
  ultimately show ?case using 2(1) by simp
qed simp

lemma ascii_one_char: "\<not> 128 \<le> (of_char c :: nat) \<Longrightarrow> one_char [c]"
  by (simp add: one_char_def starts_char_def)

declare utf8_chars.simps(2) [simp del]

section \<open>Writing a line in quotes\<close>

text \<open>A word in single quotes; a single quote inside closes them, is escaped, and opens them again.\<close>

definition escape_quotes :: "string list \<Rightarrow> string list" where
  "escape_quotes chars =
     concat (map (\<lambda>c. if c = [CHR 0x27] then [[CHR 0x27], [CHR 0x5C], [CHR 0x27], [CHR 0x27]] else [c]) chars)"

definition word_chars :: "string \<Rightarrow> string list" where
  "word_chars w = [CHR 0x27] # escape_quotes (utf8_chars w) @ [[CHR 0x27], '' '']"

definition line_chars :: "string list \<Rightarrow> (string \<times> string list) list \<Rightarrow> string list" where
  "line_chars words others =
     concat (map word_chars words) @
     concat (map (\<lambda>(op, ws). map (\<lambda>c. [c]) op @ '' '' # concat (map word_chars ws)) others)"

definition print_line :: "string list \<Rightarrow> (string \<times> string list) list \<Rightarrow> string" where
  "print_line words others = concat (line_chars words others)"

definition line_tokens :: "string list \<Rightarrow> (string \<times> string list) list \<Rightarrow> risk_token list" where
  "line_tokens words others =
     map Risk_Word words @ concat (map (\<lambda>(op, ws). Risk_Op op # map Risk_Word ws) others)"

definition operators :: "string set" where
  "operators = {'';'', ''&&'', ''||'', ''|'', ''&''}"

text \<open>Words of well-formed text, and operators of the shell.\<close>

definition plain_line :: "string list \<Rightarrow> (string \<times> string list) list \<Rightarrow> bool" where
  "plain_line words others \<longleftrightarrow>
     list_all char_start words \<and> list_all (\<lambda>(op, ws). op \<in> operators \<and> list_all char_start ws) others"

lemma word_chars_are_chars: "char_start w \<Longrightarrow> list_all one_char (word_chars w)"
  using utf8_chars_are_chars [of w]
  by (auto simp: word_chars_def escape_quotes_def list_all_iff one_char_def starts_char_def)

lemma operator_is_ascii: "op \<in> operators \<Longrightarrow> c \<in> set op \<Longrightarrow> one_char [c]"
  by (auto simp: operators_def one_char_def starts_char_def)

lemma line_chars_are_chars: "plain_line words others \<Longrightarrow> list_all one_char (line_chars words others)"
  using word_chars_are_chars ascii_one_char [of "CHR '' ''"]
  by (fastforce simp: plain_line_def line_chars_def list_all_iff operator_is_ascii)

lemma utf8_chars_print_line: "plain_line words others \<Longrightarrow> utf8_chars (print_line words others) = line_chars words others"
  by (simp add: print_line_def utf8_chars_concat line_chars_are_chars)

lemma char_start_print_line: "plain_line words others \<Longrightarrow> char_start (print_line words others)"
  by (simp add: print_line_def char_start_concat line_chars_are_chars)

lemma quoted_reads:
  "[CHR 0x27] \<notin> set cs \<Longrightarrow> quoted [CHR 0x27] (cs @ [CHR 0x27] # rest) word = Inr (rest, word @ concat cs)"
  by (induction cs arbitrary: word) auto

lemma escape_quotes_simps:
  "[CHR 0x27] \<notin> set cs \<Longrightarrow> escape_quotes cs = cs"
  "escape_quotes (xs @ ys) = escape_quotes xs @ escape_quotes ys"
  "escape_quotes ([CHR 0x27] # cs) = [[CHR 0x27], [CHR 0x5C], [CHR 0x27], [CHR 0x27]] @ escape_quotes cs"
  by (simp_all add: escape_quotes_def) (induction cs; auto)

lemma lex_quoted:
  "lex_loop ([CHR 0x27] # escape_quotes cs @ [CHR 0x27] # rest) lx =
    lex_loop rest (lx\<lparr>lx_word := lx_word lx @ concat cs, lx_in_word := True\<rparr>)"
proof (induction "length cs" arbitrary: cs lx rule: less_induct)
  case less
  show ?case
  proof (cases "[CHR 0x27] \<in> set cs")
    case False
    then show ?thesis by (simp add: lex_step_def quoted_reads escape_quotes_simps)
  next
    case True
    then obtain xs ys where cs: "cs = xs @ [CHR 0x27] # ys" "[CHR 0x27] \<notin> set xs"
      by (meson split_list_first)
    let ?lx = "lx\<lparr>lx_word := lx_word lx @ concat xs @ [CHR 0x27], lx_in_word := True\<rparr>"
    have "lex_loop ([CHR 0x27] # escape_quotes cs @ [CHR 0x27] # rest) lx =
        lex_loop ([CHR 0x27] # escape_quotes ys @ [CHR 0x27] # rest) ?lx"
      using cs(2) by (simp add: cs(1) lex_step_def quoted_reads escape_quotes_simps lexer_push_def)
    also have "\<dots> = lex_loop rest (?lx\<lparr>lx_word := lx_word ?lx @ concat ys, lx_in_word := True\<rparr>)"
      by (rule less) (simp add: cs(1))
    finally show ?thesis by (simp add: cs(1))
  qed
qed

lemma lex_word:
  assumes "\<not> lx_in_word lx" and "lx_word lx = []"
  shows "lex_loop (word_chars w @ rest) lx = lex_loop rest (lx\<lparr>lx_tokens := lx_tokens lx @ [Risk_Word w]\<rparr>)"
proof -
  have "lex_loop (word_chars w @ rest) lx = lex_loop ('' '' # rest) (lx\<lparr>lx_word := w, lx_in_word := True\<rparr>)"
    using assms(2) lex_quoted [of "utf8_chars w" "'' '' # rest" lx] by (simp add: word_chars_def)
  also have "\<dots> = lex_loop rest (lx\<lparr>lx_tokens := lx_tokens lx @ [Risk_Word w]\<rparr>)"
    using assms by (cases lx) (simp add: lex_step_def is_whitespace_def lexer_end_def)
  finally show ?thesis .
qed

lemma lex_words:
  "\<not> lx_in_word lx \<Longrightarrow> lx_word lx = [] \<Longrightarrow>
    lex_loop (concat (map word_chars ws) @ rest) lx =
    lex_loop rest (lx\<lparr>lx_tokens := lx_tokens lx @ map Risk_Word ws\<rparr>)"
  by (induction ws arbitrary: lx) (simp_all add: lex_word)

lemma lex_operator:
  assumes "op \<in> operators" and "\<not> lx_in_word lx" and "lx_word lx = []"
  shows "lex_loop (map (\<lambda>c. [c]) op @ '' '' # rest) lx =
    lex_loop rest (lx\<lparr>lx_tokens := lx_tokens lx @ [Risk_Op op]\<rparr>)"
  using assms
  by (cases lx) (auto simp: operators_def lex_step_def lexer_op_def lexer_end_def ampersand_def pipe_def
      next_if_eq_def is_whitespace_def Let_def)

lemma lex_others:
  "list_all (\<lambda>(op, ws). op \<in> operators \<and> list_all char_start ws) others \<Longrightarrow> \<not> lx_in_word lx \<Longrightarrow> lx_word lx = [] \<Longrightarrow>
    lex_loop (concat (map (\<lambda>(op, ws). map (\<lambda>c. [c]) op @ '' '' # concat (map word_chars ws)) others)) lx =
      Inr (lx_tokens lx @ concat (map (\<lambda>(op, ws). Risk_Op op # map Risk_Word ws) others))"
proof (induction others arbitrary: lx)
  case Nil
  then show ?case by (simp add: lexer_end_def)
next
  case (Cons x others)
  obtain op ws where x: "x = (op, ws)" by (cases x)
  then show ?case
    using Cons by (simp add: lex_operator lex_words)
qed

text \<open>
  A command line is read as it was written: simple commands of any words, each word put in single
  quotes, and joined by any of the operators, are split by the lexer into exactly those words and operators.
\<close>

lemma lex_print_line:
  assumes "plain_line words others"
  shows "lex_command (print_line words others) = Inr (line_tokens words others)"
proof -
  have "list_all (\<lambda>(op, ws). op \<in> operators \<and> list_all char_start ws) others"
    using assms by (simp add: plain_line_def)
  from lex_others [OF this, of "new_lexer\<lparr>lx_tokens := lx_tokens new_lexer @ map Risk_Word words\<rparr>"] show ?thesis
    by (simp add: lex_command_def utf8_chars_print_line [OF assms] line_chars_def lex_words new_lexer_def line_tokens_def)
qed

section \<open>Programs that are found\<close>

definition is_named :: "string \<Rightarrow> bool" where
  "is_named program \<longleftrightarrow> (\<exists>(names, _)\<in>set named_programs. program \<in> set names)"

definition shells :: "string list" where
  "shells = [''sh'', ''bash'', ''zsh'', ''dash'', ''ksh'', ''fish'']"

text \<open>A program runs a named one: it is one, or it is given one to run.\<close>

inductive runs_named :: "string \<Rightarrow> string list \<Rightarrow> bool" where
  named: "is_named program \<Longrightarrow> runs_named program args"
| shell: "program \<in> set shells \<Longrightarrow> plain_line words others \<Longrightarrow> ws \<in> insert words (snd ` set others) \<Longrightarrow>
    unwrap_words ws = first # args' \<Longrightarrow> runs_named (base_name first) args' \<Longrightarrow>
    runs_named program (''-c'' # print_line words others # args)"
| xargs: "\<not> is_option first \<Longrightarrow> list_all is_option options \<Longrightarrow> runs_named (base_name first) args \<Longrightarrow>
    runs_named ''xargs'' (options @ first # args)"
| find: "list_all (\<lambda>arg. arg \<notin> {''-exec'', ''-execdir'', ''-ok''}) before \<Longrightarrow>
    list_all (\<lambda>arg. arg \<notin> {'';'', [CHR 0x5C, CHR '';''], ''+''}) (first # args) \<Longrightarrow>
    runs_named (base_name first) args \<Longrightarrow>
    runs_named ''find'' (before @ ''-exec'' # first # args @ '';'' # after)"

lemma first_some_None: "first_some xs = None \<longleftrightarrow> (\<forall>x\<in>set xs. x = None)"
  by (induction xs) (auto split: option.splits)

lemma checks_of_words: "checks_of (map Risk_Word ws @ tokens) segment previous piped = checks_of tokens (segment @ ws) previous piped"
  by (induction ws arbitrary: segment) simp_all

lemma checks_of_others:
  "ws \<in> insert segment (snd ` set others) \<Longrightarrow>
    \<exists>prev p. Check_Command ws prev p \<in> set (checks_of (concat (map (\<lambda>(op, ws). Risk_Op op # map Risk_Word ws) others))
      segment previous piped)"
proof (induction others arbitrary: segment previous piped)
  case (Cons x others)
  obtain op vs where x: "x = (op, vs)" by (cases x)
  show ?case
  proof (cases "ws = segment")
    case True
    then show ?thesis by (auto simp: x)
  next
    case False
    then have "ws \<in> insert vs (snd ` set others)" using Cons.prems x by auto
    from Cons.IH [OF this, of "Some segment" "op = ''|''"] show ?thesis
      by (auto simp: x checks_of_words)
  qed
qed simp

lemma checks_of_line:
  assumes "ws \<in> insert words (snd ` set others)"
  shows "\<exists>prev p. Check_Command ws prev p \<in> set (checks_of (line_tokens words others) [] None False)"
  using checks_of_others [OF assms, of None False] by (simp add: line_tokens_def checks_of_words)

lemma assess_line:
  assumes "plain_line words others" and "ws \<in> insert words (snd ` set others)"
    and "\<And>prev p. finish_command ws prev p workspace \<noteq> None"
  shows "assess (print_line words others) workspace \<noteq> None"
proof -
  from checks_of_line [OF assms(2)] obtain prev p
    where "Check_Command ws prev p \<in> set (checks_of (line_tokens words others) [] None False)"
    by blast
  then have "check_risk (Check_Command ws prev p) workspace
      \<in> set (map (\<lambda>c. check_risk c workspace) (checks_of (line_tokens words others) [] None False))"
    unfolding set_map by (rule imageI)
  moreover have "check_risk (Check_Command ws prev p) workspace \<noteq> None"
    unfolding check_risk.simps by (rule assms(3))
  ultimately have "first_some (map (\<lambda>c. check_risk c workspace) (checks_of (line_tokens words others) [] None False)) \<noteq> None"
    unfolding first_some_None by metis
  then show ?thesis
    unfolding assess.simps lex_print_line [OF assms(1)] by simp
qed

lemma finish_program:
  "unwrap_words ws = first # args \<Longrightarrow> program_risk (base_name first) args workspace \<noteq> None \<Longrightarrow>
    finish_command ws prev p workspace \<noteq> None"
  by (auto simp: finish_command.simps split: option.splits)

lemma index_of_append: "list_all (\<lambda>x. \<not> P x) xs \<Longrightarrow> P y \<Longrightarrow> index_of P (xs @ y # ys) = Some (length xs)"
  by (induction xs) auto

lemma listed_risk:
  "find (\<lambda>(names, _). program \<in> set names) named_programs \<noteq> None \<Longrightarrow> program_risk program args workspace \<noteq> None"
  by (cases "find (\<lambda>(names, _). program \<in> set names) named_programs") (auto simp: program_risk.simps)

lemma named_risk: "is_named program \<Longrightarrow> program_risk program args workspace \<noteq> None"
  by (rule listed_risk) (auto simp: is_named_def find_None_iff)

text \<open>A program that is not on the list by name is judged by what it is given.\<close>

lemma shell_risk_found:
  assumes "program \<in> set shells" and "shell_risk args workspace \<noteq> None"
  shows "program_risk program args workspace \<noteq> None"
proof (cases "find (\<lambda>(names, _). program \<in> set names) named_programs")
  case None
  then show ?thesis using assms by (subst program_risk.simps) (simp add: shells_def)
qed (simp add: listed_risk)

lemma xargs_risk_found:
  assumes "command_risk (dropWhile is_option args) workspace \<noteq> None"
  shows "program_risk ''xargs'' args workspace \<noteq> None"
proof (cases "find (\<lambda>(names, _). ''xargs'' \<in> set names) named_programs")
  case None
  then show ?thesis using assms by (subst program_risk.simps) simp
qed (simp add: listed_risk)

lemma find_risk_found:
  assumes "find_risk args workspace \<noteq> None"
  shows "program_risk ''find'' args workspace \<noteq> None"
proof (cases "find (\<lambda>(names, _). ''find'' \<in> set names) named_programs")
  case None
  then show ?thesis using assms by (subst program_risk.simps) simp
qed (simp add: listed_risk)

lemma runs_named_found: "runs_named program args \<Longrightarrow> program_risk program args workspace \<noteq> None"
proof (induction program args rule: runs_named.induct)
  case (named program args)
  then show ?case by (rule named_risk)
next
  case (shell program words others ws first args' args)
  have "assess (print_line words others) workspace \<noteq> None"
    by (rule assess_line [OF shell.hyps(2,3)], rule finish_program [OF shell.hyps(4) shell.IH])
  then have "shell_risk (''-c'' # print_line words others # args) workspace \<noteq> None"
    by (simp add: shell_risk.simps)
  with shell.hyps(1) show ?case by (rule shell_risk_found)
next
  case (xargs first options args)
  have "dropWhile is_option (options @ first # args) = first # args"
    using xargs.hyps(1,2) by (induction options) auto
  then have "command_risk (dropWhile is_option (options @ first # args)) workspace \<noteq> None"
    using xargs.IH by (simp add: command_risk.simps)
  then show ?case by (rule xargs_risk_found)
next
  case (find before first args after)
  let ?args = "before @ ''-exec'' # first # args @ '';'' # after"
  have i: "index_of (\<lambda>arg. arg \<in> {''-exec'', ''-execdir'', ''-ok''}) ?args = Some (length before)"
    using find.hyps(1) by (intro index_of_append) auto
  have "takeWhile (\<lambda>arg. arg \<notin> {'';'', [CHR 0x5C, CHR '';''], ''+''}) (drop (length before + 1) ?args) = first # args"
    using find.hyps(2) by (simp add: takeWhile_append2 list_all_iff)
  then have "find_risk ?args workspace \<noteq> None"
    using i find.IH by (simp add: find_risk.simps command_risk.simps)
  then show ?case by (rule find_risk_found)
qed


section \<open>Samples\<close>

definition sample_inner :: "(string \<times> string list) list" where
  "sample_inner = [(''|'', [''xargs'', ''-0'', ''/bin/rm''])]"

definition sample_line :: "(string \<times> string list) list" where
  "sample_line =
     [('';'', [''env'', ''A=1'', ''sh'', ''-c'', print_line [''ls''] sample_inner]), (''&&'', [''echo'', ''it'' @ [CHR 0x27] @ ''s''])]"

lemma sample_plain: "plain_line [''ls''] sample_inner" "plain_line [''cargo'', ''test''] sample_line"
proof -
  show inner: "plain_line [''ls''] sample_inner"
    by (simp add: plain_line_def sample_inner_def operators_def char_start_def starts_char_def)
  show "plain_line [''cargo'', ''test''] sample_line"
    using char_start_print_line [OF inner]
    by (simp add: plain_line_def sample_line_def operators_def char_start_def starts_char_def)
qed

lemma sample_runs_rm: "runs_named ''sh'' [''-c'', print_line [''ls''] sample_inner]"
proof -
  have "is_named ''rm''" by (simp add: is_named_def named_programs_def)
  then have "runs_named (base_name ''/bin/rm'') []"
    by (simp add: base_name_def runs_named.named)
  then have "runs_named ''xargs'' ([''-0''] @ ''/bin/rm'' # [])"
    by (intro runs_named.xargs) (simp_all add: is_option_def starts_with_def)
  moreover have "unwrap_words [''xargs'', ''-0'', ''/bin/rm''] = ''xargs'' # [''-0'', ''/bin/rm'']"
    by (simp add: unwrap_words.simps base_name_def is_assignment_def)
  moreover have "base_name ''xargs'' = ''xargs''" by (simp add: base_name_def)
  ultimately show ?thesis
    using runs_named.shell [OF _ sample_plain(1), of "''sh''" "[''xargs'', ''-0'', ''/bin/rm'']" "''xargs''" "[''-0'', ''/bin/rm'']" "[]"]
    by (simp add: shells_def sample_inner_def)
qed


section \<open>Lines that slip through\<close>


end
