(* ===== verification/Loop_Guard.thy ===== *)
theory Loop_Guard
  imports Json Decimal Strings
begin

text \<open>
  The guard that notices a model repeating failing tool calls: \<^verbatim>\<open>crates/arsy-cli/src/loop_guard.rs\<close>,
  over the message contents of \<^verbatim>\<open>crates/arsy-kernel/src/provider.rs\<close>. How a JSON value is printed is
  a parameter. The long notes are kept as the code has them; the dash in a reason is its three bytes.
\<close>

section \<open>Contents and verdicts\<close>

datatype model_content =
  Text_Content string
| Tool_Call string string json
| Tool_Result string string bool
| Reasoning_State json
| Image_Content string string

definition identical_failure_limit :: nat where
  "identical_failure_limit = 3"

definition failing_rounds_warning :: nat where
  "failing_rounds_warning = 3"

definition failing_rounds_limit :: nat where
  "failing_rounds_limit = 6"

datatype verdict = Continue_Turn | Redirect string | Stop_Turn string

record loop_guard =
  lg_identical :: "(string \<times> nat) option"
  lg_failing_rounds :: nat

definition new_guard :: loop_guard where
  "new_guard = \<lparr>lg_identical = None, lg_failing_rounds = 0\<rparr>"

type_synonym tool_call = "string \<times> string \<times> json"

section \<open>One round\<close>

definition result_failed :: "model_content \<Rightarrow> bool" where
  "result_failed c = (case c of Tool_Result _ _ is_error \<Rightarrow> is_error | _ \<Rightarrow> False)"

definition fingerprint :: "(json \<Rightarrow> string) \<Rightarrow> string \<Rightarrow> json \<Rightarrow> string" where
  "fingerprint shown name arguments =
     name @ [CHR 0x00] @
     shown (if name = ''bash''
            then (case json_get arguments ''command'' of None \<Rightarrow> JNull | Some v \<Rightarrow> v)
            else arguments)"

definition dash :: string where
  "dash = [CHR 0xE2, CHR 0x80, CHR 0x94]"

definition repeated_reason :: "nat \<Rightarrow> string" where
  "repeated_reason count =
     ''the model repeated the same failing tool call '' @ print_nat count @ '' times '' @ dash @
     '' it is stuck in a loop rather than out of budget; continue with a narrower task''"

definition failing_reason :: "nat \<Rightarrow> string" where
  "failing_reason rounds =
     ''every tool call failed for '' @ print_nat rounds @ '' rounds in a row '' @ dash @
     '' the tools this turn needs are not working or not allowed; check the errors above, then continue''"

definition repeated_note :: string where
  "repeated_note =
     ''[SYSTEM: this exact call has now failed twice. Do not repeat it: read the error, '' @
     ''then change the arguments, use a different tool, or explain what is blocking you.]''"

definition failing_note :: string where
  "failing_note =
     ''[SYSTEM: every tool call in the last '' @ print_nat failing_rounds_warning @
     '' rounds failed or was refused. Stop retrying the same way: work with what you already have, or say '' @
     ''what is blocking you and what you need.]''"

definition observe_round :: "(json \<Rightarrow> string) \<Rightarrow> tool_call list \<Rightarrow> model_content list \<Rightarrow> loop_guard \<Rightarrow> verdict \<times> loop_guard" where
  "observe_round shown calls results g =
     (case calls of
        [] \<Rightarrow> (Continue_Turn, new_guard)
      | (_, name, arguments) # _ \<Rightarrow>
          if \<not> list_all result_failed results then (Continue_Turn, new_guard)
          else
            (let rounds = lg_failing_rounds g + 1;
                 first = fingerprint shown name arguments;
                 count = (case lg_identical g of
                            Some (last_call, n) \<Rightarrow> if last_call = first then n + 1 else 1
                          | None \<Rightarrow> 1);
                 g' = \<lparr>lg_identical = Some (first, count), lg_failing_rounds = rounds\<rparr>
             in (if count \<ge> identical_failure_limit then Stop_Turn (repeated_reason count)
                 else if rounds \<ge> failing_rounds_limit then Stop_Turn (failing_reason rounds)
                 else if count = identical_failure_limit - 1 then Redirect repeated_note
                 else if rounds = failing_rounds_warning then Redirect failing_note
                 else Continue_Turn, g')))"

definition stopped_it :: "string \<Rightarrow> bool" where
  "stopped_it message \<longleftrightarrow>
     contains_str ''repeated the same failing tool call'' message \<or>
     contains_str ''every tool call failed for'' message"

definition attach_note :: "model_content list \<Rightarrow> string \<Rightarrow> model_content list" where
  "attach_note results extra =
     (if results = [] then results
      else (case List.last results of
              Tool_Result i content e \<Rightarrow>
                butlast results @ [Tool_Result i (content @ [CHR 0x0A, CHR 0x0A] @ extra) e]
            | _ \<Rightarrow> results))"

text \<open>The rounds of a turn, judged one after the other from a new guard.\<close>

fun verdicts :: "(json \<Rightarrow> string) \<Rightarrow> (tool_call list \<times> model_content list) list \<Rightarrow> loop_guard \<Rightarrow> verdict list" where
  "verdicts shown [] g = []"
| "verdicts shown ((calls, results) # rounds) g =
     (case observe_round shown calls results g of (v, g') \<Rightarrow> v # verdicts shown rounds g')"

section \<open>The guard as a function of the history\<close>

definition round_failed :: "tool_call list \<times> model_content list \<Rightarrow> bool" where
  "round_failed r \<longleftrightarrow> fst r \<noteq> [] \<and> list_all result_failed (snd r)"

definition round_print :: "(json \<Rightarrow> string) \<Rightarrow> tool_call list \<times> model_content list \<Rightarrow> string" where
  "round_print shown r = fingerprint shown (fst (snd (hd (fst r)))) (snd (snd (hd (fst r))))"

text \<open>The failing rounds a history ends with, the latest first, and how many of them repeat the latest.\<close>

definition failing_tail :: "(tool_call list \<times> model_content list) list \<Rightarrow> (tool_call list \<times> model_content list) list" where
  "failing_tail h = takeWhile round_failed (rev h)"

definition repeat_count :: "(json \<Rightarrow> string) \<Rightarrow> (tool_call list \<times> model_content list) list \<Rightarrow> nat" where
  "repeat_count shown h =
     length (takeWhile (\<lambda>r. round_print shown r = round_print shown (hd (failing_tail h))) (failing_tail h))"

definition guard_of :: "(json \<Rightarrow> string) \<Rightarrow> (tool_call list \<times> model_content list) list \<Rightarrow> loop_guard" where
  "guard_of shown h =
     (if failing_tail h = [] then new_guard
      else \<lparr>lg_identical = Some (round_print shown (hd (failing_tail h)), repeat_count shown h),
            lg_failing_rounds = length (failing_tail h)\<rparr>)"

definition verdict_of :: "(json \<Rightarrow> string) \<Rightarrow> (tool_call list \<times> model_content list) list \<Rightarrow> verdict" where
  "verdict_of shown h =
     (let repeats = repeat_count shown h; failing = length (failing_tail h)
      in if failing = 0 then Continue_Turn
         else if repeats \<ge> 3 then Stop_Turn (repeated_reason repeats)
         else if failing \<ge> 6 then Stop_Turn (failing_reason failing)
         else if repeats = 2 then Redirect repeated_note
         else if failing = 3 then Redirect failing_note
         else Continue_Turn)"

lemma failing_tail_snoc:
  "failing_tail (h @ [r]) = (if round_failed r then r # failing_tail h else [])"
  by (simp add: failing_tail_def)

lemma repeat_count_snoc:
  "round_failed r \<Longrightarrow> repeat_count shown (h @ [r]) =
     (if failing_tail h \<noteq> [] \<and> round_print shown (hd (failing_tail h)) = round_print shown r
      then Suc (repeat_count shown h) else 1)"
  by (cases "failing_tail h") (auto simp: repeat_count_def failing_tail_snoc)

lemma repeat_count_pos: "failing_tail h \<noteq> [] \<Longrightarrow> 0 < repeat_count shown h"
  by (cases "failing_tail h") (simp_all add: repeat_count_def)

lemma repeat_count_le: "repeat_count shown h \<le> length (failing_tail h)"
  by (simp add: repeat_count_def length_takeWhile_le)

lemma observe_guard_of:
  "observe_round shown (fst r) (snd r) (guard_of shown h) = (verdict_of shown (h @ [r]), guard_of shown (h @ [r]))"
proof (cases "round_failed r")
  case False
  then have "fst r = [] \<or> \<not> list_all result_failed (snd r)" by (simp add: round_failed_def)
  then have "observe_round shown (fst r) (snd r) (guard_of shown h) = (Continue_Turn, new_guard)"
    by (auto simp: observe_round_def split: list.splits)
  then show ?thesis using False by (simp add: verdict_of_def guard_of_def failing_tail_snoc)
next
  case True
  then obtain i name arguments calls where r: "fst r = (i, name, arguments) # calls" "list_all result_failed (snd r)"
    by (cases "fst r") (auto simp: round_failed_def)
  then have p: "round_print shown r = fingerprint shown name arguments" by (simp add: round_print_def)
  show ?thesis
  proof (cases "failing_tail h")
    case Nil
    then show ?thesis
      using True r p
      by (simp add: observe_round_def guard_of_def new_guard_def verdict_of_def failing_tail_snoc repeat_count_snoc Let_def
          identical_failure_limit_def failing_rounds_limit_def failing_rounds_warning_def)
  next
    case (Cons q qs)
    have pos: "0 < repeat_count shown h" using Cons by (simp add: repeat_count_pos)
    then have two: "Suc (repeat_count shown h) = 2 \<longleftrightarrow> repeat_count shown h = 1" by auto
    show ?thesis
      using True r p Cons pos
      by (simp add: observe_round_def guard_of_def verdict_of_def failing_tail_snoc repeat_count_snoc Let_def
          identical_failure_limit_def failing_rounds_limit_def failing_rounds_warning_def)
  qed
qed

lemma verdicts_from_history:
  "verdicts shown rounds (guard_of shown h) =
     map (\<lambda>k. verdict_of shown (h @ take (Suc k) rounds)) [0..<length rounds]"
proof (induction rounds arbitrary: h)
  case (Cons r rounds)
  have "verdicts shown (r # rounds) (guard_of shown h) =
      verdict_of shown (h @ [r]) # verdicts shown rounds (guard_of shown (h @ [r]))"
    using observe_guard_of [of shown r h] by (cases r) simp
  also have "\<dots> = map (\<lambda>k. verdict_of shown (h @ take (Suc k) (r # rounds))) [0..<length (r # rounds)]"
    by (simp add: Cons.IH upt_conv_Cons map_Suc_upt [symmetric] del: upt_Suc)
  finally show ?case .
qed simp

lemma guard_of_Nil [simp]: "guard_of shown [] = new_guard"
  by (simp add: guard_of_def failing_tail_def)

lemma nth_verdicts:
  "k < length rounds \<Longrightarrow> verdicts shown rounds new_guard ! k = verdict_of shown (take (Suc k) rounds)"
  using verdicts_from_history [of shown rounds "[]"] by simp

lemma length_verdicts: "length (verdicts shown rounds g) = length rounds"
proof (induction rounds arbitrary: g)
  case (Cons r rounds)
  then show ?case by (cases r) (simp split: prod.split)
qed simp

definition is_stop :: "verdict \<Rightarrow> bool" where
  "is_stop v = (case v of Stop_Turn _ \<Rightarrow> True | _ \<Rightarrow> False)"

definition is_redirect :: "verdict \<Rightarrow> bool" where
  "is_redirect v = (case v of Redirect _ \<Rightarrow> True | _ \<Rightarrow> False)"

lemma verdict_kinds:
  "is_stop (verdict_of shown h) \<longleftrightarrow> 3 \<le> repeat_count shown h \<and> failing_tail h \<noteq> [] \<or> 6 \<le> length (failing_tail h)"
  "is_redirect (verdict_of shown h) \<longleftrightarrow> failing_tail h \<noteq> [] \<and> repeat_count shown h < 3 \<and> length (failing_tail h) < 6 \<and>
     (repeat_count shown h = 2 \<or> length (failing_tail h) = 3)"
  by (auto simp: verdict_of_def is_stop_def is_redirect_def Let_def)

lemma stop_reasons_recognised:
  "stopped_it (prefix @ repeated_reason n)" "stopped_it (prefix @ failing_reason n)"
proof -
  have "prefix @ repeated_reason n = (prefix @ ''the model '') @ ''repeated the same failing tool call'' @
      ('' '' @ print_nat n @ '' times '' @ dash @
       '' it is stuck in a loop rather than out of budget; continue with a narrower task'')"
    by (simp add: repeated_reason_def)
  then show "stopped_it (prefix @ repeated_reason n)"
    unfolding stopped_it_def contains_str_iff by blast
  have "prefix @ failing_reason n = prefix @ ''every tool call failed for'' @
      ('' '' @ print_nat n @ '' rounds in a row '' @ dash @
       '' the tools this turn needs are not working or not allowed; check the errors above, then continue'')"
    by (simp add: failing_reason_def)
  then show "stopped_it (prefix @ failing_reason n)"
    unfolding stopped_it_def contains_str_iff by blast
qed

text \<open>Going back along the failing rounds.\<close>

lemma takeWhile_drop: "m \<le> length (takeWhile P xs) \<Longrightarrow> takeWhile P (drop m xs) = drop m (takeWhile P xs)"
proof (induction xs arbitrary: m)
  case (Cons x xs)
  then show ?case by (cases m) (auto split: if_splits)
qed simp

lemma failing_tail_take:
  assumes "m < length (failing_tail h)"
  shows "failing_tail (take (length h - m) h) = drop m (failing_tail h)"
proof -
  have "rev (take (length h - m) h) = drop m (rev h)" by (simp add: drop_rev)
  moreover have "takeWhile round_failed (drop m (rev h)) = drop m (takeWhile round_failed (rev h))"
    using assms by (simp add: failing_tail_def takeWhile_drop)
  ultimately show ?thesis by (simp add: failing_tail_def)
qed

lemma failing_tail_nth:
  assumes "m < length (failing_tail h)"
  shows "m < length h" and "round_failed (h ! (length h - Suc m))"
proof -
  have "length (failing_tail h) \<le> length h"
    unfolding failing_tail_def using length_takeWhile_le [of round_failed "rev h"] by simp
  with assms show m: "m < length h" by simp
  have "round_failed (rev h ! m)"
    using assms unfolding failing_tail_def by (metis nth_mem set_takeWhileD takeWhile_nth)
  then show "round_failed (h ! (length h - Suc m))" using m by (simp add: rev_nth)
qed

lemma going_back:
  assumes i: "i < length rounds" and m: "m < length (failing_tail (take (Suc i) rounds))"
  shows "m \<le> i" and "failing_tail (take (Suc (i - m)) rounds) = drop m (failing_tail (take (Suc i) rounds))"
    and "k \<in> {i - m..i} \<Longrightarrow> round_failed (rounds ! k)"
proof -
  have len: "length (take (Suc i) rounds) = Suc i" using i by simp
  show "m \<le> i" using failing_tail_nth(1) [OF m] len by simp
  moreover from this have "take (length (take (Suc i) rounds) - m) (take (Suc i) rounds) = take (Suc (i - m)) rounds"
    using i by (simp add: Suc_diff_le min.absorb1)
  ultimately show "failing_tail (take (Suc (i - m)) rounds) = drop m (failing_tail (take (Suc i) rounds))"
    using failing_tail_take [OF m] by simp
  assume k: "k \<in> {i - m..i}"
  then have "i - k < length (failing_tail (take (Suc i) rounds))" using m by auto
  from failing_tail_nth(2) [OF this] show "round_failed (rounds ! k)" using k len by (simp add: Suc_diff_Suc)
qed

section \<open>Properties\<close>

text \<open>
  C32: The guard judges a round by the history of its turn alone, whatever happened in between: the
  verdict on each round is a function of the failing rounds the turn then ends with. A turn whose last round had a success
  or no call goes on; otherwise it is stopped when the latest failing call stands at the head of the last three rounds
  or every call of the last six rounds failed, and warned when the call stands there twice or three rounds failed.
\<close>
theorem guard_judges_by_history:
  "verdicts shown rounds new_guard = map (\<lambda>k. verdict_of shown (take (Suc k) rounds)) [0..<length rounds]"
  using verdicts_from_history [of shown rounds "[]"] by simp

text \<open>
  No turn is stopped without a warning: before the first round the guard stops there is a round on
  which it told the model to change its approach, and every round from that one on failed.
\<close>
theorem stopped_after_a_warning:
  assumes i: "i < length rounds" "is_stop (verdicts shown rounds new_guard ! i)"
    and first: "\<forall>j<i. \<not> is_stop (verdicts shown rounds new_guard ! j)"
  shows "\<exists>j<i. is_redirect (verdicts shown rounds new_guard ! j) \<and>
    (\<forall>k\<in>{j..i}. round_failed (rounds ! k))"
proof -
  let ?h = "\<lambda>k. take (Suc k) rounds"
  let ?n = "length (failing_tail (?h i))"
  have v: "verdicts shown rounds new_guard ! k = verdict_of shown (?h k)" if "k \<le> i" for k
    using that i(1) by (simp add: nth_verdicts)
  have stop: "3 \<le> repeat_count shown (?h i) \<or> 6 \<le> ?n"
    using i(2) v [of i] by (auto simp: verdict_kinds)
  then have n: "3 \<le> ?n" using repeat_count_le [of shown "?h i"] by linarith
  then have n1: "1 < ?n" and n0: "0 < ?n" by linarith+
  have no_stop: "repeat_count shown (?h j) < 3 \<and> length (failing_tail (?h j)) < 6"
    if "j < i" "failing_tail (?h j) \<noteq> []" for j
    using first that v [of j] by (auto simp: verdict_kinds not_le)
  note t1 = going_back [OF i(1) n1]
  from n t1(2) have ne: "failing_tail (?h (i - 1)) \<noteq> []" by auto
  from stop show ?thesis
  proof
    assume repeats: "3 \<le> repeat_count shown (?h i)"
    have latest: "round_failed (rounds ! i)" by (rule going_back(3) [OF i(1) n0]) simp
    have snoc: "?h i = ?h (i - 1) @ [rounds ! i]"
      using t1(1) i(1) by (simp add: take_Suc_conv_app_nth)
    have "repeat_count shown (?h (i - 1)) \<ge> 2"
      using repeats repeat_count_snoc [OF latest, of shown "?h (i - 1)"]
      unfolding snoc [symmetric] by (auto split: if_splits)
    then have "is_redirect (verdict_of shown (?h (i - 1)))"
      using no_stop [OF _ ne] t1(1) ne by (auto simp: verdict_kinds)
    then show ?thesis
      using v [of "i - 1"] t1(1,3) by (intro exI [of _ "i - 1"]) auto
  next
    assume "6 \<le> ?n"
    moreover have "?n < 7" using no_stop [OF _ ne] t1(1,2) by auto
    ultimately have n6: "?n = 6" by simp
    then have "3 < ?n" by simp
    note t3 = going_back [OF i(1) this]
    have "length (failing_tail (?h (i - 3))) = 3" using t3(2) n6 by simp
    moreover from this have "failing_tail (?h (i - 3)) \<noteq> []" by auto
    ultimately have "is_redirect (verdict_of shown (?h (i - 3)))"
      using no_stop [of "i - 3"] t3(1) by (auto simp: verdict_kinds)
    then show ?thesis
      using v [of "i - 3"] t3(1,3) by (intro exI [of _ "i - 3"]) auto
  qed
qed

definition sample_round :: "tool_call list \<times> model_content list" where
  "sample_round = ([(''i'', ''bash'', JNull)], [Tool_Result ''i'' ''out'' True])"

lemma sample_verdicts:
  "verdicts (\<lambda>_. ''x'') [sample_round, sample_round, sample_round] new_guard =
     [Continue_Turn, Redirect repeated_note, Stop_Turn (repeated_reason 3)]"
  by (simp add: sample_round_def observe_round_def new_guard_def result_failed_def identical_failure_limit_def
      failing_rounds_limit_def failing_rounds_warning_def numeral_3_eq_3)

theorem stopped_after_a_warning_witness:
  "\<exists>j<2. is_redirect (verdicts (\<lambda>_. ''x'') [sample_round, sample_round, sample_round] new_guard ! j)"
proof -
  have "is_stop (verdicts (\<lambda>_. ''x'') [sample_round, sample_round, sample_round] new_guard ! 2)"
    "\<forall>j<2. \<not> is_stop (verdicts (\<lambda>_. ''x'') [sample_round, sample_round, sample_round] new_guard ! j)"
    by (auto simp: sample_verdicts is_stop_def less_2_cases_iff)
  from stopped_after_a_warning [OF _ this] show ?thesis by auto
qed

end
