(* ===== verification/Transcript_Budget.thy ===== *)
theory Transcript_Budget
  imports Context Loop_Guard Utf8
begin

text \<open>
  Fitting a conversation into a token budget: \<^verbatim>\<open>crates/arsy-code/src/agent/budget.rs\<close>. Old tool
  results give way to stubs, as the context selector ranks them; when that is not enough the older
  dialogue is folded into one summary. How a JSON value is printed is the parameter \<open>shown\<close>; the
  identifiers drawn are \<open>fresh k\<close>, \<open>fresh (k + 1)\<close>, ... Token counts are naturals with the
  arithmetic of \<open>u32\<close> written out.
\<close>

section \<open>Messages and their size\<close>

datatype model_role = Role_User | Role_Assistant

record model_message =
  mm_role :: model_role
  mm_content :: "model_content list"

type_synonym conversation = "model_message list"

definition bytes_per_token :: nat where
  "bytes_per_token = 4"

definition keep_recent :: nat where
  "keep_recent = 6"

definition max_summary_bytes :: nat where
  "max_summary_bytes = 2 * 1024"

definition elided_mark :: string where
  "elided_mark = ''[earlier result elided''"

definition estimate_tokens :: "string \<Rightarrow> nat" where
  "estimate_tokens text =
     (let tokens = (length text + (bytes_per_token - 1)) div bytes_per_token
      in if tokens \<le> u32_max then tokens else u32_max)"

text \<open>The sum of a call's two estimates is a plain \<open>+\<close> on \<open>u32\<close>.\<close>

definition content_tokens :: "(json \<Rightarrow> string) \<Rightarrow> model_content \<Rightarrow> nat" where
  "content_tokens shown c =
     (case c of
        Text_Content text \<Rightarrow> estimate_tokens text
      | Tool_Result _ body _ \<Rightarrow> estimate_tokens body
      | Tool_Call _ name arguments \<Rightarrow>
          (estimate_tokens name + estimate_tokens (shown arguments)) mod (u32_max + 1)
      | Image_Content _ _ \<Rightarrow> 0
      | Reasoning_State state \<Rightarrow> estimate_tokens (shown state))"

definition total_tokens :: "(json \<Rightarrow> string) \<Rightarrow> conversation \<Rightarrow> nat" where
  "total_tokens shown conv =
     foldl saturating_add32 0 (map (content_tokens shown) (concat (map mm_content conv)))"

record trimmed =
  tr_elided :: nat
  tr_summarized :: nat
  tr_before :: nat
  tr_after :: nat
  tr_summary :: "compaction_summary option"

definition trimmed_default :: trimmed where
  "trimmed_default = \<lparr>tr_elided = 0, tr_summarized = 0, tr_before = 0, tr_after = 0, tr_summary = None\<rparr>"

definition trimmed_changed :: "trimmed \<Rightarrow> bool" where
  "trimmed_changed t \<longleftrightarrow> tr_elided t > 0 \<or> tr_summarized t > 0"

section \<open>Observations\<close>

record tool_observation =
  ob_id :: string
  ob_message :: nat
  ob_content :: nat
  ob_tokens :: nat
  ob_recency :: nat

text \<open>The two nested \<open>enumerate()\<close> loops: every content with the message and the place it has.\<close>

definition placed_contents :: "conversation \<Rightarrow> (nat \<times> nat \<times> model_content) list" where
  "placed_contents conv =
     concat (map (\<lambda>(m, entry). map (\<lambda>(c, item). (m, c, item)) (enumerate 0 (mm_content entry))) (enumerate 0 conv))"

definition observation_at :: "nat \<times> nat \<times> model_content \<Rightarrow> tool_observation option" where
  "observation_at p =
     (case p of (m, c, item) \<Rightarrow>
        (case item of
           Tool_Result i body is_error \<Rightarrow>
             if is_error \<or> starts_with elided_mark body then None
             else Some \<lparr>ob_id = i, ob_message = m, ob_content = c, ob_tokens = estimate_tokens body, ob_recency = 0\<rparr>
         | _ \<Rightarrow> None))"

definition with_recency :: "tool_observation list \<Rightarrow> tool_observation list" where
  "with_recency found =
     (let newest = max (length found - 1) 1
      in map (\<lambda>(position, ob). ob\<lparr>ob_recency := min (let r = position * 10000 div newest in if r < 2 ^ 16 then r else 10000) 10000\<rparr>)
           (enumerate 0 found))"

definition tool_observations :: "conversation \<Rightarrow> tool_observation list" where
  "tool_observations conv = with_recency (List.map_filter observation_at (placed_contents conv))"

section \<open>Eliding\<close>

definition stub :: "string \<Rightarrow> nat \<Rightarrow> string" where
  "stub i tokens =
     elided_mark @ '' to stay within the context budget; call '' @ i @ '' produced roughly '' @ print_nat tokens @
     '' tokens. Read the file or re-run the command if you need it again.]''"

definition elide_one :: "tool_observation list \<Rightarrow> nat \<Rightarrow> conversation \<times> nat \<Rightarrow> conversation \<times> nat" where
  "elide_one obs index ce =
     (case ce of (conv, elided) \<Rightarrow>
        if index < length obs
        then (let ob = obs ! index; m = ob_message ob; c = ob_content ob
              in if m < length conv \<and> c < length (mm_content (conv ! m))
                 then (case mm_content (conv ! m) ! c of
                         Tool_Result i _ is_error \<Rightarrow>
                           (conv[m := (conv ! m)\<lparr>mm_content :=
                              (mm_content (conv ! m))[c := Tool_Result i (stub i (ob_tokens ob)) is_error]\<rparr>],
                            elided + 1)
                       | _ \<Rightarrow> (conv, elided))
                 else (conv, elided))
        else (conv, elided))"

definition elide_indexed ::
  "(json \<Rightarrow> string) \<Rightarrow> conversation \<Rightarrow> tool_observation list \<Rightarrow> nat list \<Rightarrow> nat \<Rightarrow> trimmed \<times> conversation" where
  "elide_indexed shown conv obs which before =
     (let (conv', elided) = fold (elide_one obs) which (conv, 0)
      in (trimmed_default\<lparr>tr_elided := elided, tr_before := before, tr_after := total_tokens shown conv'\<rparr>, conv'))"

definition elide_oldest ::
  "(json \<Rightarrow> string) \<Rightarrow> conversation \<Rightarrow> tool_observation list \<Rightarrow> nat \<Rightarrow> nat \<Rightarrow> trimmed \<times> conversation" where
  "elide_oldest shown conv obs count before =
     elide_indexed shown conv obs [0..<min count (length obs)] before"

section \<open>Ranking the observations\<close>

definition observation_weights :: ranking_weights where
  "observation_weights =
     \<lparr>rw_dependency = 0, rw_authority = 0, rw_relevance = 1, rw_recency = 8, rw_confidence = 0,
      rw_novelty = 0, rw_token_cost = 2\<rparr>"

definition observation_policy :: "nat \<Rightarrow> selection_policy" where
  "observation_policy remaining =
     \<lparr>sp_scope = Global, sp_require_trusted = False, sp_allowed_residencies = [], sp_budget = remaining\<rparr>"

text \<open>
  One observation as a fragment, or nothing where a constructor refuses it. The fragment's
  identifier is drawn before its source is checked, the artifact's after.
\<close>

definition observation_fragment ::
  "(nat \<Rightarrow> uuid) \<Rightarrow> nat \<Rightarrow> tool_observation \<Rightarrow> context_fragment option \<times> nat" where
  "observation_fragment fresh k ob =
     (case resource_ref_new ''tool'' (ob_id ob) of
        Inl _ \<Rightarrow> (None, k + 1)
      | Inr source \<Rightarrow>
          (case confidence_new 10000 of
             Inl _ \<Rightarrow> (None, k + 2)
           | Inr confidence \<Rightarrow>
               (case fragment_new
                  \<lparr>cf_id = fresh k, cf_kind = Tool_State, cf_source = source, cf_source_kind = From_Tool,
                   cf_scope = Global, cf_content = fresh (k + 1), cf_tokens = ob_tokens ob,
                   cf_authority = Untrusted, cf_confidence = confidence, cf_freshness = Current,
                   cf_dependencies = []\<rparr> of
                  Inl _ \<Rightarrow> (None, k + 2)
                | Inr f \<Rightarrow> (Some f, k + 2))))"

fun observation_fragments ::
  "(nat \<Rightarrow> uuid) \<Rightarrow> nat \<Rightarrow> tool_observation list \<Rightarrow> context_fragment list \<times> nat" where
  "observation_fragments fresh k [] = ([], k)"
| "observation_fragments fresh k (ob # obs) =
     (case observation_fragment fresh k ob of
        (f, k1) \<Rightarrow>
          (case observation_fragments fresh k1 obs of
             (fs, k2) \<Rightarrow> (case f of None \<Rightarrow> (fs, k2) | Some f \<Rightarrow> (f # fs, k2))))"

definition observation_candidates :: "context_fragment list \<Rightarrow> tool_observation list \<Rightarrow> context_candidate list" where
  "observation_candidates fragments obs =
     map (\<lambda>(f, ob). \<lparr>cc_fragment = f, cc_residency = ''local'', cc_relevance = 10000,
                     cc_recency = ob_recency ob, cc_novelty = 0\<rparr>) (zip fragments obs)"

definition dropped_positions :: "context_fragment list \<Rightarrow> omission list \<Rightarrow> nat list" where
  "dropped_positions fragments omissions =
     List.map_filter (\<lambda>om. index_of (\<lambda>f. cf_id f = om_fragment om) fragments)
       (filter (\<lambda>om. om_reason om = TokenBudget) omissions)"

definition trim_observations ::
  "(json \<Rightarrow> string) \<Rightarrow> (nat \<Rightarrow> uuid) \<Rightarrow> nat \<Rightarrow> conversation \<Rightarrow> nat \<Rightarrow> (trimmed \<times> conversation) \<times> nat" where
  "trim_observations shown fresh k conv budget =
     (let before = total_tokens shown conv
      in if before \<le> budget
         then ((trimmed_default\<lparr>tr_before := before, tr_after := before\<rparr>, conv), k)
         else
           (let obs = tool_observations conv;
                fixed = before - foldl saturating_add32 0 (map ob_tokens obs);
                remaining = budget - fixed;
                (fragments, k1) = observation_fragments fresh k obs
            in (case select_view (fresh k1) (observation_candidates fragments obs)
                       (observation_policy remaining) observation_weights of
                  Inl _ \<Rightarrow> elide_oldest shown conv obs (length obs div 2) before
                | Inr view \<Rightarrow>
                    elide_indexed shown conv obs (dropped_positions fragments (vw_omissions view)) before,
                k1 + 1)))"

section \<open>Folding the dialogue\<close>

definition is_text :: "model_content \<Rightarrow> bool" where
  "is_text c = (case c of Text_Content _ \<Rightarrow> True | _ \<Rightarrow> False)"

definition is_result :: "model_content \<Rightarrow> bool" where
  "is_result c = (case c of Tool_Result _ _ _ \<Rightarrow> True | _ \<Rightarrow> False)"

text \<open>\<open>rposition\<close>: the last place where \<open>p\<close> holds.\<close>

definition last_index_of :: "('a \<Rightarrow> bool) \<Rightarrow> 'a list \<Rightarrow> nat option" where
  "last_index_of p xs = map_option (\<lambda>i. length xs - Suc i) (index_of p (rev xs))"

definition latest_instruction :: "conversation \<Rightarrow> nat option" where
  "latest_instruction conv =
     last_index_of (\<lambda>m. mm_role m = Role_User \<and> list_ex is_text (mm_content m) \<and>
       \<not> list_ex is_result (mm_content m)) conv"

definition compaction_cut :: "conversation \<Rightarrow> nat option" where
  "compaction_cut conv =
     (if length conv < keep_recent then None
      else (let limit = length conv - keep_recent
            in case find (\<lambda>cut_at. cut_at < length conv \<longrightarrow> \<not> list_ex is_result (mm_content (conv ! cut_at)))
                      (rev [2..<limit + 1]) of
                 None \<Rightarrow> None
               | Some cut_at \<Rightarrow> if cut_at \<ge> 2 then Some cut_at else None))"

text \<open>The first sentence's worth of a text, on one line.\<close>

definition head_line :: "string \<Rightarrow> string" where
  "head_line text =
     (let trimmed = map (\<lambda>c. if c = CHR 0x0A then CHR '' '' else c) (trim text);
          cut_at = boundary_below trimmed (min 160 (length trimmed))
      in if cut_at < length trimmed then take cut_at trimmed @ ''...'' else trimmed)"

definition call_target :: "json \<Rightarrow> string" where
  "call_target arguments =
     (case List.map_filter (\<lambda>key. Option.bind (json_get arguments key) as_str)
             [''path'', ''command'', ''pattern'', ''query'', ''url''] of
        [] \<Rightarrow> []
      | target # _ \<Rightarrow> '' '' @ head_line target)"

definition role_name :: "model_role \<Rightarrow> string" where
  "role_name r = (case r of Role_User \<Rightarrow> ''User'' | Role_Assistant \<Rightarrow> ''Assistant'')"

definition summary_line :: "model_role \<Rightarrow> model_content \<Rightarrow> string option" where
  "summary_line role item =
     (case item of
        Reasoning_State _ \<Rightarrow> None
      | Text_Content text \<Rightarrow> Some (role_name role @ '': '' @ head_line text)
      | Tool_Call _ name arguments \<Rightarrow> Some (''called '' @ name @ call_target arguments)
      | Tool_Result i _ is_error \<Rightarrow> Some (''result of '' @ i @ (if is_error then '' (failed)'' else []))
      | Image_Content media_type _ \<Rightarrow> Some (''an attached '' @ media_type))"

type_synonym history = "event_citation list"

definition summary_header :: "nat \<Rightarrow> history option \<Rightarrow> string" where
  "summary_header count history =
     ''['' @ print_nat count @ '' earlier messages were compacted to stay within the context budget. '' @
     (case history of
        Some (c # cs) \<Rightarrow>
          ''The originals are events '' @ join_with '', '' (map (print_nat \<circ> ec_sequence) (c # cs)) @
          '' of this session; `arsy session export` reads them.]'' @ [CHR 0x0A]
      | _ \<Rightarrow>
          ''The originals are recorded as this session's `turn.transcript` events; '' @
          ''`arsy session export` reads them.]'' @ [CHR 0x0A])"

fun push_lines :: "string \<Rightarrow> string list \<Rightarrow> string" where
  "push_lines text [] = text"
| "push_lines text (line # lines) =
     (if length text + length line > max_summary_bytes then text @ ''...'' @ [CHR 0x0A]
      else push_lines (text @ line @ [CHR 0x0A]) lines)"

definition describe :: "conversation \<Rightarrow> history option \<Rightarrow> string" where
  "describe folded history =
     push_lines (summary_header (length folded) history)
       (concat (map (\<lambda>m. List.map_filter (summary_line (mm_role m)) (mm_content m)) folded))"

definition citable ::
  "(nat \<Rightarrow> uuid) \<Rightarrow> nat \<Rightarrow> string \<Rightarrow> event_citation list \<Rightarrow> compaction_summary option \<times> nat" where
  "citable fresh k text citations =
     (case resource_ref_new ''event'' ''compaction'' of
        Inl _ \<Rightarrow> (None, k + 1)
      | Inr source \<Rightarrow>
          (case confidence_new 10000 of
             Inl _ \<Rightarrow> (None, k + 2)
           | Inr confidence \<Rightarrow>
               (case fragment_new
                  \<lparr>cf_id = fresh k, cf_kind = Summary, cf_source = source, cf_source_kind = Derived,
                   cf_scope = Global, cf_content = fresh (k + 1), cf_tokens = estimate_tokens text,
                   cf_authority = Untrusted, cf_confidence = confidence, cf_freshness = Current,
                   cf_dependencies = []\<rparr> of
                  Inl _ \<Rightarrow> (None, k + 2)
                | Inr f \<Rightarrow>
                    (case summary_new f citations of
                       Inl _ \<Rightarrow> (None, k + 2)
                     | Inr s \<Rightarrow> (Some s, k + 2)))))"

definition kept_note :: string where
  "kept_note = ''The request this turn is working on, kept whole:''"

definition compact_dialogue ::
  "(nat \<Rightarrow> uuid) \<Rightarrow> nat \<Rightarrow> conversation \<Rightarrow> nat \<Rightarrow> history option \<Rightarrow> (trimmed \<times> conversation) \<times> nat" where
  "compact_dialogue fresh k conv budget history =
     (case compaction_cut conv of
        None \<Rightarrow> ((trimmed_default, conv), k)
      | Some cut_at \<Rightarrow>
          (let current = Option.bind (latest_instruction conv) (\<lambda>i. if 1 \<le> i \<and> i < cut_at then Some i else None);
               drained = drop 1 (take cut_at conv);
               remaining = take 1 conv @ drop cut_at conv;
               (folded, kept) = (case current of
                                   None \<Rightarrow> (drained, None)
                                 | Some i \<Rightarrow> (take (i - 1) drained @ drop i drained, Some (drained ! (i - 1))));
               text = describe folded history;
               content = Text_Content text #
                 (case kept of None \<Rightarrow> [] | Some m \<Rightarrow> Text_Content kept_note # mm_content m);
               (summary, k1) = (case history of None \<Rightarrow> (None, k) | Some citations \<Rightarrow> citable fresh k text citations)
           in ((trimmed_default\<lparr>tr_summarized := length folded, tr_summary := summary\<rparr>,
                take 1 remaining @ [\<lparr>mm_role = Role_User, mm_content = content\<rparr>] @ drop 1 remaining), k1)))"

section \<open>Fitting a conversation\<close>

datatype budget_stage = Eliding | Folding

text \<open>The last component are the stages reported, in order.\<close>

definition fit_reporting ::
  "(json \<Rightarrow> string) \<Rightarrow> (nat \<Rightarrow> uuid) \<Rightarrow> nat \<Rightarrow> conversation \<Rightarrow> nat \<Rightarrow> history option
    \<Rightarrow> ((trimmed \<times> conversation) \<times> nat) \<times> budget_stage list" where
  "fit_reporting shown fresh k conv budget history =
     (let reported = (if total_tokens shown conv > budget then [Eliding] else []);
          ((t, conv1), k1) = trim_observations shown fresh k conv budget
      in if tr_after t \<le> budget then (((t, conv1), k1), reported)
         else (case compact_dialogue fresh k1 conv1 budget history of
                 ((compacted, conv2), k2) \<Rightarrow>
                   (((t\<lparr>tr_summarized := tr_summarized compacted, tr_summary := tr_summary compacted,
                        tr_after := total_tokens shown conv2\<rparr>, conv2), k2), reported @ [Folding])))"

definition fit_conversation ::
  "(json \<Rightarrow> string) \<Rightarrow> (nat \<Rightarrow> uuid) \<Rightarrow> nat \<Rightarrow> conversation \<Rightarrow> nat \<Rightarrow> history option
    \<Rightarrow> (trimmed \<times> conversation) \<times> nat" where
  "fit_conversation shown fresh k conv budget history = fst (fit_reporting shown fresh k conv budget history)"

definition compact_conversation ::
  "(json \<Rightarrow> string) \<Rightarrow> (nat \<Rightarrow> uuid) \<Rightarrow> nat \<Rightarrow> conversation \<Rightarrow> history option
    \<Rightarrow> (trimmed \<times> conversation) \<times> nat" where
  "compact_conversation shown fresh k conv history =
     (case compact_dialogue fresh k conv 0 history of
        ((t, conv'), k1) \<Rightarrow>
          ((t\<lparr>tr_before := total_tokens shown conv, tr_after := total_tokens shown conv'\<rparr>, conv'), k1))"

text \<open>\<open>view_reporting\<close> fits a copy: the conversation it gets, it still has.\<close>

definition view_reporting ::
  "(json \<Rightarrow> string) \<Rightarrow> (nat \<Rightarrow> uuid) \<Rightarrow> nat \<Rightarrow> conversation \<Rightarrow> nat \<Rightarrow> history option
    \<Rightarrow> ((conversation \<times> trimmed) \<times> conversation \<times> nat) \<times> budget_stage list" where
  "view_reporting shown fresh k conv budget history =
     (case fit_reporting shown fresh k conv budget history of
        (((t, view), k1), reported) \<Rightarrow> (((view, t), conv, k1), reported))"

text \<open>The plain forms of the operations above.\<close>

definition trim_transcript ::
  "(json \<Rightarrow> string) \<Rightarrow> (nat \<Rightarrow> uuid) \<Rightarrow> nat \<Rightarrow> conversation \<Rightarrow> nat \<Rightarrow> (trimmed \<times> conversation) \<times> nat" where
  "trim_transcript shown fresh k conv budget = trim_observations shown fresh k conv budget"

definition conversation_tokens :: "(json \<Rightarrow> string) \<Rightarrow> conversation \<Rightarrow> nat" where
  "conversation_tokens shown conv = total_tokens shown conv"

definition view_conversation ::
  "(json \<Rightarrow> string) \<Rightarrow> (nat \<Rightarrow> uuid) \<Rightarrow> nat \<Rightarrow> conversation \<Rightarrow> nat \<Rightarrow> history option
    \<Rightarrow> (conversation \<times> trimmed) \<times> conversation \<times> nat" where
  "view_conversation shown fresh k conv budget history = fst (view_reporting shown fresh k conv budget history)"

end
