(* ===== verification/Transcript_Laws.thy ===== *)
theory Transcript_Laws
  imports Transcript_Budget Context_Laws
begin

text \<open>
  How eliding and folding change a conversation: eliding as a map over the placed contents, folding
  as one split of the messages.
\<close>

section \<open>Conversations changed in place\<close>

definition place_map :: "(nat \<times> nat \<Rightarrow> model_content \<Rightarrow> model_content) \<Rightarrow> conversation \<Rightarrow> conversation" where
  "place_map f conv =
     map (\<lambda>(m, entry). entry\<lparr>mm_content := map (\<lambda>(c, item). f (m, c) item) (enumerate 0 (mm_content entry))\<rparr>)
       (enumerate 0 conv)"

lemma length_place_map [simp]: "length (place_map f conv) = length conv"
  by (simp add: place_map_def)

lemma nth_place_map:
  "m < length conv \<Longrightarrow> place_map f conv ! m =
     (conv ! m)\<lparr>mm_content := map (\<lambda>(c, item). f (m, c) item) (enumerate 0 (mm_content (conv ! m)))\<rparr>"
  by (simp add: place_map_def nth_enumerate_eq)

lemma place_map_role [simp]: "m < length conv \<Longrightarrow> mm_role (place_map f conv ! m) = mm_role (conv ! m)"
  by (simp add: nth_place_map)

lemma place_map_contents [simp]:
  "m < length conv \<Longrightarrow> length (mm_content (place_map f conv ! m)) = length (mm_content (conv ! m))"
  by (simp add: nth_place_map)

lemma place_map_content [simp]:
  "m < length conv \<Longrightarrow> c < length (mm_content (conv ! m)) \<Longrightarrow>
   mm_content (place_map f conv ! m) ! c = f (m, c) (mm_content (conv ! m) ! c)"
  by (simp add: nth_place_map nth_enumerate_eq)

lemma conversation_eqI:
  assumes "length conv = length conv'"
    and "\<And>m. m < length conv \<Longrightarrow> mm_role (conv ! m) = mm_role (conv' ! m)"
    and "\<And>m. m < length conv \<Longrightarrow> length (mm_content (conv ! m)) = length (mm_content (conv' ! m))"
    and "\<And>m c. m < length conv \<Longrightarrow> c < length (mm_content (conv ! m)) \<Longrightarrow>
      mm_content (conv ! m) ! c = mm_content (conv' ! m) ! c"
  shows "conv = (conv' :: conversation)"
  by (rule nth_equalityI) (use assms in \<open>auto intro!: model_message.equality nth_equalityI\<close>)

lemma place_map_id:
  "(\<And>m c. m < length conv \<Longrightarrow> c < length (mm_content (conv ! m)) \<Longrightarrow>
      f (m, c) (mm_content (conv ! m) ! c) = mm_content (conv ! m) ! c) \<Longrightarrow> place_map f conv = conv"
  by (rule conversation_eqI) simp_all

lemma place_map_update:
  assumes "m < length conv" and "c < length (mm_content (conv ! m))"
  shows "conv[m := (conv ! m)\<lparr>mm_content := (mm_content (conv ! m))[c := item]\<rparr>] =
    place_map (\<lambda>p old. if p = (m, c) then item else old) conv"
  by (rule conversation_eqI) (use assms in \<open>auto simp: nth_list_update\<close>)

section \<open>Placed contents\<close>

lemma placed_contents_iff:
  "(m, c, item) \<in> set (placed_contents conv) \<longleftrightarrow>
     m < length conv \<and> c < length (mm_content (conv ! m)) \<and> item = mm_content (conv ! m) ! c"
  by (force simp: placed_contents_def in_set_enumerate_eq)

lemma placed_contents_map:
  "placed_contents (place_map f conv) = map (\<lambda>(m, c, item). (m, c, f (m, c) item)) (placed_contents conv)"
proof -
  have inner: "enumerate 0 (map (\<lambda>p. f (m, fst p) (snd p)) (enumerate 0 xs)) =
      map (\<lambda>p. (fst p, f (m, fst p) (snd p))) (enumerate 0 xs)" for m xs
    by (rule nth_equalityI) (simp_all add: nth_enumerate_eq)
  have outer: "enumerate 0 (place_map f conv) =
      map (\<lambda>(m, entry). (m, entry\<lparr>mm_content := map (\<lambda>(c, item). f (m, c) item) (enumerate 0 (mm_content entry))\<rparr>))
        (enumerate 0 conv)"
    by (rule nth_equalityI) (simp_all add: nth_enumerate_eq nth_place_map)
  show ?thesis
    unfolding placed_contents_def outer
    by (simp add: map_concat comp_def case_prod_unfold inner)
qed

definition place_of :: "nat \<times> nat \<times> model_content \<Rightarrow> nat \<times> nat" where
  "place_of p = (fst p, fst (snd p))"

lemma places_distinct:
  "distinct (concat (map (\<lambda>(m, entry). map (Pair m) [0..<length (mm_content entry)]) (enumerate n conv)))"
proof (induction conv arbitrary: n)
  case (Cons entry conv)
  show ?case
    using Cons.IH [of "Suc n"] by (auto simp: distinct_map inj_on_def in_set_enumerate_eq)
qed simp

lemma placed_contents_places:
  "map place_of (placed_contents conv) =
     concat (map (\<lambda>(m, entry). map (Pair m) [0..<length (mm_content entry)]) (enumerate 0 conv))"
proof -
  have "map (place_of \<circ> (\<lambda>(c, item). (m, c, item))) (enumerate 0 xs) = map (Pair m) [0..<length xs]" for m and xs :: "model_content list"
    by (rule nth_equalityI) (simp_all add: nth_enumerate_eq place_of_def)
  then show ?thesis
    by (simp add: placed_contents_def map_concat comp_def case_prod_unfold)
qed

lemma placed_contents_distinct: "distinct (map place_of (placed_contents conv))"
  by (simp only: placed_contents_places places_distinct)

section \<open>Observations\<close>

text \<open>Where an observation is, and that it is there.\<close>

definition ob_place :: "tool_observation \<Rightarrow> nat \<times> nat" where
  "ob_place ob = (ob_message ob, ob_content ob)"

definition observed :: "conversation \<Rightarrow> tool_observation \<Rightarrow> bool" where
  "observed conv ob \<longleftrightarrow>
     (\<exists>body. ob_message ob < length conv \<and> ob_content ob < length (mm_content (conv ! ob_message ob)) \<and>
        mm_content (conv ! ob_message ob) ! ob_content ob = Tool_Result (ob_id ob) body False \<and>
        \<not> starts_with elided_mark body \<and> ob_tokens ob = estimate_tokens body)"

lemma with_recency_facts [simp]:
  "length (with_recency obs) = length obs" "map ob_tokens (with_recency obs) = map ob_tokens obs"
  "map ob_place (with_recency obs) = map ob_place obs" "map ob_id (with_recency obs) = map ob_id obs"
  by (auto simp: with_recency_def Let_def case_prod_unfold comp_def ob_place_def nth_enumerate_eq intro!: nth_equalityI)

lemma with_recency_recency: "ob \<in> set (with_recency obs) \<Longrightarrow> ob_recency ob \<le> 10000"
  by (auto simp: with_recency_def Let_def)

lemma with_recency_old:
  assumes "ob \<in> set (with_recency obs)"
  shows "\<exists>old r. old \<in> set obs \<and> ob = old\<lparr>ob_recency := r\<rparr>"
proof -
  from assms obtain i where i: "i < length obs" "ob = with_recency obs ! i" by (auto simp: in_set_conv_nth)
  then have "\<exists>r. ob = (obs ! i)\<lparr>ob_recency := r\<rparr>"
    by (simp only: with_recency_def Let_def) (auto simp: nth_enumerate_eq)
  with i(1) show ?thesis using nth_mem by blast
qed

lemma with_recency_observed:
  "(\<And>ob. ob \<in> set obs \<Longrightarrow> observed conv ob) \<Longrightarrow> ob \<in> set (with_recency obs) \<Longrightarrow> observed conv ob"
  by (auto simp: observed_def dest!: with_recency_old)

lemma observation_at_SomeD:
  "observation_at p = Some ob \<Longrightarrow> ob_place ob = place_of p \<and>
     (\<exists>body. snd (snd p) = Tool_Result (ob_id ob) body False \<and> \<not> starts_with elided_mark body \<and>
        ob_tokens ob = estimate_tokens body)"
  by (auto simp: observation_at_def ob_place_def place_of_def split: prod.splits model_content.splits if_splits)

lemma observations_observed: "ob \<in> set (tool_observations conv) \<Longrightarrow> observed conv ob"
  unfolding tool_observations_def
proof (erule with_recency_observed [rotated])
  fix ob assume "ob \<in> set (List.map_filter observation_at (placed_contents conv))"
  then obtain p where p: "p \<in> set (placed_contents conv)" "observation_at p = Some ob"
    by (auto simp: map_filter_def)
  obtain m c item where "p = (m, c, item)" by (cases p)
  with p observation_at_SomeD [OF p(2)] show "observed conv ob"
    by (auto simp: placed_contents_iff ob_place_def place_of_def observed_def)
qed

lemma map_filter_distinct:
  assumes "distinct (map g xs)" and "\<And>x y. f x = Some y \<Longrightarrow> h y = g x"
  shows "distinct (map h (List.map_filter f xs))"
proof -
  have "h ` set (List.map_filter f ys) \<subseteq> g ` set ys" for ys
    using assms(2) by (auto simp: map_filter_def image_iff)
  then show ?thesis
    using assms(1) by (induction xs) (auto simp: map_filter_simps assms(2) split: option.splits)
qed

lemma observations_distinct: "distinct (map ob_place (tool_observations conv))"
  by (simp add: tool_observations_def map_filter_distinct [OF placed_contents_distinct] observation_at_SomeD)

section \<open>Eliding\<close>

definition elide_at :: "(nat \<times> nat) set \<Rightarrow> nat \<times> nat \<Rightarrow> model_content \<Rightarrow> model_content" where
  "elide_at E p item =
     (case item of
        Tool_Result i body is_error \<Rightarrow>
          if p \<in> E then Tool_Result i (stub i (estimate_tokens body)) is_error else item
      | _ \<Rightarrow> item)"

definition places :: "tool_observation list \<Rightarrow> nat list \<Rightarrow> (nat \<times> nat) set" where
  "places obs which = (\<lambda>i. ob_place (obs ! i)) ` {i \<in> set which. i < length obs}"

lemma places_simps [simp]:
  "places obs [] = {}"
  "places obs (i # which) = (if i < length obs then insert (ob_place (obs ! i)) (places obs which) else places obs which)"
  by (auto simp: places_def)

lemma elide_at_empty [simp]: "elide_at {} p item = item"
  by (cases item) (simp_all add: elide_at_def)

lemma place_map_elide_empty [simp]: "place_map (elide_at {}) conv = conv"
  by (rule place_map_id) simp

lemma elide_one_place_map:
  assumes seen: "\<And>ob. ob \<in> set obs \<Longrightarrow> observed conv ob"
  shows "elide_one obs i (place_map (elide_at E) conv, n) =
    (if i < length obs then (place_map (elide_at (insert (ob_place (obs ! i)) E)) conv, n + 1)
     else (place_map (elide_at E) conv, n))"
proof (cases "i < length obs")
  case True
  define m c where "m = ob_message (obs ! i)" and "c = ob_content (obs ! i)"
  from seen [OF nth_mem [OF True]] obtain body where
    at: "m < length conv" "c < length (mm_content (conv ! m))"
    and item: "mm_content (conv ! m) ! c = Tool_Result (ob_id (obs ! i)) body False"
    and size: "ob_tokens (obs ! i) = estimate_tokens body"
    by (auto simp: observed_def m_def c_def)
  let ?now = "place_map (elide_at E) conv"
  let ?item = "Tool_Result (ob_id (obs ! i)) (stub (ob_id (obs ! i)) (estimate_tokens body)) False"
  have "\<exists>body'. mm_content (?now ! m) ! c = Tool_Result (ob_id (obs ! i)) body' False"
    using at by (simp add: item elide_at_def)
  then obtain body' where now: "mm_content (?now ! m) ! c = Tool_Result (ob_id (obs ! i)) body' False" ..
  have "elide_one obs i (?now, n) =
      (?now[m := (?now ! m)\<lparr>mm_content := (mm_content (?now ! m))[c := ?item]\<rparr>], n + 1)"
    unfolding elide_one_def Let_def m_def [symmetric] c_def [symmetric]
    using True at now size by simp
  also have "?now[m := (?now ! m)\<lparr>mm_content := (mm_content (?now ! m))[c := ?item]\<rparr>] =
      place_map (\<lambda>p old. if p = (m, c) then ?item else old) ?now"
    by (rule place_map_update) (use at in simp_all)
  also have "\<dots> = place_map (elide_at (insert (m, c) E)) conv"
    by (rule conversation_eqI) (use at item in \<open>auto simp: elide_at_def split: model_content.splits\<close>)
  finally show ?thesis
    using True by (simp add: ob_place_def m_def c_def)
qed (simp add: elide_one_def)

lemma elide_all_place_map:
  assumes "\<And>ob. ob \<in> set obs \<Longrightarrow> observed conv ob"
  shows "fold (elide_one obs) which (place_map (elide_at E) conv, n) =
    (place_map (elide_at (E \<union> places obs which)) conv, n + length (filter (\<lambda>i. i < length obs) which))"
  by (induction which arbitrary: E n) (simp_all add: elide_one_place_map [OF assms])

lemma elide_indexed_place_map:
  assumes "\<And>ob. ob \<in> set obs \<Longrightarrow> observed conv ob"
  shows "elide_indexed shown conv obs which before =
    (trimmed_default\<lparr>tr_elided := length (filter (\<lambda>i. i < length obs) which), tr_before := before,
        tr_after := total_tokens shown (place_map (elide_at (places obs which)) conv)\<rparr>,
     place_map (elide_at (places obs which)) conv)"
  using elide_all_place_map [OF assms, where E = "{}" and n = 0] by (simp add: elide_indexed_def)

text \<open>What trimming picks: the dropped positions, or the oldest half where the selector refuses.\<close>

definition trim_picks :: "(nat \<Rightarrow> uuid) \<Rightarrow> nat \<Rightarrow> tool_observation list \<Rightarrow> nat \<Rightarrow> nat list" where
  "trim_picks fresh k obs remaining =
     (let (fragments, k1) = observation_fragments fresh k obs
      in case select_view (fresh k1) (observation_candidates fragments obs) (observation_policy remaining)
                observation_weights of
           Inl _ \<Rightarrow> [0..<min (length obs div 2) (length obs)]
         | Inr view \<Rightarrow> dropped_positions fragments (vw_omissions view))"

definition fixed_tokens :: "(json \<Rightarrow> string) \<Rightarrow> conversation \<Rightarrow> nat" where
  "fixed_tokens shown conv =
     total_tokens shown conv - foldl saturating_add32 0 (map ob_tokens (tool_observations conv))"

lemma trim_within: "total_tokens shown conv \<le> budget \<Longrightarrow>
  trim_observations shown fresh k conv budget =
    ((trimmed_default\<lparr>tr_before := total_tokens shown conv, tr_after := total_tokens shown conv\<rparr>, conv), k)"
  by (simp add: trim_observations_def Let_def)

lemma trim_beyond:
  fixes fresh :: "nat \<Rightarrow> uuid" and k :: nat
  assumes "budget < total_tokens shown conv"
  defines "which \<equiv> trim_picks fresh k (tool_observations conv) (budget - fixed_tokens shown conv)"
  defines "conv' \<equiv> place_map (elide_at (places (tool_observations conv) which)) conv"
  shows "fst (trim_observations shown fresh k conv budget) =
    (trimmed_default\<lparr>tr_elided := length (filter (\<lambda>i. i < length (tool_observations conv)) which),
        tr_before := total_tokens shown conv, tr_after := total_tokens shown conv'\<rparr>, conv')"
  using assms(1) unfolding conv'_def which_def
  by (simp add: trim_observations_def trim_picks_def fixed_tokens_def elide_oldest_def Let_def
      elide_indexed_place_map [OF observations_observed] split: prod.split sum.split)

lemma trim_conversation:
  "\<exists>E. E \<subseteq> ob_place ` set (tool_observations conv) \<and>
     snd (fst (trim_observations shown fresh k conv budget)) = place_map (elide_at E) conv"
proof (cases "total_tokens shown conv \<le> budget")
  case True
  then show ?thesis by (intro exI [of _ "{}"]) (simp add: trim_within)
next
  case False
  then show ?thesis
    by (intro exI [of _ "places (tool_observations conv) (trim_picks fresh k (tool_observations conv) (budget - fixed_tokens shown conv))"])
      (auto simp: trim_beyond places_def)
qed

lemma trim_counts:
  "tr_before (fst (fst (trim_observations shown fresh k conv budget))) = total_tokens shown conv"
  "tr_after (fst (fst (trim_observations shown fresh k conv budget))) =
     total_tokens shown (snd (fst (trim_observations shown fresh k conv budget)))"
  by (cases "total_tokens shown conv \<le> budget"; simp add: trim_within trim_beyond)+

section \<open>Observations that stay whole\<close>

lemma stub_marked [simp]: "starts_with elided_mark (stub i tokens)"
  by (simp add: stub_def)

lemma observation_at_elided:
  "observation_at (m, c, elide_at E (m, c) item) =
     (case observation_at (m, c, item) of None \<Rightarrow> None | Some ob \<Rightarrow> if ob_place ob \<in> E then None else Some ob)"
  by (cases item) (auto simp: observation_at_def elide_at_def ob_place_def)

lemma map_filter_elided:
  "List.map_filter observation_at (map (\<lambda>(m, c, item). (m, c, elide_at E (m, c) item)) ps) =
     filter (\<lambda>ob. ob_place ob \<notin> E) (List.map_filter observation_at ps)"
  by (induction ps) (auto simp: map_filter_simps observation_at_elided split: option.splits)

text \<open>What an observation is beside its rank.\<close>

definition ob_facts :: "tool_observation \<Rightarrow> (nat \<times> nat) \<times> nat" where
  "ob_facts ob = (ob_place ob, ob_tokens ob)"

lemma with_recency_ob_facts [simp]: "map ob_facts (with_recency obs) = map ob_facts obs"
  by (auto simp: with_recency_def Let_def case_prod_unfold comp_def ob_facts_def ob_place_def nth_enumerate_eq
      intro!: nth_equalityI)

lemma observations_elided:
  "map ob_facts (tool_observations (place_map (elide_at E) conv)) =
     filter (\<lambda>x. fst x \<notin> E) (map ob_facts (tool_observations conv))"
  by (simp add: tool_observations_def placed_contents_map map_filter_elided filter_map comp_def ob_facts_def [of x for x])

lemma whole_tokens:
  "(\<Sum>ob\<leftarrow>tool_observations (place_map (elide_at E) conv). ob_tokens ob) =
     (\<Sum>ob\<leftarrow>filter (\<lambda>ob. ob_place ob \<notin> E) (tool_observations conv). ob_tokens ob)"
proof -
  have "map ob_tokens obs = map snd (map ob_facts obs)" for obs
    by (simp add: ob_facts_def)
  then show ?thesis
    by (simp only: observations_elided) (simp add: filter_map comp_def ob_facts_def)
qed

section \<open>The selector on observations\<close>

definition fragment_made :: "(nat \<Rightarrow> uuid) \<Rightarrow> nat \<Rightarrow> tool_observation \<Rightarrow> context_fragment" where
  "fragment_made fresh k ob =
     \<lparr>cf_id = fresh k, cf_kind = Tool_State, cf_source = \<lparr>rr_scheme = ''tool'', rr_value = ob_id ob\<rparr>,
      cf_source_kind = From_Tool, cf_scope = Global, cf_content = fresh (k + 1), cf_tokens = ob_tokens ob,
      cf_authority = Untrusted, cf_confidence = 10000, cf_freshness = Current, cf_dependencies = []\<rparr>"

lemma tool_scheme: "valid_scheme ''tool''"
  by code_simp

lemma observation_fragment_eq:
  "observation_fragment fresh k ob =
     (if ob_id ob = [] then (None, k + 1) else (Some (fragment_made fresh k ob), k + 2))"
  by (simp add: observation_fragment_def resource_ref_new_def tool_scheme confidence_new_def fragment_new_def
      fragment_made_def)

lemma observation_fragments_named:
  assumes "\<And>ob. ob \<in> set obs \<Longrightarrow> ob_id ob \<noteq> []"
  shows "length (fst (observation_fragments fresh k obs)) = length obs \<and>
    snd (observation_fragments fresh k obs) = k + 2 * length obs \<and>
    (\<forall>j<length obs. fst (observation_fragments fresh k obs) ! j = fragment_made fresh (k + 2 * j) (obs ! j))"
  using assms
proof (induction obs arbitrary: k)
  case (Cons ob obs)
  then have "ob_id ob \<noteq> []" by simp
  with Cons.IH [of "k + 2"] Cons.prems show ?case
    by (auto simp: observation_fragment_eq case_prod_unfold nth_Cons' less_Suc_eq_0_disj)
qed simp

definition candidate_made :: "(nat \<Rightarrow> uuid) \<Rightarrow> nat \<Rightarrow> tool_observation list \<Rightarrow> nat \<Rightarrow> context_candidate" where
  "candidate_made fresh k obs j =
     \<lparr>cc_fragment = fragment_made fresh (k + 2 * j) (obs ! j), cc_residency = ''local'', cc_relevance = 10000,
      cc_recency = ob_recency (obs ! j), cc_novelty = 0\<rparr>"

lemma fragment_made_facts [simp]:
  "cf_id (fragment_made fresh k ob) = fresh k" "cf_tokens (fragment_made fresh k ob) = ob_tokens ob"
  "cf_dependencies (fragment_made fresh k ob) = []" "cf_scope (fragment_made fresh k ob) = Global"
  by (simp_all add: fragment_made_def)

lemma candidate_made_facts [simp]:
  "cc_fragment (candidate_made fresh k obs j) = fragment_made fresh (k + 2 * j) (obs ! j)"
  "cc_relevance (candidate_made fresh k obs j) = 10000" "cc_novelty (candidate_made fresh k obs j) = 0"
  "cc_recency (candidate_made fresh k obs j) = ob_recency (obs ! j)"
  by (simp_all add: candidate_made_def)

definition selectable :: "(nat \<Rightarrow> uuid) \<Rightarrow> tool_observation list \<Rightarrow> bool" where
  "selectable fresh obs \<longleftrightarrow> inj fresh \<and> length obs \<le> max_context_fragments \<and>
     (\<forall>ob\<in>set obs. ob_id ob \<noteq> [] \<and> ob_recency ob \<le> 10000)"

lemma selectable_fragments:
  assumes "selectable fresh obs"
  shows "fst (observation_fragments fresh k obs) = map (\<lambda>j. fragment_made fresh (k + 2 * j) (obs ! j)) [0..<length obs]"
    and "observation_candidates (fst (observation_fragments fresh k obs)) obs =
      map (candidate_made fresh k obs) [0..<length obs]"
proof -
  have "length (fst (observation_fragments fresh k obs)) = length obs \<and>
    (\<forall>j<length obs. fst (observation_fragments fresh k obs) ! j = fragment_made fresh (k + 2 * j) (obs ! j))"
    using observation_fragments_named [of obs fresh k] assms by (auto simp: selectable_def)
  then show "fst (observation_fragments fresh k obs) = map (\<lambda>j. fragment_made fresh (k + 2 * j) (obs ! j)) [0..<length obs]"
    by (intro nth_equalityI) simp_all
  then show "observation_candidates (fst (observation_fragments fresh k obs)) obs =
      map (candidate_made fresh k obs) [0..<length obs]"
    by (intro nth_equalityI) (simp_all add: observation_candidates_def candidate_made_def)
qed

lemma drawn_distinct:
  assumes "inj (fresh :: nat \<Rightarrow> uuid)"
  shows "fresh (k + 2 * i) = fresh (k + 2 * j) \<longleftrightarrow> i = j"
  using injD [OF assms, of "k + 2 * i" "k + 2 * j"] by auto

lemma candidates_distinct:
  assumes "inj fresh"
  shows "distinct (map cid (map (candidate_made fresh k obs) [0..<length obs]))"
proof -
  have "map cid (map (candidate_made fresh k obs) [0..<length obs]) = map (\<lambda>j. fresh (k + 2 * j)) [0..<length obs]"
    by simp
  moreover have "inj_on (\<lambda>j. fresh (k + 2 * j)) (set [0..<length obs])"
    by (rule inj_onI) (simp only: drawn_distinct [OF assms])
  ultimately show ?thesis by (simp only: distinct_map distinct_upt)
qed

lemma selectable_view:
  assumes "selectable fresh obs"
  shows "\<exists>v. select_view i (map (candidate_made fresh k obs) [0..<length obs]) p w = Inr v"
proof -
  have "card (cid ` set (map (candidate_made fresh k obs) [0..<length obs])) = length obs"
    using candidates_distinct [of fresh k obs] assms
    by (subst distinct_card_ids [THEN iffD2]) (simp_all add: selectable_def)
  moreover have "ob_recency (obs ! j) \<le> 10000" if "j < length obs" for j
    using assms nth_mem [OF that] by (simp add: selectable_def)
  then have "\<not> list_ex (\<lambda>c. cc_relevance c > 10000 \<or> cc_recency c > 10000 \<or> cc_novelty c > 10000)
      (map (candidate_made fresh k obs) [0..<length obs])"
    by (auto simp: list_ex_iff not_less)
  ultimately show ?thesis
    using assms by (simp add: select_view_def selectable_def comp_def image_image Let_def case_prod_unfold)
qed

lemma policy_reason_observation:
  "cf_scope (cc_fragment c) = Global \<Longrightarrow>
   policy_reason (observation_policy r) c = (if cf_tokens (cc_fragment c) > r then Some TokenBudget else None)"
  by (simp add: policy_reason_def observation_policy_def Let_def)

lemma observation_omission:
  assumes view: "select_view i cs (observation_policy r) w = Inr v" and r: "r < u32_max"
    and plain: "\<And>c. c \<in> set cs \<Longrightarrow> cf_dependencies (cc_fragment c) = [] \<and> cf_scope (cc_fragment c) = Global"
    and om: "om \<in> set (vw_omissions v)"
  shows "om_reason om = TokenBudget \<and>
    (\<Sum>g\<leftarrow>vw_render_order v. cf_tokens (cc_fragment (candidate_of cs g))) +
      cf_tokens (cc_fragment (candidate_of cs (om_fragment om))) > r"
proof -
  have budget: "sp_budget (observation_policy r) = r" by (simp add: observation_policy_def)
  note v = view_selected [OF view]
  have "set (map om_fragment (vw_omissions v)) \<subseteq> set (map cid cs)"
    using arg_cong [OF view_partition [OF view, unfolded budget, OF less_imp_le [OF r]], of set_mset] by auto
  with om obtain c where c: "c \<in> set cs" "om_fragment om = cid c" by auto
  define C where "C = candidate_of cs (om_fragment om)"
  have "C = c" using candidate_of [OF v(1) c(1)] c(2) by (simp add: C_def)
  with plain c(1) have C: "cf_dependencies (cc_fragment C) = []" "cf_scope (cc_fragment C) = Global" by auto
  have "justified (candidate_of cs) (cid ` set cs) (observation_policy r) (vw_render_order v) (vw_omissions v) om"
    using selection_okD(10) [OF selected_by_laws(1) [OF v(1), of "observation_policy r" w]] om r
    by (simp add: budget v)
  then have reason: "om_reason om = TokenBudget" and why: "cf_tokens (cc_fragment C) > r \<or>
      (\<exists>pre. prefix pre (vw_render_order v) \<and> tokens_of (candidate_of cs) pre + cf_tokens (cc_fragment C) > r)"
    using C r unfolding justified_def Let_def C_def [symmetric]
    by (auto simp: policy_reason_observation budget split: omission_reason.splits if_splits)
  have "tokens_of (candidate_of cs) pre \<le> tokens_of (candidate_of cs) (vw_render_order v)"
    if "prefix pre (vw_render_order v)" for pre
    using that by (auto simp: prefix_def)
  with why have "tokens_of (candidate_of cs) (vw_render_order v) + cf_tokens (cc_fragment C) > r"
    by (meson add_le_mono1 less_le_trans trans_less_add2 le_refl)
  with reason show ?thesis by (simp add: tokens_of_def C_def)
qed

lemma dropped_positions_set:
  assumes "distinct (map cf_id fragments)"
  shows "set (dropped_positions fragments omissions) =
    {j. j < length fragments \<and> cf_id (fragments ! j) \<in> om_fragment ` {om \<in> set omissions. om_reason om = TokenBudget}}"
proof -
  have at: "index_of (\<lambda>f. cf_id f = i) fragments = Some j \<longleftrightarrow> j < length fragments \<and> cf_id (fragments ! j) = i" for i j
    using index_of_SomeD [of "\<lambda>f. cf_id f = i" fragments j] index_of_distinct [OF assms, of j] by auto
  have found: "set (List.map_filter f xs) = {y. \<exists>x\<in>set xs. f x = Some y}" for f :: "omission \<Rightarrow> nat option" and xs
    by (induction xs) (auto simp: map_filter_simps split: option.splits)
  show ?thesis
    unfolding dropped_positions_def found at by auto
qed

lemma image_less: "f ` A - B = f ` (A - {j. j \<in> A \<and> f j \<in> B})"
  by auto

text \<open>What is picked leaves a part that fits, and nothing of it would fit beside that part.\<close>

lemma trim_picks_maximal:
  fixes k :: nat
  assumes sel: "selectable fresh obs" and r: "r < u32_max"
  defines "picked \<equiv> set (trim_picks fresh k obs r)"
  defines "kept \<equiv> (\<Sum>j\<in>{..<length obs} - picked. ob_tokens (obs ! j))"
  shows "picked \<subseteq> {..<length obs}" "kept \<le> r" "j \<in> picked \<Longrightarrow> kept + ob_tokens (obs ! j) > r"
proof -
  define cs where "cs = map (candidate_made fresh k obs) [0..<length obs]"
  define frs where "frs = map (\<lambda>j. fragment_made fresh (k + 2 * j) (obs ! j)) [0..<length obs]"
  have inj: "inj fresh" using sel by (simp add: selectable_def)
  obtain k1 where frs: "observation_fragments fresh k obs = (frs, k1)"
    using selectable_fragments(1) [OF sel, of k] unfolding frs_def by (metis prod.collapse)
  have cs: "observation_candidates frs obs = cs"
    using selectable_fragments(2) [OF sel, of k] by (simp add: frs cs_def)
  obtain v where view: "select_view (fresh k1) cs (observation_policy r) observation_weights = Inr v"
    using selectable_view [OF sel] unfolding cs_def by blast
  have budget: "sp_budget (observation_policy r) = r" by (simp add: observation_policy_def)
  have dist: "distinct (map cid cs)" unfolding cs_def by (rule candidates_distinct [OF inj])
  have plain: "cf_dependencies (cc_fragment c) = [] \<and> cf_scope (cc_fragment c) = Global" if "c \<in> set cs" for c
    using that by (auto simp: cs_def)
  note omission = observation_omission [OF view r plain]
  have cand: "cf_tokens (cc_fragment (candidate_of cs (fresh (k + 2 * j)))) = ob_tokens (obs ! j)"
    if "j < length obs" for j
    using candidate_of [OF dist, of "candidate_made fresh k obs j"] that by (simp add: cs_def)
  note whole = view_partition [OF view, unfolded budget, OF less_imp_le [OF r]]
  have dist_view: "distinct (vw_render_order v @ map om_fragment (vw_omissions v))"
    using mset_eq_imp_distinct_iff [OF whole] dist by blast
  have sets: "set (vw_render_order v) \<union> om_fragment ` set (vw_omissions v) = (\<lambda>j. fresh (k + 2 * j)) ` {..<length obs}"
    using arg_cong [OF whole, of set_mset] by (simp add: cs_def image_image lessThan_atLeast0)
  have "{om \<in> set (vw_omissions v). om_reason om = TokenBudget} = set (vw_omissions v)"
    using omission by auto
  moreover have "trim_picks fresh k obs r = dropped_positions frs (vw_omissions v)"
    by (simp add: trim_picks_def frs cs view)
  moreover have "map cf_id frs = map cid cs" by (simp add: frs_def cs_def)
  ultimately have "picked = {j. j < length frs \<and> cf_id (frs ! j) \<in> om_fragment ` set (vw_omissions v)}"
    using dropped_positions_set [of frs "vw_omissions v"] dist by (simp only: picked_def)
  then have picked: "picked = {j. j < length obs \<and> fresh (k + 2 * j) \<in> om_fragment ` set (vw_omissions v)}"
    by (simp add: frs_def cong: conj_cong)
  then show "picked \<subseteq> {..<length obs}" by auto
  have inj_drawn: "inj_on (\<lambda>j. fresh (k + 2 * j)) A" for A
    by (rule inj_onI) (simp only: drawn_distinct [OF inj])
  have disjoint: "set (vw_render_order v) \<inter> om_fragment ` set (vw_omissions v) = {}"
    using dist_view by simp
  have rendered: "set (vw_render_order v) = (\<lambda>j. fresh (k + 2 * j)) ` ({..<length obs} - picked)"
  proof -
    have "set (vw_render_order v) = (\<lambda>j. fresh (k + 2 * j)) ` {..<length obs} - om_fragment ` set (vw_omissions v)"
      using sets disjoint by blast
    also have "\<dots> = (\<lambda>j. fresh (k + 2 * j)) ` ({..<length obs} - picked)"
      using image_less [of "\<lambda>j. fresh (k + 2 * j)" "{..<length obs}"] by (simp only: picked lessThan_iff)
    finally show ?thesis .
  qed
  have "(\<Sum>g\<leftarrow>vw_render_order v. cf_tokens (cc_fragment (candidate_of cs g))) =
      (\<Sum>g\<in>set (vw_render_order v). cf_tokens (cc_fragment (candidate_of cs g)))"
    using dist_view by (simp add: sum_list_distinct_conv_sum_set)
  also have "\<dots> = (\<Sum>j\<in>{..<length obs} - picked. cf_tokens (cc_fragment (candidate_of cs (fresh (k + 2 * j)))))"
    unfolding rendered sum.reindex [OF inj_drawn] comp_def ..
  also have "\<dots> = kept"
    unfolding kept_def by (rule sum.cong) (simp_all add: cand)
  finally have kept: "(\<Sum>g\<leftarrow>vw_render_order v. cf_tokens (cc_fragment (candidate_of cs g))) = kept" .
  show "kept \<le> r" using view_fits [OF view] r by (simp add: budget kept)
  show "kept + ob_tokens (obs ! j) > r" if "j \<in> picked"
  proof -
    from that obtain om where "om \<in> set (vw_omissions v)" "om_fragment om = fresh (k + 2 * j)" "j < length obs"
      by (auto simp: picked)
    with omission [of om] cand [of j] show ?thesis by (simp add: kept)
  qed
qed

section \<open>Trimming as a whole\<close>

lemma sum_list_filter_nth:
  "(\<Sum>x\<leftarrow>filter P xs. f x) = (\<Sum>j\<in>{j. j < length xs \<and> P (xs ! j)}. f (xs ! j) :: nat)"
proof -
  have "(\<Sum>x\<leftarrow>filter P xs. f x) = (\<Sum>j\<in>{0..<length xs}. if P (xs ! j) then f (xs ! j) else 0)"
    by (subst sum_list_map_filter') (simp add: sum_list_sum_nth)
  also have "\<dots> = (\<Sum>j\<in>{j \<in> {0..<length xs}. P (xs ! j)}. f (xs ! j))"
    by (rule sum.inter_filter [symmetric]) simp
  finally show ?thesis by simp
qed

lemma places_iff:
  "i < length (tool_observations conv) \<Longrightarrow>
   ob_place (tool_observations conv ! i) \<in> places (tool_observations conv) which \<longleftrightarrow> i \<in> set which"
  using nth_eq_iff_index_eq [OF observations_distinct [of conv]] by (auto simp: places_def)

lemma observations_selectable:
  assumes "inj fresh" and "length (tool_observations conv) \<le> max_context_fragments"
    and "\<And>ob. ob \<in> set (tool_observations conv) \<Longrightarrow> ob_id ob \<noteq> []"
  shows "selectable fresh (tool_observations conv)"
  using assms with_recency_recency by (simp add: selectable_def) (simp add: tool_observations_def)

section \<open>Folding\<close>

lemma last_index_of_SomeD:
  assumes "last_index_of P xs = Some i"
  shows "i < length xs" "P (xs ! i)" "\<And>j. i < j \<Longrightarrow> j < length xs \<Longrightarrow> \<not> P (xs ! j)"
proof -
  from assms obtain r where r: "index_of P (rev xs) = Some r" "i = length xs - Suc r"
    by (auto simp: last_index_of_def)
  note D = index_of_SomeD [OF r(1)]
  then show "i < length xs" "P (xs ! i)" using r(2) by (auto simp: rev_nth)
  show "\<not> P (xs ! j)" if "i < j" "j < length xs" for j
    using D that r(2) by (auto simp: rev_nth dest!: spec [of _ "length xs - Suc j"])
qed

lemma compaction_cut_SomeD:
  assumes "compaction_cut conv = Some n"
  shows "2 \<le> n" "n + keep_recent \<le> length conv" "\<not> list_ex is_result (mm_content (conv ! n))"
proof -
  have "find (\<lambda>n. n < length conv \<longrightarrow> \<not> list_ex is_result (mm_content (conv ! n)))
      (rev [2..<length conv - keep_recent + 1]) = Some n"
    using assms by (auto simp: compaction_cut_def Let_def split: if_splits option.splits)
  from find_SomeD [OF this] show "2 \<le> n" "n + keep_recent \<le> length conv"
    "\<not> list_ex is_result (mm_content (conv ! n))"
    by (auto simp: keep_recent_def)
qed

lemma compaction_cut_NoneD:
  assumes "compaction_cut conv = None" and "2 \<le> n" and "n + keep_recent \<le> length conv"
  shows "list_ex is_result (mm_content (conv ! n))"
proof -
  let ?free = "\<lambda>n. n < length conv \<longrightarrow> \<not> list_ex is_result (mm_content (conv ! n))"
  let ?places = "rev [2..<length conv - keep_recent + 1]"
  have "find ?free ?places = None"
  proof (cases "find ?free ?places")
    case (Some c)
    then have "2 \<le> c" using find_SomeD [OF Some] by auto
    with assms Some show ?thesis by (simp add: compaction_cut_def del: upt_Suc)
  qed
  from find_NoneD [OF this] assms(2,3) show ?thesis by (auto simp: keep_recent_def)
qed

text \<open>The request that rides along: the latest instruction, where it is among what is folded.\<close>

definition riding :: "conversation \<Rightarrow> nat \<Rightarrow> model_message option" where
  "riding conv n =
     Option.bind (latest_instruction conv) (\<lambda>i. if 1 \<le> i \<and> i < n then Some (conv ! i) else None)"

definition riding_content :: "conversation \<Rightarrow> nat \<Rightarrow> model_content list" where
  "riding_content conv n =
     (case riding conv n of None \<Rightarrow> [] | Some m \<Rightarrow> Text_Content kept_note # mm_content m)"

lemma compact_dialogue_None:
  "compaction_cut conv = None \<Longrightarrow> compact_dialogue fresh k conv budget history = ((trimmed_default, conv), k)"
  by (simp add: compact_dialogue_def)

lemma compact_dialogue_Some:
  assumes "compaction_cut conv = Some n"
  shows "\<exists>text. snd (fst (compact_dialogue fresh k conv budget history)) =
    conv ! 0 # \<lparr>mm_role = Role_User, mm_content = Text_Content text # riding_content conv n\<rparr> # drop n conv"
proof -
  note D = compaction_cut_SomeD [OF assms]
  then have "take 1 conv = [conv ! 0]" "conv \<noteq> []" by (cases conv; simp add: keep_recent_def)+
  moreover have "drop 1 (take n conv) ! (i - 1) = conv ! i" if "1 \<le> i" "i < n" for i
    using that D by (simp add: keep_recent_def)
  ultimately show ?thesis
    using D(1) unfolding compact_dialogue_def riding_content_def riding_def assms
    by (auto simp: Let_def case_prod_unfold split: option.splits if_splits Option.bind_splits)
qed

section \<open>Calls and their results\<close>

definition call_ids :: "model_message \<Rightarrow> string list" where
  "call_ids m = List.map_filter (\<lambda>item. case item of Tool_Call i _ _ \<Rightarrow> Some i | _ \<Rightarrow> None) (mm_content m)"

definition result_ids :: "model_message \<Rightarrow> string list" where
  "result_ids m = List.map_filter (\<lambda>item. case item of Tool_Result i _ _ \<Rightarrow> Some i | _ \<Rightarrow> None) (mm_content m)"

text \<open>
  What a provider asks for: the operator's words come first, only the assistant calls, and each
  message answers exactly the calls of the one before it.
\<close>

definition answered :: "conversation \<Rightarrow> bool" where
  "answered conv \<longleftrightarrow>
     (conv \<noteq> [] \<longrightarrow> mm_role (conv ! 0) = Role_User) \<and>
     (\<forall>m\<in>set conv. mm_role m = Role_User \<longrightarrow> call_ids m = []) \<and>
     (\<forall>j<length conv. set (result_ids (conv ! j)) = (if j = 0 then {} else set (call_ids (conv ! (j - 1)))))"

lemma answered_iff_nth:
  "answered conv \<longleftrightarrow>
     (0 < length conv \<longrightarrow> mm_role (conv ! 0) = Role_User) \<and>
     (\<forall>j<length conv. mm_role (conv ! j) = Role_User \<longrightarrow> call_ids (conv ! j) = []) \<and>
     (\<forall>j<length conv. set (result_ids (conv ! j)) = (if j = 0 then {} else set (call_ids (conv ! (j - 1)))))"
  unfolding answered_def by (simp add: all_set_conv_all_nth)

lemma map_filter_elide:
  assumes "\<And>p x. g (elide_at E p x) = g x"
  shows "List.map_filter g (map (\<lambda>(c, item). elide_at E (m, c) item) (enumerate n xs)) = List.map_filter g xs"
proof (induction xs arbitrary: n)
  case (Cons x xs)
  then show ?case by (cases "g x") (simp_all add: map_filter_simps assms)
qed (simp add: map_filter_simps)

lemma elided_ids [simp]:
  assumes "m < length conv"
  shows "call_ids (place_map (elide_at E) conv ! m) = call_ids (conv ! m)"
    and "result_ids (place_map (elide_at E) conv ! m) = result_ids (conv ! m)"
  unfolding call_ids_def result_ids_def nth_place_map [OF assms]
  by (simp_all, (rule map_filter_elide, simp add: elide_at_def split: model_content.split)+)

lemma answered_elided: "answered conv \<Longrightarrow> answered (place_map (elide_at E) conv)"
  unfolding answered_iff_nth by simp

lemma result_ids_Nil: "\<not> list_ex is_result (mm_content m) \<Longrightarrow> result_ids m = []"
  unfolding result_ids_def
  by (induction "mm_content m" arbitrary: m)
    (auto simp: map_filter_def list_ex_iff is_result_def filter_empty_conv split: model_content.splits)

lemma riding_SomeD:
  assumes "riding conv n = Some m"
  shows "m \<in> set conv" "mm_role m = Role_User" "\<not> list_ex is_result (mm_content m)"
proof -
  from assms obtain i where i: "latest_instruction conv = Some i" "m = conv ! i"
    by (auto simp: riding_def split: Option.bind_splits if_splits)
  from last_index_of_SomeD(1,2) [OF i(1) [unfolded latest_instruction_def]] i(2)
  show "m \<in> set conv" "mm_role m = Role_User" "\<not> list_ex is_result (mm_content m)" by auto
qed

lemma riding_ids:
  assumes "answered conv"
  shows "call_ids \<lparr>mm_role = r, mm_content = Text_Content text # riding_content conv n\<rparr> = []"
    and "result_ids \<lparr>mm_role = r, mm_content = Text_Content text # riding_content conv n\<rparr> = []"
proof -
  have "call_ids m = [] \<and> result_ids m = []" if "riding conv n = Some m" for m
    using riding_SomeD [OF that] assms by (auto simp: answered_def result_ids_Nil)
  then show "call_ids \<lparr>mm_role = r, mm_content = Text_Content text # riding_content conv n\<rparr> = []"
    and "result_ids \<lparr>mm_role = r, mm_content = Text_Content text # riding_content conv n\<rparr> = []"
    by (cases "riding conv n"; simp add: riding_content_def call_ids_def result_ids_def map_filter_simps)+
qed

lemma answered_folded:
  assumes ok: "answered conv" and n: "2 \<le> n" "n < length conv" and free: "result_ids (conv ! n) = []"
    and summary: "mm_role s = Role_User" "call_ids s = []" "result_ids s = []"
  shows "answered (conv ! 0 # s # drop n conv)"
proof -
  let ?new = "conv ! 0 # s # drop n conv"
  have first: "mm_role (conv ! 0) = Role_User" "call_ids (conv ! 0) = []" "result_ids (conv ! 0) = []"
    using ok [unfolded answered_iff_nth] n by (auto dest!: spec [of _ 0])
  have at: "?new ! Suc (Suc j) = conv ! (n + j)" if "n + j < length conv" for j using that by simp
  have "set (result_ids (?new ! j)) = (if j = 0 then {} else set (call_ids (?new ! (j - 1))))"
    if "j < length ?new" for j
  proof -
    have "j = 0 \<or> j = 1 \<or> j = 2 \<or> j = Suc (Suc (Suc (j - 3)))" by arith
    then consider "j = 0" | "j = 1" | "j = 2" | i where "j = Suc (Suc (Suc i))" by blast
    then show ?thesis
    proof cases
      case 4
      with that n have "n + Suc i < length conv" by simp
      with ok [unfolded answered_iff_nth] have "set (result_ids (conv ! (n + Suc i))) = set (call_ids (conv ! (n + i)))" by auto
      with 4 n show ?thesis by simp
    qed (use first summary free n in auto)
  qed
  moreover have "mm_role (?new ! j) = Role_User \<longrightarrow> call_ids (?new ! j) = []" if "j < length ?new" for j
    using that first summary ok [unfolded answered_iff_nth] by (cases j rule: nat.exhaust) (auto simp: nth_Cons' split: if_splits)
  ultimately show ?thesis
    using first unfolding answered_iff_nth by simp
qed

lemma answered_compacted:
  assumes "answered conv"
  shows "answered (snd (fst (compact_dialogue fresh k conv budget history)))"
proof (cases "compaction_cut conv")
  case None
  then show ?thesis using assms by (simp add: compact_dialogue_None)
next
  case (Some n)
  note D = compaction_cut_SomeD [OF Some]
  obtain t where "snd (fst (compact_dialogue fresh k conv budget history)) =
      conv ! 0 # \<lparr>mm_role = Role_User, mm_content = Text_Content t # riding_content conv n\<rparr> # drop n conv"
    using compact_dialogue_Some [OF Some] by blast
  then show ?thesis
    using answered_folded [OF assms D(1) _ result_ids_Nil [OF D(3)]] D(2) riding_ids [OF assms]
    by (simp add: keep_recent_def)
qed

end
