(* ===== verification/Transcript_Properties.thy ===== *)
theory Transcript_Properties
  imports Transcript_Laws
begin

text \<open>
  What fitting a conversation into a budget keeps: every message and every call with its result,
  the request being worked on, and as many results as fit.
\<close>

section \<open>Sample conversations\<close>

definition shown_as_null :: "json \<Rightarrow> string" where
  "shown_as_null v = ''null''"

definition sample_task :: "string \<Rightarrow> model_message" where
  "sample_task text = \<lparr>mm_role = Role_User, mm_content = [Text_Content text]\<rparr>"

definition sample_exchange :: "string \<Rightarrow> nat \<Rightarrow> conversation" where
  "sample_exchange i n =
     [\<lparr>mm_role = Role_Assistant, mm_content = [Tool_Call i ''fs.read'' JNull]\<rparr>,
      \<lparr>mm_role = Role_User, mm_content = [Tool_Result i (replicate n (CHR ''x'')) False]\<rparr>]"

definition sample_transcript :: conversation where
  "sample_transcript =
     sample_task ''the task'' # sample_exchange ''a'' 400 @ sample_exchange ''b'' 400 @ sample_exchange ''c'' 40 @ sample_exchange ''d'' 40"

lemmas transcript_samples = shown_as_null_def sample_task_def sample_exchange_def sample_transcript_def

lemmas counting = total_tokens_def content_tokens_def estimate_tokens_def bytes_per_token_def u32_max_def
  saturating_add32_def

lemma replicate_not_marked [simp]: "\<not> starts_with elided_mark (replicate n (CHR ''x''))"
  by (cases n) (simp_all add: starts_with_def elided_mark_def)

section \<open>Eliding\<close>

text \<open>
  C40: Eliding touches nothing but the bodies of successful tool results. Message by message and
  place by place the trimmed conversation is the old one, except that the body of a result that
  did not fail, and is no stub yet, may have become the stub that names its call and its size; a
  conversation within the budget is left as it is.
\<close>

theorem eliding_touches_only_results:
  assumes "fst (trim_observations shown fresh k conv budget) = (t, conv')"
  shows "length conv' = length conv \<and>
    (\<forall>m<length conv. mm_role (conv' ! m) = mm_role (conv ! m) \<and>
       length (mm_content (conv' ! m)) = length (mm_content (conv ! m)) \<and>
       (\<forall>c<length (mm_content (conv ! m)).
          mm_content (conv' ! m) ! c = mm_content (conv ! m) ! c \<or>
          (\<exists>i body. mm_content (conv ! m) ! c = Tool_Result i body False \<and> \<not> starts_with elided_mark body \<and>
             mm_content (conv' ! m) ! c = Tool_Result i (stub i (estimate_tokens body)) False))) \<and>
    (total_tokens shown conv \<le> budget \<longrightarrow> conv' = conv) \<and>
    tr_before t = total_tokens shown conv \<and> tr_after t = total_tokens shown conv'"
proof -
  obtain E where E: "E \<subseteq> ob_place ` set (tool_observations conv)" and conv': "conv' = place_map (elide_at E) conv"
    using trim_conversation [of conv shown fresh k budget] assms by auto
  have "elide_at E (m, c) (mm_content (conv ! m) ! c) = mm_content (conv ! m) ! c \<or>
      (\<exists>i body. mm_content (conv ! m) ! c = Tool_Result i body False \<and> \<not> starts_with elided_mark body \<and>
         elide_at E (m, c) (mm_content (conv ! m) ! c) = Tool_Result i (stub i (estimate_tokens body)) False)"
    if "m < length conv" "c < length (mm_content (conv ! m))" for m c
  proof (cases "(m, c) \<in> E")
    case True
    with E obtain ob where "ob \<in> set (tool_observations conv)" "ob_message ob = m" "ob_content ob = c"
      by (auto simp: ob_place_def)
    with observations_observed [OF this(1)] True show ?thesis by (auto simp: observed_def elide_at_def)
  qed (cases "mm_content (conv ! m) ! c"; simp add: elide_at_def)
  then show ?thesis
    using trim_counts [of shown fresh k conv budget] trim_within [of shown conv budget fresh k] assms
    by (auto simp: conv')
qed

theorem eliding_touches_only_results_witness:
  "length (snd (fst (trim_observations shown_as_null id 0 sample_transcript 150))) = 9"
  using eliding_touches_only_results [OF surjective_pairing, of shown_as_null id 0 sample_transcript 150]
  by (simp add: transcript_samples)

lemma kept_tokens:
  fixes fresh :: "nat \<Rightarrow> uuid" and k :: nat
  assumes "budget < total_tokens shown conv"
  defines "obs \<equiv> tool_observations conv"
  defines "which \<equiv> trim_picks fresh k obs (budget - fixed_tokens shown conv)"
  shows "(\<Sum>ob\<leftarrow>tool_observations (snd (fst (trim_observations shown fresh k conv budget))). ob_tokens ob) =
    (\<Sum>j\<in>{..<length obs} - set which. ob_tokens (obs ! j))"
proof -
  have "{j. j < length obs \<and> ob_place (obs ! j) \<notin> places obs which} = {..<length obs} - set which"
    unfolding obs_def by (auto simp: places_iff)
  then show ?thesis
    using assms(1) by (simp add: trim_beyond whole_tokens sum_list_filter_nth obs_def which_def)
qed

text \<open>
  C39: No result is elided without need, and what stays whole fits. When no identifier is drawn
  twice, every call has a name and there are at most 4096 results to choose from, the results left
  whole fit into what the rest of the conversation leaves of the budget, and each result that was
  elided would not have fitted beside them.
\<close>

theorem eliding_keeps_what_fits:
  assumes "fst (trim_observations shown fresh k conv budget) = (t, conv')"
    and "budget < total_tokens shown conv" and "budget < u32_max" and "inj fresh"
    and "length (tool_observations conv) \<le> max_context_fragments"
    and "\<And>ob. ob \<in> set (tool_observations conv) \<Longrightarrow> ob_id ob \<noteq> []"
  defines "whole \<equiv> (\<Sum>ob\<leftarrow>tool_observations conv'. ob_tokens ob)"
  shows "whole \<le> budget - fixed_tokens shown conv \<and>
    (\<forall>m<length conv. \<forall>c<length (mm_content (conv ! m)).
       mm_content (conv' ! m) ! c \<noteq> mm_content (conv ! m) ! c \<longrightarrow>
       whole + content_tokens shown (mm_content (conv ! m) ! c) > budget - fixed_tokens shown conv)"
proof -
  let ?obs = "tool_observations conv" and ?r = "budget - fixed_tokens shown conv"
  let ?which = "trim_picks fresh k ?obs ?r"
  have "selectable fresh ?obs" and "?r < u32_max"
    using observations_selectable [OF assms(4-6)] assms(3) by auto
  note picks = trim_picks_maximal [OF this, where k = k]
  have whole: "whole = (\<Sum>j\<in>{..<length ?obs} - set ?which. ob_tokens (?obs ! j))"
    using kept_tokens [OF assms(2), of fresh k] assms(1) by (simp add: whole_def)
  have conv': "conv' = place_map (elide_at (places ?obs ?which)) conv"
    using trim_beyond [OF assms(2), of fresh k] assms(1) by simp
  have "whole + content_tokens shown (mm_content (conv ! m) ! c) > ?r"
    if at: "m < length conv" "c < length (mm_content (conv ! m))"
      and changed: "mm_content (conv' ! m) ! c \<noteq> mm_content (conv ! m) ! c" for m c
  proof -
    have "(m, c) \<in> places ?obs ?which"
      using at changed by (cases "mm_content (conv ! m) ! c") (auto simp: conv' elide_at_def split: if_splits)
    then obtain j where j: "j \<in> set ?which" "j < length ?obs" "ob_place (?obs ! j) = (m, c)" by (auto simp: places_def)
    with observations_observed [OF nth_mem [OF j(2)]] have "content_tokens shown (mm_content (conv ! m) ! c) = ob_tokens (?obs ! j)"
      by (auto simp: observed_def ob_place_def content_tokens_def)
    with picks(3) [OF j(1)] show ?thesis by (simp add: whole)
  qed
  with picks(2) show ?thesis by (auto simp: whole)
qed

lemma sample_observations:
  "tool_observations sample_transcript =
     [\<lparr>ob_id = ''a'', ob_message = 2, ob_content = 0, ob_tokens = 100, ob_recency = 0\<rparr>,
      \<lparr>ob_id = ''b'', ob_message = 4, ob_content = 0, ob_tokens = 100, ob_recency = 3333\<rparr>,
      \<lparr>ob_id = ''c'', ob_message = 6, ob_content = 0, ob_tokens = 10, ob_recency = 6666\<rparr>,
      \<lparr>ob_id = ''d'', ob_message = 8, ob_content = 0, ob_tokens = 10, ob_recency = 10000\<rparr>]"
  by (simp add: tool_observations_def transcript_samples placed_contents_def observation_at_def map_filter_simps
      with_recency_def estimate_tokens_def bytes_per_token_def u32_max_def)

lemma sample_total: "total_tokens shown_as_null sample_transcript = 234"
  by (simp add: counting transcript_samples)

theorem eliding_keeps_what_fits_witness:
  "(\<Sum>ob\<leftarrow>tool_observations (snd (fst (trim_observations shown_as_null id 0 sample_transcript 150))). ob_tokens ob) \<le> 136"
proof -
  have "fixed_tokens shown_as_null sample_transcript = 14"
    by (simp add: fixed_tokens_def sample_total sample_observations saturating_add32_def u32_max_def)
  moreover have "ob_id ob \<noteq> []" if "ob \<in> set (tool_observations sample_transcript)" for ob
    using that by (auto simp: sample_observations)
  ultimately show ?thesis
    using eliding_keeps_what_fits [OF surjective_pairing, of 150 shown_as_null sample_transcript id 0]
    by (simp add: sample_total u32_max_def max_context_fragments_def) (simp add: sample_observations)
qed

section \<open>Calls, results and the request\<close>

text \<open>
  C37: Fitting never parts a call from its result. Where the operator speaks first, only the
  assistant calls and each message answers exactly the calls of the one before it, all of that
  still holds of the conversation after it was fitted to a budget or folded on request.
\<close>

theorem fitted_calls_stay_answered:
  assumes "answered conv"
  shows "answered (snd (fst (fit_conversation shown fresh k conv budget history))) \<and>
    answered (snd (fst (compact_conversation shown fresh k conv history)))"
proof -
  obtain t conv1 k1 where trim: "trim_observations shown fresh k conv budget = ((t, conv1), k1)"
    by (metis prod.exhaust)
  obtain E where "conv1 = place_map (elide_at E) conv"
    using trim_conversation [of conv shown fresh k budget] by (auto simp: trim)
  with answered_elided [OF assms] have "answered conv1" by simp
  with answered_compacted [OF this, of fresh k1 budget history] answered_compacted [OF assms, of fresh k 0 history]
  show ?thesis
    by (auto simp: fit_conversation_def fit_reporting_def compact_conversation_def trim Let_def split: prod.splits)
qed

lemma sample_messages:
  "map mm_role sample_transcript =
     [Role_User, Role_Assistant, Role_User, Role_Assistant, Role_User, Role_Assistant, Role_User, Role_Assistant, Role_User]"
  "map call_ids sample_transcript = [[], [''a''], [], [''b''], [], [''c''], [], [''d''], []]"
  "map result_ids sample_transcript = [[], [], [''a''], [], [''b''], [], [''c''], [], [''d'']]"
  by (simp_all add: transcript_samples call_ids_def result_ids_def map_filter_simps)

lemma answered_by_lists:
  assumes "length rs = length conv" and "map mm_role conv = rs" and "map call_ids conv = cs" and "map result_ids conv = ans"
    and "rs = [] \<or> hd rs = Role_User" and "list_all2 (\<lambda>r c. r = Role_User \<longrightarrow> c = []) rs cs"
    and "list_all2 (\<lambda>a c. set a = set c) ans (take (length cs) ([] # cs))"
  shows "answered conv"
proof -
  have len: "length conv = length cs" and "length ans = length conv" using assms(3,4) by auto
  have nth: "mm_role (conv ! j) = rs ! j" "call_ids (conv ! j) = cs ! j" "result_ids (conv ! j) = ans ! j"
    if "j < length conv" for j
    using that assms(2-4) by auto
  have "set (ans ! j) = set (([] # cs) ! j)" if "j < length conv" for j
    using list_all2_nthD2 [OF assms(7), of j] that len by simp
  moreover have "rs ! j = Role_User \<longrightarrow> cs ! j = []" if "j < length conv" for j
    using list_all2_nthD2 [OF assms(6), of j] that len by simp
  ultimately show ?thesis
    using assms(1,5) by (cases rs) (auto simp: answered_iff_nth nth nth_Cons')
qed

lemma sample_answered: "answered sample_transcript"
  by (rule answered_by_lists [OF _ sample_messages]) (simp_all add: transcript_samples)

theorem fitted_calls_stay_answered_witness:
  "answered (snd (fst (compact_conversation shown_as_null id 0 sample_transcript None)))"
  using fitted_calls_stay_answered [OF sample_answered] by blast

lemma riding_suffix:
  "latest_instruction conv = Some i \<Longrightarrow> 1 \<le> i \<Longrightarrow> i < n \<Longrightarrow> suffix (mm_content (conv ! i)) (riding_content conv n)"
  by (simp add: riding_content_def riding_def suffix_ConsI)

text \<open>
  C38: Folding keeps both ends and the request. Folding on request either leaves the conversation as
  it was or puts one message of the user between the first message and a tail that begins with no
  tool result and has at least the last six messages; it never gets longer, and the latest
  instruction of the user is still in it word for word. It folds whenever there is a place to cut.
\<close>

theorem folding_keeps_the_request:
  assumes "fst (compact_conversation shown fresh k conv history) = (t, conv')"
  shows "(conv' = conv \<and> (\<forall>n. 2 \<le> n \<and> n + keep_recent \<le> length conv \<longrightarrow> list_ex is_result (mm_content (conv ! n))) \<or>
      (\<exists>n summary. 2 \<le> n \<and> n + keep_recent \<le> length conv \<and> \<not> list_ex is_result (mm_content (conv ! n)) \<and>
         conv' = conv ! 0 # summary # drop n conv \<and> mm_role summary = Role_User)) \<and>
    length conv' \<le> length conv \<and>
    (\<forall>i. latest_instruction conv = Some i \<longrightarrow> (\<exists>m\<in>set conv'. suffix (mm_content (conv ! i)) (mm_content m)))"
proof (cases "compaction_cut conv")
  case None
  then have conv': "conv' = conv" using assms by (auto simp: compact_conversation_def compact_dialogue_None)
  have "\<exists>m\<in>set conv. suffix (mm_content (conv ! i)) (mm_content m)" if "latest_instruction conv = Some i" for i
    using last_index_of_SomeD(1) [OF that [unfolded latest_instruction_def]] by (intro bexI [of _ "conv ! i"]) auto
  then show ?thesis using compaction_cut_NoneD [OF None] by (auto simp: conv')
next
  case (Some n)
  note D = compaction_cut_SomeD [OF Some]
  obtain words where "snd (fst (compact_dialogue fresh k conv 0 history)) =
      conv ! 0 # \<lparr>mm_role = Role_User, mm_content = Text_Content words # riding_content conv n\<rparr> # drop n conv"
    using compact_dialogue_Some [OF Some] by blast
  with assms have conv': "conv' = conv ! 0 # \<lparr>mm_role = Role_User, mm_content = Text_Content words # riding_content conv n\<rparr> # drop n conv"
    by (auto simp: compact_conversation_def split: prod.splits)
  have "\<exists>m\<in>set conv'. suffix (mm_content (conv ! i)) (mm_content m)" if i: "latest_instruction conv = Some i" for i
  proof -
    have "i < length conv" using last_index_of_SomeD(1) [OF i [unfolded latest_instruction_def]] .
    consider "i = 0" | "1 \<le> i" "i < n" | "n \<le> i" by linarith
    then show ?thesis
    proof cases
      case 2
      then show ?thesis using riding_suffix [OF i] by (auto simp: conv' suffix_ConsI)
    next
      case 3
      then have "conv ! i \<in> set (drop n conv)"
        using \<open>i < length conv\<close> by (auto simp: in_set_conv_nth intro!: exI [of _ "i - n"])
      then show ?thesis by (auto simp: conv')
    qed (auto simp: conv')
  qed
  with D show ?thesis by (auto simp: conv' keep_recent_def)
qed

theorem folding_keeps_the_request_witness:
  "length (snd (fst (compact_conversation shown_as_null id 0 sample_transcript None))) \<le> 9"
  using folding_keeps_the_request [OF surjective_pairing, of shown_as_null id 0 sample_transcript None]
  by (simp add: transcript_samples)

end
