(* ===== verification/Transcript_Limits.thy ===== *)
theory Transcript_Limits
  imports Transcript_Properties Context_Properties
begin

text \<open>
  Where fitting a conversation falls short of what its comments say: results without a name, short
  results, folding twice, and the sizes the summary and the ranking really have.
\<close>

section \<open>Eliding the wrong result, and for nothing\<close>

lemmas picking = trim_picks_def observation_fragment_eq observation_candidates_def select_view_def
  max_context_fragments_def policy_reason_def observation_policy_def fragment_made_def selection_start_def
  select_loop.simps visit_all_def visit_def decided_def omit_def omit_cycles_def dropped_positions_def
  map_filter_simps saturating_add32_def u32_max_def Let_def

lemmas observing = tool_observations_def placed_contents_def observation_at_def map_filter_simps with_recency_def
  estimate_tokens_def bytes_per_token_def u32_max_def Let_def

definition terse_transcript :: conversation where
  "terse_transcript = sample_task (replicate 400 (CHR ''x'')) # sample_exchange ''a'' 4"

lemma terse_observations:
  "tool_observations terse_transcript =
     [\<lparr>ob_id = ''a'', ob_message = 2, ob_content = 0, ob_tokens = 1, ob_recency = 0\<rparr>]"
  by (simp add: observing terse_transcript_def sample_task_def sample_exchange_def)

text \<open>A stub is longer than a short result, so eliding can make a conversation that is too large larger still.\<close>

theorem eliding_can_grow:
  "total_tokens shown_as_null terse_transcript = 104 \<and>
   total_tokens shown_as_null (snd (fst (trim_observations shown_as_null id 0 terse_transcript 50))) = 141"
proof
  show total: "total_tokens shown_as_null terse_transcript = 104"
    by (simp add: counting terse_transcript_def transcript_samples)
  have "trim_picks id 0 (tool_observations terse_transcript) 0 = [0]"
    by (simp add: terse_observations picking)
  then have "snd (fst (trim_observations shown_as_null id 0 terse_transcript 50)) =
      place_map (elide_at {(2, 0)}) terse_transcript"
    by (simp add: trim_beyond total fixed_tokens_def terse_observations saturating_add32_def u32_max_def ob_place_def)
  moreover have "length (print_nat (Suc 0)) = 1" by (simp add: print_nat.simps)
  then have "total_tokens shown_as_null (place_map (elide_at {(2, 0)}) terse_transcript) = 141"
    by (simp add: counting place_map_def elide_at_def stub_def elided_mark_def terse_transcript_def transcript_samples)
  ultimately show "total_tokens shown_as_null (snd (fst (trim_observations shown_as_null id 0 terse_transcript 50))) = 141"
    by simp
qed

definition nameless_transcript :: conversation where
  "nameless_transcript =
     sample_task ''the task'' # sample_exchange [] 40 @ sample_exchange ''a'' 40 @ sample_exchange ''b'' 400"

lemma nameless_observations:
  "tool_observations nameless_transcript =
     [\<lparr>ob_id = [], ob_message = 2, ob_content = 0, ob_tokens = 10, ob_recency = 0\<rparr>,
      \<lparr>ob_id = ''a'', ob_message = 4, ob_content = 0, ob_tokens = 10, ob_recency = 5000\<rparr>,
      \<lparr>ob_id = ''b'', ob_message = 6, ob_content = 0, ob_tokens = 100, ob_recency = 10000\<rparr>]"
  by (simp add: observing nameless_transcript_def sample_task_def sample_exchange_def flip: numeral_2_eq_2)

text \<open>
  A fragment is made of the named results only, but the positions in that shorter list are used on
  the full one. Here 50 tokens are left for the results; the last one alone has 100 and stays, and an
  older one of 10 is elided in its place.
\<close>

theorem nameless_result_shifts_eliding:
  "snd (fst (trim_observations shown_as_null id 0 nameless_transcript 61)) =
     nameless_transcript[4 := \<lparr>mm_role = Role_User, mm_content = [Tool_Result ''a'' (stub ''a'' 10) False]\<rparr>]"
proof -
  have total: "total_tokens shown_as_null nameless_transcript = 131"
    by (simp add: counting nameless_transcript_def transcript_samples)
  have "trim_picks id 0 (tool_observations nameless_transcript) 50 = [1]"
    by (simp add: nameless_observations picking)
  then have "snd (fst (trim_observations shown_as_null id 0 nameless_transcript 61)) =
      place_map (elide_at {(4, 0)}) nameless_transcript"
    by (simp add: trim_beyond total fixed_tokens_def nameless_observations saturating_add32_def u32_max_def ob_place_def)
  then show ?thesis
    by (simp add: place_map_def elide_at_def nameless_transcript_def transcript_samples estimate_tokens_def
      bytes_per_token_def u32_max_def)
qed

section \<open>The summary\<close>

text \<open>The summary is the user's second message in a row.\<close>

theorem summary_follows_the_task:
  assumes "answered conv" and "compaction_cut conv = Some n"
  shows "\<exists>summary tail. snd (fst (compact_conversation shown fresh k conv history)) = conv ! 0 # summary # tail \<and>
    mm_role (conv ! 0) = Role_User \<and> mm_role summary = Role_User"
proof -
  have "mm_role (conv ! 0) = Role_User"
    using assms compaction_cut_SomeD [OF assms(2)] by (auto simp: answered_def keep_recent_def)
  then show ?thesis
    using compact_dialogue_Some [OF assms(2), of fresh k 0 history]
    by (auto simp: compact_conversation_def split: prod.split)
qed

lemma join_with_length: "length xs - 1 \<le> length (join_with '', '' xs)"
  by (induction "'', ''" xs rule: join_with.induct) auto

lemma push_lines_longer: "length text \<le> length (push_lines text ls)"
  by (induction "text" ls rule: push_lines.induct) auto

text \<open>The header names every cited event, so the summary is at least as long as there are events.\<close>

theorem citations_are_not_bounded:
  "length cited \<le> length (describe folded (Some cited))"
proof (cases cited)
  case (Cons c cs)
  then have "length cited \<le> length (summary_header (length folded) (Some cited))"
    using join_with_length [of "map (print_nat \<circ> ec_sequence) cited"] by (auto simp: summary_header_def)
  then show ?thesis
    using push_lines_longer le_trans unfolding describe_def by blast
qed simp

lemma push_lines_bound:
  "length (push_lines text ls) \<le> max (length text) (max_summary_bytes + 1) + 4"
proof (induction "text" ls rule: push_lines.induct)
  case (2 t line lines)
  then show ?case by auto
qed simp

text \<open>Without citations a summary is bounded by its header, or by the limit and an ellipsis.\<close>

theorem summary_is_bounded:
  "length (describe folded None) \<le> max (length (summary_header (length folded) None)) 2049 + 4"
  using push_lines_bound [of "summary_header (length folded) None"]
  by (simp add: describe_def max_summary_bytes_def)

section \<open>Size and recency\<close>

lemma two_results: "with_recency [a, b] = [a\<lparr>ob_recency := 0\<rparr>, b\<lparr>ob_recency := 10000\<rparr>]"
  by (simp add: with_recency_def)

text \<open>Of two results the older one ranks first when the newer one is more than 40000 tokens larger.\<close>

theorem size_outweighs_recency:
  assumes "ob_tokens a \<le> 4000000000" and "ob_tokens b \<le> 4000000000"
  shows "sint (score (candidate_made fresh k (with_recency [a, b]) 0) observation_weights) >
      sint (score (candidate_made fresh k (with_recency [a, b]) 1) observation_weights) \<longleftrightarrow>
    ob_tokens b > ob_tokens a + 40000"
proof -
  have "sint (score (candidate_made fresh k (with_recency [a, b]) 0) observation_weights) =
      10000 - 2 * int (ob_tokens a)"
    by (subst score_does_not_wrap) (use assms in \<open>simp_all add: observation_weights_def two_results fragment_made_def\<close>)
  moreover have "sint (score (candidate_made fresh k (with_recency [a, b]) 1) observation_weights) =
      90000 - 2 * int (ob_tokens b)"
    by (subst score_does_not_wrap) (use assms in \<open>simp_all add: observation_weights_def two_results fragment_made_def\<close>)
  ultimately show ?thesis by auto
qed

section \<open>Folding twice\<close>

definition busy_transcript :: conversation where
  "busy_transcript = sample_task ''the task'' # concat (replicate 5 (sample_exchange ''a'' 8))"

definition folded_once :: conversation where
  "folded_once = snd (fst (compact_conversation shown_as_null id 0 busy_transcript None))"

lemma folded_once_eq:
  "\<exists>words. folded_once = sample_task ''the task'' # sample_task words # concat (replicate 3 (sample_exchange ''a'' 8))"
proof -
  have cut: "compaction_cut busy_transcript = Some 5"
    by (simp add: compaction_cut_def busy_transcript_def transcript_samples keep_recent_def is_result_def upt_rec numeral_eq_Suc)
  have "riding_content busy_transcript 5 = []"
    by (simp add: riding_content_def riding_def latest_instruction_def last_index_of_def busy_transcript_def
      transcript_samples is_result_def is_text_def numeral_eq_Suc)
  with compact_dialogue_Some [OF cut, of id 0 0 None] show ?thesis
    by (auto simp: folded_once_def compact_conversation_def busy_transcript_def transcript_samples numeral_eq_Suc split: prod.splits)
qed

text \<open>
  The second folding in a row folds no message: it takes the first summary for the request of the
  user and wraps it in a new summary, and says that nothing changed.
\<close>

theorem folding_again_grows:
  "\<exists>t. fst (compact_conversation shown_as_null id 0 folded_once None) =
     (t, folded_once[1 := \<lparr>mm_role = Role_User,
        mm_content = Text_Content (summary_header 0 None) # Text_Content kept_note # mm_content (folded_once ! 1)\<rparr>]) \<and>
     \<not> trimmed_changed t"
proof -
  obtain words where once: "folded_once = sample_task ''the task'' # sample_task words # concat (replicate 3 (sample_exchange ''a'' 8))"
    using folded_once_eq by blast
  have cut: "compaction_cut folded_once = Some 2"
    by (simp add: compaction_cut_def once transcript_samples keep_recent_def is_result_def upt_rec numeral_eq_Suc)
  have "latest_instruction folded_once = Some 1"
    by (simp add: latest_instruction_def last_index_of_def once transcript_samples is_result_def is_text_def numeral_eq_Suc)
  then show ?thesis
    by (simp add: compact_conversation_def compact_dialogue_def cut describe_def trimmed_changed_def trimmed_default_def Let_def)
      (simp add: once transcript_samples numeral_eq_Suc)
qed

end
