(* ===== verification/Spec2Isabelle.thy ===== *)
theory Spec2Isabelle
  imports
    Policy_Properties
    Task_Properties
    Task_Races
    Todo_Properties
    Scheduler_Properties
    Proof_Properties
    Secret_Properties
    Memory_Properties
    Context_Properties
    Choice_Properties
    Edit_Properties
    Patch_Properties
    Command_Risk_Properties
    Loop_Guard
    Transcript_Limits
begin

text \<open>
  A verification development of ARSY CODE (\<^verbatim>\<open>src/crates\<close>), a harness that lets language models work
  on a repository under policy. Rust is modelled by shallow embedding.

  \<^bold>\<open>The parts and how they meet.\<close> Everything durable is an event of a session's stream. The kernel
  (\<^verbatim>\<open>crates/arsy-kernel/src\<close>) keeps the streams (\<^verbatim>\<open>event.rs\<close>); a task graph (\<^verbatim>\<open>orchestration.rs\<close>)
  is a projection of one stream and its commands append to it, against other holders of the same
  session who do the same. What a task may do is a list of capability grants (\<^verbatim>\<open>capability.rs\<close>);
  grants come from policy decisions and approvals (\<^verbatim>\<open>policy.rs\<close>) and are handed down by attenuation;
  an operation reaches its executor only through \<open>dispatch\<close> (\<^verbatim>\<open>operation.rs\<close>), which checks input
  and grants again.

  \<^bold>\<open>Theories.\<close>
  \<^item> \<^verbatim>\<open>Base\<close>: the prelude. Machine arithmetic, \<open>BTreeMap\<close> and \<open>BTreeSet\<close> as sorted lists, results and
    effectful computations with their rules, trimming.
  \<^item> \<^verbatim>\<open>Domain\<close>, \<^verbatim>\<open>Json\<close>: identifiers, principals, resource references, digests; JSON values.
  \<^item> \<^verbatim>\<open>Capability\<close>: \<^verbatim>\<open>capability.rs\<close>, the locale \<open>narrowing\<close> with its interpretation by scopes.
  \<^item> \<^verbatim>\<open>Operation\<close>: \<^verbatim>\<open>operation.rs\<close>.
  \<^item> \<^verbatim>\<open>Policy\<close>, \<^verbatim>\<open>Policy_Safety\<close>, \<^verbatim>\<open>Policy_Properties\<close>: \<^verbatim>\<open>policy.rs\<close>, what its decisions rest on, and
    the properties of capabilities, operations and policy.
  \<^item> \<^verbatim>\<open>Events\<close>: \<^verbatim>\<open>event.rs\<close>. The locale \<open>event_log\<close> is the \<open>EventStore\<close> trait with its laws,
    interpreted by the in-memory store; the locale \<open>projection\<close> is a view kept by paging through a
    stream. The \<open>world\<close> holds the store, the identifiers still to be drawn, the clock, and what
    rivals append before each append of ours.
  \<^item> \<^verbatim>\<open>Task_Types\<close>, \<^verbatim>\<open>Task_Replay\<close>, \<^verbatim>\<open>Task_Replay_Laws\<close>: the data of \<^verbatim>\<open>orchestration.rs\<close>, the graph
    with one function per \<open>replay_*\<close> method, and what a replay leaves alone.
  \<^item> \<^verbatim>\<open>Task_Commit\<close>: \<open>commit\<close>, \<open>commit_if\<close>, \<open>catch_up\<close>, \<open>reconcile_blocked\<close>; the reconciliation loop
    terminates because a task is visited once and the tasks are those the graph, the store and the
    rivals name.
  \<^item> \<^verbatim>\<open>Task_Commands\<close>: the commands. \<open><command>_build\<close> is the closure a command hands to \<open>commit\<close>.
  \<^item> \<^verbatim>\<open>Task_Linear\<close>: commits under rivals are linearizable (\<open>commit_if_linear\<close>); the task graph
    interprets \<open>projection\<close>.
  \<^item> \<^verbatim>\<open>Task_Cycles\<close>: the search for cycles is exact.
  \<^item> \<^verbatim>\<open>Task_Spec\<close>: \<open>admits\<close>, the contract of the stream, and that every command keeps to it.
  \<^item> \<^verbatim>\<open>Task_Invariant\<close>, \<^verbatim>\<open>Task_Budget\<close>, \<^verbatim>\<open>Task_Safety\<close>: the invariants an admitted event preserves.
  \<^item> \<^verbatim>\<open>Task_Session\<close>: the log of a session as any number of holders write it (\<open>session_log\<close>), that it
    is lawful, and that a commit is one of its steps.
  \<^item> \<^verbatim>\<open>Task_Properties\<close>, \<^verbatim>\<open>Task_Races\<close>: the properties of log and graph, and three races.
  \<^item> \<^verbatim>\<open>Task_Supply\<close>, \<^verbatim>\<open>Scheduler\<close>, \<^verbatim>\<open>Scheduler_Laws\<close>, \<^verbatim>\<open>Scheduler_Properties\<close>: \<^verbatim>\<open>scheduler.rs\<close>, admission
    under limits and the retry policy over the task graph.
  \<^item> \<^verbatim>\<open>Folds\<close>: the locale \<open>log_fold\<close>, a view that every event changes and none refuses, interpreted by the
    checklist and by the validation log.
  \<^item> \<^verbatim>\<open>Todo\<close>, \<^verbatim>\<open>Todo_Laws\<close>, \<^verbatim>\<open>Todo_Properties\<close>: \<^verbatim>\<open>todo.rs\<close>, the checklist of a session.
  \<^item> \<^verbatim>\<open>Record_Types\<close>, \<^verbatim>\<open>Validation\<close>, \<^verbatim>\<open>Proof\<close>, \<^verbatim>\<open>Proof_Properties\<close>: \<^verbatim>\<open>validation.rs\<close> and \<^verbatim>\<open>proof.rs\<close>, the checks a
    session recorded and what may be called verified on their strength.
  \<^item> \<^verbatim>\<open>Utf8\<close>, \<^verbatim>\<open>Decimal\<close>: what the components above use of strings and numbers.
  \<^item> \<^verbatim>\<open>Secret\<close>, \<^verbatim>\<open>Secret_Properties\<close>: \<^verbatim>\<open>secret.rs\<close>, handles, broker and redactor.
  \<^item> \<^verbatim>\<open>Memory\<close>, \<^verbatim>\<open>Memory_Laws\<close>, \<^verbatim>\<open>Memory_Properties\<close>: \<^verbatim>\<open>memory.rs\<close>, the index of claims and its store.
  \<^item> \<^verbatim>\<open>Context\<close>, \<^verbatim>\<open>Context_Laws\<close>, \<^verbatim>\<open>Context_Properties\<close>: \<^verbatim>\<open>context.rs\<close>, fragments, compaction summaries and the
    selection of a view; the selection loop terminates because each pass decides a fragment.
  \<^item> \<^verbatim>\<open>Strings\<close>, \<^verbatim>\<open>Safety\<close>, \<^verbatim>\<open>Effort\<close>, \<^verbatim>\<open>Routing\<close>, \<^verbatim>\<open>Choice_Properties\<close>: \<^verbatim>\<open>safety.rs\<close>, \<^verbatim>\<open>effort.rs\<close>,
    \<^verbatim>\<open>model_profile.rs\<close> and \<^verbatim>\<open>routing.rs\<close>, what a call, a role and a model are allowed and chosen by.

  \<^item> \<^verbatim>\<open>Edit\<close>, \<^verbatim>\<open>Edit_Laws\<close>, \<^verbatim>\<open>Edit_Properties\<close>: \<^verbatim>\<open>crates/arsy-code/src/edit.rs\<close>, edit transactions over a disk
    any of whose calls may fail; the locale \<open>disk_frame\<close> is what a computation keeps of the disk, interpreted for
    reading and for staging.
  \<^item> \<^verbatim>\<open>Patch\<close>, \<^verbatim>\<open>Patch_Properties\<close>: \<^verbatim>\<open>crates/arsy-code/src/agent/patch.rs\<close>, the patch dialect: its parser,
    matching of hunks, and application to a workspace.
  \<^item> \<^verbatim>\<open>Command_Risk\<close>, \<^verbatim>\<open>Command_Risk_Properties\<close>: \<^verbatim>\<open>crates/arsy-code/src/agent/command_risk.rs\<close>, the
    classifier of shell commands; it terminates because it is called again only on a part of the line it read.
  \<^item> \<^verbatim>\<open>Loop_Guard\<close>: \<^verbatim>\<open>crates/arsy-cli/src/loop_guard.rs\<close>, the guard against a model that repeats failing calls.
  \<^item> \<^verbatim>\<open>Transcript_Budget\<close>, \<^verbatim>\<open>Transcript_Laws\<close>, \<^verbatim>\<open>Transcript_Properties\<close>,
    \<^verbatim>\<open>Transcript_Limits\<close>: \<^verbatim>\<open>crates/arsy-code/src/agent/budget.rs\<close>, fitting a conversation into a token
    budget. It hands the results of old calls to \<open>select_view\<close> of \<^verbatim>\<open>Context\<close>;
    what stays whole is argued from what a view holds.

  \<^bold>\<open>Bounds.\<close> Unsigned 64-bit values are naturals with \<open>u64_max\<close> written out. A commit makes at most
  three tries (\<open>COMMIT_ATTEMPTS\<close>); no fuel is used anywhere.

  \<^bold>\<open>Outside code.\<close> The glob matcher, serde's encodings, SHA-256, the parser of JSON texts and the
  drawing of identifiers are parameters. \<open>escape_is_literal\<close> is what the \<open>globset\<close> crate documents
  of its \<open>escape\<close>; that a drawn identifier is fresh is a premise of the commands that draw one.

  \<^bold>\<open>Not modelled.\<close> Terminal interface, providers, processes, sandboxes, language servers, SQLite and
  configuration: I/O around external programs and services.
\<close>

end
